(* ===== verification/Prelude.thy ===== *)
theory Prelude
  imports Main "HOL-Library.Word" "HOL-Library.Monad_Syntax" "HOL-Library.Code_Target_Nat"
begin

text \<open>
  Shared vocabulary of the development: how a Rust computation that may fail is represented,
  the fact collections the component theories feed, and the generic lemmas on lists and options
  they share.

  \<^item> A computation that can only panic (an \<open>unwrap\<close>, an \<open>expect\<close>, an \<open>assert!\<close>, an
    index out of range, a checked operator of \<open>std::time\<close>) has type \<open>'a option\<close>; \<open>None\<close> is
    the panic. Such computations are composed with the \<open>do\<close> notation of the option monad.
  \<^item> A method that can also return \<open>Err\<close> while keeping the mutations made so far has type
    \<open>('s, 'e, 'a) meth\<close>; \<open>and_then\<close> is Rust's question mark operator.
\<close>

named_theorems panic_free \<open>facts of the form: under this invariant the operation does not panic\<close>
named_theorems inv_intros \<open>every operation keeps the invariant of its component\<close>

section \<open>Types of the program\<close>

type_synonym u8 = "8 word"
type_synonym u16 = "16 word"
type_synonym u32 = "32 word"
type_synonym u64 = "64 word"
type_synonym bytes = "u8 list"

section \<open>Panics\<close>

definition rust_assert :: "bool \<Rightarrow> unit option" where
  "rust_assert b = (if b then Some () else None)"

lemma rust_assert_simps [simp]:
  "rust_assert True = Some ()"
  "rust_assert False = None"
  by (simp_all add: rust_assert_def)

lemma rust_assert_eq_Some [simp]: "rust_assert b = Some u \<longleftrightarrow> b"
  by (simp add: rust_assert_def)

text \<open>Indexing: \<open>xs[i]\<close> panics out of range.\<close>

definition index :: "'a list \<Rightarrow> nat \<Rightarrow> 'a option" where
  "index xs i = (if i < length xs then Some (xs ! i) else None)"

lemma index_in [simp]: "i < length xs \<Longrightarrow> index xs i = Some (xs ! i)"
  by (simp add: index_def)

lemma index_eq_Some: "index xs i = Some x \<longleftrightarrow> i < length xs \<and> x = xs ! i"
  by (auto simp: index_def)

text \<open>
  \<open>iter().map(f).collect()\<close> with a body that may panic: the first panic wins.
\<close>

fun mapO :: "('a \<Rightarrow> 'b option) \<Rightarrow> 'a list \<Rightarrow> 'b list option" where
  "mapO f [] = Some []"
| "mapO f (x # xs) = do { y \<leftarrow> f x; ys \<leftarrow> mapO f xs; Some (y # ys) }"

lemma mapO_Some_map:
  "(\<And>x. x \<in> set xs \<Longrightarrow> f x = Some (g x)) \<Longrightarrow> mapO f xs = Some (map g xs)"
  by (induction xs) auto

lemma mapO_length: "mapO f xs = Some ys \<Longrightarrow> length ys = length xs"
  by (induction xs arbitrary: ys) (auto simp: bind_eq_Some_conv)

lemma mapO_total:
  "(\<And>x. x \<in> set xs \<Longrightarrow> \<exists>y. f x = Some y \<and> P y) \<Longrightarrow> \<exists>ys. mapO f xs = Some ys \<and> (\<forall>y \<in> set ys. P y)"
proof (induction xs)
  case (Cons x xs)
  from Cons.prems [of x] obtain y where "f x = Some y" "P y" by auto
  moreover from Cons.IH Cons.prems obtain ys where "mapO f xs = Some ys" "\<forall>y \<in> set ys. P y" by auto
  ultimately show ?case by auto
qed simp

lemma mapO_set: "mapO f xs = Some ys \<Longrightarrow> set ys = {y. \<exists>x \<in> set xs. f x = Some y}"
  by (induction xs arbitrary: ys) (auto simp: bind_eq_Some_conv)

text \<open>A \<open>for\<close> loop over a list whose body updates a state and may panic.\<close>

fun foldO :: "('a \<Rightarrow> 's \<Rightarrow> 's option) \<Rightarrow> 'a list \<Rightarrow> 's \<Rightarrow> 's option" where
  "foldO f [] s = Some s"
| "foldO f (x # xs) s = do { s' \<leftarrow> f x s; foldO f xs s' }"

lemma foldO_append [simp]:
  "foldO f (xs @ ys) s = do { s' \<leftarrow> foldO f xs s; foldO f ys s' }"
proof (induction xs arbitrary: s)
  case (Cons x xs)
  then show ?case by (cases "f x s") simp_all
qed simp

lemma foldO_invariant:
  assumes "foldO f xs s = Some s'" and "P s"
    and "\<And>x s s'. x \<in> set xs \<Longrightarrow> P s \<Longrightarrow> f x s = Some s' \<Longrightarrow> P s'"
  shows "P s'"
  using assms by (induction xs arbitrary: s) (auto simp: bind_eq_Some_conv)

lemma foldO_total:
  assumes "P s" and "\<And>x s. x \<in> set xs \<Longrightarrow> P s \<Longrightarrow> \<exists>s'. f x s = Some s' \<and> P s'"
  shows "\<exists>s'. foldO f xs s = Some s' \<and> P s'"
  using assms
proof (induction xs arbitrary: s)
  case (Cons x xs)
  from Cons.prems obtain s' where "f x s = Some s'" and "P s'" by fastforce
  moreover from this Cons.IH [of s'] Cons.prems(2) have "\<exists>s''. foldO f xs s' = Some s'' \<and> P s''"
    by simp
  ultimately show ?case by auto
qed simp

section \<open>Methods that may return an error or panic\<close>

datatype ('e, 'a) outcome = Ok 'a | Err 'e | Panic

type_synonym ('s, 'e, 'a) meth = "'s \<Rightarrow> ('e, 'a) outcome \<times> 's"

definition ret :: "'a \<Rightarrow> ('s, 'e, 'a) meth" where
  "ret x = (\<lambda>s. (Ok x, s))"

definition fail :: "'e \<Rightarrow> ('s, 'e, 'a) meth" where
  "fail e = (\<lambda>s. (Err e, s))"

definition panic :: "('s, 'e, 'a) meth" where
  "panic = (\<lambda>s. (Panic, s))"

definition and_then :: "('s, 'e, 'a) meth \<Rightarrow> ('a \<Rightarrow> ('s, 'e, 'b) meth) \<Rightarrow> ('s, 'e, 'b) meth" where
  "and_then m k = (\<lambda>s. case m s of
       (Ok x, s') \<Rightarrow> k x s'
     | (Err e, s') \<Rightarrow> (Err e, s')
     | (Panic, s') \<Rightarrow> (Panic, s'))"

definition gets :: "('s \<Rightarrow> 'a) \<Rightarrow> ('s, 'e, 'a) meth" where
  "gets f = (\<lambda>s. (Ok (f s), s))"

text \<open>The \<open>From\<close> conversion the question mark applies to the error.\<close>

definition map_err :: "('e \<Rightarrow> 'f) \<Rightarrow> ('s, 'e, 'a) meth \<Rightarrow> ('s, 'f, 'a) meth" where
  "map_err f m = (\<lambda>s. case m s of
       (Ok x, s') \<Rightarrow> (Ok x, s')
     | (Err e, s') \<Rightarrow> (Err (f e), s')
     | (Panic, s') \<Rightarrow> (Panic, s'))"

lemmas method_defs = ret_def fail_def panic_def gets_def

lemma and_then_apply [simp]:
  "m s = (Ok x, s') \<Longrightarrow> and_then m k s = k x s'"
  "m s = (Err e, s') \<Longrightarrow> and_then m k s = (Err e, s')"
  "m s = (Panic, s') \<Longrightarrow> and_then m k s = (Panic, s')"
  by (simp_all add: and_then_def)

lemma and_then_OkE:
  assumes "and_then m k s = (Ok y, s'')"
  obtains x s' where "m s = (Ok x, s')" and "k x s' = (Ok y, s'')"
  using assms by (auto simp: and_then_def split: prod.splits outcome.splits)

lemma and_then_ret [simp]: "and_then (ret x) k = k x"
  by (rule ext) (simp add: and_then_def ret_def)

lemma and_then_assoc: "and_then (and_then m k) l = and_then m (\<lambda>x. and_then (k x) l)"
  by (rule ext) (simp add: and_then_def split: prod.splits outcome.splits)

lemma map_err_Ok [simp]: "map_err f m s = (Ok x, s') \<longleftrightarrow> m s = (Ok x, s')"
  by (auto simp: map_err_def split: prod.splits outcome.splits)

text \<open>A method that panics in no state.\<close>

definition no_panic :: "('s, 'e, 'a) meth \<Rightarrow> bool" where
  "no_panic m \<longleftrightarrow> (\<forall>s. fst (m s) \<noteq> Panic)"

lemma no_panic_and_then: "no_panic m \<Longrightarrow> (\<And>x. no_panic (k x)) \<Longrightarrow> no_panic (and_then m k)"
  unfolding no_panic_def and_then_def by (auto split: prod.splits outcome.splits) (metis fst_conv)+

lemma no_panic_basic: "no_panic (ret x)" "no_panic (fail e)" "no_panic (gets f)"
  by (simp_all add: no_panic_def ret_def fail_def gets_def)

lemma no_panic_if: "no_panic m \<Longrightarrow> no_panic m' \<Longrightarrow> no_panic (if c then m else m')"
  by simp

lemma and_then_panics:
  "fst (and_then m k s) = Panic \<longleftrightarrow>
     fst (m s) = Panic \<or> (\<exists>x s'. m s = (Ok x, s') \<and> fst (k x s') = Panic)"
  by (cases "m s"; cases "fst (m s)") (auto simp: and_then_def)

section \<open>Lists\<close>

lemma upt_eq_append_conv:
  assumes "[i..<j] = xs @ ys"
  shows "xs = [i..<i + length xs]" and "ys = [i + length xs..<j]"
proof -
  have len: "length xs + length ys = j - i"
    using arg_cong [OF assms, of length] by simp
  have "xs = take (length xs) [i..<j]" by (simp add: assms)
  then show "xs = [i..<i + length xs]"
    using len by (cases "i \<le> j") (simp_all add: take_upt)
  have "ys = drop (length xs) [i..<j]" by (simp add: assms)
  then show "ys = [i + length xs..<j]" by (simp add: drop_upt)
qed

lemma append_same_length:
  "xs @ ys = us @ vs \<Longrightarrow> length xs = length us \<Longrightarrow> xs = us \<and> ys = vs"
  by simp

end
