(* ===== verification/Rust_Float.thy ===== *)
theory Rust_Float
  imports Prelude Complex_Main "HOL-Library.Log_Nat"
begin

text \<open>
  The \<open>f64\<close> and \<open>f32\<close> of Rust: IEEE-754 binary64 and binary32 with rounding to nearest, ties to
  even. A finite value is the rational number it denotes, every arithmetic operation computes the
  exact rational result and rounds it once, and a result beyond the format's range is an
  infinity. The two zeros are one value: the program never divides by a negative zero (its
  divisors are packet counters and \<open>as_secs_f64\<close> of durations), so the sign of a zero is not
  observable in it.

  The lemmas show what the components rely on: rounding is monotone, keeps the sign and is exact
  on the integers a format can hold.
\<close>

section \<open>Rounding\<close>

text \<open>
  Round to the nearest integer, ties to even. Intermediate values are passed to auxiliary
  functions rather than bound by \<open>let\<close>, so that the simplifier evaluates each of them once.
\<close>

definition rne_at :: "rat \<Rightarrow> int \<Rightarrow> int" where
  "rne_at r f = (if r < 1/2 then f else if r > 1/2 then f + 1 else if even f then f else f + 1)"

definition rne :: "rat \<Rightarrow> int" where
  "rne x = rne_at (x - of_int \<lfloor>x\<rfloor>) \<lfloor>x\<rfloor>"

text \<open>\<open>\<lfloor>log\<^sub>2 x\<rfloor>\<close> of a positive rational.\<close>

definition ilog2_at :: "rat \<Rightarrow> int \<Rightarrow> int" where
  "ilog2_at x k = (if 2 powi k \<le> x then k else k - 1)"

definition ilog2 :: "rat \<Rightarrow> int" where
  "ilog2 x = ilog2_at x (bitlen (fst (quotient_of x)) - bitlen (snd (quotient_of x)))"

text \<open>
  Round to \<open>p\<close> significant bits; \<open>emin\<close> is the exponent of the least subnormal, below which the
  spacing of the format does not shrink any more.
\<close>

definition rnd_at :: "rat \<Rightarrow> rat \<Rightarrow> rat" where
  "rnd_at x u = of_int (rne (x / u)) * u"

definition rnd :: "int \<Rightarrow> int \<Rightarrow> rat \<Rightarrow> rat" where
  "rnd p emin x = (if x = 0 then 0 else rnd_at x (2 powi max emin (ilog2 \<bar>x\<bar> + 1 - p)))"

text \<open>Integer arithmetic for the evaluation of \<open>rne\<close>.\<close>

definition rne_div :: "int \<Rightarrow> int \<Rightarrow> int \<Rightarrow> int" where
  "rne_div f r b = (if r < b then f else if r > b then f + 1 else if even f then f else f + 1)"

fun rne_frac :: "int \<times> int \<Rightarrow> int" where
  "rne_frac (a, b) = rne_div (a div b) (2 * (a mod b)) b"

lemma rne_code [code]: "rne x = rne_frac (quotient_of x)"
proof -
  obtain a b where q: "quotient_of x = (a, b)" by fastforce
  have x: "x = of_int a / of_int b" and b: "0 < b"
    using quotient_of_div [OF q] quotient_of_denom_pos [OF q] by simp_all
  have f: "\<lfloor>x\<rfloor> = a div b" by (simp add: x floor_divide_of_int_eq)
  have "(of_int a :: rat) = of_int (b * (a div b) + a mod b)" by simp
  then have "x - of_int \<lfloor>x\<rfloor> = of_int (a mod b) / of_int b"
    using b unfolding f unfolding x by (simp only: of_int_add of_int_mult) (simp add: field_simps)
  moreover have "of_int r / (of_int b :: rat) < 1/2 \<longleftrightarrow> 2 * r < b" for r
    using b of_int_less_iff [of "2 * r" b, where 'a = rat] by (simp add: pos_divide_less_eq) linarith
  moreover have "1/2 < of_int r / (of_int b :: rat) \<longleftrightarrow> b < 2 * r" for r
    using b of_int_less_iff [of b "2 * r", where 'a = rat] by (simp add: pos_less_divide_eq) linarith
  ultimately show ?thesis
    by (simp add: q rne_def rne_at_def rne_div_def f)
qed

section \<open>Values and operations\<close>

datatype f64 = NaN | PInf | NInf | Fin rat

text \<open>A magnitude of \<open>2 ^ 1024\<close> or more is out of range.\<close>

definition f64_of_rounded :: "rat \<Rightarrow> f64" where
  "f64_of_rounded y =
     (if y \<noteq> 0 \<and> 1024 \<le> ilog2 \<bar>y\<bar> then (if 0 < y then PInf else NInf) else Fin y)"

definition fl64 :: "rat \<Rightarrow> f64" where
  "fl64 x = f64_of_rounded (rnd 53 (- 1074) x)"

fun f64_neg :: "f64 \<Rightarrow> f64" where
  "f64_neg NaN = NaN"
| "f64_neg PInf = NInf"
| "f64_neg NInf = PInf"
| "f64_neg (Fin x) = Fin (- x)"

fun f64_abs :: "f64 \<Rightarrow> f64" where
  "f64_abs NaN = NaN"
| "f64_abs PInf = PInf"
| "f64_abs NInf = PInf"
| "f64_abs (Fin x) = Fin \<bar>x\<bar>"

fun f64_add :: "f64 \<Rightarrow> f64 \<Rightarrow> f64" where
  "f64_add (Fin x) (Fin y) = fl64 (x + y)"
| "f64_add NaN _ = NaN"
| "f64_add _ NaN = NaN"
| "f64_add PInf NInf = NaN"
| "f64_add NInf PInf = NaN"
| "f64_add PInf _ = PInf"
| "f64_add _ PInf = PInf"
| "f64_add NInf _ = NInf"
| "f64_add _ NInf = NInf"

definition f64_sub :: "f64 \<Rightarrow> f64 \<Rightarrow> f64" where
  "f64_sub x y = f64_add x (f64_neg y)"

text \<open>The sign of a value, \<open>0\<close> for zero; it decides products and quotients with infinities.\<close>

fun f64_sgn :: "f64 \<Rightarrow> rat" where
  "f64_sgn NaN = 0"
| "f64_sgn PInf = 1"
| "f64_sgn NInf = - 1"
| "f64_sgn (Fin x) = sgn x"

definition inf_of_sign :: "rat \<Rightarrow> f64" where
  "inf_of_sign s = (if s > 0 then PInf else if s < 0 then NInf else NaN)"

fun f64_mul :: "f64 \<Rightarrow> f64 \<Rightarrow> f64" where
  "f64_mul (Fin x) (Fin y) = fl64 (x * y)"
| "f64_mul NaN _ = NaN"
| "f64_mul _ NaN = NaN"
| "f64_mul x y = inf_of_sign (f64_sgn x * f64_sgn y)"

text \<open>
  A finite value divided by zero is an infinity with the dividend's sign (the zero is positive),
  zero by zero is NaN; a finite value by an infinity is zero.
\<close>

fun f64_div :: "f64 \<Rightarrow> f64 \<Rightarrow> f64" where
  "f64_div (Fin x) (Fin y) = (if y = 0 then inf_of_sign (sgn x) else fl64 (x / y))"
| "f64_div NaN _ = NaN"
| "f64_div _ NaN = NaN"
| "f64_div (Fin _) _ = Fin 0"
| "f64_div PInf (Fin y) = (if y < 0 then NInf else PInf)"
| "f64_div NInf (Fin y) = (if y < 0 then PInf else NInf)"
| "f64_div _ _ = NaN"

text \<open>Every comparison with a NaN is false.\<close>

fun f64_le :: "f64 \<Rightarrow> f64 \<Rightarrow> bool" where
  "f64_le NaN _ = False"
| "f64_le _ NaN = False"
| "f64_le (Fin x) (Fin y) = (x \<le> y)"
| "f64_le NInf _ = True"
| "f64_le _ PInf = True"
| "f64_le PInf _ = False"
| "f64_le _ NInf = False"

fun f64_lt :: "f64 \<Rightarrow> f64 \<Rightarrow> bool" where
  "f64_lt NaN _ = False"
| "f64_lt _ NaN = False"
| "f64_lt (Fin x) (Fin y) = (x < y)"
| "f64_lt _ NInf = False"
| "f64_lt NInf _ = True"
| "f64_lt PInf _ = False"
| "f64_lt _ PInf = True"

text \<open>\<open>f64::min\<close> and \<open>f64::max\<close> ignore a NaN argument.\<close>

definition f64_min :: "f64 \<Rightarrow> f64 \<Rightarrow> f64" where
  "f64_min x y = (if x = NaN then y else if y = NaN then x else if f64_le x y then x else y)"

definition f64_max :: "f64 \<Rightarrow> f64 \<Rightarrow> f64" where
  "f64_max x y = (if x = NaN then y else if y = NaN then x else if f64_le x y then y else x)"

text \<open>\<open>n as f64\<close> and the saturating \<open>x as u64\<close>.\<close>

definition f64_of_nat :: "nat \<Rightarrow> f64" where
  "f64_of_nat n = fl64 (of_nat n)"

fun f64_to_u64 :: "f64 \<Rightarrow> nat" where
  "f64_to_u64 NaN = 0"
| "f64_to_u64 NInf = 0"
| "f64_to_u64 PInf = 2 ^ 64 - 1"
| "f64_to_u64 (Fin x) = min (nat \<lfloor>x\<rfloor>) (2 ^ 64 - 1)"

text \<open>
  \<open>f32\<close> occurs only inside \<open>Duration::div_f32\<close>, on non-negative values; an overflow is
  \<open>None\<close>, and so is the quotient by zero.
\<close>

definition f32_of_rounded :: "rat \<Rightarrow> rat option" where
  "f32_of_rounded y = (if y \<noteq> 0 \<and> 128 \<le> ilog2 \<bar>y\<bar> then None else Some y)"

definition fl32 :: "rat \<Rightarrow> rat option" where
  "fl32 x = f32_of_rounded (rnd 24 (- 149) x)"

section \<open>Rounding is monotone and exact on integers\<close>

lemma rne_bounds: "\<lfloor>x\<rfloor> \<le> rne x" "rne x \<le> \<lceil>x\<rceil>"
proof -
  show "\<lfloor>x\<rfloor> \<le> rne x" by (simp add: rne_def rne_at_def)
  show "rne x \<le> \<lceil>x\<rceil>"
  proof (cases "x = of_int \<lfloor>x\<rfloor>")
    case True
    then have "rne x = \<lfloor>x\<rfloor>" by (simp add: rne_def rne_at_def)
    then show ?thesis by (simp add: floor_le_ceiling)
  next
    case False
    then have "\<lceil>x\<rceil> = \<lfloor>x\<rfloor> + 1"
      by (metis ceiling_altdef)
    then show ?thesis by (simp add: rne_def rne_at_def)
  qed
qed

lemma rne_of_int [simp]: "rne (of_int k) = k"
  by (simp add: rne_def rne_at_def)

lemma rne_mono: "x \<le> y \<Longrightarrow> rne x \<le> rne y"
proof -
  assume le: "x \<le> y"
  then have fl: "\<lfloor>x\<rfloor> \<le> \<lfloor>y\<rfloor>" by (rule floor_mono)
  show "rne x \<le> rne y"
  proof (cases "\<lfloor>x\<rfloor> = \<lfloor>y\<rfloor>")
    case True
    with le show ?thesis by (auto simp: rne_def rne_at_def)
  next
    case False
    with fl have "\<lfloor>x\<rfloor> + 1 \<le> \<lfloor>y\<rfloor>" by simp
    moreover have "rne x \<le> \<lfloor>x\<rfloor> + 1" by (simp add: rne_def rne_at_def)
    ultimately show ?thesis using rne_bounds(1) [of y] by linarith
  qed
qed

lemma rne_uminus: "rne (- x) = - rne x"
proof (cases "x = of_int \<lfloor>x\<rfloor>")
  case True
  then have "rne (- x) = rne (of_int (- \<lfloor>x\<rfloor>))" and "rne x = rne (of_int \<lfloor>x\<rfloor>)" by simp_all
  then show ?thesis by (simp only: rne_of_int)
next
  case False
  then have "\<lceil>x\<rceil> = \<lfloor>x\<rfloor> + 1" by (metis ceiling_altdef)
  then have f: "\<lfloor>- x\<rfloor> = - \<lfloor>x\<rfloor> - 1" by (simp add: floor_minus)
  have "x - of_int \<lfloor>x\<rfloor> \<noteq> 0" using False by simp
  with f show ?thesis by (auto simp: rne_def rne_at_def)
qed

lemma rne_nonneg: "0 \<le> x \<Longrightarrow> 0 \<le> rne x"
  using rne_mono [of 0 x] rne_of_int [of 0] by simp


lemma bitlen_powi:
  assumes "0 < a"
  shows "2 powi (bitlen a - 1) \<le> (of_int a :: rat)" and "of_int a < (2 powi bitlen a :: rat)"
proof -
  from bitlen_bounds [OF assms] have b: "2 ^ nat (bitlen a - 1) \<le> a" "a < 2 ^ nat (bitlen a)"
    by auto
  have pos: "1 \<le> bitlen a"
    using assms bitlen_nonneg [of a] bitlen_eq_zero_iff [of a] by linarith
  from b(1) have "(of_int (2 ^ nat (bitlen a - 1)) :: rat) \<le> of_int a"
    by (simp only: of_int_le_iff)
  then show "2 powi (bitlen a - 1) \<le> (of_int a :: rat)"
    using pos by (simp add: power_int_def)
  from b(2) have "(of_int a :: rat) < of_int (2 ^ nat (bitlen a))"
    by (simp only: of_int_less_iff)
  then show "of_int a < (2 powi bitlen a :: rat)"
    using pos by (simp add: power_int_def)
qed

lemma ilog2_bounds:
  assumes "0 < x"
  shows "2 powi ilog2 x \<le> x" and "x < 2 powi (ilog2 x + 1)"
proof -
  obtain a b where q: "quotient_of x = (a, b)" by fastforce
  have x: "x = of_int a / of_int b" and b: "0 < b"
    using quotient_of_div [OF q] quotient_of_denom_pos [OF q] by simp_all
  with assms have a: "0 < a" by (simp add: zero_less_divide_iff)
  let ?k = "bitlen a - bitlen b"
  note ba = bitlen_powi [OF a] and bb = bitlen_powi [OF b]
  have "?k - 1 = (bitlen a - 1) - bitlen b" by simp
  then have "2 powi (?k - 1) = 2 powi (bitlen a - 1) / (2 powi bitlen b :: rat)"
    by (metis power_int_diff zero_neq_numeral)
  also have "\<dots> \<le> of_int a / of_int b"
    using ba(1) bb(2) a b by (intro frac_le) auto
  finally have lo: "2 powi (?k - 1) \<le> x" by (simp add: x)
  have "of_int a / of_int b < 2 powi bitlen a / (2 powi (bitlen b - 1) :: rat)"
    using ba(2) bb(1) a b by (intro frac_less) auto
  also have "\<dots> = 2 powi (?k + 1)"
    by (simp add: algebra_simps flip: power_int_diff)
  finally have hi: "x < 2 powi (?k + 1)" by (simp add: x)
  show "2 powi ilog2 x \<le> x" and "x < 2 powi (ilog2 x + 1)"
    using lo hi by (auto simp: ilog2_def ilog2_at_def q)
qed

lemma powi_less_iff: "(2::rat) powi i < 2 powi j \<longleftrightarrow> i < j"
  using power_int_strict_increasing [of i j "2::rat"] power_int_increasing [of j i "2::rat"]
  by force

lemma powi_le_iff: "(2::rat) powi i \<le> 2 powi j \<longleftrightarrow> i \<le> j"
  using powi_less_iff [of j i] by (simp flip: not_less)

lemma ilog2_unique:
  assumes "0 < x" and "2 powi k \<le> x" and "x < 2 powi (k + 1)"
  shows "ilog2 x = k"
proof -
  from assms ilog2_bounds [OF assms(1)] have "2 powi k < (2 powi (ilog2 x + 1) :: rat)"
    and "2 powi ilog2 x < (2 powi (k + 1) :: rat)" by linarith+
  then show ?thesis by (simp add: powi_less_iff)
qed

lemma ilog2_mono: "0 < x \<Longrightarrow> x \<le> y \<Longrightarrow> ilog2 x \<le> ilog2 y"
proof -
  assume "0 < x" and "x \<le> y"
  then have "2 powi ilog2 x < (2 powi (ilog2 y + 1) :: rat)"
    using ilog2_bounds(1) [of x] ilog2_bounds(2) [of y] by linarith
  then show ?thesis by (simp add: powi_less_iff)
qed

lemma powi_multiple:
  assumes "e \<le> l"
  shows "(2::rat) powi l = of_int (2 ^ nat (l - e)) * 2 powi e"
proof -
  have "(2::rat) powi l = 2 powi (l - e) * 2 powi e"
    by (simp flip: power_int_add)
  then show ?thesis using assms by (simp add: power_int_def)
qed


lemma rnd_zero [simp]: "rnd p emin 0 = 0"
  by (simp add: rnd_def)

lemma rnd_uminus: "rnd p emin (- x) = - rnd p emin x"
proof (cases "x = 0")
  case False
  have "(- x) / 2 powi e = - (x / 2 powi e)" for e by simp
  with False show ?thesis by (simp add: rnd_def rnd_at_def rne_uminus)
qed simp

lemma rnd_nonneg: "0 \<le> x \<Longrightarrow> 0 \<le> rnd p emin x"
  by (simp add: rnd_def rnd_at_def rne_nonneg)

text \<open>A value that fits the significand and the exponent range is a fixed point.\<close>

lemma rnd_exact:
  assumes "x = of_int m * 2 powi e" and "\<bar>m\<bar> < 2 ^ nat p" and "0 \<le> p" and "emin \<le> e"
  shows "rnd p emin x = x"
proof (cases "x = 0")
  case False
  define E where "E = max emin (ilog2 \<bar>x\<bar> + 1 - p)"
  have pos: "0 < \<bar>x\<bar>" using False by simp
  have "\<bar>x\<bar> = of_int \<bar>m\<bar> * 2 powi e" using assms(1) by (simp add: abs_mult power_int_abs)
  moreover from assms(2) have "(of_int \<bar>m\<bar> :: rat) < of_int (2 ^ nat p)" by (simp only: of_int_less_iff)
  ultimately have "\<bar>x\<bar> < 2 powi p * 2 powi e" using assms(3) by (simp add: power_int_def)
  then have "2 powi ilog2 \<bar>x\<bar> < (2 powi (p + e) :: rat)"
    using ilog2_bounds(1) [OF pos] by (simp add: power_int_add)
  then have "E \<le> e" using assms(4) by (simp add: powi_less_iff E_def)
  then have "x / 2 powi E = of_int (m * 2 ^ nat (e - E))"
    using powi_multiple [of E e] assms(1) by simp
  then have "rnd p emin x = of_int (m * 2 ^ nat (e - E)) * 2 powi E"
    using False by (simp only: rnd_def rnd_at_def E_def [symmetric] rne_of_int) simp
  also have "\<dots> = x" using powi_multiple [OF \<open>E \<le> e\<close>] assms(1) by simp
  finally show ?thesis .
qed simp

lemma rnd_of_int:
  assumes "\<bar>k\<bar> < 2 ^ nat p" and "0 \<le> p" and "emin \<le> 0"
  shows "rnd p emin (of_int k) = of_int k"
  by (rule rnd_exact [where m = k and e = 0]) (use assms in auto)

lemma rnd_mono_pos:
  assumes "0 < x" and "x \<le> y" and "1 \<le> p"
  shows "rnd p emin x \<le> rnd p emin y"
proof -
  define ex ey where "ex = max emin (ilog2 x + 1 - p)" and "ey = max emin (ilog2 y + 1 - p)"
  have rx: "rnd p emin x = of_int (rne (x / 2 powi ex)) * 2 powi ex"
    and ry: "rnd p emin y = of_int (rne (y / 2 powi ey)) * 2 powi ey"
    using assms by (auto simp: rnd_def rnd_at_def ex_def ey_def)
  have le: "ilog2 x \<le> ilog2 y" using assms(1,2) by (rule ilog2_mono)
  show ?thesis
  proof (cases "ex = ey")
    case True
    have "rne (x / 2 powi ex) \<le> rne (y / 2 powi ex)"
      using assms(2) by (intro rne_mono divide_right_mono) auto
    with True show ?thesis by (simp add: rx ry mult_right_mono)
  next
    case False
    let ?l = "ilog2 y"
    from False le have lt: "ilog2 x < ?l" and ey: "ey = ?l + 1 - p" and "ex \<le> ?l"
      using assms(3) by (auto simp: ex_def ey_def max_def split: if_splits)
    have "x \<le> 2 powi ?l"
      using ilog2_bounds(2) [OF assms(1)] lt powi_le_iff [of "ilog2 x + 1" ?l] by simp
    then have "x / 2 powi ex \<le> of_int (2 ^ nat (?l - ex))"
      using powi_multiple [OF \<open>ex \<le> ?l\<close>] by (simp add: pos_divide_le_eq)
    from rne_mono [OF this] have "rne (x / 2 powi ex) \<le> 2 ^ nat (?l - ex)"
      by (simp only: rne_of_int)
    then have "(of_int (rne (x / 2 powi ex)) :: rat) \<le> of_int (2 ^ nat (?l - ex))"
      by (simp only: of_int_le_iff)
    then have "rnd p emin x \<le> 2 powi ?l"
      by (simp add: rx powi_multiple [OF \<open>ex \<le> ?l\<close>])
    moreover have "2 powi ?l \<le> rnd p emin y"
    proof -
      have "ey \<le> ?l" using ey assms(3) by simp
      have "2 powi ?l \<le> y" using assms(1,2) by (intro ilog2_bounds(1)) simp
      then have "of_int (2 ^ nat (?l - ey)) \<le> y / 2 powi ey"
        using powi_multiple [OF \<open>ey \<le> ?l\<close>] by (simp add: pos_le_divide_eq)
      from rne_mono [OF this] have "2 ^ nat (?l - ey) \<le> rne (y / 2 powi ey)"
        by (simp only: rne_of_int)
      then have "(of_int (2 ^ nat (?l - ey)) :: rat) \<le> of_int (rne (y / 2 powi ey))"
        by (simp only: of_int_le_iff)
      then show ?thesis by (simp add: ry powi_multiple [OF \<open>ey \<le> ?l\<close>])
    qed
    ultimately show ?thesis by linarith
  qed
qed

lemma rnd_mono:
  assumes "x \<le> y" and "1 \<le> p"
  shows "rnd p emin x \<le> rnd p emin y"
proof (cases "0 < x")
  case True
  with assms show ?thesis by (intro rnd_mono_pos) auto
next
  case nonpos: False
  show ?thesis
  proof (cases "0 \<le> y")
    case True
    have "rnd p emin x \<le> 0"
      using nonpos rnd_nonneg [of "- x" p emin] by (simp add: rnd_uminus)
    with True rnd_nonneg [of y p emin] show ?thesis by linarith
  next
    case False
    have "rnd p emin (- y) \<le> rnd p emin (- x)"
      using False assms by (intro rnd_mono_pos) auto
    then show ?thesis by (simp add: rnd_uminus)
  qed
qed


section \<open>Consequences for the operations\<close>

lemma f64_le_refl [simp]: "f64_le x x \<longleftrightarrow> x \<noteq> NaN"
  by (cases x) auto

lemma f64_le_trans: "f64_le x y \<Longrightarrow> f64_le y z \<Longrightarrow> f64_le x z"
  by (cases x; cases y; cases z) auto

lemma f64_le_antisym: "f64_le x y \<Longrightarrow> f64_le y x \<Longrightarrow> x = y"
  by (cases x; cases y) auto

lemma f64_le_total: "x \<noteq> NaN \<Longrightarrow> y \<noteq> NaN \<Longrightarrow> f64_le x y \<or> f64_le y x"
  by (cases x; cases y) auto

lemma f64_lt_iff: "f64_lt x y \<longleftrightarrow> f64_le x y \<and> \<not> f64_le y x"
  by (cases x; cases y) auto

lemma f64_not_lt: "x \<noteq> NaN \<Longrightarrow> y \<noteq> NaN \<Longrightarrow> \<not> f64_lt x y \<longleftrightarrow> f64_le y x"
  by (cases x; cases y) auto

lemma f64_leD: "f64_le x y \<Longrightarrow> x \<noteq> NaN" "f64_le x y \<Longrightarrow> y \<noteq> NaN"
  by (cases x; cases y; simp)+

lemma f64_le_PInf [simp]: "f64_le x PInf \<longleftrightarrow> x \<noteq> NaN"
  by (cases x) auto

lemma f64_le_NInf [simp]: "f64_le NInf x \<longleftrightarrow> x \<noteq> NaN"
  by (cases x) auto

lemma fl64_neq_NaN [simp]: "fl64 x \<noteq> NaN"
  by (simp add: fl64_def f64_of_rounded_def)

lemma fl64_mono: "x \<le> y \<Longrightarrow> f64_le (fl64 x) (fl64 y)"
proof -
  assume "x \<le> y"
  then have le: "rnd 53 (- 1074) x \<le> rnd 53 (- 1074) y" by (rule rnd_mono) simp
  define a b where "a = rnd 53 (- 1074) x" and "b = rnd 53 (- 1074) y"
  consider "0 < a" | "b < 0" | "a \<le> 0 \<and> 0 \<le> b" by linarith
  then show ?thesis
  proof cases
    case 1
    with le have "ilog2 a \<le> ilog2 b" by (intro ilog2_mono) (auto simp: a_def b_def)
    with 1 le show ?thesis by (auto simp: fl64_def f64_of_rounded_def a_def b_def)
  next
    case 2
    with le have "ilog2 (- b) \<le> ilog2 (- a)" by (intro ilog2_mono) (auto simp: a_def b_def)
    with 2 le show ?thesis by (auto simp: fl64_def f64_of_rounded_def a_def b_def)
  next
    case 3
    with le show ?thesis by (auto simp: fl64_def f64_of_rounded_def a_def b_def)
  qed
qed

lemma fl64_zero [simp]: "fl64 0 = Fin 0"
  by (simp add: fl64_def f64_of_rounded_def)

lemma fl64_nonneg: "0 \<le> x \<Longrightarrow> f64_le (Fin 0) (fl64 x)"
  using fl64_mono [of 0 x] by simp

lemma fl64_of_int: "\<bar>k\<bar> < 2 ^ 53 \<Longrightarrow> fl64 (of_int k) = Fin (of_int k)"
proof (cases "k = 0")
  case False
  assume k: "\<bar>k\<bar> < 2 ^ 53"
  then have r: "rnd 53 (- 1074) (of_int k) = of_int k" by (intro rnd_of_int) auto
  have "(of_int \<bar>k\<bar> :: rat) < of_int (2 ^ 53)" using k by (simp only: of_int_less_iff)
  then have "2 powi ilog2 \<bar>of_int k\<bar> < (2 powi 53 :: rat)"
    using ilog2_bounds(1) [of "\<bar>of_int k\<bar>"] False by simp
  then have "ilog2 \<bar>of_int k\<bar> < 53" by (simp only: powi_less_iff)
  then show ?thesis by (simp add: fl64_def f64_of_rounded_def r)
qed simp

lemma f64_of_nat_exact: "n < 2 ^ 53 \<Longrightarrow> f64_of_nat n = Fin (of_nat n)"
  using fl64_of_int [of "int n"] by (simp add: f64_of_nat_def)

lemma f64_of_nat_mono: "m \<le> n \<Longrightarrow> f64_le (f64_of_nat m) (f64_of_nat n)"
  by (simp add: f64_of_nat_def fl64_mono)

text \<open>Adding a finite value is monotone: the float sum of a longer prefix preserves order.\<close>

lemma f64_add_mono_left: "f64_le x y \<Longrightarrow> f64_le (f64_add x (Fin c)) (f64_add y (Fin c))"
  by (cases x; cases y) (auto simp: fl64_mono)

lemma f64_add_Fin_neq_NaN [simp]: "x \<noteq> NaN \<Longrightarrow> f64_add x (Fin c) \<noteq> NaN"
  by (cases x) auto

lemma fl64_bounded:
  assumes "0 \<le> x" and "x \<le> 2 ^ k" and "k \<le> 1023"
  shows "\<exists>y. fl64 x = Fin y \<and> 0 \<le> y \<and> y \<le> 2 ^ k"
proof -
  let ?y = "rnd 53 (- 1074) x"
  have "rnd 53 (- 1074) (2 ^ k) = 2 ^ k"
    by (rule rnd_exact [where m = 1 and e = "int k"]) simp_all
  then have le: "?y \<le> 2 ^ k" using rnd_mono [OF assms(2), of 53 "- 1074"] by simp
  have nonneg: "0 \<le> ?y" using assms(1) by (rule rnd_nonneg)
  have "ilog2 ?y < 1024" if "?y \<noteq> 0"
  proof -
    from that nonneg have "2 powi ilog2 ?y \<le> ?y" by (intro ilog2_bounds) simp
    also have "\<dots> \<le> 2 ^ k" by (rule le)
    also have "\<dots> = (2::rat) powi int k" by simp
    finally have "ilog2 ?y \<le> int k" by (simp only: powi_le_iff)
    with assms(3) show ?thesis by simp
  qed
  with le nonneg show ?thesis by (auto simp: fl64_def f64_of_rounded_def)
qed

text \<open>A lower bound that is a power of two survives rounding.\<close>

lemma fl64_ge_pow2:
  assumes "2 powi k \<le> x" and "- 1074 \<le> k" and "k \<le> 1023"
  shows "f64_le (Fin (2 powi k)) (fl64 x)"
proof -
  have r: "rnd 53 (- 1074) (2 powi k) = 2 powi k"
    by (rule rnd_exact [where m = 1 and e = k]) (use assms in simp_all)
  have "ilog2 (2 powi k) = k" by (rule ilog2_unique) (simp_all add: powi_less_iff)
  then have "fl64 (2 powi k) = Fin (2 powi k)"
    using assms(3) by (simp add: fl64_def f64_of_rounded_def r)
  with fl64_mono [OF assms(1)] show ?thesis by simp
qed

lemma f64_add_commute: "f64_add x y = f64_add y x"
  by (cases x; cases y) (simp_all add: add.commute)

lemma f64_add_ge_pow2:
  assumes "f64_le (Fin 0) x" and "f64_le (Fin (2 powi k)) y" and "- 1074 \<le> k" and "k \<le> 1023"
  shows "f64_le (Fin (2 powi k)) (f64_add x y)"
  using assms by (cases x; cases y) (auto intro!: fl64_ge_pow2)

lemma fl64_numeral: "fl64 (numeral k) = Fin (numeral k)" if "numeral k < (2 ^ 53 :: int)"
  using fl64_of_int [of "numeral k"] that by simp

lemma fl64_ge_numeral:
  assumes "numeral k \<le> x" and "numeral k < (2 ^ 53 :: int)"
  shows "f64_le (Fin (numeral k)) (fl64 x)"
  using fl64_mono [OF assms(1)] fl64_numeral [OF assms(2)] by simp

lemma fl64_uminus: "fl64 (- x) = f64_neg (fl64 x)"
  by (auto simp: fl64_def f64_of_rounded_def rnd_uminus)

lemma fl64_abs_bounded:
  assumes "\<bar>x\<bar> \<le> 2 ^ k" and "k \<le> 1023"
  shows "\<exists>y. fl64 x = Fin y \<and> \<bar>y\<bar> \<le> 2 ^ k"
proof (cases "0 \<le> x")
  case True
  with fl64_bounded [of x k] assms show ?thesis by auto
next
  case False
  with fl64_bounded [of "- x" k] assms obtain y where "fl64 (- x) = Fin y" "0 \<le> y" "y \<le> 2 ^ k" by auto
  then have "fl64 x = Fin (- y)" using fl64_uminus [of "- x"] by simp
  with \<open>0 \<le> y\<close> \<open>y \<le> 2 ^ k\<close> show ?thesis by simp
qed

text \<open>A bound that is representable survives rounding.\<close>

lemma fl64_le_exact:
  assumes "0 \<le> x" and "x \<le> of_int m * 2 powi e" and "0 \<le> m" and "m < 2 ^ 53" and "- 1074 \<le> e" and "e \<le> 900"
  shows "\<exists>y. fl64 x = Fin y \<and> 0 \<le> y \<and> y \<le> of_int m * 2 powi e"
proof -
  let ?b = "of_int m * 2 powi e :: rat"
  have "rnd 53 (- 1074) ?b = ?b"
    by (rule rnd_exact [OF refl]) (use assms in auto)
  then have le: "rnd 53 (- 1074) x \<le> ?b" using rnd_mono [OF assms(2), of 53 "- 1074"] by simp
  have "(of_int m :: rat) \<le> of_int (2 ^ 53)" using assms(4) by (simp only: of_int_le_iff)
  then have "?b \<le> 2 powi 53 * 2 powi e" by (intro mult_right_mono) auto
  also have "\<dots> = (2::rat) powi (53 + e)" by (simp add: power_int_add)
  also have "\<dots> \<le> 2 powi 1023" using assms(6) by (simp only: powi_le_iff)
  also have "\<dots> = (2::rat) ^ 1023" by simp
  finally have "x \<le> 2 ^ 1023" using assms(2) by (rule order_trans [rotated])
  from fl64_bounded [OF assms(1) this] obtain y where "fl64 x = Fin y" "0 \<le> y" by auto
  moreover from this have "y = rnd 53 (- 1074) x"
    by (auto simp: fl64_def f64_of_rounded_def split: if_splits)
  ultimately show ?thesis using le by auto
qed

end
