(* ===== verification/Rust_Time.thy ===== *)
theory Rust_Time
  imports Rust_Float
begin

text \<open>
  \<open>std::time\<close> as the program uses it. A \<open>Duration\<close> is its number of nanoseconds, at most
  \<open>Duration::MAX\<close>. An \<open>Instant\<close> is a reading of the monotonic clock in nanoseconds; its seconds
  are a signed 64-bit number on Linux. \<open>Instant - Instant\<close> and \<open>duration_since\<close> saturate at
  zero, the other operators panic on overflow. \<open>Instant::now()\<close> is not a function of the
  model: every operation takes the reading as an argument.
\<close>

type_synonym instant = int
type_synonym duration = nat

definition NANOS_PER_SEC :: nat where
  "NANOS_PER_SEC = 1000000000"

definition DURATION_MAX :: duration where
  "DURATION_MAX = 2 ^ 64 * 1000000000 - 1"

definition INSTANT_LIMIT :: int where
  "INSTANT_LIMIT = 2 ^ 63 * 1000000000"

definition from_secs :: "nat \<Rightarrow> duration" where
  "from_secs n = n * 1000000000"

definition from_millis :: "nat \<Rightarrow> duration" where
  "from_millis n = n * 1000000"

definition from_micros :: "nat \<Rightarrow> duration" where
  "from_micros n = n * 1000"

definition duration_since :: "instant \<Rightarrow> instant \<Rightarrow> duration" where
  "duration_since later earlier = nat (later - earlier)"

definition instant_add :: "instant \<Rightarrow> duration \<Rightarrow> instant option" where
  "instant_add t d = (if t + int d < INSTANT_LIMIT then Some (t + int d) else None)"

definition instant_sub :: "instant \<Rightarrow> duration \<Rightarrow> instant option" where
  "instant_sub t d = (if - INSTANT_LIMIT \<le> t - int d then Some (t - int d) else None)"

definition dur_add :: "duration \<Rightarrow> duration \<Rightarrow> duration option" where
  "dur_add a b = (if a + b \<le> DURATION_MAX then Some (a + b) else None)"

definition dur_sub :: "duration \<Rightarrow> duration \<Rightarrow> duration option" where
  "dur_sub a b = (if b \<le> a then Some (a - b) else None)"

definition as_secs_f64 :: "duration \<Rightarrow> f64" where
  "as_secs_f64 d = f64_add (f64_of_nat (d div NANOS_PER_SEC))
     (f64_div (f64_of_nat (d mod NANOS_PER_SEC)) (f64_of_nat NANOS_PER_SEC))"

text \<open>Rounds to the nearest nanosecond; a negative, infinite or NaN argument panics.\<close>

fun from_secs_f64 :: "f64 \<Rightarrow> duration option" where
  "from_secs_f64 (Fin x) =
     (let n = nat (rne (x * 1000000000)) in
      if x < 0 \<or> DURATION_MAX < n then None else Some n)"
| "from_secs_f64 _ = None"

definition mul_f64 :: "duration \<Rightarrow> f64 \<Rightarrow> duration option" where
  "mul_f64 d x = from_secs_f64 (f64_mul x (as_secs_f64 d))"

definition as_secs_f32 :: "duration \<Rightarrow> rat option" where
  "as_secs_f32 d = do {
     s \<leftarrow> fl32 (of_nat (d div NANOS_PER_SEC));
     n \<leftarrow> fl32 (of_nat (d mod NANOS_PER_SEC));
     k \<leftarrow> fl32 (of_nat NANOS_PER_SEC);
     q \<leftarrow> fl32 (n / k);
     fl32 (s + q) }"

text \<open>\<open>div_f32\<close> with a positive finite divisor.\<close>

definition div_f32 :: "duration \<Rightarrow> rat \<Rightarrow> duration option" where
  "div_f32 d x = do {
     s \<leftarrow> as_secs_f32 d;
     q \<leftarrow> fl32 (s / x);
     from_secs_f64 (Fin q) }"

lemmas time_consts = NANOS_PER_SEC_def DURATION_MAX_def INSTANT_LIMIT_def
  from_secs_def from_millis_def from_micros_def

section \<open>Laws\<close>

lemma duration_since_self [simp]: "duration_since t t = 0"
  by (simp add: duration_since_def)

lemma duration_since_mono: "a \<le> b \<Longrightarrow> duration_since a t \<le> duration_since b t"
  by (simp add: duration_since_def nat_mono)

lemma duration_since_gt: "d < duration_since a b \<longleftrightarrow> int d < a - b"
  by (auto simp: duration_since_def)

lemma duration_since_le: "duration_since a b \<le> d \<longleftrightarrow> a - b \<le> int d"
  by (auto simp: duration_since_def)

lemma dur_sub_eq_Some: "dur_sub a b = Some c \<longleftrightarrow> b \<le> a \<and> c = a - b"
  by (auto simp: dur_sub_def)

lemma dur_add_eq_Some: "dur_add a b = Some c \<longleftrightarrow> a + b \<le> DURATION_MAX \<and> c = a + b"
  by (auto simp: dur_add_def)

lemma instant_add_eq_Some: "instant_add t d = Some u \<longleftrightarrow> t + int d < INSTANT_LIMIT \<and> u = t + int d"
  by (auto simp: instant_add_def)

lemma instant_sub_eq_Some: "instant_sub t d = Some u \<longleftrightarrow> - INSTANT_LIMIT \<le> t - int d \<and> u = t - int d"
  by (auto simp: instant_sub_def)

lemma as_secs_f64_finite:
  assumes "d \<le> DURATION_MAX"
  shows "\<exists>s. as_secs_f64 d = Fin s \<and> 0 \<le> s \<and> s \<le> 2 ^ 65"
proof -
  have "d div NANOS_PER_SEC < 2 ^ 64"
    using assms by (intro less_mult_imp_div_less) (simp add: time_consts)
  then have "(of_nat (d div NANOS_PER_SEC) :: rat) \<le> of_nat (2 ^ 64)" by (simp only: of_nat_le_iff)
  then obtain s where s: "f64_of_nat (d div NANOS_PER_SEC) = Fin s" "0 \<le> s" "s \<le> 2 ^ 64"
    using fl64_bounded [of "of_nat (d div NANOS_PER_SEC)" 64] by (auto simp: f64_of_nat_def)
  have "d mod NANOS_PER_SEC < NANOS_PER_SEC" by (simp add: time_consts)
  then have n: "f64_of_nat (d mod NANOS_PER_SEC) = Fin (of_nat (d mod NANOS_PER_SEC))"
    by (intro f64_of_nat_exact) (simp add: time_consts)
  have k: "f64_of_nat NANOS_PER_SEC = Fin 1000000000"
    using f64_of_nat_exact [of NANOS_PER_SEC] by (simp add: time_consts)
  have "(of_nat (d mod NANOS_PER_SEC) :: rat) \<le> of_nat NANOS_PER_SEC"
    unfolding of_nat_le_iff by (simp add: time_consts)
  then have "of_nat (d mod NANOS_PER_SEC) / 1000000000 \<le> (2::rat) ^ 0"
    by (simp add: time_consts)
  then obtain q where q: "fl64 (of_nat (d mod NANOS_PER_SEC) / 1000000000) = Fin q" "0 \<le> q" "q \<le> 1"
    using fl64_bounded [of "of_nat (d mod NANOS_PER_SEC) / 1000000000" 0] by auto
  have "s + q \<le> 2 ^ 65" using s q by simp
  with s q obtain r where "fl64 (s + q) = Fin r" "0 \<le> r" "r \<le> 2 ^ 65"
    using fl64_bounded [of "s + q" 65] by auto
  with s n k q show ?thesis by (simp add: as_secs_f64_def)
qed

lemma as_secs_f64_pos:
  assumes "0 < d"
  shows "f64_le (Fin (2 powi (- 30))) (as_secs_f64 d)"
proof -
  let ?s = "d div NANOS_PER_SEC" and ?n = "d mod NANOS_PER_SEC"
  have n: "f64_of_nat ?n = Fin (of_nat ?n)"
    using mod_less_divisor [of NANOS_PER_SEC d] by (intro f64_of_nat_exact) (simp add: time_consts)
  have k: "f64_of_nat NANOS_PER_SEC = Fin 1000000000"
    using f64_of_nat_exact [of NANOS_PER_SEC] by (simp add: time_consts)
  have s: "f64_le (Fin 0) (f64_of_nat ?s)" by (simp add: f64_of_nat_def fl64_nonneg)
  have q: "f64_le (Fin 0) (f64_div (f64_of_nat ?n) (f64_of_nat NANOS_PER_SEC))"
    unfolding n k by (simp add: fl64_nonneg)
  show ?thesis
  proof (cases "?n = 0")
    case True
    have "d = ?s * NANOS_PER_SEC" using True by (metis add.right_neutral div_mult_mod_eq)
    with assms have "1 \<le> ?s" by (cases "?s") auto
    then have "f64_le (Fin 1) (f64_of_nat ?s)"
      using f64_of_nat_mono [of 1 ?s] f64_of_nat_exact [of 1] by simp
    moreover have "f64_le (Fin (2 powi (- 30))) (Fin 1)"
      using powi_le_iff [of "- 30" 0] by simp
    ultimately have "f64_le (Fin (2 powi (- 30))) (f64_of_nat ?s)" by (rule f64_le_trans [rotated])
    from f64_add_ge_pow2 [OF q this] show ?thesis by (simp add: as_secs_f64_def f64_add_commute)
  next
    case False
    then have "1 \<le> ?n" by simp
    then have "(of_nat 1 :: rat) \<le> of_nat ?n" by (simp only: of_nat_le_iff)
    then have "2 powi (- 30) \<le> (of_nat ?n / 1000000000 :: rat)" by (simp add: power_int_def field_simps)
    from fl64_ge_pow2 [OF this]
    have "f64_le (Fin (2 powi (- 30))) (f64_div (f64_of_nat ?n) (f64_of_nat NANOS_PER_SEC))"
      unfolding n k by simp
    from f64_add_ge_pow2 [OF s this] show ?thesis by (simp add: as_secs_f64_def)
  qed
qed

lemma as_secs_f64_Fin_pos:
  assumes "0 < d" and "d \<le> DURATION_MAX"
  shows "\<exists>s. as_secs_f64 d = Fin s \<and> 0 < s"
proof -
  obtain s where s: "as_secs_f64 d = Fin s" using as_secs_f64_finite [OF assms(2)] by blast
  with as_secs_f64_pos [OF assms(1)] have "2 powi (- 30) \<le> s" by simp
  moreover have "(0::rat) < 2 powi (- 30)" by simp
  ultimately show ?thesis using s by (intro exI [of _ s]) linarith
qed

lemma as_secs_f64_le:
  assumes "d \<le> from_secs (2 ^ k)" and "k \<le> 52"
  shows "\<exists>s. as_secs_f64 d = Fin s \<and> 0 \<le> s \<and> s \<le> 2 ^ k"
proof -
  let ?q = "d div NANOS_PER_SEC" and ?r = "d mod NANOS_PER_SEC"
  have "?q \<le> 2 ^ k" using div_le_mono [OF assms(1), of NANOS_PER_SEC] by (simp add: time_consts)
  moreover have "(2::nat) ^ k < 2 ^ 53" using assms(2) by (intro power_strict_increasing) auto
  ultimately have q: "f64_of_nat ?q = Fin (of_nat ?q)" by (intro f64_of_nat_exact) linarith
  have r: "f64_of_nat ?r = Fin (of_nat ?r)"
    using mod_less_divisor [of NANOS_PER_SEC d] by (intro f64_of_nat_exact) (simp add: time_consts)
  have n: "f64_of_nat NANOS_PER_SEC = Fin 1000000000"
    using f64_of_nat_exact [of NANOS_PER_SEC] by (simp add: time_consts)
  have "\<exists>x. fl64 (of_nat ?r / 1000000000) = Fin x \<and> 0 \<le> x \<and> of_nat ?q + x \<le> 2 ^ k"
  proof (cases "?q = 2 ^ k")
    case True
    have "d = ?q * NANOS_PER_SEC + ?r" by simp
    with True assms(1) have "?r = 0" by (simp add: time_consts)
    with True show ?thesis by simp
  next
    case False
    with \<open>?q \<le> 2 ^ k\<close> have "?q + 1 \<le> 2 ^ k" by simp
    then have le: "(of_nat (?q + 1) :: rat) \<le> of_nat (2 ^ k)" by (simp only: of_nat_le_iff)
    have "?r \<le> NANOS_PER_SEC" by (simp add: time_consts)
    then have "(of_nat ?r :: rat) \<le> of_nat NANOS_PER_SEC" by (simp only: of_nat_le_iff)
    then have "of_nat ?r / 1000000000 \<le> (2::rat) ^ 0" by (simp add: time_consts)
    from fl64_bounded [OF _ this] obtain x where "fl64 (of_nat ?r / 1000000000) = Fin x" "0 \<le> x" "x \<le> 1"
      by auto
    with le show ?thesis by auto
  qed
  then obtain x where x: "fl64 (of_nat ?r / 1000000000) = Fin x" "0 \<le> x" "of_nat ?q + x \<le> 2 ^ k" by blast
  from fl64_bounded [OF _ x(3)] x(2) assms(2) obtain s where
    "fl64 (of_nat ?q + x) = Fin s" "0 \<le> s" "s \<le> 2 ^ k" by auto
  with q r n x(1) show ?thesis by (simp add: as_secs_f64_def)
qed

lemma mul_f64_bound:
  assumes "d \<le> from_secs (2 ^ k)" and "k \<le> 52" and "0 \<le> x" and "x \<le> of_int m * 2 powi e"
    and "0 \<le> m" and "m < 2 ^ 53" and "- 1000 \<le> e" and "e \<le> 800"
    and N: "of_int m * 2 powi e * 2 ^ k * 1000000000 = (of_nat N :: rat)" and "N \<le> DURATION_MAX"
  shows "\<exists>r. mul_f64 d (Fin x) = Some r \<and> r \<le> N"
proof -
  obtain s where s: "as_secs_f64 d = Fin s" "0 \<le> s" "s \<le> 2 ^ k"
    using as_secs_f64_le [OF assms(1,2)] by blast
  have "x * s \<le> (of_int m * 2 powi e) * 2 ^ k"
    using assms(3,4) s by (intro mult_mono) auto
  also have "\<dots> = of_int m * 2 powi (e + int k)" by (simp add: power_int_add)
  finally have "x * s \<le> of_int m * 2 powi (e + int k)" .
  from fl64_le_exact [OF _ this] assms s obtain y where
    y: "fl64 (x * s) = Fin y" "0 \<le> y" "y \<le> of_int m * 2 powi (e + int k)" by auto
  then have "y * 1000000000 \<le> of_nat N" using N by (simp add: power_int_add mult.assoc)
  then have "rne (y * 1000000000) \<le> rne (of_int (int N))" by (intro rne_mono) simp
  then have "nat (rne (y * 1000000000)) \<le> N" by (simp only: rne_of_int nat_le_iff)
  with y s assms(10) show ?thesis by (simp add: mul_f64_def Let_def)
qed

text \<open>
  A clock that has run for less than \<open>2^32\<close> seconds. Durations between its readings are sane, and
  scaling them by the factors of the program does not overflow.
\<close>

definition SANE :: duration where
  "SANE = from_secs (2 ^ 32)"

definition sane_clock :: "instant \<Rightarrow> bool" where
  "sane_clock t \<longleftrightarrow> 0 \<le> t \<and> t \<le> int SANE"

lemma SANE_eq: "SANE = 4294967296000000000"
  by (simp add: SANE_def from_secs_def)

lemma sane_clock_iff: "sane_clock t \<longleftrightarrow> 0 \<le> t \<and> t \<le> 4294967296000000000"
  by (simp add: sane_clock_def SANE_eq)

lemma sane_duration_since: "sane_clock a \<Longrightarrow> sane_clock b \<Longrightarrow> duration_since a b \<le> SANE"
  by (auto simp: sane_clock_def duration_since_def nat_le_iff)

lemma mul_f64_pow2:
  assumes "d \<le> from_secs (2 ^ k)" and "k \<le> 52" and "0 \<le> x" and "x \<le> 2 ^ a" and "k + a \<le> 60"
  shows "\<exists>r. mul_f64 d (Fin x) = Some r \<and> r \<le> from_secs (2 ^ (k + a))"
proof -
  have "from_secs (2 ^ (k + a)) \<le> from_secs (2 ^ 60)"
    using power_increasing [OF assms(5), of "2::nat"] by (simp add: from_secs_def)
  then have "from_secs (2 ^ (k + a)) \<le> DURATION_MAX" by (simp add: from_secs_def DURATION_MAX_def)
  then show ?thesis
    using mul_f64_bound [OF assms(1-3), of 1 "int a" "from_secs (2 ^ (k + a))"] assms
    by (simp add: from_secs_def power_add)
qed

lemma mul_f64_eighths:
  assumes "d \<le> SANE"
  shows "\<exists>r. mul_f64 d (Fin (7 / 8)) = Some r \<and> r \<le> 7 * 2 ^ 29 * 1000000000"
    and "\<exists>r. mul_f64 d (Fin (1 / 8)) = Some r \<and> r \<le> 2 ^ 29 * 1000000000"
  using mul_f64_bound [of d 32 "7 / 8" 7 "- 3" "7 * 2 ^ 29 * 1000000000"]
    mul_f64_bound [of d 32 "1 / 8" 1 "- 3" "2 ^ 29 * 1000000000"] assms
  by (simp_all add: SANE_def power_int_def DURATION_MAX_def power_divide)

text \<open>Exponential smoothing with weight one eighth stays within the bound.\<close>

lemma smoothing_sane:
  assumes "a \<le> SANE" and "b \<le> SANE"
  shows "\<exists>x y z. mul_f64 a (Fin (7 / 8)) = Some x \<and> mul_f64 b (Fin (1 / 8)) = Some y \<and>
    dur_add x y = Some z \<and> z \<le> SANE"
  using mul_f64_eighths(1) [OF assms(1)] mul_f64_eighths(2) [OF assms(2)]
  by (fastforce simp: dur_add_def SANE_def from_secs_def DURATION_MAX_def)

end
