(* ===== verification/Minmax.thy ===== *)
theory Minmax
  imports Rust_Time
begin

text \<open>
  \<open>pemi/src/minmax.rs\<close>: Kathleen Nichols' windowed min/max filter. Three samples are kept;
  \<open>running_min\<close> and \<open>running_max\<close> feed a measurement and return the current estimate. Both are
  instances of one function over a comparison, about which the locale \<open>filter_order\<close> proves the
  contract once.
\<close>

section \<open>Model\<close>

record 'a minmax_sample =
  ms_time :: instant
  ms_value :: 'a

text \<open>The array \<open>estimate: [MinmaxSample<T>; 3]\<close>.\<close>

record 'a minmax =
  est0 :: "'a minmax_sample"
  est1 :: "'a minmax_sample"
  est2 :: "'a minmax_sample"

definition minmax_deref :: "'a minmax \<Rightarrow> 'a" where
  "minmax_deref m = ms_value (est0 m)"

definition minmax_reset :: "instant \<Rightarrow> 'a \<Rightarrow> 'a \<times> 'a minmax" where
  "minmax_reset time meas = (let val = \<lparr>ms_time = time, ms_value = meas\<rparr> in
     (meas, \<lparr>est0 = val, est1 = val, est2 = val\<rparr>))"

text \<open>\<open>Minmax::new\<close>, with the reading of the clock it takes.\<close>

definition minmax_new :: "instant \<Rightarrow> 'a \<Rightarrow> 'a minmax" where
  "minmax_new now val = snd (minmax_reset now val)"

definition shift_estimates :: "'a minmax_sample \<Rightarrow> 'a minmax \<Rightarrow> 'a minmax" where
  "shift_estimates val m = \<lparr>est0 = est1 m, est1 = est2 m, est2 = val\<rparr>"

text \<open>The condition \<open>t1 == t0 && delta_time > win.div_f32(k)\<close>; the division may panic.\<close>

definition stale :: "instant \<Rightarrow> instant \<Rightarrow> duration \<Rightarrow> duration \<Rightarrow> rat \<Rightarrow> bool option" where
  "stale t1 t0 delta_time win k =
     (if t1 = t0 then do { w \<leftarrow> div_f32 win k; Some (delta_time > w) } else Some False)"

definition subwin_update ::
    "duration \<Rightarrow> instant \<Rightarrow> 'a \<Rightarrow> 'a minmax \<Rightarrow> ('a \<times> 'a minmax) option" where
  "subwin_update win time meas m = do {
     let val = \<lparr>ms_time = time, ms_value = meas\<rparr>;
     let delta_time = duration_since time (ms_time (est0 m));
     m' \<leftarrow> (if delta_time > win then
              let m1 = shift_estimates val m in
              Some (if duration_since time (ms_time (est0 m1)) > win then shift_estimates val m1 else m1)
            else do {
              quarter \<leftarrow> stale (ms_time (est1 m)) (ms_time (est0 m)) delta_time win 4;
              if quarter then Some (m\<lparr>est2 := val, est1 := val\<rparr>)
              else do {
                half \<leftarrow> stale (ms_time (est2 m)) (ms_time (est1 m)) delta_time win 2;
                Some (if half then m\<lparr>est2 := val\<rparr> else m) } });
     Some (minmax_deref m', m') }"

definition running_min ::
    "duration \<Rightarrow> instant \<Rightarrow> 'a::linorder \<Rightarrow> 'a minmax \<Rightarrow> ('a \<times> 'a minmax) option" where
  "running_min win time meas m = (let val = \<lparr>ms_time = time, ms_value = meas\<rparr> in
     if meas \<le> ms_value (est0 m) \<or> duration_since time (ms_time (est2 m)) > win
     then Some (minmax_reset time meas)
     else subwin_update win time meas
       (if meas \<le> ms_value (est1 m) then m\<lparr>est2 := val, est1 := val\<rparr>
        else if meas \<le> ms_value (est2 m) then m\<lparr>est2 := val\<rparr>
        else m))"

definition running_max ::
    "duration \<Rightarrow> instant \<Rightarrow> 'a::linorder \<Rightarrow> 'a minmax \<Rightarrow> ('a \<times> 'a minmax) option" where
  "running_max win time meas m = (let val = \<lparr>ms_time = time, ms_value = meas\<rparr> in
     if meas \<ge> ms_value (est0 m) \<or> duration_since time (ms_time (est2 m)) > win
     then Some (minmax_reset time meas)
     else subwin_update win time meas
       (if meas \<ge> ms_value (est1 m) then m\<lparr>est2 := val, est1 := val\<rparr>
        else if meas \<ge> ms_value (est2 m) then m\<lparr>est2 := val\<rparr>
        else m))"

section \<open>One filter over a comparison\<close>

text \<open>\<open>running le\<close> is \<open>running_min\<close> for \<open>(\<le>)\<close> and \<open>running_max\<close> for \<open>(\<ge>)\<close>.\<close>

definition running ::
    "('a \<Rightarrow> 'a \<Rightarrow> bool) \<Rightarrow> duration \<Rightarrow> instant \<Rightarrow> 'a \<Rightarrow> 'a minmax \<Rightarrow> ('a \<times> 'a minmax) option" where
  "running le win time meas m = (let val = \<lparr>ms_time = time, ms_value = meas\<rparr> in
     if le meas (ms_value (est0 m)) \<or> duration_since time (ms_time (est2 m)) > win
     then Some (minmax_reset time meas)
     else subwin_update win time meas
       (if le meas (ms_value (est1 m)) then m\<lparr>est2 := val, est1 := val\<rparr>
        else if le meas (ms_value (est2 m)) then m\<lparr>est2 := val\<rparr>
        else m))"

lemma running_min_running: "running_min = running (\<le>)"
  by (intro ext) (simp add: running_min_def running_def)

lemma running_max_running: "running_max = running (\<ge>)"
  by (intro ext) (simp add: running_max_def running_def)

definition samples_of :: "'a minmax \<Rightarrow> 'a minmax_sample list" where
  "samples_of m = [est0 m, est1 m, est2 m]"

text \<open>The samples are ordered by age, and a younger one is never better.\<close>

definition minmax_inv :: "('a \<Rightarrow> 'a \<Rightarrow> bool) \<Rightarrow> 'a minmax \<Rightarrow> bool" where
  "minmax_inv le m \<longleftrightarrow>
     le (ms_value (est0 m)) (ms_value (est1 m)) \<and> le (ms_value (est1 m)) (ms_value (est2 m)) \<and>
     ms_time (est0 m) \<le> ms_time (est1 m) \<and> ms_time (est1 m) \<le> ms_time (est2 m)"

text \<open>
  A sample leads a history when it is one of its measurements and no later one is better: it is the
  best of the suffix of the history that it begins.
\<close>

definition leads :: "('a \<Rightarrow> 'a \<Rightarrow> bool) \<Rightarrow> (instant \<times> 'a) list \<Rightarrow> 'a minmax_sample \<Rightarrow> bool" where
  "leads le h s \<longleftrightarrow> (\<exists>ys zs. h = ys @ (ms_time s, ms_value s) # zs \<and> (\<forall>v\<in>snd ` set zs. le (ms_value s) v))"

lemma leads_snoc:
  assumes "leads le h s" and "le (ms_value s) v"
  shows "leads le (h @ [(t, v)]) s"
proof -
  obtain ys zs where "h = ys @ (ms_time s, ms_value s) # zs" "\<forall>v\<in>snd ` set zs. le (ms_value s) v"
    using assms(1) by (auto simp: leads_def)
  with assms(2) show ?thesis
    unfolding leads_def by (intro exI [of _ ys] exI [of _ "zs @ [(t, v)]"]) auto
qed

lemma leads_last: "leads le (h @ [(t, v)]) \<lparr>ms_time = t, ms_value = v\<rparr>"
  unfolding leads_def by (intro exI [of _ h] exI [of _ "[]"]) simp

text \<open>\<open>run_filter\<close> feeds a sequence of measurements; \<open>None\<close> is a panic on the way.\<close>

fun run_filter ::
    "(duration \<Rightarrow> instant \<Rightarrow> 'a \<Rightarrow> 'a minmax \<Rightarrow> ('a \<times> 'a minmax) option) \<Rightarrow> duration
      \<Rightarrow> (instant \<times> 'a) list \<Rightarrow> 'a minmax \<Rightarrow> 'a minmax option" where
  "run_filter f win [] m = Some m"
| "run_filter f win ((t, v) # xs) m = do { (_, m') \<leftarrow> f win t v m; run_filter f win xs m' }"

section \<open>The window fractions do not panic\<close>

lemma rnd_pow2: "0 \<le> k \<Longrightarrow> rnd 24 (- 149) (2 ^ nat k) = 2 ^ nat k"
  by (rule rnd_exact [where m = 1 and e = k]) (simp_all add: power_int_def)

lemma fl32_bounded:
  assumes "0 \<le> x" and "x \<le> 2 ^ k" and "k \<le> 127"
  shows "\<exists>y. fl32 x = Some y \<and> 0 \<le> y \<and> y \<le> 2 ^ k"
proof -
  let ?y = "rnd 24 (- 149) x"
  have le: "?y \<le> 2 ^ k"
    using rnd_mono [OF assms(2), of 24 "- 149"] rnd_pow2 [of "int k"] by simp
  have nonneg: "0 \<le> ?y" using assms(1) by (rule rnd_nonneg)
  have "ilog2 ?y < 128" if "?y \<noteq> 0"
  proof -
    from that nonneg have "2 powi ilog2 ?y \<le> ?y" by (intro ilog2_bounds) simp
    also have "\<dots> \<le> 2 ^ k" by (rule le)
    also have "\<dots> = (2::rat) powi int k" by simp
    finally have "ilog2 ?y \<le> int k" by (simp only: powi_le_iff)
    with assms(3) show ?thesis by simp
  qed
  with le nonneg show ?thesis by (auto simp: fl32_def f32_of_rounded_def)
qed

lemma as_secs_f32_bounded:
  assumes "d \<le> from_secs (2 ^ 60)"
  shows "\<exists>s. as_secs_f32 d = Some s \<and> 0 \<le> s \<and> s \<le> 2 ^ 61"
proof -
  have "d div NANOS_PER_SEC \<le> 2 ^ 60"
    using div_le_mono [OF assms, of NANOS_PER_SEC] by (simp add: time_consts)
  then have "(of_nat (d div NANOS_PER_SEC) :: rat) \<le> of_nat (2 ^ 60)" by (simp only: of_nat_le_iff)
  then obtain s where s: "fl32 (of_nat (d div NANOS_PER_SEC)) = Some s" "0 \<le> s" "s \<le> 2 ^ 60"
    using fl32_bounded [of "of_nat (d div NANOS_PER_SEC)" 60] by auto
  have "d mod NANOS_PER_SEC \<le> 2 ^ 30"
    using mod_less_divisor [of NANOS_PER_SEC d] by (simp add: time_consts)
  then have "(of_nat (d mod NANOS_PER_SEC) :: rat) \<le> of_nat (2 ^ 30)" by (simp only: of_nat_le_iff)
  then obtain n where n: "fl32 (of_nat (d mod NANOS_PER_SEC)) = Some n" "0 \<le> n" "n \<le> 2 ^ 30"
    using fl32_bounded [of "of_nat (d mod NANOS_PER_SEC)" 30] by auto
  have "rnd 24 (- 149) 1000000000 = 1000000000"
    by (rule rnd_exact [where m = 1953125 and e = 9]) (simp_all add: power_int_def)
  moreover have "ilog2 1000000000 = 29" by (rule ilog2_unique) (simp_all add: power_int_def)
  ultimately have k: "fl32 (of_nat NANOS_PER_SEC) = Some 1000000000"
    by (simp add: fl32_def f32_of_rounded_def time_consts)
  have "n / 1000000000 \<le> 2 ^ 2" using n by simp
  then obtain q where q: "fl32 (n / 1000000000) = Some q" "0 \<le> q" "q \<le> 2 ^ 2"
    using fl32_bounded [of "n / 1000000000" 2] n by auto
  have "s + q \<le> 2 ^ 61" using s q by simp
  then obtain r where "fl32 (s + q) = Some r" "0 \<le> r" "r \<le> 2 ^ 61"
    using fl32_bounded [of "s + q" 61] s q by auto
  with s n k q show ?thesis by (simp add: as_secs_f32_def)
qed

lemma div_f32_total:
  assumes "d \<le> from_secs (2 ^ 60)" and "1 \<le> x"
  shows "\<exists>q. div_f32 d x = Some q"
proof -
  obtain s where s: "as_secs_f32 d = Some s" "0 \<le> s" "s \<le> 2 ^ 61"
    using as_secs_f32_bounded [OF assms(1)] by blast
  have "s / x \<le> s / 1" using s(2) assms(2) by (intro divide_left_mono) auto
  with s have "s / x \<le> 2 ^ 61" "0 \<le> s / x" using assms(2) by auto
  then obtain q where q: "fl32 (s / x) = Some q" "0 \<le> q" "q \<le> 2 ^ 61"
    using fl32_bounded [of "s / x" 61] by auto
  have "rne (q * 1000000000) \<le> rne (of_int (2 ^ 61 * 1000000000))"
    using q by (intro rne_mono) simp
  then have "rne (q * 1000000000) \<le> 2 ^ 61 * 1000000000" by (simp only: rne_of_int)
  then have "nat (rne (q * 1000000000)) \<le> DURATION_MAX"
    by (simp add: DURATION_MAX_def)
  with s q show ?thesis by (simp add: div_f32_def Let_def)
qed

lemma subwin_update_total:
  assumes "win \<le> from_secs (2 ^ 60)"
  shows "\<exists>r m'. subwin_update win time meas m = Some (r, m')"
proof -
  obtain q h where "div_f32 win 4 = Some q" and "div_f32 win 2 = Some h"
    using div_f32_total [OF assms, of 4] div_f32_total [OF assms, of 2] by auto
  then have "stale t1 t0 d win 4 = Some (t1 = t0 \<and> d > q)" "stale t1 t0 d win 2 = Some (t1 = t0 \<and> d > h)"
    for t1 t0 d by (simp_all add: stale_def)
  then show ?thesis by (simp add: subwin_update_def Let_def)
qed

section \<open>The contract of the filter\<close>

locale filter_order =
  fixes le :: "'a \<Rightarrow> 'a \<Rightarrow> bool"
  assumes le_total: "le x y \<or> le y x"
    and le_trans: "le x y \<Longrightarrow> le y z \<Longrightarrow> le x z"
begin

lemma le_refl [simp]: "le x x"
  using le_total by blast

lemma not_le: "\<not> le x y \<Longrightarrow> le y x"
  using le_total by blast

text \<open>
  The state a measurement meets inside the window: it is worse than the best estimate, and at
  least as good as whatever it replaced.
\<close>

lemma subwin_update_contract:
  assumes inv: "minmax_inv le m" and best: "le (ms_value (est0 m)) meas"
    and mid: "le (ms_value (est1 m)) meas" and last: "le (ms_value (est2 m)) meas"
    and mono: "ms_time (est2 m) \<le> time"
    and young: "duration_since time (ms_time (est2 m)) \<le> win"
    and upd: "subwin_update win time meas m = Some (r, m')"
  shows "minmax_inv le m' \<and> r = minmax_deref m' \<and> le r meas \<and>
    duration_since time (ms_time (est0 m')) \<le> win \<and> ms_time (est2 m') \<le> time \<and>
    set (samples_of m') \<subseteq> insert \<lparr>ms_time = time, ms_value = meas\<rparr> (set (samples_of m)) \<and>
    (\<forall>s\<in>set (samples_of m'). le (ms_value s) meas) \<and>
    (duration_since time (ms_time (est0 m)) \<le> win \<longrightarrow> le (minmax_deref m') (minmax_deref m))"
proof -
  have "minmax_inv le m'"
    using inv best mid last mono upd
    by (auto simp: minmax_inv_def subwin_update_def shift_estimates_def Let_def bind_eq_Some_conv
        split: if_splits)
  moreover have "le r meas" "r = minmax_deref m'"
    using best mid last upd
    by (auto simp: subwin_update_def shift_estimates_def minmax_deref_def Let_def bind_eq_Some_conv
        split: if_splits)
  moreover have "duration_since time (ms_time (est0 m')) \<le> win" "ms_time (est2 m') \<le> time"
    using mono young upd
    by (auto simp: subwin_update_def shift_estimates_def Let_def bind_eq_Some_conv split: if_splits)
  moreover have "set (samples_of m') \<subseteq> insert \<lparr>ms_time = time, ms_value = meas\<rparr> (set (samples_of m))"
    using upd
    by (auto simp: subwin_update_def shift_estimates_def samples_of_def Let_def bind_eq_Some_conv
        split: if_splits)
  moreover from this have "\<forall>s\<in>set (samples_of m'). le (ms_value s) meas"
    using best mid last by (auto simp: samples_of_def)
  moreover have "est0 m' = est0 m" if "duration_since time (ms_time (est0 m)) \<le> win"
    using upd that
    by (auto simp: subwin_update_def shift_estimates_def Let_def bind_eq_Some_conv split: if_splits)
  ultimately show ?thesis by (simp add: minmax_deref_def)
qed

lemma running_contract:
  assumes inv: "minmax_inv le m" and mono: "ms_time (est2 m) \<le> time"
    and run: "running le win time meas m = Some (r, m')"
  shows "minmax_inv le m' \<and> r = minmax_deref m' \<and> le r meas \<and>
    duration_since time (ms_time (est0 m')) \<le> win \<and> ms_time (est2 m') \<le> time \<and>
    set (samples_of m') \<subseteq> insert \<lparr>ms_time = time, ms_value = meas\<rparr> (set (samples_of m)) \<and>
    (\<forall>s\<in>set (samples_of m'). le (ms_value s) meas) \<and>
    (duration_since time (ms_time (est0 m)) \<le> win \<longrightarrow> le (minmax_deref m') (minmax_deref m))"
proof (cases "le meas (ms_value (est0 m)) \<or> duration_since time (ms_time (est2 m)) > win")
  case True
  moreover have "duration_since time (ms_time (est2 m)) \<le> duration_since time (ms_time (est0 m))"
    using inv by (auto simp: minmax_inv_def duration_since_def)
  ultimately show ?thesis using run
    by (auto simp: running_def minmax_reset_def minmax_inv_def minmax_deref_def samples_of_def Let_def)
next
  case False
  define val where "val = \<lparr>ms_time = time, ms_value = meas\<rparr>"
  define n where "n = (if le meas (ms_value (est1 m)) then m\<lparr>est2 := val, est1 := val\<rparr>
        else if le meas (ms_value (est2 m)) then m\<lparr>est2 := val\<rparr> else m)"
  have best: "le (ms_value (est0 m)) meas" using False not_le by blast
  have "minmax_inv le n"
    using inv mono best not_le [of meas "ms_value (est1 m)"]
    by (auto simp: n_def val_def minmax_inv_def)
  moreover have "le (ms_value (est0 n)) meas" "le (ms_value (est1 n)) meas" "le (ms_value (est2 n)) meas"
    using best not_le [of meas "ms_value (est1 m)"] not_le [of meas "ms_value (est2 m)"]
    by (auto simp: n_def val_def)
  moreover have "ms_time (est2 n) \<le> time" "duration_since time (ms_time (est2 n)) \<le> win"
    using mono False by (auto simp: n_def val_def duration_since_def)
  moreover have "subwin_update win time meas n = Some (r, m')"
    using run False unfolding running_def n_def val_def Let_def by (simp only: if_False de_Morgan_disj)
  moreover have "set (samples_of n) \<subseteq> insert val (set (samples_of m))" "est0 n = est0 m"
    by (auto simp: n_def samples_of_def)
  ultimately show ?thesis using subwin_update_contract [of n meas time win r m'] val_def
    by (auto simp: minmax_deref_def)
qed

lemma running_total:
  assumes "win \<le> from_secs (2 ^ 60)"
  shows "\<exists>r m'. running le win time meas m = Some (r, m')"
  using subwin_update_total [OF assms] by (auto simp: running_def minmax_reset_def Let_def)

text \<open>A whole history of measurements, in the order of their times.\<close>

lemma running_leads:
  assumes "minmax_inv le m" and "ms_time (est2 m) \<le> t" and "running le win t v m = Some (r, m')"
    and "\<forall>s\<in>set (samples_of m). leads le h s"
  shows "\<forall>s\<in>set (samples_of m'). leads le (h @ [(t, v)]) s"
  using running_contract [OF assms(1-3)] assms(4) by (auto intro: leads_snoc leads_last)

text \<open>While the history is no longer than the window, the estimate is the best of all of it.\<close>

lemma running_best:
  assumes "minmax_inv le m" and "ms_time (est2 m) \<le> t" and "running le win t v m = Some (r, m')"
    and "leads le h (est0 m)" and "sorted (map fst h)" and "t - fst (hd h) \<le> int win"
    and "\<forall>u\<in>snd ` set h. le (minmax_deref m) u"
  shows "\<forall>u\<in>snd ` set (h @ [(t, v)]). le (minmax_deref m') u"
proof -
  have "fst (hd h) \<le> ms_time (est0 m)"
    using assms(4,5) by (cases h) (auto simp: leads_def sorted_append Cons_eq_append_conv)
  then have "duration_since t (ms_time (est0 m)) \<le> win"
    using assms(6) by (simp add: duration_since_le)
  with running_contract [OF assms(1-3)] assms(7) show ?thesis
    by (auto intro: le_trans)
qed

lemma run_filter_contract:
  assumes "win \<le> from_secs (2 ^ 60)" and "minmax_inv le m" and "h \<noteq> []" and "sorted (map fst (h @ xs))"
    and "\<forall>s\<in>set (samples_of m). leads le h s" and "ms_time (est2 m) \<le> fst (last h)"
    and "duration_since (fst (last h)) (ms_time (est0 m)) \<le> win"
    and "fst (last h) - fst (hd h) \<le> int win \<Longrightarrow> \<forall>u\<in>snd ` set h. le (minmax_deref m) u"
  shows "\<exists>m'. run_filter (running le) win xs m = Some m' \<and> leads le (h @ xs) (est0 m') \<and>
    duration_since (fst (last (h @ xs))) (ms_time (est0 m')) \<le> win \<and>
    (fst (last (h @ xs)) - fst (hd h) \<le> int win \<longrightarrow> (\<forall>u\<in>snd ` set (h @ xs). le (minmax_deref m') u))"
  using assms(2-)
proof (induction xs arbitrary: m h)
  case Nil
  then show ?case by (simp add: samples_of_def)
next
  case (Cons x xs)
  obtain t v where x: "x = (t, v)" by fastforce
  obtain r m1 where run: "running le win t v m = Some (r, m1)"
    using running_total [OF assms(1)] by blast
  have last: "fst (last h) \<le> t"
    using Cons.prems(2,3) by (auto simp: x sorted_append)
  with Cons.prems(5) have old: "ms_time (est2 m) \<le> t" by simp
  note c = running_contract [OF Cons.prems(1) old run]
  have "\<exists>m'. run_filter (running le) win xs m1 = Some m' \<and> leads le ((h @ [x]) @ xs) (est0 m') \<and>
    duration_since (fst (last ((h @ [x]) @ xs))) (ms_time (est0 m')) \<le> win \<and>
    (fst (last ((h @ [x]) @ xs)) - fst (hd (h @ [x])) \<le> int win \<longrightarrow>
      (\<forall>u\<in>snd ` set ((h @ [x]) @ xs). le (minmax_deref m') u))"
  proof (rule Cons.IH)
    show "\<forall>s\<in>set (samples_of m1). leads le (h @ [x]) s"
      unfolding x by (rule running_leads [OF Cons.prems(1) old run Cons.prems(4)])
    assume "fst (last (h @ [x])) - fst (hd (h @ [x])) \<le> int win"
    then have near: "t - fst (hd h) \<le> int win" using Cons.prems(2) by (simp add: x)
    show "\<forall>u\<in>snd ` set (h @ [x]). le (minmax_deref m1) u"
      unfolding x
    proof (rule running_best [OF Cons.prems(1) old run _ _ near])
      show "leads le h (est0 m)" using Cons.prems(4) by (simp add: samples_of_def)
      show "sorted (map fst h)" using Cons.prems(3) by (simp add: sorted_append)
      show "\<forall>u\<in>snd ` set h. le (minmax_deref m) u" using Cons.prems(7) near last by simp
    qed
  qed (use c Cons.prems(3) in \<open>auto simp: x\<close>)
  with run Cons.prems(2) show ?case by (simp add: x)
qed

text \<open>From a fresh filter the estimate is the best of a suffix that begins in the window.\<close>

lemma run_filter_fresh:
  assumes "win \<le> from_secs (2 ^ 60)" and "xs \<noteq> []" and "sorted (map fst xs)" and "le (snd (hd xs)) v0"
  shows "\<exists>m. run_filter (running le) win xs (minmax_new t0 v0) = Some m \<and>
    (\<exists>ys t zs. xs = ys @ (t, minmax_deref m) # zs \<and> (\<forall>(t', v)\<in>set zs. le (minmax_deref m) v) \<and>
       fst (last xs) - t \<le> int win) \<and>
    (fst (last xs) - fst (hd xs) \<le> int win \<longrightarrow> (\<forall>(t, v)\<in>set xs. le (minmax_deref m) v))"
proof -
  obtain t v ys where xs: "xs = (t, v) # ys" using assms(2) by (cases xs) auto
  define m1 where "m1 = snd (minmax_reset t v)"
  have reset: "running le win t v (minmax_new t0 v0) = Some (v, m1)"
    using assms(4)
    by (simp add: xs running_def minmax_new_def minmax_reset_def Let_def m1_def)
  have "leads le ([] @ [(t, v)]) \<lparr>ms_time = t, ms_value = v\<rparr>" by (rule leads_last)
  then have "\<exists>m. run_filter (running le) win ys m1 = Some m \<and> leads le ([(t, v)] @ ys) (est0 m) \<and>
    duration_since (fst (last ([(t, v)] @ ys))) (ms_time (est0 m)) \<le> win \<and>
    (fst (last ([(t, v)] @ ys)) - fst (hd [(t, v)]) \<le> int win \<longrightarrow>
      (\<forall>u\<in>snd ` set ([(t, v)] @ ys). le (minmax_deref m) u))"
    using assms(3)
    by (intro run_filter_contract [OF assms(1)])
      (simp_all add: xs m1_def minmax_reset_def minmax_inv_def minmax_deref_def samples_of_def
        duration_since_def Let_def)
  then obtain m where m: "run_filter (running le) win ys m1 = Some m" "leads le xs (est0 m)"
    "duration_since (fst (last xs)) (ms_time (est0 m)) \<le> win"
    "fst (last xs) - fst (hd xs) \<le> int win \<longrightarrow> (\<forall>u\<in>snd ` set xs. le (minmax_deref m) u)"
    by (auto simp: xs)
  have "\<exists>ys t zs. xs = ys @ (t, minmax_deref m) # zs \<and> (\<forall>(t', v)\<in>set zs. le (minmax_deref m) v) \<and>
       fst (last xs) - t \<le> int win"
    using m(2,3) unfolding leads_def minmax_deref_def duration_since_le by fastforce
  with m(1,4) reset show ?thesis
    by (intro exI [of _ m]) (auto simp: xs)
qed

end

interpretation mn: filter_order "(\<le>) :: 'a::linorder \<Rightarrow> 'a \<Rightarrow> bool"
  by unfold_locales auto

interpretation mx: filter_order "(\<ge>) :: 'a::linorder \<Rightarrow> 'a \<Rightarrow> bool"
  by unfold_locales auto


text \<open>
  One call of \<open>running_min\<close>. On an ordered state and a clock that has not gone back it does not
  panic, returns a value that is at most the measurement and whose sample lies within the window, and
  keeps the three samples ordered by age and by value.
\<close>

theorem running_min_contract:
  assumes "minmax_inv (\<le>) m" and "ms_time (est2 m) \<le> time" and "win \<le> from_secs (2 ^ 60)"
  shows "\<exists>m'. running_min win time meas m = Some (minmax_deref m', m') \<and> minmax_inv (\<le>) m' \<and>
    minmax_deref m' \<le> meas \<and> duration_since time (ms_time (est0 m')) \<le> win \<and> ms_time (est2 m') \<le> time"
proof -
  obtain r m' where run: "running (\<le>) win time meas m = Some (r, m')"
    using mn.running_total [OF assms(3)] by blast
  with mn.running_contract [OF assms(1,2) run] show ?thesis by (auto simp: running_min_running)
qed

theorem running_min_contract_witness:
  "\<exists>m'. running_min 10 7 4 \<lparr>est0 = \<lparr>ms_time = 1, ms_value = 3\<rparr>, est1 = \<lparr>ms_time = 2, ms_value = 5\<rparr>,
      est2 = \<lparr>ms_time = 6, ms_value = 8::nat\<rparr>\<rparr> = Some (minmax_deref m', m') \<and> minmax_inv (\<le>) m' \<and>
    minmax_deref m' \<le> 4 \<and> duration_since 7 (ms_time (est0 m')) \<le> 10 \<and> ms_time (est2 m') \<le> 7"
  by (rule running_min_contract) (simp_all add: minmax_inv_def from_secs_def)

text \<open>
  C22. A fresh filter fed any non-empty history of measurements, with times that never decrease
  and a first measurement at most the initial value, never panics. Its estimate is a measurement
  taken within the last window and is at most every measurement made after that one, the latest
  included; so it is the minimum of a suffix of the history that begins within the window, and never
  below the true minimum of the window. A better measurement of the window made before it may have
  been forgotten, but while the whole history is no longer than the window the estimate is its minimum.
\<close>

theorem running_min_windowed:
  assumes "win \<le> from_secs (2 ^ 60)" and "xs \<noteq> []" and "sorted (map fst xs)" and "snd (hd xs) \<le> v0"
  shows "\<exists>m. run_filter running_min win xs (minmax_new t0 v0) = Some m \<and>
    (\<exists>ys t zs. xs = ys @ (t, minmax_deref m) # zs \<and> (\<forall>(t', v)\<in>set zs. minmax_deref m \<le> v) \<and>
       fst (last xs) - t \<le> int win) \<and>
    (fst (last xs) - fst (hd xs) \<le> int win \<longrightarrow> (\<forall>(t, v)\<in>set xs. minmax_deref m \<le> v))"
  unfolding running_min_running by (rule mn.run_filter_fresh [OF assms])

theorem running_min_windowed_witness:
  "\<exists>m. run_filter running_min 10 [(0, 5), (3, 7), (12, 6)] (minmax_new 0 9) = Some m \<and>
    (\<exists>ys t zs. [(0, 5), (3, 7), (12, 6)] = ys @ (t, minmax_deref m) # zs \<and>
       list_all (\<lambda>(t', v). minmax_deref m \<le> (v::nat)) zs \<and> 12 - t \<le> (10::int))"
  using running_min_windowed [of 10 "[(0, 5), (3, 7), (12, 6)]" "9::nat" 0]
  by (simp add: from_secs_def list_all_iff)

text \<open>
  The same for \<open>running_max\<close>: the best of a suffix of the history that begins within the window, and
  the best of all while the history is no longer than the window.
\<close>

theorem running_max_windowed:
  assumes "win \<le> from_secs (2 ^ 60)" and "xs \<noteq> []" and "sorted (map fst xs)" and "v0 \<le> snd (hd xs)"
  shows "\<exists>m. run_filter running_max win xs (minmax_new t0 v0) = Some m \<and>
    (\<exists>ys t zs. xs = ys @ (t, minmax_deref m) # zs \<and> (\<forall>(t', v)\<in>set zs. minmax_deref m \<ge> v) \<and>
       fst (last xs) - t \<le> int win) \<and>
    (fst (last xs) - fst (hd xs) \<le> int win \<longrightarrow> (\<forall>(t, v)\<in>set xs. minmax_deref m \<ge> v))"
  unfolding running_max_running by (rule mx.run_filter_fresh [OF assms])

theorem running_max_windowed_witness:
  "\<exists>m. run_filter running_max 10 [(0, 5), (3, 7), (12, 6)] (minmax_new 0 1) = Some m \<and>
    (\<exists>ys t zs. [(0, 5), (3, 7), (12, 6)] = ys @ (t, minmax_deref m) # zs \<and>
       list_all (\<lambda>(t', v). minmax_deref m \<ge> (v::nat)) zs \<and> 12 - t \<le> (10::int))"
  using running_max_windowed [of 10 "[(0, 5), (3, 7), (12, 6)]" "1::nat" 0]
  by (simp add: from_secs_def list_all_iff)

end
