(* ===== verification/Copa.thy ===== *)
theory Copa
  imports Minmax
begin

text \<open>
  \<open>pemi/src/cc.rs\<close>: the Copa congestion controller. Its two RTT filters are those of theory
  \<open>Minmax\<close>; the window and the velocity are IEEE doubles. A \<open>None\<close> result is a panic: the only
  source of one on sane clocks and round-trip times is the subtraction
  \<open>rtt_standing - rtt_min\<close> of \<open>on_ack_send\<close>.
\<close>

section \<open>Model\<close>

definition MIN_RTT_WINDOW :: duration where
  "MIN_RTT_WINDOW = from_secs 10"

definition MIN_STANDING_WINDOW :: duration where
  "MIN_STANDING_WINDOW = from_millis 10"

definition V_MAX :: f64 where
  "V_MAX = Fin 32"

datatype direction = Up | Down

record used_window =
  packet_record :: "instant list"

record copa =
  rtt_min_filter :: "duration minmax"
  rtt_standing_filter :: "duration minmax"
  delta_reciprocal :: f64
  cwnd :: f64
  cwnd_change :: instant
  velocity :: f64
  cc_direction :: direction
  direction_change :: instant
  cwnd_last_direction_change :: f64
  slow_start :: bool
  cwnd_used :: used_window

definition used_window_new :: used_window where
  "used_window_new = \<lparr>packet_record = []\<rparr>"

text \<open>The loop \<open>while *front().unwrap() < bound { pop_front() }\<close>.\<close>

fun expire :: "instant \<Rightarrow> instant list \<Rightarrow> instant list option" where
  "expire bound [] = None"
| "expire bound (t # ts) = (if t < bound then expire bound ts else Some (t # ts))"

definition used_on_data_send :: "duration \<Rightarrow> instant \<Rightarrow> used_window \<Rightarrow> (nat \<times> used_window) option" where
  "used_on_data_send win now w = do {
     bound \<leftarrow> instant_sub now win;
     rec \<leftarrow> expire bound (packet_record w @ [now]);
     Some (length rec, w\<lparr>packet_record := rec\<rparr>) }"

text \<open>\<open>clock1\<close> and \<open>clock2\<close> are the readings the two calls of \<open>Minmax::new\<close> take.\<close>

definition copa_new :: "instant \<Rightarrow> instant \<Rightarrow> instant \<Rightarrow> copa" where
  "copa_new clock1 clock2 now = \<lparr>
     rtt_min_filter = minmax_new clock1 DURATION_MAX,
     rtt_standing_filter = minmax_new clock2 DURATION_MAX,
     delta_reciprocal = Fin 2,
     cwnd = Fin 10,
     cwnd_change = now,
     velocity = Fin 1,
     cc_direction = Up,
     direction_change = now,
     cwnd_last_direction_change = Fin 10,
     slow_start = True,
     cwnd_used = used_window_new\<rparr>"

definition on_data_send :: "instant \<Rightarrow> duration \<Rightarrow> copa \<Rightarrow> (bool \<times> copa) option" where
  "on_data_send now client_rtt c = do {
     (recent_sent, used) \<leftarrow> used_on_data_send client_rtt now (cwnd_used c);
     (rtt_min, flt) \<leftarrow> running_min MIN_RTT_WINDOW now client_rtt (rtt_min_filter c);
     let rate_target = f64_div (cwnd c) (as_secs_f64 rtt_min);
     let rate_recent = f64_div (f64_of_nat recent_sent) (as_secs_f64 client_rtt);
     Some (f64_lt rate_target rate_recent, c\<lparr>cwnd_used := used, rtt_min_filter := flt\<rparr>) }"

definition copa_cwnd_update :: "bool \<Rightarrow> instant \<Rightarrow> duration \<Rightarrow> copa \<Rightarrow> copa" where
  "copa_cwnd_update up now client_rtt c = (let
     t_delta = duration_since now (cwnd_change c);
     cwnd_delta = f64_div (f64_mul (f64_mul (velocity c) (delta_reciprocal c)) (as_secs_f64 t_delta))
                    (as_secs_f64 client_rtt) in
     if up then c\<lparr>cwnd_change := now, cwnd := f64_add (cwnd c) cwnd_delta\<rparr>
     else c\<lparr>cwnd_change := now, cwnd := f64_max (f64_sub (cwnd c) cwnd_delta) (Fin 10)\<rparr>)"

definition copa_cwnd_update_slow_start :: "bool \<Rightarrow> instant \<Rightarrow> duration \<Rightarrow> copa \<Rightarrow> copa" where
  "copa_cwnd_update_slow_start up now client_rtt c =
     (if up then
        let t_delta = duration_since now (cwnd_change c) in
        c\<lparr>cwnd := f64_mul (cwnd c) (f64_add (Fin 1)
             (f64_min (f64_div (as_secs_f64 t_delta) (as_secs_f64 client_rtt)) (Fin 1))),
          cwnd_change := now\<rparr>
      else c\<lparr>cwnd := f64_div (cwnd c) (Fin 2), slow_start := False\<rparr>)"

definition velocity_step :: "instant \<Rightarrow> duration \<Rightarrow> copa \<Rightarrow> copa" where
  "velocity_step now client_rtt c =
     (if duration_since now (direction_change c) > client_rtt then
        let last_direction = cc_direction c;
            dir = (if f64_le (cwnd_last_direction_change c) (cwnd c) then Up else Down) in
        c\<lparr>cc_direction := dir,
          velocity := (if dir = last_direction then f64_min (f64_mul (velocity c) (Fin 2)) V_MAX
                       else Fin 1),
          cwnd_last_direction_change := cwnd c,
          direction_change := now\<rparr>
      else c)"

definition standing_window :: "duration \<Rightarrow> duration" where
  "standing_window client_rtt =
     (if client_rtt div 2 < MIN_STANDING_WINDOW then MIN_STANDING_WINDOW else client_rtt div 2)"

text \<open>The two filters: the part of \<open>on_ack_send\<close> before the first use of their results.\<close>

definition filters_on_ack ::
    "duration \<Rightarrow> instant \<Rightarrow> copa \<Rightarrow> (duration \<times> duration \<times> copa) option" where
  "filters_on_ack client_rtt now c = do {
     (rtt_min, f1) \<leftarrow> running_min MIN_RTT_WINDOW now client_rtt (rtt_min_filter c);
     (rtt_standing, f2) \<leftarrow>
       running_min (standing_window client_rtt) now client_rtt (rtt_standing_filter c);
     Some (rtt_min, rtt_standing, c\<lparr>rtt_min_filter := f1, rtt_standing_filter := f2\<rparr>) }"

definition on_ack_send :: "duration \<Rightarrow> instant \<Rightarrow> copa \<Rightarrow> copa option" where
  "on_ack_send client_rtt now c = do {
     (rtt_min, rtt_standing, c1) \<leftarrow> filters_on_ack client_rtt now c;
     dq \<leftarrow> dur_sub rtt_standing rtt_min;
     let lambda_t = f64_div (delta_reciprocal c1) (as_secs_f64 dq);
     let lambda = f64_div (cwnd c1) (as_secs_f64 rtt_standing);
     let up = f64_le lambda lambda_t;
     let c2 = (if slow_start c1 then copa_cwnd_update_slow_start up now client_rtt c1
               else copa_cwnd_update up now client_rtt c1);
     Some (velocity_step now client_rtt c2) }"

definition reset_rtt_filters :: "instant \<Rightarrow> instant \<Rightarrow> copa \<Rightarrow> copa" where
  "reset_rtt_filters clock1 clock2 c = c\<lparr>
     rtt_min_filter := minmax_new clock1 DURATION_MAX,
     rtt_standing_filter := minmax_new clock2 DURATION_MAX\<rparr>"

section \<open>The used window\<close>

lemma expire_dropWhile:
  "(\<exists>t \<in> set ts. \<not> t < bound) \<Longrightarrow> expire bound ts = Some (dropWhile (\<lambda>t. t < bound) ts)"
  by (induction ts) auto

lemma sorted_dropWhile_filter:
  "sorted ts \<Longrightarrow> dropWhile (\<lambda>t. t < bound) ts = filter (\<lambda>t. bound \<le> t) (ts::'a::linorder list)"
  by (induction ts) (auto intro!: filter_True [symmetric])

text \<open>
  Recording a packet never runs off the record: the \<open>unwrap\<close> of the expiry loop meets at
  latest the packet just recorded. On a clock that does not go back the call returns exactly the
  number of packets, the new one included, of the last \<open>win\<close>, and keeps exactly those, in order.
\<close>

theorem used_on_data_send_counts:
  assumes "sorted (packet_record w @ [now])" and "- INSTANT_LIMIT \<le> now - int win"
  defines "kept \<equiv> filter (\<lambda>t. now - t \<le> int win) (packet_record w @ [now])"
  shows "used_on_data_send win now w = Some (length kept, \<lparr>packet_record = kept\<rparr>)"
    (is "?lhs = ?rhs")
proof -
  let ?b = "now - int win"
  have "expire ?b (packet_record w @ [now]) = Some (dropWhile (\<lambda>t. t < ?b) (packet_record w @ [now]))"
    by (rule expire_dropWhile) auto
  also have "dropWhile (\<lambda>t. t < ?b) (packet_record w @ [now]) = kept"
    unfolding kept_def sorted_dropWhile_filter [OF assms(1)] by (rule filter_cong) auto
  finally show ?thesis
    using assms(2) by (simp add: used_on_data_send_def instant_sub_def)
qed

theorem used_on_data_send_counts_witness:
  "used_on_data_send 5 9 \<lparr>packet_record = [1, 3, 4, 6]\<rparr> = Some (3, \<lparr>packet_record = [4, 6, 9]\<rparr>)"
  using used_on_data_send_counts [of "\<lparr>packet_record = [1, 3, 4, 6]\<rparr>" 9 5]
  by (simp add: INSTANT_LIMIT_def)

section \<open>The window and the velocity\<close>

text \<open>The velocity is a power of two of at most \<open>V_MAX\<close>; the window has a floor.\<close>

definition copa_inv :: "copa \<Rightarrow> bool" where
  "copa_inv c \<longleftrightarrow> velocity c \<in> Fin ` {1, 2, 4, 8, 16, 32} \<and> delta_reciprocal c = Fin 2 \<and>
     f64_le (Fin (if slow_start c then 10 else 5)) (cwnd c)"

lemma copa_new_inv: "copa_inv (copa_new clock1 clock2 now)"
  by (simp add: copa_inv_def copa_new_def)

lemma cwnd_slow_start_inv:
  assumes "copa_inv c" and "slow_start c" and "0 < rtt" and "rtt \<le> DURATION_MAX"
    and "duration_since now (cwnd_change c) \<le> DURATION_MAX"
  shows "copa_inv (copa_cwnd_update_slow_start up now rtt c)"
proof (cases up)
  case True
  obtain b where b: "as_secs_f64 rtt = Fin b" "0 < b" using as_secs_f64_Fin_pos assms by blast
  obtain a where a: "as_secs_f64 (duration_since now (cwnd_change c)) = Fin a" "0 \<le> a"
    using as_secs_f64_finite assms(5) by blast
  define q where "q = f64_min (f64_div (Fin a) (Fin b)) (Fin 1)"
  have "f64_le (Fin 0) (f64_div (Fin a) (Fin b))" using a b by (simp add: fl64_nonneg)
  then obtain x where x: "q = Fin x" "0 \<le> x" "x \<le> 1"
    using that by (cases "f64_div (Fin a) (Fin b)"; cases "f64_le (f64_div (Fin a) (Fin b)) (Fin 1)")
      (auto simp: q_def f64_min_def simp del: f64_div.simps)
  have "f64_le (Fin 1) (fl64 (1 + x))"
    using fl64_mono [of 1 "1 + x"] fl64_of_int [of 1] x by simp
  moreover obtain y where y: "fl64 (1 + x) = Fin y" using fl64_bounded [of "1 + x" 1] x by auto
  ultimately have y1: "1 \<le> y" by simp
  have "f64_le (Fin 10) (f64_mul (cwnd c) (Fin y))"
  proof (cases "cwnd c")
    case (Fin w)
    then have "10 \<le> w" using assms by (simp add: copa_inv_def)
    then have "10 * 1 \<le> w * y" using y1 by (intro mult_mono) auto
    with Fin show ?thesis by (simp add: fl64_ge_numeral)
  qed (use assms y1 in \<open>auto simp: copa_inv_def inf_of_sign_def\<close>)
  with assms True a b x y show ?thesis
    by (simp add: copa_cwnd_update_slow_start_def copa_inv_def Let_def q_def [symmetric] del: f64_div.simps)
next
  case False
  have "f64_le (Fin 5) (f64_div (cwnd c) (Fin 2))"
  proof (cases "cwnd c")
    case (Fin w)
    then have "5 \<le> w / 2" using assms by (simp add: copa_inv_def)
    with Fin show ?thesis by (simp add: fl64_ge_numeral)
  qed (use assms in \<open>auto simp: copa_inv_def\<close>)
  with assms False show ?thesis by (simp add: copa_cwnd_update_slow_start_def copa_inv_def)
qed

lemma cwnd_avoidance_inv:
  assumes "copa_inv c" and "\<not> slow_start c" and "0 < rtt" and "rtt \<le> DURATION_MAX"
    and "duration_since now (cwnd_change c) \<le> DURATION_MAX"
  shows "copa_inv (copa_cwnd_update up now rtt c)"
proof -
  obtain b where b: "as_secs_f64 rtt = Fin b" "0 < b" using as_secs_f64_Fin_pos assms by blast
  obtain a where a: "as_secs_f64 (duration_since now (cwnd_change c)) = Fin a" "0 \<le> a" "a \<le> 2 ^ 65"
    using as_secs_f64_finite assms(5) by blast
  define d where "d = f64_div (f64_mul (f64_mul (velocity c) (delta_reciprocal c)) (Fin a)) (Fin b)"
  obtain w where w: "f64_mul (velocity c) (delta_reciprocal c) = Fin w" "0 \<le> w" "w \<le> 64"
    using assms(1) by (auto simp: copa_inv_def fl64_numeral)
  have "w * a \<le> 64 * 2 ^ 65" using w a by (intro mult_mono) auto
  then have "w * a \<le> 2 ^ 71" by simp
  then obtain x where "fl64 (w * a) = Fin x" "0 \<le> x"
    using fl64_bounded [of "w * a" 71] w a by auto
  then have d: "f64_le (Fin 0) d" using w b by (simp add: d_def fl64_nonneg)
  have "f64_le (Fin 5) (f64_add (cwnd c) d)"
  proof (cases "cwnd c")
    case (Fin z)
    with assms have "5 \<le> z" by (simp add: copa_inv_def)
    with Fin d show ?thesis by (cases d) (auto intro!: fl64_ge_numeral)
  qed (use assms d in \<open>cases d; auto simp: copa_inv_def\<close>)+
  moreover have "f64_le (Fin 5) (f64_max z (Fin 10))" for z
    by (cases z) (auto simp: f64_max_def)
  ultimately show ?thesis
    using assms a b by (simp add: copa_cwnd_update_def copa_inv_def Let_def d_def)
qed

lemma velocity_step_inv:
  assumes "copa_inv c"
  shows "copa_inv (velocity_step now rtt c)"
proof -
  from assms have "f64_min (f64_mul (velocity c) (Fin 2)) V_MAX \<in> Fin ` {1, 2, 4, 8, 16, 32}"
    by (auto simp: copa_inv_def V_MAX_def f64_min_def fl64_numeral)
  with assms show ?thesis by (auto simp: velocity_step_def copa_inv_def Let_def)
qed


lemma copa_inv_filters [simp]:
  "copa_inv (c\<lparr>rtt_min_filter := f, rtt_standing_filter := g\<rparr>) = copa_inv c"
  "copa_inv (c\<lparr>cwnd_used := u, rtt_min_filter := f\<rparr>) = copa_inv c"
  by (simp_all add: copa_inv_def)

section \<open>The filters\<close>

text \<open>
  A filter that can take a measurement at \<open>now\<close>: its samples are ordered and not in the future, or
  it is fresh (\<open>Minmax::new\<close> stamps it with a later reading of the clock than the packet that
  created the connection has).
\<close>

definition filter_ready :: "instant \<Rightarrow> duration minmax \<Rightarrow> bool" where
  "filter_ready now m \<longleftrightarrow> minmax_inv (\<le>) m \<and>
     (ms_time (est2 m) \<le> now \<or> ms_value (est0 m) = DURATION_MAX)"

lemma filter_ready_new: "filter_ready now (minmax_new clock DURATION_MAX)"
  by (simp add: filter_ready_def minmax_new_def minmax_reset_def minmax_inv_def Let_def)

lemma filter_ready_later: "filter_ready now m \<Longrightarrow> now \<le> now' \<Longrightarrow> filter_ready now' m"
  by (auto simp: filter_ready_def)

lemma running_min_ready:
  assumes "filter_ready now m" and "win \<le> from_secs (2 ^ 60)" and "meas \<le> DURATION_MAX"
  shows "\<exists>r m'. running_min win now meas m = Some (r, m') \<and> filter_ready now m' \<and> r \<le> meas"
proof (cases "ms_time (est2 m) \<le> now")
  case True
  obtain r m' where run: "running (\<le>) win now meas m = Some (r, m')"
    using mn.running_total [OF assms(2)] by blast
  with mn.running_contract [OF _ True run] assms(1) show ?thesis
    by (auto simp: running_min_running filter_ready_def)
next
  case False
  with assms have "meas \<le> ms_value (est0 m)" by (simp add: filter_ready_def)
  then show ?thesis
    by (auto simp: running_min_def minmax_reset_def filter_ready_def minmax_inv_def Let_def)
qed

lemma standing_window_bound: "rtt \<le> from_secs (2 ^ 60) \<Longrightarrow> standing_window rtt \<le> from_secs (2 ^ 60)"
  by (auto simp: standing_window_def MIN_STANDING_WINDOW_def from_millis_def from_secs_def)

lemma filters_on_ack_ready:
  assumes "filter_ready now (rtt_min_filter c)" and "filter_ready now (rtt_standing_filter c)"
    and "rtt \<le> from_secs (2 ^ 60)"
  shows "\<exists>rmin rst f1 f2. filters_on_ack rtt now c =
      Some (rmin, rst, c\<lparr>rtt_min_filter := f1, rtt_standing_filter := f2\<rparr>) \<and>
    filter_ready now f1 \<and> filter_ready now f2 \<and> rmin \<le> rtt \<and> rst \<le> rtt"
proof -
  have rtt: "rtt \<le> DURATION_MAX" using assms(3) by (simp add: from_secs_def DURATION_MAX_def)
  have "MIN_RTT_WINDOW \<le> from_secs (2 ^ 60)" by (simp add: MIN_RTT_WINDOW_def from_secs_def)
  from running_min_ready [OF assms(1) this rtt]
    running_min_ready [OF assms(2) standing_window_bound [OF assms(3)] rtt]
  show ?thesis by (fastforce simp: filters_on_ack_def)
qed

lemma velocity_step_filters [simp]:
  "rtt_min_filter (velocity_step now rtt c) = rtt_min_filter c"
  "rtt_standing_filter (velocity_step now rtt c) = rtt_standing_filter c"
  by (simp_all add: velocity_step_def Let_def)

lemma cwnd_update_filters [simp]:
  "rtt_min_filter (copa_cwnd_update up now rtt c) = rtt_min_filter c"
  "rtt_standing_filter (copa_cwnd_update up now rtt c) = rtt_standing_filter c"
  "rtt_min_filter (copa_cwnd_update_slow_start up now rtt c) = rtt_min_filter c"
  "rtt_standing_filter (copa_cwnd_update_slow_start up now rtt c) = rtt_standing_filter c"
  by (simp_all add: copa_cwnd_update_def copa_cwnd_update_slow_start_def Let_def)

text \<open>
  C23. \<open>on_ack_send\<close> on a positive round-trip time: both filters return at most the sample; the call
  panics exactly when the standing RTT is below the minimum RTT; otherwise it keeps the velocity a
  power of two between \<open>1\<close> and \<open>V_MAX = 32\<close>, the window at least \<open>10\<close> packets in slow start and
  at least \<open>5\<close> afterwards (never NaN), and the filters ready for the next sample.
\<close>

theorem on_ack_send_contract:
  assumes "copa_inv c" and "filter_ready now (rtt_min_filter c)" and "filter_ready now (rtt_standing_filter c)"
    and "0 < rtt" and "rtt \<le> from_secs (2 ^ 60)" and "duration_since now (cwnd_change c) \<le> DURATION_MAX"
  shows "\<exists>rtt_min rtt_standing c1. filters_on_ack rtt now c = Some (rtt_min, rtt_standing, c1) \<and>
    rtt_min \<le> rtt \<and> rtt_standing \<le> rtt \<and>
    (if rtt_standing < rtt_min then on_ack_send rtt now c = None
     else \<exists>c'. on_ack_send rtt now c = Some c' \<and> copa_inv c' \<and>
       filter_ready now (rtt_min_filter c') \<and> filter_ready now (rtt_standing_filter c'))"
proof -
  from filters_on_ack_ready [OF assms(2,3,5)] obtain rmin rst f1 f2 where
    f: "filters_on_ack rtt now c = Some (rmin, rst, c\<lparr>rtt_min_filter := f1, rtt_standing_filter := f2\<rparr>)"
      (is "_ = Some (_, _, ?c1)")
    and r: "filter_ready now f1" "filter_ready now f2" "rmin \<le> rtt" "rst \<le> rtt" by blast
  have rtt: "rtt \<le> DURATION_MAX" using assms(5) by (simp add: from_secs_def DURATION_MAX_def)
  have "copa_inv (copa_cwnd_update_slow_start up now rtt ?c1)" if "slow_start c" for up
    using assms rtt that by (intro cwnd_slow_start_inv) simp_all
  moreover have "copa_inv (copa_cwnd_update up now rtt ?c1)" if "\<not> slow_start c" for up
    using assms rtt that by (intro cwnd_avoidance_inv) simp_all
  ultimately show ?thesis
    using f r by (auto simp: on_ack_send_def dur_sub_def Let_def intro!: velocity_step_inv)
qed

theorem on_ack_send_contract_witness:
  "\<exists>rtt_min rtt_standing c1. filters_on_ack 1000 50 (copa_new 20 21 0) = Some (rtt_min, rtt_standing, c1) \<and>
    rtt_min \<le> 1000 \<and> rtt_standing \<le> 1000 \<and>
    (if rtt_standing < rtt_min then on_ack_send 1000 50 (copa_new 20 21 0) = None
     else \<exists>c'. on_ack_send 1000 50 (copa_new 20 21 0) = Some c' \<and> copa_inv c' \<and>
       filter_ready 50 (rtt_min_filter c') \<and> filter_ready 50 (rtt_standing_filter c'))"
  by (rule on_ack_send_contract)
    (simp_all add: copa_new_inv, simp_all add: copa_new_def filter_ready_new,
      simp_all add: from_secs_def DURATION_MAX_def duration_since_def)

end
