(* ===== verification/Copa_Delay.thy ===== *)
theory Copa_Delay
  imports Copa
begin

text \<open>
  When the subtraction of \<open>Copa::on_ack_send\<close> (\<open>pemi/src/cc.rs\<close>) underflows: the two filters are
  separated from the float part of the controller, which does not influence them, and evaluated
  on a trace of five round-trip times.
\<close>

section \<open>The queueing delay can be negative\<close>

text \<open>The filters and the subtraction alone: what decides whether \<open>on_ack_send\<close> panics.\<close>

definition delay_step ::
    "instant \<times> duration \<Rightarrow> duration minmax \<times> duration minmax \<Rightarrow> (duration minmax \<times> duration minmax) option" where
  "delay_step s f = (case s of (now, rtt) \<Rightarrow> do {
     (rtt_min, f1) \<leftarrow> running_min MIN_RTT_WINDOW now rtt (fst f);
     (rtt_standing, f2) \<leftarrow> running_min (standing_window rtt) now rtt (snd f);
     if rtt_standing < rtt_min then None else Some (f1, f2) })"

definition copa_filters :: "copa \<Rightarrow> duration minmax \<times> duration minmax" where
  "copa_filters c = (rtt_min_filter c, rtt_standing_filter c)"

lemma on_ack_send_delay_step:
  "map_option copa_filters (on_ack_send rtt now c) = delay_step (now, rtt) (copa_filters c)"
  by (auto simp: on_ack_send_def filters_on_ack_def delay_step_def copa_filters_def dur_sub_def Let_def
      split: Option.bind_splits)

lemma on_ack_sends_delay_steps:
  "map_option copa_filters (foldO (\<lambda>(now, rtt). on_ack_send rtt now) xs c)
     = foldO delay_step xs (copa_filters c)"
proof (induction xs arbitrary: c)
  case (Cons x xs)
  obtain now rtt where x: "x = (now, rtt)" by fastforce
  show ?case
    using Cons on_ack_send_delay_step [of rtt now c, symmetric]
    by (cases "on_ack_send rtt now c") (simp_all add: x)
qed simp

text \<open>
  C27. The panic of \<open>on_ack_send\<close> is reachable: a connection whose round-trip time grows steadily
  from 50 to 90 milliseconds over 12.6 seconds, with these five samples, loses the minimum of 70
  milliseconds from the ten-second filter while the standing filter still holds it, and the
  subtraction underflows on the fifth sample.
\<close>

theorem on_ack_send_underflow:
  "foldO (\<lambda>(now, rtt). on_ack_send rtt now)
     [(0, from_millis 50), (2600000000, from_millis 60), (12590000000, from_millis 70),
      (12595000000, from_millis 80)] (copa_new 0 0 0) \<noteq> None \<and>
   foldO (\<lambda>(now, rtt). on_ack_send rtt now)
     [(0, from_millis 50), (2600000000, from_millis 60), (12590000000, from_millis 70),
      (12595000000, from_millis 80), (12601000000, from_millis 90)] (copa_new 0 0 0) = None"
proof -
  have "foldO delay_step
     [(0, from_millis 50), (2600000000, from_millis 60), (12590000000, from_millis 70),
      (12595000000, from_millis 80)] (copa_filters (copa_new 0 0 0)) \<noteq> None"
    and "foldO delay_step
     [(0, from_millis 50), (2600000000, from_millis 60), (12590000000, from_millis 70),
      (12595000000, from_millis 80), (12601000000, from_millis 90)] (copa_filters (copa_new 0 0 0)) = None"
    by code_simp+
  then show ?thesis unfolding on_ack_sends_delay_steps [symmetric] by simp
qed

end
