(* ===== verification/Octets.thy ===== *)
theory Octets
  imports Prelude
begin

unbundle bit_operations_syntax

text \<open>
  \<open>pemi/deps/octets/src/lib.rs\<close>: the byte cursor the QUIC parser reads packets with. \<open>Octets\<close>
  and \<open>OctetsMut\<close> are the same pair of a buffer and an offset; the reading methods are
  the same code for both, the writing methods belong to \<open>OctetsMut\<close>.

  The locale \<open>cursor\<close> is the contract every method keeps: the offset never moves backwards nor past
  the end, and the buffer keeps its length. The round trips at the end relate writing and
  reading of big-endian integers and of QUIC variable-length integers.
\<close>

section \<open>Model\<close>

record octets =
  o_buf :: bytes
  o_off :: nat

datatype octets_error = BufferTooShortError

type_synonym 'a reader = "(octets, octets_error, 'a) meth"

definition with_slice :: "bytes \<Rightarrow> octets" where
  "with_slice bs = \<lparr>o_buf = bs, o_off = 0\<rparr>"

definition cap :: "octets \<Rightarrow> nat" where
  "cap b = length (o_buf b) - o_off b"

definition octets_len :: "octets \<Rightarrow> nat" where
  "octets_len b = length (o_buf b)"

definition octets_is_empty :: "octets \<Rightarrow> bool" where
  "octets_is_empty b \<longleftrightarrow> length (o_buf b) = 0"

definition octets_off :: "octets \<Rightarrow> nat" where
  "octets_off b = o_off b"

definition octets_buf :: "octets \<Rightarrow> bytes" where
  "octets_buf b = o_buf b"

definition as_ref :: "octets \<Rightarrow> bytes" where
  "as_ref b = drop (o_off b) (o_buf b)"

definition to_vec :: "octets \<Rightarrow> bytes" where
  "to_vec b = drop (o_off b) (o_buf b)"

text \<open>The value of big-endian bytes, and the low \<open>n\<close> big-endian bytes of a value.\<close>

definition be_val :: "bytes \<Rightarrow> nat" where
  "be_val bs = foldl (\<lambda>acc b. acc * 256 + unat b) 0 bs"

fun be_bytes :: "nat \<Rightarrow> nat \<Rightarrow> bytes" where
  "be_bytes 0 v = []"
| "be_bytes (Suc n) v = be_bytes n (v div 256) @ [of_nat v]"

text \<open>The macros \<open>peek_u!\<close>, \<open>get_u!\<close> and \<open>put_u!\<close>.\<close>

definition peek_u :: "nat \<Rightarrow> 'a::len word reader" where
  "peek_u len = (\<lambda>b. let src = drop (o_off b) (o_buf b) in
     if length src < len then (Err BufferTooShortError, b)
     else (Ok (of_nat (be_val (take len src))), b))"

definition get_u :: "nat \<Rightarrow> 'a::len word reader" where
  "get_u len = and_then (peek_u len) (\<lambda>out b. (Ok out, b\<lparr>o_off := o_off b + len\<rparr>))"

text \<open>The slice \<open>put_u!\<close> returns is represented by the position it starts at.\<close>

definition put_u :: "'a::len word \<Rightarrow> nat \<Rightarrow> nat reader" where
  "put_u v len = (\<lambda>b.
     if length (o_buf b) < o_off b + len then (Err BufferTooShortError, b)
     else (Ok (o_off b),
           b\<lparr>o_buf := take (o_off b) (o_buf b) @ be_bytes len (unat v) @ drop (o_off b + len) (o_buf b),
             o_off := o_off b + len\<rparr>))"

definition peek_u8 :: "u8 reader" where
  "peek_u8 = peek_u 1"

definition get_u8 :: "u8 reader" where
  "get_u8 = get_u 1"

definition get_u16 :: "u16 reader" where
  "get_u16 = get_u 2"

definition get_u24 :: "u32 reader" where
  "get_u24 = get_u 3"

definition get_u32 :: "u32 reader" where
  "get_u32 = get_u 4"

definition get_u64 :: "u64 reader" where
  "get_u64 = get_u 8"

definition put_u8 :: "u8 \<Rightarrow> nat reader" where
  "put_u8 v = put_u v 1"

definition put_u16 :: "u16 \<Rightarrow> nat reader" where
  "put_u16 v = put_u v 2"

definition put_u24 :: "u32 \<Rightarrow> nat reader" where
  "put_u24 v = put_u v 3"

definition put_u32 :: "u32 \<Rightarrow> nat reader" where
  "put_u32 v = put_u v 4"

definition put_u64 :: "u64 \<Rightarrow> nat reader" where
  "put_u64 v = put_u v 8"

text \<open>\<open>None\<close> is the \<open>unreachable!()\<close> of the source.\<close>

definition varint_len :: "u64 \<Rightarrow> nat option" where
  "varint_len v =
     (if v \<le> 63 then Some 1
      else if v \<le> 16383 then Some 2
      else if v \<le> 1073741823 then Some 4
      else if v \<le> 4611686018427387903 then Some 8
      else None)"

definition varint_parse_len :: "u8 \<Rightarrow> nat option" where
  "varint_parse_len first = (let k = drop_bit 6 first in
     if k = 0 then Some 1 else if k = 1 then Some 2 else if k = 2 then Some 4
     else if k = 3 then Some 8 else None)"

definition get_varint :: "u64 reader" where
  "get_varint = and_then peek_u8 (\<lambda>first.
     case varint_parse_len first of
       None \<Rightarrow> panic
     | Some len \<Rightarrow> and_then (gets cap) (\<lambda>c.
         if len > c then fail BufferTooShortError
         else if len = 1 then and_then get_u8 (\<lambda>x. ret (ucast x))
         else if len = 2 then and_then get_u16 (\<lambda>x. ret (ucast (x AND 0x3fff)))
         else if len = 4 then and_then get_u32 (\<lambda>x. ret (ucast (x AND 0x3fffffff)))
         else if len = 8 then and_then get_u64 (\<lambda>x. ret (x AND 0x3fffffffffffffff))
         else panic))"

definition get_bytes :: "nat \<Rightarrow> octets reader" where
  "get_bytes len = (\<lambda>b.
     if cap b < len then (Err BufferTooShortError, b)
     else (Ok \<lparr>o_buf = take len (drop (o_off b) (o_buf b)), o_off = 0\<rparr>,
           b\<lparr>o_off := o_off b + len\<rparr>))"

definition get_bytes_with_u8_length :: "octets reader" where
  "get_bytes_with_u8_length = and_then get_u8 (\<lambda>len. get_bytes (unat len))"

definition get_bytes_with_u16_length :: "octets reader" where
  "get_bytes_with_u16_length = and_then get_u16 (\<lambda>len. get_bytes (unat len))"

definition get_bytes_with_varint_length :: "octets reader" where
  "get_bytes_with_varint_length = and_then get_varint (\<lambda>len. get_bytes (unat len))"

definition peek_bytes :: "nat \<Rightarrow> octets reader" where
  "peek_bytes len = (\<lambda>b.
     if cap b < len then (Err BufferTooShortError, b)
     else (Ok \<lparr>o_buf = take len (drop (o_off b) (o_buf b)), o_off = 0\<rparr>, b))"

definition slice :: "nat \<Rightarrow> bytes reader" where
  "slice len = (\<lambda>b.
     if len > cap b then (Err BufferTooShortError, b)
     else (Ok (take len (drop (o_off b) (o_buf b))), b))"

definition slice_last :: "nat \<Rightarrow> bytes reader" where
  "slice_last len = (\<lambda>b.
     if len > cap b then (Err BufferTooShortError, b)
     else (Ok (drop (cap b - len) (o_buf b)), b))"

definition skip :: "nat \<Rightarrow> unit reader" where
  "skip n = (\<lambda>b.
     if n > cap b then (Err BufferTooShortError, b)
     else (Ok (), b\<lparr>o_off := o_off b + n\<rparr>))"

definition or_byte :: "nat \<Rightarrow> u8 \<Rightarrow> nat reader" where
  "or_byte i m = (\<lambda>b. (Ok i, b\<lparr>o_buf := (o_buf b)[i := o_buf b ! i OR m]\<rparr>))"

definition put_varint_with_len :: "u64 \<Rightarrow> nat \<Rightarrow> nat reader" where
  "put_varint_with_len v len = and_then (gets cap) (\<lambda>c.
     if c < len then fail BufferTooShortError
     else if len = 1 then put_u8 (ucast v)
     else if len = 2 then and_then (put_u16 (ucast v)) (\<lambda>i. or_byte i 0x40)
     else if len = 4 then and_then (put_u32 (ucast v)) (\<lambda>i. or_byte i 0x80)
     else if len = 8 then and_then (put_u64 v) (\<lambda>i. or_byte i 0xc0)
     else panic)"

definition put_varint :: "u64 \<Rightarrow> nat reader" where
  "put_varint v = (case varint_len v of None \<Rightarrow> panic | Some len \<Rightarrow> put_varint_with_len v len)"

definition put_bytes :: "bytes \<Rightarrow> unit reader" where
  "put_bytes v = (\<lambda>b. let len = length v in
     if cap b < len then (Err BufferTooShortError, b)
     else if len = 0 then (Ok (), b)
     else (Ok (), b\<lparr>o_buf := take (o_off b) (o_buf b) @ v @ drop (o_off b + len) (o_buf b),
                    o_off := o_off b + len\<rparr>))"

definition split_at :: "nat \<Rightarrow> (octets \<times> octets) reader" where
  "split_at k = (\<lambda>b.
     if octets_len b < k then (Err BufferTooShortError, b)
     else (Ok (\<lparr>o_buf = take k (o_buf b), o_off = 0\<rparr>, \<lparr>o_buf = drop k (o_buf b), o_off = 0\<rparr>), b))"

section \<open>The cursor invariant and the contract of the methods\<close>

definition octets_inv :: "octets \<Rightarrow> bool" where
  "octets_inv b \<longleftrightarrow> o_off b \<le> length (o_buf b)"

lemma with_slice_inv [simp]: "octets_inv (with_slice bs)"
  by (simp add: octets_inv_def with_slice_def)

lemma with_slice_simps [simp]: "o_buf (with_slice bs) = bs" "o_off (with_slice bs) = 0"
  by (simp_all add: with_slice_def)

text \<open>
  What a client may assume of any method: it keeps the invariant, never moves backwards and
  never changes the length of the buffer. A method that leaves the bytes alone is a reader.
\<close>

locale cursor =
  fixes m :: "(octets, 'e, 'a) meth"
  assumes step: "octets_inv b \<Longrightarrow> m b = (r, b') \<Longrightarrow>
      octets_inv b' \<and> o_off b \<le> o_off b' \<and> length (o_buf b') = length (o_buf b)"
begin

lemma inv: "octets_inv b \<Longrightarrow> m b = (r, b') \<Longrightarrow> octets_inv b'"
  using step by blast

lemma forward: "octets_inv b \<Longrightarrow> m b = (r, b') \<Longrightarrow> o_off b \<le> o_off b'"
  using step by blast

lemma cap_decreases: "octets_inv b \<Longrightarrow> m b = (r, b') \<Longrightarrow> cap b' \<le> cap b"
  using step [of b r b'] by (auto simp: cap_def)

lemma in_bounds: "octets_inv b \<Longrightarrow> m b = (r, b') \<Longrightarrow> o_off b' \<le> length (o_buf b)"
  using step [of b r b'] by (auto simp: octets_inv_def)

end

locale reader_contract = cursor +
  assumes keeps_buf: "m b = (r, b') \<Longrightarrow> o_buf b' = o_buf b"

text \<open>A reader that has returned \<open>Ok\<close> has consumed at least one byte.\<close>

locale consuming_reader = reader_contract +
  assumes consumes: "octets_inv b \<Longrightarrow> m b = (Ok x, b') \<Longrightarrow> o_off b < o_off b'"

text \<open>The contracts compose along the question mark operator.\<close>

lemma cursor_and_then:
  assumes "cursor m" and "\<And>x. cursor (k x)"
  shows "cursor (and_then m k)"
proof
  fix b r b'
  assume inv: "octets_inv b" and eq: "and_then m k b = (r, b')"
  obtain r1 b1 where m: "m b = (r1, b1)" by fastforce
  note s1 = cursor.step [OF assms(1) inv m]
  show "octets_inv b' \<and> o_off b \<le> o_off b' \<and> length (o_buf b') = length (o_buf b)"
  proof (cases r1)
    case (Ok x)
    with eq m have "k x b1 = (r, b')" by simp
    from cursor.step [OF assms(2) _ this] s1 show ?thesis by force
  qed (use eq m s1 in simp_all)
qed

lemma reader_and_then:
  assumes "reader_contract m" and "\<And>x. reader_contract (k x)"
  shows "reader_contract (and_then m k)"
proof -
  have "cursor (and_then m k)"
    using assms by (intro cursor_and_then) (simp_all add: reader_contract_def)
  moreover have "o_buf b' = o_buf b" if "and_then m k b = (r, b')" for b r b'
  proof -
    obtain r1 b1 where m: "m b = (r1, b1)" by fastforce
    with that show ?thesis
      using reader_contract.keeps_buf [OF assms(1) m] reader_contract.keeps_buf [OF assms(2)] by (cases r1) auto
  qed
  ultimately show ?thesis
    by (simp add: reader_contract_def reader_contract_axioms_def)
qed


lemma consuming_and_then:
  assumes "consuming_reader m" and "\<And>x. reader_contract (k x)"
  shows "consuming_reader (and_then m k)"
proof -
  have r: "reader_contract (and_then m k)"
    using assms by (intro reader_and_then) (simp_all add: consuming_reader_def)
  have "o_off b < o_off b'" if inv: "octets_inv b" and eq: "and_then m k b = (Ok y, b')" for b y b'
  proof -
    from eq obtain x b1 where m: "m b = (Ok x, b1)" and k: "k x b1 = (Ok y, b')"
      by (rule and_then_OkE)
    have c: "cursor m" "cursor (k x)"
      using assms by (simp_all add: consuming_reader_def reader_contract_def)
    from consuming_reader.consumes [OF assms(1) inv m] have "o_off b < o_off b1" .
    also have "\<dots> \<le> o_off b'"
      by (rule cursor.forward [OF c(2) cursor.inv [OF c(1) inv m] k])
    finally show ?thesis .
  qed
  with r show ?thesis by (simp add: consuming_reader_def consuming_reader_axioms_def)
qed

lemma reader_ret: "reader_contract (ret x)"
  by unfold_locales (auto simp: ret_def)

lemma reader_fail: "reader_contract (fail e)"
  by unfold_locales (auto simp: fail_def)

lemma reader_panic: "reader_contract panic"
  by unfold_locales (auto simp: panic_def)

lemma reader_gets: "reader_contract (gets f)"
  by unfold_locales (auto simp: gets_def)

lemma reader_if: "reader_contract m \<Longrightarrow> reader_contract m' \<Longrightarrow> reader_contract (if c then m else m')"
  by simp

lemma reader_map_err: "reader_contract m \<Longrightarrow> reader_contract (map_err f m)"
  unfolding reader_contract_def cursor_def reader_contract_axioms_def map_err_def
  by (fastforce split: prod.splits outcome.splits)

lemma consuming_map_err: "consuming_reader m \<Longrightarrow> consuming_reader (map_err f m)"
  using reader_map_err [of m f]
  by (simp add: consuming_reader_def consuming_reader_axioms_def)

lemmas reader_intros = reader_and_then reader_ret reader_fail reader_panic reader_gets reader_if

lemma consuming_is_reader: "consuming_reader m \<Longrightarrow> reader_contract m"
  by (simp add: consuming_reader_def)

lemma reader_is_cursor: "reader_contract m \<Longrightarrow> cursor m"
  by (simp add: reader_contract_def)

section \<open>The methods keep their contracts\<close>

lemma get_u_consuming:
  assumes "0 < len"
  shows "consuming_reader (get_u len)"
  using assms
  by unfold_locales
    (auto simp: get_u_def peek_u_def and_then_def octets_inv_def Let_def split: if_splits)

interpretation peek_u8: reader_contract peek_u8
  by unfold_locales (auto simp: peek_u8_def peek_u_def Let_def split: if_splits)

interpretation get_u8: consuming_reader get_u8
  unfolding get_u8_def by (rule get_u_consuming) simp

interpretation get_u16: consuming_reader get_u16
  unfolding get_u16_def by (rule get_u_consuming) simp

interpretation get_u24: consuming_reader get_u24
  unfolding get_u24_def by (rule get_u_consuming) simp

interpretation get_u32: consuming_reader get_u32
  unfolding get_u32_def by (rule get_u_consuming) simp

interpretation get_u64: consuming_reader get_u64
  unfolding get_u64_def by (rule get_u_consuming) simp

interpretation get_bytes: reader_contract "get_bytes n" for n
  by unfold_locales (auto simp: get_bytes_def octets_inv_def cap_def split: if_splits)

interpretation peek_bytes: reader_contract "peek_bytes n" for n
  by unfold_locales (auto simp: peek_bytes_def split: if_splits)

interpretation slice: reader_contract "slice n" for n
  by unfold_locales (auto simp: slice_def split: if_splits)

interpretation slice_last: reader_contract "slice_last n" for n
  by unfold_locales (auto simp: slice_last_def split: if_splits)

interpretation skip: reader_contract "skip n" for n
  by unfold_locales (auto simp: skip_def octets_inv_def cap_def split: if_splits)

lemma consuming_if:
  "consuming_reader m \<Longrightarrow> consuming_reader m' \<Longrightarrow> consuming_reader (if c then m else m')"
  by simp

lemma consuming_fail: "consuming_reader (fail e)"
  by unfold_locales (auto simp: fail_def)

lemma consuming_panic: "consuming_reader panic"
  by unfold_locales (auto simp: panic_def)

text \<open>\<open>and_then\<close> whose continuation consumes: a peek before the read.\<close>

lemma consuming_after:
  assumes "reader_contract m" and "\<And>x. consuming_reader (k x)"
  shows "consuming_reader (and_then m k)"
proof -
  have r: "reader_contract (and_then m k)"
    using assms by (intro reader_and_then) (simp_all add: consuming_reader_def)
  have "o_off b < o_off b'" if inv: "octets_inv b" and eq: "and_then m k b = (Ok y, b')" for b y b'
  proof -
    from eq obtain x b1 where m: "m b = (Ok x, b1)" and k: "k x b1 = (Ok y, b')"
      by (rule and_then_OkE)
    have c: "cursor m" using assms(1) by (rule reader_is_cursor)
    have "o_off b \<le> o_off b1" by (rule cursor.forward [OF c inv m])
    also have "\<dots> < o_off b'"
      by (rule consuming_reader.consumes [OF assms(2) cursor.inv [OF c inv m] k])
    finally show ?thesis .
  qed
  with r show ?thesis by (simp add: consuming_reader_def consuming_reader_axioms_def)
qed

lemma consuming_after_gets:
  "(\<And>x. consuming_reader (k x)) \<Longrightarrow> consuming_reader (and_then (gets f) k)"
  by (intro consuming_after reader_gets)

lemmas consuming_intros = consuming_if consuming_fail consuming_panic
  get_u8.consuming_reader_axioms get_u16.consuming_reader_axioms
  get_u32.consuming_reader_axioms get_u64.consuming_reader_axioms

interpretation get_varint: consuming_reader get_varint
  unfolding get_varint_def
  by (intro consuming_after peek_u8.reader_contract_axioms)
    (auto split: option.splits
      intro!: consuming_after_gets consuming_intros consuming_and_then reader_ret)

interpretation get_bytes_with_u8_length: consuming_reader get_bytes_with_u8_length
  unfolding get_bytes_with_u8_length_def
  by (intro consuming_and_then get_u8.consuming_reader_axioms get_bytes.reader_contract_axioms)

interpretation get_bytes_with_u16_length: consuming_reader get_bytes_with_u16_length
  unfolding get_bytes_with_u16_length_def
  by (intro consuming_and_then get_u16.consuming_reader_axioms get_bytes.reader_contract_axioms)

interpretation get_bytes_with_varint_length: consuming_reader get_bytes_with_varint_length
  unfolding get_bytes_with_varint_length_def
  by (intro consuming_and_then get_varint.consuming_reader_axioms get_bytes.reader_contract_axioms)


section \<open>Big-endian integers\<close>

lemma be_val_snoc: "be_val (bs @ [b]) = be_val bs * 256 + unat b"
  by (simp add: be_val_def)

lemma be_val_simps [simp]: "be_val [] = 0" "be_val [b] = unat b"
  by (simp_all add: be_val_def)

lemma length_be_bytes [simp]: "length (be_bytes n v) = n"
  by (induction n v rule: be_bytes.induct) simp_all

lemma be_val_be_bytes: "be_val (be_bytes n v) = v mod 256 ^ n"
proof (induction n v rule: be_bytes.induct)
  case (2 n v)
  have "be_val (be_bytes (Suc n) v) = (v div 256) mod 256 ^ n * 256 + v mod 256"
    by (simp add: be_val_snoc 2 unat_of_nat)
  also have "\<dots> = v mod (256 * 256 ^ n)"
    by (simp add: mod_mult2_eq)
  finally show ?case by simp
qed simp

lemma be_val_bound: "be_val bs < 256 ^ length bs"
proof (induction bs rule: rev_induct)
  case (snoc b bs)
  have "unat b < 256" by (rule order_less_le_trans [OF unsigned_less]) simp
  with snoc show ?case by (simp add: be_val_snoc)
qed simp

text \<open>Reading back what \<open>put_u!\<close> wrote.\<close>

lemma put_u_ok:
  assumes "o_off b + len \<le> length (o_buf b)"
  shows "put_u v len b = (Ok (o_off b),
      b\<lparr>o_buf := take (o_off b) (o_buf b) @ be_bytes len (unat v) @ drop (o_off b + len) (o_buf b),
        o_off := o_off b + len\<rparr>)"
  using assms by (simp add: put_u_def)

lemma get_u_at:
  assumes "o_off b + len \<le> length (o_buf b)"
  shows "get_u len b = (Ok (of_nat (be_val (take len (drop (o_off b) (o_buf b))))), b\<lparr>o_off := o_off b + len\<rparr>)"
proof -
  have "\<not> length (o_buf b) - o_off b < len" using assms by simp
  then show ?thesis by (simp add: get_u_def peek_u_def and_then_def Let_def)
qed

lemma get_put_u:
  fixes v :: "'a::len word"
  assumes "put_u v len b = (Ok i, b')" and "unat v < 256 ^ len"
  shows "get_u len (b'\<lparr>o_off := i\<rparr>) = (Ok v, b')"
proof -
  from assms(1) have fits: "o_off b + len \<le> length (o_buf b)" and i: "i = o_off b"
    and b': "b' = b\<lparr>o_buf := take (o_off b) (o_buf b) @ be_bytes len (unat v) @ drop (o_off b + len) (o_buf b),
        o_off := o_off b + len\<rparr>"
    by (auto simp: put_u_def split: if_splits)
  show ?thesis
    using fits assms(2) by (subst get_u_at) (simp_all add: b' i be_val_be_bytes)
qed

section \<open>Variable-length integers\<close>

lemma be_bytes_Cons: "be_bytes (Suc n) v = of_nat (v div 256 ^ n) # be_bytes n v"
  by (induction n arbitrary: v) (simp_all add: div_mult2_eq)

lemma be_val_Cons: "be_val (b # bs) = unat b * 256 ^ length bs + be_val bs"
proof (induction bs rule: rev_induct)
  case (snoc c bs)
  then show ?case using be_val_snoc [of "b # bs" c] be_val_snoc [of bs c] by (simp add: algebra_simps)
qed simp

lemma nat_or_shifted:
  assumes "a < 2 ^ k"
  shows "a OR push_bit k t = a + push_bit k (t::nat)"
proof -
  have "a = take_bit k a" using assms by (simp add: take_bit_nat_eq_self)
  then have "\<not> bit a n \<or> \<not> bit (push_bit k t) n" for n
    by (metis bit_push_bit_iff bit_take_bit_iff linorder_not_less)
  then show ?thesis by (simp add: disjunctive_add)
qed

lemma tag_byte:
  assumes "unat (x::u8) < 64" and "unat m = 64 * t"
  shows "unat (x OR m) = unat x + 64 * t"
  using nat_or_shifted [of "unat x" 6 t] assms by (simp add: unsigned_or_eq push_bit_eq_mult mult.commute)

lemma tagged_bytes:
  assumes "v < 64 * 256 ^ n" and "unat (m::u8) = 64 * t"
  defines "bs \<equiv> be_bytes (Suc n) v"
  defines "bs' \<equiv> bs[0 := bs ! 0 OR m]"
  shows "be_val bs' = 64 * t * 256 ^ n + v" and "unat (drop_bit 6 (bs' ! 0)) = t"
    and "length bs' = Suc n"
proof -
  let ?h = "of_nat (v div 256 ^ n) :: u8"
  have lt: "v div 256 ^ n < 64" using assms(1) by (simp add: less_mult_imp_div_less)
  then have h: "unat ?h = v div 256 ^ n" by (simp add: unat_of_nat)
  have bs': "bs' = (?h OR m) # be_bytes n v"
    by (simp add: bs'_def bs_def be_bytes_Cons del: be_bytes.simps)
  have tag: "unat (?h OR m) = v div 256 ^ n + 64 * t"
    using tag_byte [of ?h m t] lt h assms(2) by simp
  have "be_val bs' = (v div 256 ^ n + 64 * t) * 256 ^ n + v mod 256 ^ n"
    by (simp add: bs' be_val_Cons tag be_val_be_bytes)
  also have "\<dots> = 64 * t * 256 ^ n + v"
    by (simp add: algebra_simps)
  finally show "be_val bs' = 64 * t * 256 ^ n + v" .
  show "unat (drop_bit 6 (bs' ! 0)) = t"
    using lt by (simp add: bs' drop_bit_eq_div unat_div tag)
  show "length bs' = Suc n" by (simp add: bs')
qed

lemma and_mask_word:
  assumes "unat (m::'a::len word) = 2 ^ k - 1"
  shows "unat (x AND m) = unat x mod 2 ^ k"
proof -
  have "unat m = mask k" using assms by (simp add: mask_eq_exp_minus_1)
  then show ?thesis by (simp add: unsigned_and_eq take_bit_eq_mask [symmetric] take_bit_eq_mod)
qed

lemma varint_parse_len_tag:
  assumes "unat (drop_bit 6 x) = t"
  shows "t = 0 \<Longrightarrow> varint_parse_len x = Some 1" "t = 1 \<Longrightarrow> varint_parse_len x = Some 2"
    "t = 2 \<Longrightarrow> varint_parse_len x = Some 4" "t = 3 \<Longrightarrow> varint_parse_len x = Some 8"
proof -
  have "drop_bit 6 x = of_nat (unat (drop_bit 6 x))" by simp
  with assms have "drop_bit 6 x = of_nat t" by simp
  then show "t = 0 \<Longrightarrow> varint_parse_len x = Some 1" "t = 1 \<Longrightarrow> varint_parse_len x = Some 2"
    "t = 2 \<Longrightarrow> varint_parse_len x = Some 4" "t = 3 \<Longrightarrow> varint_parse_len x = Some 8"
    by (simp_all add: varint_parse_len_def)
qed

text \<open>The cursor after a big-endian integer with a tag in its first byte has been written.\<close>

definition tagged :: "nat \<Rightarrow> u8 \<Rightarrow> nat \<Rightarrow> octets \<Rightarrow> octets" where
  "tagged n m v b = b\<lparr>o_buf := take (o_off b) (o_buf b)
         @ (let bs = be_bytes (Suc n) v in bs[0 := bs ! 0 OR m])
         @ drop (o_off b + Suc n) (o_buf b),
       o_off := o_off b + Suc n\<rparr>"

lemma put_tagged:
  fixes w :: "'a::len word"
  assumes "o_off b + Suc n \<le> length (o_buf b)" and "unat w = v"
  shows "and_then (put_u w (Suc n)) (\<lambda>i. or_byte i m) b = (Ok (o_off b), tagged n m v b)"
proof -
  have "length (take (o_off b) (o_buf b)) = o_off b" using assms by simp
  then show ?thesis
    using assms
    by (simp add: put_u_ok and_then_def or_byte_def Let_def list_update_append nth_append tagged_def
        del: be_bytes.simps)
qed

lemma put_untagged:
  fixes w :: "'a::len word"
  assumes "o_off b + Suc n \<le> length (o_buf b)" and "unat w = v"
  shows "put_u w (Suc n) b = (Ok (o_off b), tagged n 0 v b)"
  using put_u_ok [OF assms(1), of w] assms(2) by (simp add: tagged_def del: be_bytes.simps)

text \<open>Reading a varint whose first byte carries the tag of its length.\<close>

lemma strip_tag:
  fixes m :: "'a::len word" and v :: u64
  assumes "unat m = 2 ^ k - 1" and "unat v < 2 ^ k" and "k \<le> LENGTH('a)" and "k \<le> 64"
  shows "ucast (of_nat (c * 2 ^ k + unat v) AND m) = v"
proof -
  let ?x = "of_nat (c * 2 ^ k + unat v) :: 'a word"
  have "unat (?x AND m) = unat ?x mod 2 ^ k" using assms(1) by (rule and_mask_word)
  also have "\<dots> = (c * 2 ^ k + unat v) mod 2 ^ k"
    using assms(3) by (simp only: unat_of_nat) (simp add: mod_mod_cancel le_imp_power_dvd)
  also have "\<dots> = unat v" using assms(2) by simp
  finally have "unat (?x AND m) = unat v" .
  then show ?thesis
    by (metis of_nat_unat ucast_id)
qed

lemma get_varint_tagged:
  assumes pos: "o_off b + Suc n \<le> length (o_buf b)"
    and first: "unat (drop_bit 6 (o_buf b ! o_off b)) = t"
    and tag: "(Suc n, t) \<in> {(1, 0), (2, 1), (4, 2), (8, 3)}"
    and val: "be_val (take (Suc n) (drop (o_off b) (o_buf b))) = 64 * t * 256 ^ n + unat v"
    and small: "unat v < 64 * 256 ^ n"
  shows "get_varint b = (Ok v, b\<lparr>o_off := o_off b + Suc n\<rparr>)"
proof -
  have peek: "peek_u8 b = (Ok (o_buf b ! o_off b), b)"
    using pos by (simp add: peek_u8_def peek_u_def Let_def take_Suc_conv_app_nth hd_drop_conv_nth
        take_Suc drop_eq_Nil)
  have cap: "\<not> cap b < Suc n" using pos by (simp add: cap_def)
  note defs = get_varint_def and_then_def gets_def ret_def
  from tag consider "n = 0" "t = 0" | "n = 1" "t = 1" | "n = 3" "t = 2" | "n = 7" "t = 3"
    by auto
  then show ?thesis
  proof cases
    case 1
    then have "get_u8 b = (Ok (of_nat (unat v)), b\<lparr>o_off := o_off b + 1\<rparr>)"
      using get_u_at [OF pos, where 'a = 8] val by (simp add: get_u8_def)
    moreover have "ucast (of_nat (unat v) :: u8) = v"
    proof -
      have "unat (of_nat (unat v) :: u8) = unat v" using small 1 by (simp only: unat_of_nat) simp
      then show ?thesis by (metis of_nat_unat ucast_id)
    qed
    ultimately show ?thesis
      using 1 varint_parse_len_tag [OF first] cap by (simp add: defs peek)
  next
    case 2
    then have "get_u16 b = (Ok (of_nat (1 * 2 ^ 14 + unat v)), b\<lparr>o_off := o_off b + 2\<rparr>)"
      using get_u_at [OF pos, where 'a = 16] val by (simp add: get_u16_def numeral_2_eq_2)
    moreover have "ucast (of_nat (1 * 2 ^ 14 + unat v) AND (0x3fff :: u16)) = v"
      using small 2 by (intro strip_tag) auto
    ultimately show ?thesis
      using 2 varint_parse_len_tag [OF first] cap by (simp add: defs peek numeral_2_eq_2)
  next
    case 3
    then have "get_u32 b = (Ok (of_nat (2 * 2 ^ 30 + unat v)), b\<lparr>o_off := o_off b + 4\<rparr>)"
      using get_u_at [OF pos, where 'a = 32] val by (simp add: get_u32_def)
    moreover have "ucast (of_nat (2 * 2 ^ 30 + unat v) AND (0x3fffffff :: u32)) = v"
      using small 3 by (intro strip_tag) auto
    ultimately show ?thesis
      using 3 varint_parse_len_tag [OF first] cap by (simp add: defs peek)
  next
    case 4
    then have "get_u64 b = (Ok (of_nat (3 * 2 ^ 62 + unat v)), b\<lparr>o_off := o_off b + 8\<rparr>)"
      using get_u_at [OF pos, where 'a = 64] val by (simp add: get_u64_def)
    moreover have "ucast (of_nat (3 * 2 ^ 62 + unat v) AND (0x3fffffffffffffff :: u64)) = v"
      using small 4 by (intro strip_tag) auto
    ultimately show ?thesis
      using 4 varint_parse_len_tag [OF first] cap by (simp add: defs peek)
  qed
qed

lemma get_varint_of_tagged:
  assumes "o_off b + Suc n \<le> length (o_buf b)"
    and "(Suc n, t) \<in> {(1, 0), (2, 1), (4, 2), (8, 3)}"
    and "unat m = 64 * t" and "unat v < 64 * 256 ^ n"
  shows "get_varint ((tagged n m (unat v) b)\<lparr>o_off := o_off b\<rparr>) = (Ok v, tagged n m (unat v) b)"
proof -
  define bs where "bs = (be_bytes (Suc n) (unat v))[0 := be_bytes (Suc n) (unat v) ! 0 OR m]"
  define b0 where "b0 = (tagged n m (unat v) b)\<lparr>o_off := o_off b\<rparr>"
  note bs = tagged_bytes [OF assms(4,3), folded bs_def]
  have b0: "o_off b0 = o_off b" "o_buf b0 = take (o_off b) (o_buf b) @ bs @ drop (o_off b + Suc n) (o_buf b)"
    by (simp_all add: b0_def tagged_def bs_def Let_def del: be_bytes.simps)
  have "get_varint b0 = (Ok v, b0\<lparr>o_off := o_off b0 + Suc n\<rparr>)"
    by (rule get_varint_tagged [where t = t])
      (use assms bs in \<open>simp_all add: b0 nth_append\<close>)
  then show ?thesis by (simp add: b0_def tagged_def)
qed

lemma put_varint_tagged:
  assumes "varint_len v = Some (Suc n)" and "o_off b + Suc n \<le> length (o_buf b)"
  obtains m t where "put_varint v b = (Ok (o_off b), tagged n m (unat v) b)"
    and "(Suc n, t) \<in> {(1, 0), (2, 1), (4, 2), (8, 3)}"
    and "unat m = 64 * t" and "unat v < 64 * 256 ^ n"
proof -
  have cap: "\<not> cap b < Suc n" using assms(2) by (simp add: cap_def)
  note put = put_tagged [OF assms(2)] and put1 = put_untagged [OF assms(2)]
  have le: "(v \<le> k) = (unat v \<le> unat k)" for k by (rule word_le_nat_alt)
  note defs = put_varint_def put_varint_with_len_def and_then_def [of "gets cap"] gets_def
    put_u8_def put_u16_def put_u32_def put_u64_def
  from assms(1) consider "n = 0" "unat v < 64" | "n = 1" "unat v < 64 * 256 ^ 1"
    | "n = 3" "unat v < 64 * 256 ^ 3" | "n = 7" "unat v < 64 * 256 ^ 7"
    by (auto simp: varint_len_def le split: if_splits)
  then show thesis
  proof cases
    case 1
    have "unat (ucast v :: u8) = unat v" using 1(2) by (simp add: unsigned_ucast_eq take_bit_nat_eq_self)
    from 1 that [of 0 0] put1 [OF this] assms(1) cap show ?thesis by (simp add: defs)
  next
    case 2
    have w: "unat (ucast v :: u16) = unat v" using 2(2) by (simp add: unsigned_ucast_eq take_bit_nat_eq_self)
    have n2: "Suc n = 2" using 2(1) by simp
    from put [OF w, where m = "0x40"]
    have "and_then (put_u16 (ucast v)) (\<lambda>i. or_byte i 0x40) b = (Ok (o_off b), tagged n 0x40 (unat v) b)"
      by (simp only: put_u16_def n2)
    moreover from assms(1) cap have "varint_len v = Some 2" "\<not> cap b < 2" unfolding n2 by auto
    ultimately show ?thesis using 2 by (intro that [of "0x40" 1]) (simp_all add: defs(1-4))
  next
    case 3
    have "unat (ucast v :: u32) = unat v" using 3(2) by (simp add: unsigned_ucast_eq take_bit_nat_eq_self)
    from 3 that [of "0x80" 2] put [OF this, where m = "0x80"] assms(1) cap show ?thesis by (simp add: defs)
  next
    case 4
    with that [of "0xc0" 3] put [of v, OF refl, where m = "0xc0"] assms(1) cap show ?thesis by (simp add: defs)
  qed
qed
text \<open>
  C16. Variable-length integers round trip: a value that has an encoding is written in exactly
  \<open>varint_len\<close> bytes when they fit, the write returns the position it started at, and reading
  at that position gives the value back and leaves the cursor where the write left it.
\<close>

lemma varint_roundtrip:
  assumes "varint_len v = Some n" and "o_off b + n \<le> length (o_buf b)"
  shows "\<exists>b'. put_varint v b = (Ok (o_off b), b') \<and> get_varint (b'\<lparr>o_off := o_off b\<rparr>) = (Ok v, b')
     \<and> o_off b' = o_off b + n"
proof -
  obtain k where n: "n = Suc k"
    using assms(1) by (cases n) (auto simp: varint_len_def split: if_splits)
  note a = assms [unfolded n]
  from put_varint_tagged [OF a] obtain m t where "put_varint v b = (Ok (o_off b), tagged k m (unat v) b)"
    and "(Suc k, t) \<in> {(1, 0), (2, 1), (4, 2), (8, 3)}"
    and "unat m = 64 * t" and "unat v < 64 * 256 ^ k" by blast
  with get_varint_of_tagged [OF a(2)] show ?thesis by (auto simp: n tagged_def)
qed

theorem varint_roundtrip_witness:
  "\<exists>b'. put_varint 494878333 (with_slice [0, 0, 0, 0, 7]) = (Ok 0, b')
     \<and> get_varint (b'\<lparr>o_off := 0\<rparr>) = (Ok 494878333, b') \<and> o_off b' = 4"
  using varint_roundtrip [of 494878333 4 "with_slice [0, 0, 0, 0, 7]"] by (simp add: varint_len_def)

section \<open>\<open>slice_last\<close>\<close>

text \<open>
  \<open>slice_last\<close> is documented to return the last \<open>len\<close> bytes. It subtracts from the
  remaining capacity but indexes the whole buffer, so that a cursor which has consumed \<open>off\<close> bytes
  gets \<open>off + len\<close> bytes back: the documented ones preceded by \<open>off\<close> others.
\<close>

lemma slice_last_excess:
  assumes "octets_inv b" and "len \<le> cap b"
  shows "\<exists>xs. slice_last len b = (Ok xs, b) \<and> length xs = o_off b + len
     \<and> drop (o_off b) xs = drop (octets_len b - len) (o_buf b)"
proof -
  from assms have "cap b - len + o_off b = length (o_buf b) - len"
    and "length (o_buf b) - (cap b - len) = o_off b + len"
    by (auto simp: cap_def octets_inv_def)
  with assms show ?thesis by (simp add: slice_last_def octets_len_def add.commute)
qed

theorem slice_last_excess_witness:
  "\<exists>xs. slice_last 1 \<lparr>o_buf = [1, 2, 3, 4], o_off = 2\<rparr> = (Ok xs, \<lparr>o_buf = [1, 2, 3, 4], o_off = 2\<rparr>)
     \<and> length xs = 3 \<and> drop 2 xs = [4]"
  using slice_last_excess [of "\<lparr>o_buf = [1, 2, 3, 4], o_off = 2\<rparr>" 1]
  by (simp add: octets_inv_def cap_def octets_len_def)

section \<open>Reading a known layout\<close>

text \<open>
  \<open>reads m bs rest x\<close>: wherever the remaining bytes are \<open>bs @ rest\<close>, the reader consumes exactly
  \<open>bs\<close> and returns \<open>x\<close>. The predicate composes along the question mark operator.
\<close>

definition reads :: "(octets, 'e, 'a) meth \<Rightarrow> bytes \<Rightarrow> bytes \<Rightarrow> 'a \<Rightarrow> bool" where
  "reads m bs rest x \<longleftrightarrow> (\<forall>b. o_off b \<le> length (o_buf b) \<and> drop (o_off b) (o_buf b) = bs @ rest
     \<longrightarrow> m b = (Ok x, b\<lparr>o_off := o_off b + length bs\<rparr>))"

lemma remaining_length:
  assumes "o_off b \<le> length (o_buf b) \<and> drop (o_off b) (o_buf b) = xs"
  shows "length (o_buf b) = o_off b + length xs"
  using assms by auto

lemma reads_and_then:
  assumes "reads m bs (cs @ rest) x" and "reads (k x) cs rest y"
  shows "reads (and_then m k) (bs @ cs) rest y"
  unfolding reads_def
proof (intro allI impI)
  fix b :: octets
  assume a: "o_off b \<le> length (o_buf b) \<and> drop (o_off b) (o_buf b) = (bs @ cs) @ rest"
  then have m: "m b = (Ok x, b\<lparr>o_off := o_off b + length bs\<rparr>)"
    using assms(1) by (simp add: reads_def)
  have "drop (length bs) (drop (o_off b) (o_buf b)) = drop (length bs) ((bs @ cs) @ rest)"
    using a by (simp del: drop_drop)
  then have "drop (o_off b + length bs) (o_buf b) = cs @ rest"
    by (simp add: add.commute)
  moreover have "o_off b + length bs \<le> length (o_buf b)" using remaining_length [OF a] by simp
  ultimately have "k x (b\<lparr>o_off := o_off b + length bs\<rparr>)
      = (Ok y, b\<lparr>o_off := o_off b + length bs + length cs\<rparr>)"
    using assms(2) by (simp add: reads_def)
  then show "and_then m k b = (Ok y, b\<lparr>o_off := o_off b + length (bs @ cs)\<rparr>)"
    using m by (simp add: add.assoc)
qed

lemma reads_ret: "reads (ret x) [] rest x"
  by (simp add: reads_def ret_def)

lemma reads_map_err: "reads m bs rest x \<Longrightarrow> reads (map_err f m) bs rest x"
  by (simp add: reads_def)

lemma reads_cap: "reads (gets cap) [] rest (length rest)"
  by (auto simp: reads_def gets_def cap_def simp flip: length_drop)

text \<open>A continuation that only computes.\<close>

lemma reads_then_ret: "reads m bs rest x \<Longrightarrow> reads (and_then m (\<lambda>x. ret (f x))) bs rest (f x)"
  using reads_and_then [of m bs "[]" rest x "\<lambda>x. ret (f x)"] by (simp add: reads_ret)

lemma reads_get_u:
  assumes "length bs = len"
  shows "reads (get_u len) bs rest (of_nat (be_val bs))"
  unfolding reads_def
proof (intro allI impI)
  fix b :: octets
  assume a: "o_off b \<le> length (o_buf b) \<and> drop (o_off b) (o_buf b) = bs @ rest"
  from remaining_length [OF a] have "o_off b + len \<le> length (o_buf b)" using assms by simp
  from get_u_at [OF this] a assms
  show "get_u len b = (Ok (of_nat (be_val bs)), b\<lparr>o_off := o_off b + length bs\<rparr>)" by simp
qed

lemma reads_get_u8: "reads get_u8 [x] rest x"
proof -
  have "reads (get_u 1 :: u8 reader) [x] rest (of_nat (be_val [x]))" by (rule reads_get_u) simp
  then show ?thesis by (simp add: get_u8_def)
qed

lemma reads_get_u32: "reads get_u32 (be_bytes 4 (unat v)) rest v"
proof -
  have "unat v < 256 ^ 4" by (rule order_less_le_trans [OF unsigned_less]) simp
  moreover have "reads (get_u 4 :: u32 reader) (be_bytes 4 (unat v)) rest
      (of_nat (be_val (be_bytes 4 (unat v))))" by (rule reads_get_u) simp
  ultimately show ?thesis by (simp add: get_u32_def be_val_be_bytes)
qed

lemma reads_get_bytes: "length bs = n \<Longrightarrow> reads (get_bytes n) bs rest (with_slice bs)"
  unfolding reads_def
proof (intro allI impI)
  fix b :: octets
  assume n: "length bs = n" 
    and a: "o_off b \<le> length (o_buf b) \<and> drop (o_off b) (o_buf b) = bs @ rest"
  note remaining_length [OF a]
  with n a show "get_bytes n b = (Ok (with_slice bs), b\<lparr>o_off := o_off b + length bs\<rparr>)"
    by (simp add: get_bytes_def cap_def with_slice_def)
qed

text \<open>The encoding of RFC 9000, section 16: the two top bits hold the logarithm of the length.\<close>

definition varint_bytes :: "nat \<Rightarrow> bytes" where
  "varint_bytes v =
     (if v < 2 ^ 6 then be_bytes 1 v
      else if v < 2 ^ 14 then be_bytes 2 (1 * 2 ^ 14 + v)
      else if v < 2 ^ 30 then be_bytes 4 (2 * 2 ^ 30 + v)
      else be_bytes 8 (3 * 2 ^ 62 + v))"

lemma reads_tagged:
  assumes "(Suc n, t) \<in> {(1, 0), (2, 1), (4, 2), (8, 3)}" and "v < 64 * 256 ^ n"
  shows "reads get_varint (be_bytes (Suc n) (64 * t * 256 ^ n + v)) rest (of_nat v)"
  unfolding reads_def
proof (intro allI impI)
  fix b :: octets
  let ?X = "64 * t * 256 ^ n + v"
  assume a: "o_off b \<le> length (o_buf b) \<and> drop (o_off b) (o_buf b) = be_bytes (Suc n) ?X @ rest"
  from remaining_length [OF a] have fits: "o_off b + Suc n \<le> length (o_buf b)"
    by (simp del: be_bytes.simps)
  have t: "t \<le> 3" using assms(1) by auto
  have small: "?X div 256 ^ n = 64 * t + v div 256 ^ n" "v div 256 ^ n < 64"
    using assms(2) by (simp_all add: less_mult_imp_div_less)
  have "o_buf b ! o_off b = (be_bytes (Suc n) ?X @ rest) ! 0"
    using a fits by (metis add.right_neutral nth_drop)
  also have "\<dots> = of_nat (64 * t + v div 256 ^ n)"
    by (simp only: be_bytes_Cons small) simp
  finally have "unat (o_buf b ! o_off b) = 64 * t + v div 256 ^ n"
    using small t by (simp only: unat_of_nat) simp
  then have first: "unat (drop_bit 6 (o_buf b ! o_off b)) = t"
    using small by (simp add: drop_bit_eq_div unat_div)
  have n: "64 * 256 ^ n \<le> (2::nat) ^ 62" using assms(1) by auto
  have v: "unat (of_nat v :: u64) = v"
    using assms(2) n by (simp only: unat_of_nat) simp
  have "?X < 256 ^ Suc n"
  proof -
    have "64 * t * 256 ^ n \<le> 192 * 256 ^ n" using t by simp
    with assms(2) have "?X < 192 * 256 ^ n + 64 * 256 ^ n" by linarith
    then show ?thesis by simp
  qed
  then have "be_val (take (Suc n) (drop (o_off b) (o_buf b))) = 64 * t * 256 ^ n + unat (of_nat v :: u64)"
    using a v by (simp add: be_val_be_bytes del: be_bytes.simps power_Suc)
  from get_varint_tagged [OF fits first assms(1) this] v assms(2)
  show "get_varint b = (Ok (of_nat v), b\<lparr>o_off := o_off b + length (be_bytes (Suc n) ?X)\<rparr>)"
    by (simp del: be_bytes.simps)
qed

lemma reads_get_varint:
  assumes "v < 2 ^ 62"
  shows "reads get_varint (varint_bytes v) rest (of_nat v)"
proof -
  have "be_bytes (Suc 1) = be_bytes 2" by (simp add: numeral_2_eq_2)
  with reads_tagged [of 1 1 v rest]
  have "v < 2 ^ 14 \<Longrightarrow> reads get_varint (be_bytes 2 (2 ^ 14 + v)) rest (of_nat v)"
    by (simp del: be_bytes.simps)
  with assms reads_tagged [of 0 0 v rest] reads_tagged [of 3 2 v rest] reads_tagged [of 7 3 v rest]
  show ?thesis by (simp add: varint_bytes_def del: be_bytes.simps)
qed

section \<open>Panics and errors of the readers\<close>

lemma no_panic_octets: "no_panic (get_u len)" "no_panic (get_bytes n)" "no_panic peek_u8"
  by (auto simp: no_panic_def get_u_def peek_u8_def peek_u_def and_then_def get_bytes_def Let_def)

lemma varint_parse_len_some: "\<exists>n. varint_parse_len x = Some n \<and> n \<in> {1, 2, 4, 8}"
proof -
  have "unat x < 256" by (rule order_less_le_trans [OF unsigned_less]) simp
  then have "unat (drop_bit 6 x) < 4" by (simp add: drop_bit_eq_div unat_div)
  then have "unat (drop_bit 6 x) \<in> {0, 1, 2, 3}" by auto
  with varint_parse_len_tag [OF refl, of x] show ?thesis by auto
qed

lemma no_panic_get_varint: "no_panic get_varint"
  unfolding get_varint_def
proof (rule no_panic_and_then [OF no_panic_octets(3)])
  fix first
  obtain n where n: "varint_parse_len first = Some n" "n \<in> {1, 2, 4, 8}"
    using varint_parse_len_some by blast
  then show "no_panic (case varint_parse_len first of None \<Rightarrow> panic
     | Some len \<Rightarrow> and_then (gets cap) (\<lambda>c.
         if len > c then fail BufferTooShortError
         else if len = 1 then and_then get_u8 (\<lambda>x. ret (ucast x))
         else if len = 2 then and_then get_u16 (\<lambda>x. ret (ucast (x AND 0x3fff)))
         else if len = 4 then and_then get_u32 (\<lambda>x. ret (ucast (x AND 0x3fffffff)))
         else if len = 8 then and_then get_u64 (\<lambda>x. ret (x AND 0x3fffffffffffffff))
         else panic))"
    unfolding n(1) option.case get_u8_def get_u16_def get_u32_def get_u64_def
    using n(2)
    by (auto intro!: no_panic_and_then no_panic_basic no_panic_octets)
qed

lemma get_u8_eq:
  "o_off b \<le> length (o_buf b) \<Longrightarrow> get_u8 b =
     (if o_off b < length (o_buf b) then (Ok (o_buf b ! o_off b), b\<lparr>o_off := o_off b + 1\<rparr>)
      else (Err BufferTooShortError, b))"
  by (auto simp: get_u8_def get_u_def peek_u_def and_then_def Let_def take_Suc hd_drop_conv_nth)

lemma be_bytes_be_val: "be_bytes (length bs) (be_val bs) = bs"
proof (induction bs rule: rev_induct)
  case (snoc b bs)
  have "unat b < 256" by (rule order_less_le_trans [OF unsigned_less]) simp
  then have "unat (of_nat (be_val bs * 256 + unat b) :: u8) = unat b" by (simp only: unat_of_nat) simp
  then have "(of_nat (be_val bs * 256 + unat b) :: u8) = b" by (simp only: word_unat_eq_iff)
  with snoc \<open>unat b < 256\<close> show ?case by (simp add: be_val_snoc del: of_nat_add of_nat_mult)
qed simp

end
