(* ===== verification/Quic_Parse.thy ===== *)
theory Quic_Parse
  imports Octets
begin

unbundle bit_operations_syntax

text \<open>
  \<open>pemi/src/quic_parse.rs\<close> and \<open>pemi/src/common.rs\<close>: the version-independent part of QUIC packet
  headers. \<open>from_bytes\<close> is the parser, over the cursor of theory \<open>Octets\<close>; the specification it
  is compared with is \<open>long_header_bytes\<close>, the layout of a long header in the order RFC 9000
  gives its fields.
\<close>

section \<open>Model\<close>

datatype error = BufferTooShort | MayNotQUIC | InvalidState | Other string

fun error_of_octets :: "octets_error \<Rightarrow> error" where
  "error_of_octets BufferTooShortError = BufferTooShort"

definition FORM_BIT :: u8 where "FORM_BIT = 0x80"
definition FIXED_BIT :: u8 where "FIXED_BIT = 0x40"
definition SPIN_BIT :: u8 where "SPIN_BIT = 0x20"
definition TYPE_MASK :: u8 where "TYPE_MASK = 0x30"
definition MAX_CID_LEN :: u8 where "MAX_CID_LEN = 20"
definition PROTOCOL_VERSION_V1 :: u32 where "PROTOCOL_VERSION_V1 = 1"

definition version_is_supported :: "u32 \<Rightarrow> bool" where
  "version_is_supported version \<longleftrightarrow> version = PROTOCOL_VERSION_V1"

datatype pkt_type = Initial | Retry | Handshake | ZeroRTT | VersionNegotiation | Short

datatype connection_id = CidVec bytes | CidRef bytes

fun cid_as_ref :: "connection_id \<Rightarrow> bytes" where
  "cid_as_ref (CidVec v) = v"
| "cid_as_ref (CidRef v) = v"

definition cid_default :: connection_id where
  "cid_default = CidVec []"

fun cid_to_vec :: "connection_id \<Rightarrow> bytes" where
  "cid_to_vec (CidVec v) = v"
| "cid_to_vec (CidRef v) = v"

definition cid_into_owned :: "connection_id \<Rightarrow> connection_id" where
  "cid_into_owned c = CidVec (cid_to_vec c)"

definition cid_eq :: "connection_id \<Rightarrow> connection_id \<Rightarrow> bool" where
  "cid_eq a b \<longleftrightarrow> cid_as_ref a = cid_as_ref b"

definition cid_clone :: "connection_id \<Rightarrow> connection_id" where
  "cid_clone c = CidVec (cid_as_ref c)"

record header =
  h_ty :: pkt_type
  h_spin :: bool
  h_version :: u32
  h_dcid :: connection_id
  h_scid :: connection_id
  h_length :: nat

definition is_long :: "u8 \<Rightarrow> bool" where
  "is_long b \<longleftrightarrow> b AND FORM_BIT \<noteq> 0"

definition fixed_bit :: "u8 \<Rightarrow> bool" where
  "fixed_bit b \<longleftrightarrow> b AND FIXED_BIT \<noteq> 0"

definition spin_state :: "u8 \<Rightarrow> bool" where
  "spin_state b \<longleftrightarrow> b AND SPIN_BIT \<noteq> 0"

type_synonym 'a parser = "(octets, error, 'a) meth"

definition try_octets :: "'a reader \<Rightarrow> 'a parser" where
  "try_octets = map_err error_of_octets"

definition is_udp_padding :: "bool parser" where
  "is_udp_padding = and_then (try_octets peek_u8) (\<lambda>first. ret (first = 0))"

text \<open>The \<open>match (first & TYPE_MASK) >> 4\<close>; \<open>None\<close> is its \<open>unreachable!()\<close> arm.\<close>

definition long_type :: "u8 \<Rightarrow> u32 \<Rightarrow> pkt_type option" where
  "long_type first version =
     (if version = 0 then Some VersionNegotiation
      else let k = drop_bit 4 (first AND TYPE_MASK) in
        if k = 0x00 then Some Initial else if k = 0x01 then Some ZeroRTT
        else if k = 0x02 then Some Handshake else if k = 0x03 then Some Retry else None)"

definition payload_length :: "pkt_type \<Rightarrow> nat parser" where
  "payload_length ty = (case ty of
       Initial \<Rightarrow> and_then (try_octets get_bytes_with_varint_length) (\<lambda>_.
                  and_then (try_octets get_varint) (\<lambda>v. ret (unat v)))
     | Handshake \<Rightarrow> and_then (try_octets get_varint) (\<lambda>v. ret (unat v))
     | ZeroRTT \<Rightarrow> and_then (try_octets get_varint) (\<lambda>v. ret (unat v))
     | Retry \<Rightarrow> gets cap
     | VersionNegotiation \<Rightarrow> gets cap
     | Short \<Rightarrow> panic)"

text \<open>
  A connection ID with its length byte, with the check that panics for a version the parser
  supports.
\<close>

definition long_cid :: "u32 \<Rightarrow> bytes parser" where
  "long_cid version = and_then (try_octets get_u8) (\<lambda>len.
     if version_is_supported version \<and> len > MAX_CID_LEN then panic
     else and_then (try_octets (get_bytes (unat len))) (\<lambda>c. ret (to_vec c)))"

definition short_header :: "u8 \<Rightarrow> nat \<Rightarrow> header parser" where
  "short_header first dcid_len =
     (if dcid_len = 0 then fail InvalidState
      else and_then (try_octets (get_bytes dcid_len)) (\<lambda>dcid.
           and_then (gets cap) (\<lambda>c.
           ret \<lparr>h_ty = Short, h_spin = spin_state first, h_version = 0,
                h_dcid = CidVec (to_vec dcid), h_scid = cid_default, h_length = c\<rparr>)))"

definition long_header :: "u8 \<Rightarrow> header parser" where
  "long_header first =
     and_then (try_octets get_u32) (\<lambda>version.
     case long_type first version of
       None \<Rightarrow> panic
     | Some ty \<Rightarrow>
         and_then (long_cid version) (\<lambda>dcid.
         and_then (long_cid version) (\<lambda>scid.
         and_then (payload_length ty) (\<lambda>len.
         ret \<lparr>h_ty = ty, h_spin = False, h_version = version,
              h_dcid = CidVec dcid, h_scid = CidVec scid, h_length = len\<rparr>))))"

definition from_bytes :: "nat \<Rightarrow> header parser" where
  "from_bytes dcid_len = and_then (try_octets get_u8) (\<lambda>first.
     if \<not> is_long first then short_header first dcid_len else long_header first)"

definition from_slice :: "bytes \<Rightarrow> nat \<Rightarrow> (error, header) outcome" where
  "from_slice buf dcid_len = fst (from_bytes dcid_len (with_slice buf))"

section \<open>Connection IDs\<close>

text \<open>Equality ignores how the bytes are held, and copying a connection ID keeps it equal.\<close>

lemma cid_eq_equivalence: "equivp cid_eq"
  by (rule equivpI) (auto simp: reflp_def symp_def transp_def cid_eq_def)

lemma cid_copies_equal: "cid_eq (cid_clone c) c" "cid_eq (cid_into_owned c) c"
  by (cases c; simp add: cid_eq_def cid_clone_def cid_into_owned_def)+

section \<open>The parser keeps the contract of the cursor\<close>

lemma try_octets_consuming: "consuming_reader m \<Longrightarrow> consuming_reader (try_octets m)"
  by (simp add: try_octets_def consuming_map_err)

lemma try_octets_reader: "reader_contract m \<Longrightarrow> reader_contract (try_octets m)"
  by (simp add: try_octets_def reader_map_err)

lemmas consuming_of = get_u8.consuming_reader_axioms get_u32.consuming_reader_axioms
  get_varint.consuming_reader_axioms get_bytes_with_varint_length.consuming_reader_axioms

lemmas parser_intros = try_octets_reader consuming_is_reader [OF try_octets_consuming]
  consuming_of get_bytes.reader_contract_axioms peek_u8.reader_contract_axioms
  reader_intros

interpretation is_udp_padding: reader_contract is_udp_padding
  unfolding is_udp_padding_def by (intro parser_intros)

interpretation payload_length: reader_contract "payload_length ty" for ty
  unfolding payload_length_def by (cases ty) (simp_all, (intro parser_intros)+)

interpretation long_cid: consuming_reader "long_cid version" for version
  unfolding long_cid_def
  by (intro consuming_and_then try_octets_consuming consuming_of) (intro parser_intros)

interpretation short_header: reader_contract "short_header first dcid_len" for first dcid_len
  unfolding short_header_def by (intro parser_intros)

interpretation long_header: consuming_reader "long_header first" for first
  unfolding long_header_def
  by (intro consuming_and_then try_octets_consuming consuming_of)
    (auto split: option.splits
      intro!: parser_intros consuming_is_reader [OF long_cid.consuming_reader_axioms]
        payload_length.reader_contract_axioms)

interpretation from_bytes: consuming_reader "from_bytes dcid_len" for dcid_len
  unfolding from_bytes_def
  by (intro consuming_and_then try_octets_consuming consuming_of reader_if)
    (rule short_header.reader_contract_axioms long_header.reader_contract_axioms)+

section \<open>The layout of a long header\<close>

definition cid_bytes :: "bytes \<Rightarrow> bytes" where
  "cid_bytes c = of_nat (length c) # c"

definition length_field :: "pkt_type \<Rightarrow> bytes \<Rightarrow> nat \<Rightarrow> bytes" where
  "length_field ty token len = (case ty of
       Initial \<Rightarrow> varint_bytes (length token) @ token @ varint_bytes len
     | Handshake \<Rightarrow> varint_bytes len
     | ZeroRTT \<Rightarrow> varint_bytes len
     | _ \<Rightarrow> [])"

definition long_header_bytes ::
    "u8 \<Rightarrow> u32 \<Rightarrow> pkt_type \<Rightarrow> bytes \<Rightarrow> bytes \<Rightarrow> bytes \<Rightarrow> nat \<Rightarrow> bytes" where
  "long_header_bytes first version ty dcid scid token len =
     [first] @ be_bytes 4 (unat version) @ cid_bytes dcid @ cid_bytes scid @ length_field ty token len"

lemma reads_try: "reads m bs rest x \<Longrightarrow> reads (try_octets m) bs rest x"
  by (simp add: try_octets_def reads_map_err)

lemma reads_long_cid:
  assumes "length c \<le> 20"
  shows "reads (long_cid version) (cid_bytes c) rest c"
proof -
  let ?n = "of_nat (length c) :: u8"
  have n: "unat ?n = length c" using assms by (simp only: unat_of_nat) simp
  then have small: "\<not> ?n > MAX_CID_LEN" using assms by (simp add: MAX_CID_LEN_def word_less_nat_alt)
  have "reads (\<lambda>b. and_then (try_octets (get_bytes (unat ?n))) (\<lambda>c. ret (to_vec c)) b) c rest
      (to_vec (with_slice c))"
    using n by (intro reads_then_ret reads_try reads_get_bytes) simp
  then have "reads (long_cid version) ([?n] @ c) rest c"
    unfolding long_cid_def
    by (intro reads_and_then [where x = ?n] reads_try reads_get_u8) (use small in \<open>simp add: to_vec_def\<close>)
  then show ?thesis by (simp add: cid_bytes_def)
qed

lemma reads_varint_nat:
  assumes "v < 2 ^ 62"
  shows "reads (and_then (try_octets get_varint) (\<lambda>x. ret (unat x))) (varint_bytes v) rest v"
proof -
  have "unat (of_nat v :: u64) = v" using assms by (simp only: unat_of_nat) simp
  then show ?thesis
    using reads_then_ret [OF reads_try [OF reads_get_varint [OF assms]], of unat rest] by simp
qed

lemma reads_token:
  assumes "length token < 2 ^ 62"
  shows "reads get_bytes_with_varint_length (varint_bytes (length token) @ token) rest (with_slice token)"
proof -
  let ?n = "of_nat (length token) :: u64"
  have "unat ?n = length token" using assms by (simp only: unat_of_nat) simp
  then show ?thesis
    unfolding get_bytes_with_varint_length_def
    by (intro reads_and_then [where x = ?n] reads_get_varint assms reads_get_bytes) simp
qed

lemma reads_payload_length:
  assumes "ty \<noteq> Short" and "length token < 2 ^ 62" and "len < 2 ^ 62"
  shows "reads (payload_length ty) (length_field ty token len) rest
     (if ty = Retry \<or> ty = VersionNegotiation then length rest else len)"
proof (cases ty)
  case Initial
  have "reads (payload_length Initial) ((varint_bytes (length token) @ token) @ varint_bytes len) rest len"
    unfolding payload_length_def pkt_type.case
    by (intro reads_and_then [where x = "with_slice token"] reads_try reads_token assms reads_varint_nat)
  with Initial show ?thesis by (simp add: length_field_def)
qed (use assms in \<open>simp_all add: payload_length_def length_field_def reads_cap reads_varint_nat\<close>)

lemma reads_from_bytes_long:
  assumes "is_long first" and "long_type first version = Some ty"
    and "length dcid \<le> 20" and "length scid \<le> 20"
    and "length token < 2 ^ 62" and "len < 2 ^ 62"
  shows "reads (from_bytes dcid_len) (long_header_bytes first version ty dcid scid token len) rest
    \<lparr>h_ty = ty, h_spin = False, h_version = version, h_dcid = CidVec dcid, h_scid = CidVec scid,
      h_length = (if ty = Retry \<or> ty = VersionNegotiation then length rest else len)\<rparr>"
    (is "reads _ _ _ ?h")
proof -
  have ty: "ty \<noteq> Short" using assms(2) by (auto simp: long_type_def Let_def split: if_splits)
  show ?thesis
    unfolding long_header_bytes_def from_bytes_def
  proof (intro reads_and_then [where x = first] reads_try reads_get_u8)
    have "reads (long_header first) (be_bytes 4 (unat version) @ cid_bytes dcid @ cid_bytes scid
        @ length_field ty token len) rest ?h"
      unfolding long_header_def
    proof (intro reads_and_then [where x = version] reads_try reads_get_u32)
      show "reads (case long_type first version of None \<Rightarrow> panic | Some ty \<Rightarrow>
          and_then (long_cid version) (\<lambda>dcid. and_then (long_cid version) (\<lambda>scid.
          and_then (payload_length ty) (\<lambda>len. ret \<lparr>h_ty = ty, h_spin = False, h_version = version,
            h_dcid = CidVec dcid, h_scid = CidVec scid, h_length = len\<rparr>))))
          (cid_bytes dcid @ cid_bytes scid @ length_field ty token len) rest ?h"
        unfolding assms(2) option.case
        by (intro reads_and_then [where x = dcid] reads_and_then [where x = scid] reads_then_ret
            reads_long_cid reads_payload_length ty assms)
    qed
    then show "reads (if \<not> is_long first then short_header first dcid_len else long_header first)
        (be_bytes 4 (unat version) @ cid_bytes dcid @ cid_bytes scid @ length_field ty token len) rest ?h"
      using assms(1) by simp
  qed
qed

text \<open>The form bit and the type bits of the first byte as numbers.\<close>

lemma type_code: "drop_bit 4 (first AND TYPE_MASK) = (take_bit 2 (drop_bit 4 first) :: u8)"
proof (rule bit_word_eqI)
  fix n
  assume "n < LENGTH(8)"
  then have "n < 8" by simp
  then consider "n = 0" | "n = 1" | "n = 2" | "n = 3" | "n = 4" | "n = 5" | "n = 6" | "n = 7" by linarith
  then show "bit (drop_bit 4 (first AND TYPE_MASK)) n \<longleftrightarrow> bit (take_bit 2 (drop_bit 4 first) :: u8) n"
    by cases (simp_all add: TYPE_MASK_def bit_simps)
qed

lemma unat_type_code: "unat (drop_bit 4 (first AND TYPE_MASK) :: u8) = unat first div 16 mod 4"
  unfolding type_code by (simp add: unsigned_take_bit_eq unat_drop_bit_eq take_bit_eq_mod drop_bit_eq_div unat_div_distrib unat_mod_distrib)

lemma is_long_iff: "is_long first \<longleftrightarrow> 128 \<le> unat first"
proof -
  have "FORM_BIT = (2 ^ 7 :: u8)" by (simp add: FORM_BIT_def)
  then have "is_long first \<longleftrightarrow> bit first 7"
    using and_exp_eq_0_iff_not_bit [of first 7] by (simp add: is_long_def)
  also have "\<dots> \<longleftrightarrow> bit (unat first) 7" by (simp add: bit_unsigned_iff)
  also have "\<dots> \<longleftrightarrow> odd (unat first div 2 ^ 7)" by (rule bit_iff_odd)
  also have "\<dots> \<longleftrightarrow> 128 \<le> unat first"
  proof -
    have "unat first < 256" using unsigned_less [of first, where 'a = nat] by simp
    then have "unat first div 128 < 2" by (simp add: less_mult_imp_div_less)
    then have "unat first div 128 = 0 \<or> unat first div 128 = 1" by linarith
    moreover have "128 \<le> unat first \<longleftrightarrow> 1 \<le> unat first div 128" by (simp add: less_eq_div_iff_mult_less_eq)
    ultimately show ?thesis by auto
  qed
  finally show ?thesis .
qed

lemma long_type_code:
  "long_type first version = Some (if version = 0 then VersionNegotiation
     else [Initial, ZeroRTT, Handshake, Retry] ! (unat first div 16 mod 4))"
proof -
  let ?k = "drop_bit 4 (first AND TYPE_MASK) :: u8"
  have "?k = of_nat (unat first div 16 mod 4)" by (simp flip: unat_type_code)
  then have "long_type first version = (if version = 0 then Some VersionNegotiation
      else let k = of_nat (unat first div 16 mod 4) :: u8 in
        if k = 0x00 then Some Initial else if k = 0x01 then Some ZeroRTT
        else if k = 0x02 then Some Handshake else if k = 0x03 then Some Retry else None)"
    by (simp only: long_type_def)
  moreover have "unat first div 16 mod 4 < 4" by simp
  then have "unat first div 16 mod 4 \<in> {0, 1, 2, 3}" by auto
  ultimately show ?thesis by (elim insertE) (simp_all add: Let_def)
qed

text \<open>
  C20. Parsing inverts the layout: from the bytes of a long header with connection IDs of at most
  twenty bytes, a token and a payload length below \<open>2^62\<close>, followed by anything, the parser returns
  exactly its fields and stops right behind the length field. A long header has the highest bit of the first byte set;
  the bits 4 and 5 number the types \<open>Initial\<close>, \<open>ZeroRTT\<close>, \<open>Handshake\<close> and \<open>Retry\<close>, except that the version 0 is
  that of Version Negotiation. A Retry or Version Negotiation packet
  has no length field and extends to the end of the datagram.
\<close>

theorem from_bytes_long_header:
  assumes "128 \<le> unat first"
    and "ty = (if version = 0 then VersionNegotiation else [Initial, ZeroRTT, Handshake, Retry] ! (unat first div 16 mod 4))"
    and "length dcid \<le> 20" and "length scid \<le> 20"
    and "length token < 2 ^ 62" and "len < 2 ^ 62"
  defines "hdr \<equiv> long_header_bytes first version ty dcid scid token len"
  shows "from_bytes dcid_len (with_slice (hdr @ rest)) =
    (Ok \<lparr>h_ty = ty, h_spin = False, h_version = version, h_dcid = CidVec dcid, h_scid = CidVec scid,
         h_length = (if ty = Retry \<or> ty = VersionNegotiation then length rest else len)\<rparr>,
     \<lparr>o_buf = hdr @ rest, o_off = length hdr\<rparr>)"
proof -
  have "is_long first" "long_type first version = Some ty" using assms(1,2) by (simp_all only: is_long_iff long_type_code)
  from reads_from_bytes_long [OF this assms(3-6), of dcid_len rest] show ?thesis
    by (simp add: hdr_def reads_def with_slice_def)
qed

theorem from_bytes_long_header_witness:
  "from_bytes 0 (with_slice ([0xC3, 0, 0, 0, 1, 2, 7, 8, 0, 1, 9, 5] @ [1, 2, 3, 4, 5])) =
    (Ok \<lparr>h_ty = Initial, h_spin = False, h_version = 1, h_dcid = CidVec [7, 8], h_scid = CidVec [],
         h_length = 5\<rparr>,
     \<lparr>o_buf = [0xC3, 0, 0, 0, 1, 2, 7, 8, 0, 1, 9, 5] @ [1, 2, 3, 4, 5], o_off = 12\<rparr>)"
proof -
  have bytes: "long_header_bytes 0xC3 1 Initial [7, 8] [] [9] 5 = [0xC3, 0, 0, 0, 1, 2, 7, 8, 0, 1, 9, 5]"
    by code_simp
  from from_bytes_long_header [where first = "0xC3" and ty = Initial and version = 1 and dcid = "[7, 8]" and scid = "[]" and token = "[9]"
      and len = 5 and dcid_len = 0 and rest = "[1, 2, 3, 4, 5]"]
  show ?thesis by (simp add: bytes)
qed

text \<open>
  A header is never read past its datagram: a successful parse consumes at least one byte, at
  most the bytes there are, and leaves the datagram as it was.
\<close>

theorem from_bytes_in_bounds:
  assumes "from_bytes dcid_len (with_slice buf) = (Ok h, b)"
  shows "0 < o_off b \<and> o_off b \<le> length buf \<and> o_buf b = buf"
  using from_bytes.consumes [OF with_slice_inv assms] from_bytes.in_bounds [OF with_slice_inv assms]
    from_bytes.keeps_buf [OF assms] by simp

theorem from_bytes_in_bounds_witness:
  "\<exists>h b. from_bytes 0 (with_slice [0xC3, 0, 0, 0, 1, 2, 7, 8, 0, 1, 9, 5, 1, 2]) = (Ok h, b)
     \<and> 0 < o_off b \<and> o_off b \<le> 14 \<and> o_buf b = [0xC3, 0, 0, 0, 1, 2, 7, 8, 0, 1, 9, 5, 1, 2]"
proof -
  have "from_bytes 0 (with_slice [0xC3, 0, 0, 0, 1, 2, 7, 8, 0, 1, 9, 5, 1, 2]) =
    (Ok \<lparr>h_ty = Initial, h_spin = False, h_version = 1, h_dcid = CidVec [7, 8], h_scid = CidVec [],
         h_length = 5\<rparr>,
     \<lparr>o_buf = [0xC3, 0, 0, 0, 1, 2, 7, 8, 0, 1, 9, 5, 1, 2], o_off = 12\<rparr>)"
    by code_simp
  from from_bytes_in_bounds [OF this] this show ?thesis by simp
qed

text \<open>
  A short header without a known connection ID length is the error \<open>InvalidState\<close>, whatever
  follows; with one, it yields the spin bit and that many bytes of connection ID, and the packet
  extends to the end of the datagram; too few bytes are \<open>BufferTooShort\<close>.
\<close>

theorem from_bytes_short_header:
  assumes "\<not> is_long first"
  shows "from_slice (first # rest) n =
    (if n = 0 then Err InvalidState
     else if length rest < n then Err BufferTooShort
     else Ok \<lparr>h_ty = Short, h_spin = (first AND 0x20 \<noteq> 0), h_version = 0,
              h_dcid = CidVec (take n rest), h_scid = CidVec [], h_length = length rest - n\<rparr>)"
proof -
  have "get_u8 (with_slice (first # rest)) = (Ok first, \<lparr>o_buf = first # rest, o_off = 1\<rparr>)"
    using reads_get_u8 [of first rest] by (simp add: reads_def with_slice_def)
  then show ?thesis
    using assms
    by (auto simp: from_slice_def from_bytes_def short_header_def try_octets_def and_then_def
        map_err_def fail_def get_bytes_def cap_def gets_def ret_def to_vec_def cid_default_def
        spin_state_def SPIN_BIT_def)
qed

theorem from_bytes_short_header_witness:
  "from_slice [0x60, 1, 2, 3] 2 = Ok \<lparr>h_ty = Short, h_spin = True, h_version = 0,
     h_dcid = CidVec [1, 2], h_scid = CidVec [], h_length = 1\<rparr>"
proof -
  have "\<not> is_long 0x60" by code_simp
  from from_bytes_short_header [OF this, of "[1, 2, 3]" 2] show ?thesis by simp
qed

section \<open>Panics\<close>

lemma no_panic_try: "no_panic m \<Longrightarrow> no_panic (try_octets m)"
  unfolding no_panic_def try_octets_def map_err_def
  by (auto split: prod.splits outcome.splits) (metis fst_conv)

lemma no_panic_payload_length: "ty \<noteq> Short \<Longrightarrow> no_panic (payload_length ty)"
  unfolding payload_length_def get_bytes_with_varint_length_def
  by (cases ty)
    (auto intro!: no_panic_and_then no_panic_basic no_panic_octets no_panic_try no_panic_get_varint)

lemma word_le_3: "unat (k::u8) \<le> 3 \<Longrightarrow> k = 0 \<or> k = 1 \<or> k = 2 \<or> k = 3"
  by (auto simp: word_unat_eq_iff)

lemma long_type_some: "\<exists>ty. long_type first version = Some ty \<and> ty \<noteq> Short"
proof -
  let ?k = "drop_bit 4 (first AND TYPE_MASK)"
  have "unat (first AND TYPE_MASK) \<le> 0x30"
    using word_and_le1 [of first TYPE_MASK] by (simp add: TYPE_MASK_def word_le_nat_alt)
  then have "unat ?k \<le> 3" by (simp add: drop_bit_eq_div unat_div)
  from word_le_3 [OF this] show ?thesis by (simp add: long_type_def Let_def del: drop_bit_and) blast
qed

lemma long_cid_panics:
  assumes "o_off b \<le> length (o_buf b)"
  shows "fst (long_cid version b) = Panic \<longleftrightarrow>
     version = 1 \<and> o_off b < length (o_buf b) \<and> 20 < o_buf b ! o_off b"
  using assms
  by (auto simp: long_cid_def and_then_def try_octets_def map_err_def get_u8_eq panic_def ret_def
      get_bytes_def version_is_supported_def PROTOCOL_VERSION_V1_def MAX_CID_LEN_def)

text \<open>The four bytes of the one version the parser supports.\<close>

lemma version_bytes:
  assumes "length bs = 4"
  shows "(of_nat (be_val bs) :: u32) = 1 \<longleftrightarrow> bs = [0, 0, 0, 1]"
proof
  assume v: "(of_nat (be_val bs) :: u32) = 1"
  have "be_val bs < 2 ^ 32" using be_val_bound [of bs] assms by simp
  then have "unat (of_nat (be_val bs) :: u32) = be_val bs" by (simp only: unat_of_nat) simp
  then have "be_val bs = 1" by (simp only: v) simp
  then have "bs = be_bytes 4 1" using be_bytes_be_val [of bs] assms by simp
  also have "\<dots> = [0, 0, 0, 1]" by code_simp
  finally show "bs = [0, 0, 0, 1]" .
qed (simp add: be_val_def)

lemma long_cid_ok:
  assumes "o_off b \<le> length (o_buf b)"
  defines "n \<equiv> o_off b + 1 + unat (o_buf b ! o_off b)"
  shows "(\<exists>c. long_cid version b = (Ok c, b')) \<longleftrightarrow>
     \<not> (version = 1 \<and> 20 < o_buf b ! o_off b) \<and> n \<le> length (o_buf b) \<and> b' = b\<lparr>o_off := n\<rparr>"
  using assms(1) unfolding n_def
  by (auto simp: long_cid_def and_then_def try_octets_def map_err_def get_u8_eq panic_def ret_def
      get_bytes_def version_is_supported_def PROTOCOL_VERSION_V1_def MAX_CID_LEN_def cap_def)

lemma long_header_panics:
  assumes "o_off b + 4 \<le> length (o_buf b)"
  defines "n \<equiv> o_off b + 5 + unat (o_buf b ! (o_off b + 4))"
  shows "fst (long_header first b) = Panic \<longleftrightarrow>
     take 4 (drop (o_off b) (o_buf b)) = [0, 0, 0, 1] \<and> o_off b + 4 < length (o_buf b) \<and>
     (20 < o_buf b ! (o_off b + 4) \<or> n < length (o_buf b) \<and> 20 < o_buf b ! n)"
proof -
  define v :: u32 where "v = of_nat (be_val (take 4 (drop (o_off b) (o_buf b))))"
  have v1: "v = 1 \<longleftrightarrow> take 4 (drop (o_off b) (o_buf b)) = [0, 0, 0, 1]"
    unfolding v_def by (rule version_bytes) (use assms in simp)
  obtain ty where ty: "long_type first v = Some ty" "ty \<noteq> Short" using long_type_some by blast
  let ?b = "b\<lparr>o_off := o_off b + 4\<rparr>"
  have "get_u32 b = (Ok v, ?b)" unfolding get_u32_def v_def by (rule get_u_at [OF assms(1)])
  then have step: "long_header first b = and_then (long_cid v) (\<lambda>dcid.
         and_then (long_cid v) (\<lambda>scid.
         and_then (payload_length ty) (\<lambda>len.
         ret \<lparr>h_ty = ty, h_spin = False, h_version = v,
              h_dcid = CidVec dcid, h_scid = CidVec scid, h_length = len\<rparr>))) ?b"
    using ty(1) by (simp add: long_header_def try_octets_def)
  have "fst (payload_length ty s) \<noteq> Panic" for s
    using no_panic_payload_length [OF ty(2)] by (simp add: no_panic_def)
  then have "fst (long_header first b) = Panic \<longleftrightarrow> fst (long_cid v ?b) = Panic \<or>
      (\<exists>b1. (\<exists>c. long_cid v ?b = (Ok c, b1)) \<and> fst (long_cid v b1) = Panic)"
    unfolding step and_then_panics by (auto simp: ret_def)
  also have "\<dots> \<longleftrightarrow> v = 1 \<and> o_off b + 4 < length (o_buf b) \<and>
     (20 < o_buf b ! (o_off b + 4) \<or> n < length (o_buf b) \<and> 20 < o_buf b ! n)"
    using assms(1) by (auto simp: long_cid_ok long_cid_panics n_def add.commute add.left_commute)
  finally show ?thesis by (simp only: v1)
qed

text \<open>
  C24. The parser panics on exactly one shape of datagram: a long header of QUIC version 1
  whose destination connection ID length is above twenty, or whose destination connection ID is
  complete and whose source connection ID length is above twenty. Every other input, malformed or
  truncated in any way, ends in \<open>Ok\<close> or \<open>Err\<close>.
\<close>

theorem from_slice_panics_iff:
  "from_slice buf dcid_len = Panic \<longleftrightarrow>
     5 < length buf \<and> is_long (buf ! 0) \<and> take 4 (drop 1 buf) = [0, 0, 0, 1] \<and>
     (20 < buf ! 5 \<or> (let n = 6 + unat (buf ! 5) in n < length buf \<and> 20 < buf ! n))"
proof (cases buf)
  case Nil
  then show ?thesis by (simp add: from_slice_def from_bytes_def get_u8_eq and_then_def try_octets_def map_err_def)
next
  case (Cons first rest)
  let ?b = "\<lparr>o_buf = buf, o_off = 1\<rparr>"
  have "try_octets get_u8 (with_slice buf) = (Ok first, ?b)"
    by (simp add: try_octets_def map_err_def get_u8_eq Cons with_slice_def)
  then have step: "from_slice buf dcid_len = fst ((if \<not> is_long first then short_header first dcid_len
      else long_header first) ?b)"
    by (simp add: from_slice_def from_bytes_def)
  show ?thesis
  proof (cases "is_long first \<and> 5 \<le> length buf")
    case True
    then show ?thesis
      using long_header_panics [of ?b first] step by (auto simp: Cons Let_def)
  next
    case False
    have "no_panic (short_header first dcid_len)"
      unfolding short_header_def
      by (auto intro!: no_panic_and_then no_panic_basic no_panic_octets no_panic_try)
    moreover have "fst (long_header first ?b) = Err BufferTooShort" if "\<not> 5 \<le> length buf"
    proof -
      from that have "length buf - Suc 0 < 4" by simp
      then show ?thesis
        by (simp add: long_header_def try_octets_def map_err_def and_then_def get_u32_def get_u_def peek_u_def)
    qed
    ultimately show ?thesis using False step by (auto simp: no_panic_def Cons)
  qed
qed

end
