(* ===== verification/Flowlet.thy ===== *)
theory Flowlet
  imports Rust_Time
begin

text \<open>
  \<open>struct Flowlet\<close> of \<open>pemi/src/queue.rs\<close>: a burst of packets of one direction, the replies
  attributed to it, and the loss inference when only part of the burst was replied.
  \<open>match_sent_reply_dp\<close> aligns replies with packets by dynamic programming over IEEE doubles;
  \<open>extract_part_loss\<close> turns the alignment into the set of lost packet numbers.

  \<open>usize::MAX\<close>, the source's mark for "no reply", is \<open>None\<close>; an index is \<open>Some\<close>. The tables
  \<open>dp\<close> and \<open>prev\<close> are lists of rows: the loops of the source fill row \<open>i\<close> from row \<open>i - 1\<close> only.
\<close>

section \<open>Model\<close>

definition CLOSE_THRESHOLD :: duration where
  "CLOSE_THRESHOLD = from_micros 100"

definition DURATION_RATIO_THRESHOLD :: f64 where
  "DURATION_RATIO_THRESHOLD = fl64 (8 / 10)"

record flowlet =
  pkt_nums :: "nat list"
  close_count :: nat
  reply_pkt_times :: "instant list"
  reply_pkt_nums :: "nat list"
  fl_begin_time :: instant
  fl_end_time :: instant
  fl_complete :: bool

definition flowlet_new :: "nat \<Rightarrow> instant \<Rightarrow> flowlet" where
  "flowlet_new pkt_num t = \<lparr>pkt_nums = [pkt_num], close_count = 0, reply_pkt_times = [],
     reply_pkt_nums = [], fl_begin_time = t, fl_end_time = t, fl_complete = False\<rparr>"

definition flowlet_add :: "nat \<Rightarrow> instant \<Rightarrow> flowlet \<Rightarrow> flowlet" where
  "flowlet_add packet_num forward_ts fl = fl\<lparr>
     close_count := (if pkt_nums fl \<noteq> [] \<and> duration_since forward_ts (fl_end_time fl) < CLOSE_THRESHOLD
                     then close_count fl + 1 else close_count fl),
     pkt_nums := pkt_nums fl @ [packet_num],
     fl_end_time := forward_ts\<rparr>"

definition set_as_complete :: "flowlet \<Rightarrow> flowlet" where
  "set_as_complete fl = fl\<lparr>fl_complete := True\<rparr>"

definition is_complete :: "flowlet \<Rightarrow> bool" where
  "is_complete fl = fl_complete fl"

definition exactly_replyed :: "flowlet \<Rightarrow> bool" where
  "exactly_replyed fl \<longleftrightarrow> length (reply_pkt_times fl) = length (pkt_nums fl)"

definition add_reply :: "instant \<Rightarrow> nat \<Rightarrow> flowlet \<Rightarrow> flowlet" where
  "add_reply come_time pkt_num fl = fl\<lparr>
     reply_pkt_times := reply_pkt_times fl @ [come_time],
     reply_pkt_nums := reply_pkt_nums fl @ [pkt_num]\<rparr>"

subsection \<open>Alignment of replies with packets\<close>

type_synonym dp_prev = "(nat \<times> nat \<times> int) option"

definition match_cost :: "f64 \<Rightarrow> f64 \<Rightarrow> f64 \<Rightarrow> f64" where
  "match_cost reply_j sent_i used_rtt = f64_abs (f64_sub (f64_sub reply_j sent_i) used_rtt)"

text \<open>\<open>dp[i][j]\<close> and \<open>prev[i][j]\<close> for \<open>1 \<le> j \<le> min i m\<close>, from the row \<open>dp[i - 1]\<close>.\<close>

definition dp_cell :: "f64 \<Rightarrow> f64 list \<Rightarrow> f64 \<Rightarrow> nat \<Rightarrow> f64 list \<Rightarrow> nat \<Rightarrow> f64 \<times> dp_prev" where
  "dp_cell sent_i reply used_rtt i row j =
     (let cost = match_cost (reply ! (j - 1)) sent_i used_rtt;
          best = f64_add (row ! (j - 1)) cost in
      if f64_lt (row ! j) best then (row ! j, Some (i - 1, j, - 1))
      else (best, Some (i - 1, j - 1, int (j - 1))))"

definition dp_row :: "f64 \<Rightarrow> f64 list \<Rightarrow> f64 \<Rightarrow> nat \<Rightarrow> f64 list \<Rightarrow> (f64 \<times> dp_prev) list" where
  "dp_row sent_i reply used_rtt i row =
     (Fin 0, Some (i - 1, 0, - 1)) #
     map (\<lambda>j. if j \<le> min i (length reply) then dp_cell sent_i reply used_rtt i row j else (PInf, None))
       [1..<length reply + 1]"

fun dp_rows :: "f64 list \<Rightarrow> f64 \<Rightarrow> nat \<Rightarrow> f64 list \<Rightarrow> f64 list \<Rightarrow> (f64 \<times> dp_prev) list list" where
  "dp_rows reply used_rtt i row [] = []"
| "dp_rows reply used_rtt i row (s # sent) =
     (let r = dp_row s reply used_rtt i row in r # dp_rows reply used_rtt (i + 1) (map fst r) sent)"

definition dp_row0 :: "nat \<Rightarrow> (f64 \<times> dp_prev) list" where
  "dp_row0 m = (Fin 0, None) # replicate m (PInf, None)"

definition dp_table :: "f64 list \<Rightarrow> f64 list \<Rightarrow> f64 \<Rightarrow> (f64 \<times> dp_prev) list list" where
  "dp_table sent reply used_rtt =
     dp_row0 (length reply) # dp_rows reply used_rtt 1 (map fst (dp_row0 (length reply))) sent"

text \<open>
  The backtracking loop; \<open>None\<close> is the failing \<open>expect\<close>, an index out of range, or a loop that
  does not end.
\<close>

partial_function (option) dp_backtrack ::
    "dp_prev list list \<Rightarrow> nat \<Rightarrow> nat \<Rightarrow> nat option list \<Rightarrow> nat option list option" where
  "dp_backtrack prev i j mapping =
     (if i = 0 then Some mapping
      else do {
        row \<leftarrow> index prev i;
        cell \<leftarrow> index row j;
        (pi, pj, matched) \<leftarrow> cell;
        dp_backtrack prev pi pj
          (if matched \<noteq> - 1 then mapping[i - 1 := Some (nat matched)] else mapping) })"

declare dp_backtrack.simps [code]

definition match_sent_reply_dp :: "f64 list \<Rightarrow> f64 list \<Rightarrow> f64 \<Rightarrow> nat option list option" where
  "match_sent_reply_dp sent reply used_rtt =
     dp_backtrack (map (map snd) (dp_table sent reply used_rtt)) (length sent) (length reply)
       (replicate (length sent) None)"

definition match_used_rtt :: "duration \<Rightarrow> flowlet \<Rightarrow> duration option" where
  "match_used_rtt reply_rtt fl = (case reply_pkt_times fl of
       [] \<Rightarrow> None
     | first # _ \<Rightarrow> do {
         let sent_duration = duration_since (fl_end_time fl) (fl_begin_time fl);
         let reply_duration = duration_since (last (reply_pkt_times fl)) first;
         bound \<leftarrow> mul_f64 sent_duration DURATION_RATIO_THRESHOLD;
         Some (if reply_duration < bound then reply_rtt
               else duration_since (last (reply_pkt_times fl)) (fl_end_time fl)) })"

definition match_sent_part_reply ::
    "instant list \<Rightarrow> duration \<Rightarrow> flowlet \<Rightarrow> nat option list option" where
  "match_sent_part_reply sent_pkt_times reply_rtt fl = do {
     used_rtt \<leftarrow> match_used_rtt reply_rtt fl;
     base \<leftarrow> index sent_pkt_times 0;
     rust_assert (length sent_pkt_times \<noteq> 0);
     rust_assert (length (reply_pkt_times fl) \<noteq> 0);
     let sent = map (\<lambda>t. as_secs_f64 (duration_since t base)) sent_pkt_times;
     let reply = map (\<lambda>t. as_secs_f64 (duration_since t base)) (reply_pkt_times fl);
     match_sent_reply_dp sent reply (as_secs_f64 used_rtt) }"

subsection \<open>Loss extraction\<close>

definition close_gap :: "instant list \<Rightarrow> nat \<Rightarrow> bool" where
  "close_gap ts l \<longleftrightarrow> duration_since (ts ! (l + 1)) (ts ! l) < CLOSE_THRESHOLD"

text \<open>The backward loop, entered with \<open>j + 1\<close> so that \<open>0\<close> stands for the signed \<open>-1\<close>.\<close>

fun spread_before :: "instant list \<Rightarrow> nat \<Rightarrow> nat \<Rightarrow> nat option list \<Rightarrow> nat option list" where
  "spread_before ts reply 0 inferred = inferred"
| "spread_before ts reply (Suc j) inferred =
     (if inferred ! j = None \<and> close_gap ts j
      then spread_before ts reply j (inferred[j := Some reply])
      else inferred)"

function spread_after :: "instant list \<Rightarrow> nat \<Rightarrow> nat \<Rightarrow> nat option list \<Rightarrow> nat option list" where
  "spread_after ts reply j inferred =
     (if j < length ts \<and> inferred ! j = None \<and> close_gap ts (j - 1)
      then spread_after ts reply (j + 1) (inferred[j := Some reply])
      else inferred)"
  by pat_completeness auto
termination by (relation "measure (\<lambda>(ts, _, j, _). length ts - j)") auto

declare spread_after.simps [simp del]

definition infer_step ::
    "instant list \<Rightarrow> nat option list \<Rightarrow> nat \<Rightarrow> nat option list \<Rightarrow> nat option list" where
  "infer_step ts sent_to_reply_map i inferred = (case sent_to_reply_map ! i of
       None \<Rightarrow> inferred
     | Some reply \<Rightarrow> spread_after ts reply (i + 1) (spread_before ts reply i (inferred[i := Some reply])))"

definition infer_replies :: "instant list \<Rightarrow> nat option list \<Rightarrow> nat option list" where
  "infer_replies ts sent_to_reply_map =
     fold (infer_step ts sent_to_reply_map) [0..<length ts] (replicate (length ts) None)"

text \<open>The end of the run of unreplied packets that starts at \<open>right\<close>.\<close>

function run_end :: "nat option list \<Rightarrow> nat \<Rightarrow> nat" where
  "run_end inferred right =
     (if right < length inferred \<and> inferred ! right = None then run_end inferred (right + 1) else right)"
  by pat_completeness auto
termination by (relation "measure (\<lambda>(xs, r). length xs - r)") auto

declare run_end.simps [simp del]

text \<open>\<open>for i in left..right { inferred_reply[i] = 0 }\<close>\<close>

definition mark_replied :: "nat \<Rightarrow> nat \<Rightarrow> nat option list \<Rightarrow> nat option list" where
  "mark_replied left right inferred = fold (\<lambda>i xs. xs[i := Some 0]) [left..<right] inferred"

lemma run_end_ge: "left \<le> run_end xs left"
proof (induction xs left rule: run_end.induct)
  case (1 xs left)
  then show ?case by (subst run_end.simps) auto
qed

lemma run_end_gt: "left < length xs \<Longrightarrow> xs ! left = None \<Longrightarrow> left < run_end xs left"
  using run_end_ge [of "left + 1" xs] by (subst run_end.simps) simp

lemma length_mark_replied [simp]: "length (mark_replied l r xs) = length xs"
proof -
  have "length (fold (\<lambda>i xs. xs[i := Some 0]) is xs) = length xs" for "is" :: "nat list" and xs :: "nat option list"
    by (induction "is" arbitrary: xs) simp_all
  then show ?thesis by (simp add: mark_replied_def)
qed

text \<open>The two-pointer loop over the runs of unreplied packets.\<close>

function eliciting_pass :: "nat \<Rightarrow> nat \<Rightarrow> nat option list \<Rightarrow> nat option list option" where
  "eliciting_pass threshold left inferred =
     (if left < length inferred then
        if inferred ! left \<noteq> None then eliciting_pass threshold (left + 1) inferred
        else
          let right = run_end inferred left in
          if right = length inferred then Some inferred
          else if right - left < threshold then
            (if right - left = 1 then eliciting_pass threshold right (mark_replied left right inferred)
             else None)
          else eliciting_pass threshold right inferred
      else Some inferred)"
  by pat_completeness auto
termination
  by (relation "measure (\<lambda>(_, left, xs). length xs - left)")
    (auto simp: run_end_gt intro!: diff_less_mono2)

declare eliciting_pass.simps [simp del]

text \<open>The packets without an inferred reply; indexing \<open>pkt_nums\<close> may panic.\<close>

definition lossed_of :: "nat list \<Rightarrow> nat option list \<Rightarrow> nat set option" where
  "lossed_of nums inferred =
     map_option set (mapO (index nums) (filter (\<lambda>i. inferred ! i = None) [0..<length inferred]))"

definition extract_part_loss ::
    "instant list \<Rightarrow> nat option list \<Rightarrow> nat \<Rightarrow> flowlet \<Rightarrow> nat set option" where
  "extract_part_loss sent_pkt_times sent_to_reply_map eliciting_threshold fl = do {
     rust_assert (length sent_pkt_times \<le> length sent_to_reply_map);
     let inferred = infer_replies sent_pkt_times sent_to_reply_map;
     inferred' \<leftarrow> (if 2 \<le> eliciting_threshold then eliciting_pass eliciting_threshold 0 inferred
                  else Some inferred);
     lossed_of (pkt_nums fl) inferred' }"

definition extract_rtt_samples ::
    "nat option list \<Rightarrow> instant list \<Rightarrow> flowlet \<Rightarrow> duration list option" where
  "extract_rtt_samples sent_to_reply_map sent_pkt_times fl =
     map_option concat (mapO (\<lambda>(i, reply_index). case reply_index of
         None \<Rightarrow> Some []
       | Some r \<Rightarrow> do {
           reply_ts \<leftarrow> index (reply_pkt_times fl) r;
           sent_ts \<leftarrow> index sent_pkt_times i;
           Some [duration_since reply_ts sent_ts] })
       (enumerate 0 sent_to_reply_map))"

end
