(* ===== verification/Reply_Matching.thy ===== *)
theory Reply_Matching
  imports Flowlet
begin

text \<open>
  Correctness of \<open>Flowlet::match_sent_reply_dp\<close>: the dynamic programme always finds its way back,
  matches every reply with exactly one packet in order, and no other order-preserving alignment has
  a smaller cost. The optimality argument uses of floating-point addition only that it is monotone;
  the locale \<open>cost_sum\<close> states what it needs and is interpreted on IEEE doubles.
\<close>

section \<open>Alignments\<close>

text \<open>
  An alignment of \<open>m\<close> replies with \<open>n\<close> packets lists the matched packet of each reply; replies keep
  the order of the packets. Its cost is the sum, from left to right, of the costs of its pairs.
\<close>

definition alignment :: "nat \<Rightarrow> nat \<Rightarrow> nat list \<Rightarrow> bool" where
  "alignment n m ks \<longleftrightarrow> length ks = m \<and> sorted_wrt (<) ks \<and> (\<forall>k \<in> set ks. k < n)"

definition alignment_cost :: "('c \<Rightarrow> 'k \<Rightarrow> 'c) \<Rightarrow> 'c \<Rightarrow> (nat \<Rightarrow> nat \<Rightarrow> 'k) \<Rightarrow> nat list \<Rightarrow> 'c" where
  "alignment_cost add zero c ks = foldl (\<lambda>acc (i, j). add acc (c i j)) zero (zip ks [0..<length ks])"

lemma alignment_cost_Nil [simp]: "alignment_cost add zero c [] = zero"
  by (simp add: alignment_cost_def)

lemma alignment_cost_snoc [simp]:
  "alignment_cost add zero c (ks @ [k]) = add (alignment_cost add zero c ks) (c k (length ks))"
  by (simp add: alignment_cost_def)

lemma alignment_0 [simp]: "alignment n 0 ks \<longleftrightarrow> ks = []"
  by (auto simp: alignment_def)

lemma alignment_mono: "alignment n m ks \<Longrightarrow> n \<le> n' \<Longrightarrow> alignment n' m ks"
  by (auto simp: alignment_def)

lemma alignment_snoc: "alignment n m ks \<Longrightarrow> alignment (Suc n) (Suc m) (ks @ [n])"
  by (auto simp: alignment_def sorted_wrt_append)

lemma alignment_SucE:
  assumes "alignment (Suc n) (Suc m) ks"
  obtains (last) ks' where "ks = ks' @ [n]" and "alignment n m ks'"
  | (skip) "alignment n (Suc m) ks"
proof -
  from assms obtain ks' k where ks: "ks = ks' @ [k]"
    by (cases ks rule: rev_cases) (auto simp: alignment_def)
  with assms have k: "k < Suc n" "\<forall>x \<in> set ks'. x < k" "length ks' = m" "sorted_wrt (<) ks'"
    by (auto simp: alignment_def sorted_wrt_append)
  show thesis
  proof (cases "k = n")
    case True
    with ks k show ?thesis by (intro last [of ks']) (auto simp: alignment_def)
  next
    case False
    with k have "k < n" by simp
    with ks k assms show ?thesis by (intro skip) (auto simp: alignment_def)
  qed
qed

lemma alignment_length_le: "alignment n m ks \<Longrightarrow> m \<le> n"
proof -
  assume a: "alignment n m ks"
  then have "distinct ks" and "set ks \<subseteq> {..<n}" and "length ks = m"
    by (auto simp: alignment_def strict_sorted_iff)
  then have "m = card (set ks)" by (simp add: distinct_card)
  also have "\<dots> \<le> card {..<n}" by (intro card_mono) (use \<open>set ks \<subseteq> {..<n}\<close> in auto)
  finally show ?thesis by simp
qed

section \<open>The recurrence\<close>

locale cost_sum =
  fixes add :: "'c \<Rightarrow> 'k \<Rightarrow> 'c" and le :: "'c \<Rightarrow> 'c \<Rightarrow> bool" and lt :: "'c \<Rightarrow> 'c \<Rightarrow> bool"
    and zero :: 'c and inf :: 'c and good :: "'c \<Rightarrow> bool" and ok :: "'k \<Rightarrow> bool"
  assumes lt_iff: "lt x y \<longleftrightarrow> le x y \<and> \<not> le y x"
    and le_refl: "good x \<Longrightarrow> le x x"
    and le_trans: "le x y \<Longrightarrow> le y z \<Longrightarrow> le x z"
    and le_total: "good x \<Longrightarrow> good y \<Longrightarrow> le x y \<or> le y x"
    and le_inf: "good x \<Longrightarrow> le x inf"
    and good_zero: "good zero" and good_inf: "good inf"
    and good_add: "good x \<Longrightarrow> ok k \<Longrightarrow> good (add x k)"
    and add_mono: "ok k \<Longrightarrow> le x y \<Longrightarrow> le (add x k) (add y k)"
begin

fun opt :: "(nat \<Rightarrow> nat \<Rightarrow> 'k) \<Rightarrow> nat \<Rightarrow> nat \<Rightarrow> 'c" where
  "opt c i 0 = zero"
| "opt c 0 (Suc j) = inf"
| "opt c (Suc i) (Suc j) =
     (if Suc j \<le> Suc i then
        if lt (opt c i (Suc j)) (add (opt c i j) (c i j)) then opt c i (Suc j)
        else add (opt c i j) (c i j)
      else inf)"

text \<open>The alignment the table of predecessors leads back through.\<close>

fun trace :: "(nat \<Rightarrow> nat \<Rightarrow> 'k) \<Rightarrow> nat \<Rightarrow> nat \<Rightarrow> nat list" where
  "trace c i 0 = []"
| "trace c 0 (Suc j) = []"
| "trace c (Suc i) (Suc j) =
     (if lt (opt c i (Suc j)) (add (opt c i j) (c i j)) then trace c i (Suc j)
      else trace c i j @ [i])"

lemma opt_inf: "i < j \<Longrightarrow> opt c i j = inf"
  by (induction c i j rule: opt.induct) simp_all

definition costs_ok :: "nat \<Rightarrow> nat \<Rightarrow> (nat \<Rightarrow> nat \<Rightarrow> 'k) \<Rightarrow> bool" where
  "costs_ok n m c \<longleftrightarrow> (\<forall>i j. i < n \<longrightarrow> j < m \<longrightarrow> ok (c i j))"

lemma good_opt: "costs_ok n m c \<Longrightarrow> i \<le> n \<Longrightarrow> j \<le> m \<Longrightarrow> good (opt c i j)"
  by (induction c i j rule: opt.induct) (auto simp: good_zero good_inf good_add costs_ok_def)

lemma good_opt_add:
  "costs_ok n m c \<Longrightarrow> i < n \<Longrightarrow> j < m \<Longrightarrow> good (add (opt c i j) (c i j))"
  using good_opt [of n m c i j] good_add by (auto simp: costs_ok_def)

lemma never_skip_full:
  "costs_ok n m c \<Longrightarrow> i < n \<Longrightarrow> i < m \<Longrightarrow> \<not> lt (opt c i (Suc i)) (add (opt c i i) (c i i))"
  using le_inf [OF good_opt_add, of n m c i i] by (simp add: opt_inf lt_iff)

lemma trace_alignment:
  assumes ok: "costs_ok n m c"
  shows "j \<le> i \<Longrightarrow> i \<le> n \<Longrightarrow> j \<le> m \<Longrightarrow>
    alignment i j (trace c i j) \<and> alignment_cost add zero c (trace c i j) = opt c i j"
proof (induction i arbitrary: j)
  case (Suc i)
  show ?case
  proof (cases j)
    case (Suc j')
    show ?thesis
    proof (cases "lt (opt c i (Suc j')) (add (opt c i j') (c i j'))")
      case True
      have "j' \<noteq> i" using True never_skip_full [OF ok, of i] Suc Suc.prems by auto
      with Suc Suc.prems have "Suc j' \<le> i" by simp
      with True Suc Suc.prems Suc.IH [of "Suc j'"] show ?thesis by (auto intro: alignment_mono)
    next
      case False
      from Suc Suc.prems Suc.IH [of j']
      have a: "alignment i j' (trace c i j')" "alignment_cost add zero c (trace c i j') = opt c i j'"
        by auto
      then have "length (trace c i j') = j'" by (simp add: alignment_def)
      with False a Suc Suc.prems show ?thesis by (simp add: alignment_snoc)
    qed
  qed simp
qed simp

text \<open>No alignment is cheaper.\<close>

lemma opt_least:
  assumes ok: "costs_ok n m c"
  shows "i \<le> n \<Longrightarrow> j \<le> m \<Longrightarrow> alignment i j ks \<Longrightarrow> le (opt c i j) (alignment_cost add zero c ks)"
proof (induction i arbitrary: j ks)
  case (Suc i)
  show ?case
  proof (cases j)
    case (Suc j')
    have good: "good (opt c i (Suc j'))" "good (add (opt c i j') (c i j'))"
      using good_opt [OF ok, of i "Suc j'"] good_opt_add [OF ok, of i j'] Suc Suc.prems by auto
    have okc: "ok (c i j')" using ok Suc Suc.prems by (simp add: costs_ok_def)
    have "Suc j' \<le> Suc i" using alignment_length_le [OF Suc.prems(3)] Suc by simp
    then have min: "le (opt c (Suc i) (Suc j')) (opt c i (Suc j'))"
      "le (opt c (Suc i) (Suc j')) (add (opt c i j') (c i j'))"
      using good le_total [OF good] by (auto simp: lt_iff le_refl)
    from Suc.prems(3) [unfolded Suc] show ?thesis unfolding Suc
    proof (cases rule: alignment_SucE)
      case (last ks')
      then have "length ks' = j'" by (simp add: alignment_def)
      have "le (opt c i j') (alignment_cost add zero c ks')"
        using Suc.IH [OF _ _ last(2)] Suc.prems Suc by simp
      from le_trans [OF min(2) add_mono [OF okc this]]
      show "le (opt c (Suc i) (Suc j')) (alignment_cost add zero c ks)"
        by (simp add: last(1) \<open>length ks' = j'\<close>)
    next
      case skip
      have "le (opt c i (Suc j')) (alignment_cost add zero c ks)"
        using Suc.IH [OF _ _ skip] Suc.prems Suc by simp
      with min(1) show "le (opt c (Suc i) (Suc j')) (alignment_cost add zero c ks)" by (rule le_trans)
    qed
  qed (use Suc.prems in \<open>simp add: le_refl good_zero\<close>)
next
  case 0
  then have "j = 0" "ks = []" using alignment_length_le [of 0 j ks] by (auto simp: alignment_def)
  then show ?case by (simp add: le_refl good_zero)
qed

end

text \<open>Addition of a finite double is such a sum.\<close>

fun finite_f64 :: "f64 \<Rightarrow> bool" where
  "finite_f64 (Fin _) = True"
| "finite_f64 _ = False"

interpretation dp: cost_sum f64_add f64_le f64_lt "Fin 0" PInf "\<lambda>x. x \<noteq> NaN" finite_f64
proof unfold_locales
  fix x y k :: f64
  show "f64_lt x y \<longleftrightarrow> f64_le x y \<and> \<not> f64_le y x" by (rule f64_lt_iff)
  show "x \<noteq> NaN \<Longrightarrow> finite_f64 k \<Longrightarrow> f64_add x k \<noteq> NaN" by (cases k) auto
  show "finite_f64 k \<Longrightarrow> f64_le x y \<Longrightarrow> f64_le (f64_add x k) (f64_add y k)"
    by (cases k) (auto intro: f64_add_mono_left)
qed (auto intro: f64_le_trans dest: f64_le_total)

section \<open>The tables\<close>

definition pair_cost :: "f64 list \<Rightarrow> f64 list \<Rightarrow> f64 \<Rightarrow> nat \<Rightarrow> nat \<Rightarrow> f64" where
  "pair_cost sent reply used_rtt i j = match_cost (reply ! j) (sent ! i) used_rtt"

fun dp_pred :: "(nat \<Rightarrow> nat \<Rightarrow> f64) \<Rightarrow> nat \<Rightarrow> nat \<Rightarrow> dp_prev" where
  "dp_pred c 0 j = None"
| "dp_pred c (Suc i) 0 = Some (i, 0, - 1)"
| "dp_pred c (Suc i) (Suc j) =
     (if Suc j \<le> Suc i then
        if f64_lt (dp.opt c i (Suc j)) (f64_add (dp.opt c i j) (c i j)) then Some (i, Suc j, - 1)
        else Some (i, j, int j)
      else None)"

definition dp_ideal_row :: "(nat \<Rightarrow> nat \<Rightarrow> f64) \<Rightarrow> nat \<Rightarrow> nat \<Rightarrow> (f64 \<times> dp_prev) list" where
  "dp_ideal_row c m i = map (\<lambda>j. (dp.opt c i j, dp_pred c i j)) [0..<m + 1]"

lemma dp_ideal_row_values [simp]: "map fst (dp_ideal_row c m i) = map (dp.opt c i) [0..<m + 1]"
  by (simp add: dp_ideal_row_def)

lemma dp_ideal_row_Cons:
  "dp_ideal_row c m i = (dp.opt c i 0, dp_pred c i 0) # map (\<lambda>j. (dp.opt c i j, dp_pred c i j)) [1..<m + 1]"
  unfolding dp_ideal_row_def by (subst upt_conv_Cons) simp_all

lemma dp_row0_ideal: "dp_row0 m = dp_ideal_row c m 0"
proof -
  have "map (\<lambda>j. (dp.opt c 0 j, dp_pred c 0 j)) [1..<m + 1] = map (\<lambda>j. (PInf, None)) [1..<m + 1]"
    by (rule map_cong) (auto simp: dp.opt_inf)
  then show ?thesis by (simp add: dp_ideal_row_Cons dp_row0_def map_replicate_const)
qed

lemma dp_row_ideal:
  assumes "\<And>j. j < length reply \<Longrightarrow> c i j = match_cost (reply ! j) s used_rtt"
  shows "dp_row s reply used_rtt (Suc i) (map (dp.opt c i) [0..<length reply + 1])
    = dp_ideal_row c (length reply) (Suc i)"
proof -
  let ?row = "map (dp.opt c i) [0..<length reply + 1]"
  have cell: "(if j \<le> min (Suc i) (length reply) then dp_cell s reply used_rtt (Suc i) ?row j else (PInf, None))
      = (dp.opt c (Suc i) j, dp_pred c (Suc i) j)" if "j \<in> set [1..<length reply + 1]" for j
  proof -
    from that have "j \<in> {1..<length reply + 1}" by (simp only: set_upt)
    then obtain j' where j: "j = Suc j'" "j' < length reply" by (cases j) auto
    have "?row ! j' = dp.opt c i j'" "?row ! Suc j' = dp.opt c i (Suc j')"
      using j(2) by (simp_all only: nth_map length_upt nth_upt) (simp_all add: nth_append)
    then show ?thesis using j assms [of j'] by (simp add: dp_cell_def Let_def del: upt_Suc)
  qed
  have "map (\<lambda>j. if j \<le> min (Suc i) (length reply) then dp_cell s reply used_rtt (Suc i) ?row j else (PInf, None))
      [1..<length reply + 1] = map (\<lambda>j. (dp.opt c (Suc i) j, dp_pred c (Suc i) j)) [1..<length reply + 1]"
    by (rule map_cong [OF refl]) (rule cell)
  then show ?thesis
    unfolding dp_row_def dp_ideal_row_Cons by simp
qed

lemma dp_rows_ideal:
  assumes "\<And>k j. k < length sent \<Longrightarrow> j < length reply \<Longrightarrow> c (i + k) j = match_cost (reply ! j) (sent ! k) used_rtt"
  shows "dp_rows reply used_rtt (Suc i) (map (dp.opt c i) [0..<length reply + 1]) sent
    = map (dp_ideal_row c (length reply)) [Suc i..<Suc i + length sent]"
  using assms
proof (induction sent arbitrary: i)
  case (Cons s sent)
  have row: "dp_row s reply used_rtt (Suc i) (map (dp.opt c i) [0..<length reply + 1])
      = dp_ideal_row c (length reply) (Suc i)"
    using Cons.prems [of 0] by (intro dp_row_ideal) simp
  have "c (Suc i + k) j = match_cost (reply ! j) (sent ! k) used_rtt"
    if "k < length sent" "j < length reply" for k j
    using Cons.prems [of "Suc k" j] that by simp
  from Cons.IH [OF this]
  have "dp_rows reply used_rtt (Suc (Suc i)) (map (dp.opt c (Suc i)) [0..<length reply + 1]) sent
    = map (dp_ideal_row c (length reply)) [Suc (Suc i)..<Suc (Suc i) + length sent]" .
  moreover have "[Suc i..<Suc i + length (s # sent)] = Suc i # [Suc (Suc i)..<Suc (Suc i) + length sent]"
    by (subst upt_conv_Cons) simp_all
  ultimately show ?case
    unfolding dp_rows.simps Let_def row dp_ideal_row_values by (simp del: upt_Suc)
qed simp

lemma dp_table_ideal:
  "dp_table sent reply used_rtt
     = map (dp_ideal_row (pair_cost sent reply used_rtt) (length reply)) [0..<length sent + 1]"
proof -
  let ?c = "pair_cost sent reply used_rtt" and ?m = "length reply"
  have "dp_rows reply used_rtt (Suc 0) (map (dp.opt ?c 0) [0..<?m + 1]) sent
      = map (dp_ideal_row ?c ?m) [Suc 0..<Suc 0 + length sent]"
    by (rule dp_rows_ideal) (simp add: pair_cost_def)
  moreover have "[0..<length sent + 1] = 0 # [Suc 0..<Suc 0 + length sent]"
    by (subst upt_conv_Cons) simp_all
  ultimately show ?thesis
    unfolding dp_table_def dp_row0_ideal [of ?m ?c] by (simp del: upt_Suc)
qed

section \<open>Backtracking\<close>

lemma dp_backtrack_trace:
  assumes ok: "dp.costs_ok n m c"
    and tab: "\<And>i j. i \<le> n \<Longrightarrow> j \<le> m \<Longrightarrow> i < length prev \<and> j < length (prev ! i) \<and> prev ! i ! j = dp_pred c i j"
  shows "j \<le> i \<Longrightarrow> i \<le> n \<Longrightarrow> j \<le> m \<Longrightarrow> length mp = n \<Longrightarrow>
    \<exists>mp'. dp_backtrack prev i j mp = Some mp' \<and> length mp' = n \<and>
      (\<forall>t < j. mp' ! (dp.trace c i j ! t) = Some t) \<and>
      (\<forall>k. k \<notin> set (dp.trace c i j) \<longrightarrow> mp' ! k = mp ! k)"
proof (induction i arbitrary: j mp)
  case 0
  then show ?case by (subst dp_backtrack.simps) simp
next
  case (Suc i)
  have idx: "index prev (Suc i) = Some (prev ! Suc i)" "index (prev ! Suc i) j = Some (dp_pred c (Suc i) j)"
    using tab [of "Suc i" j] Suc.prems by (auto simp: index_def)
  show ?case
  proof (cases j)
    case 0
    with Suc.IH [of 0 mp] Suc.prems idx show ?thesis by (subst dp_backtrack.simps) simp
  next
    case (Suc j')
    show ?thesis
    proof (cases "f64_lt (dp.opt c i (Suc j')) (f64_add (dp.opt c i j') (c i j'))")
      case True
      have "j' \<noteq> i" using True dp.never_skip_full [OF ok, of i] Suc Suc.prems by auto
      with Suc Suc.prems have "Suc j' \<le> i" by simp
      with Suc.IH [of "Suc j'" mp] Suc Suc.prems True idx show ?thesis
        by (subst dp_backtrack.simps) simp
    next
      case False
      have al: "alignment i j' (dp.trace c i j')"
        using dp.trace_alignment [OF ok, of j' i] Suc Suc.prems by simp
      then have len: "length (dp.trace c i j') = j'" and nin: "i \<notin> set (dp.trace c i j')"
        by (auto simp: alignment_def)
      from Suc.IH [of j' "mp[i := Some j']"] Suc Suc.prems obtain mp' where
        mp': "dp_backtrack prev i j' (mp[i := Some j']) = Some mp'" "length mp' = n"
        "\<forall>t < j'. mp' ! (dp.trace c i j' ! t) = Some t"
        "\<forall>k. k \<notin> set (dp.trace c i j') \<longrightarrow> mp' ! k = mp[i := Some j'] ! k" by auto
      have "dp_backtrack prev (Suc i) j mp = Some mp'"
        using idx Suc Suc.prems False mp'(1) by (subst dp_backtrack.simps) simp
      moreover have "\<forall>t < j. mp' ! (dp.trace c (Suc i) j ! t) = Some t"
        using mp'(3,4) nin len False Suc Suc.prems by (auto simp: nth_append less_Suc_eq)
      moreover have "\<forall>k. k \<notin> set (dp.trace c (Suc i) j) \<longrightarrow> mp' ! k = mp ! k"
        using mp'(4) False Suc by auto
      ultimately show ?thesis using mp'(2) by blast
    qed
  qed
qed


lemma match_sent_reply_dp_aligns:
  assumes "length reply \<le> length sent"
    and "\<And>i j. i < length sent \<Longrightarrow> j < length reply \<Longrightarrow> finite_f64 (pair_cost sent reply used_rtt i j)"
  shows "\<exists>mapping ks. match_sent_reply_dp sent reply used_rtt = Some mapping \<and>
    length mapping = length sent \<and> alignment (length sent) (length reply) ks \<and>
    (\<forall>t < length reply. mapping ! (ks ! t) = Some t) \<and>
    (\<forall>k < length sent. k \<notin> set ks \<longrightarrow> mapping ! k = None) \<and>
    (\<forall>ks'. alignment (length sent) (length reply) ks' \<longrightarrow>
      f64_le (alignment_cost f64_add (Fin 0) (pair_cost sent reply used_rtt) ks)
             (alignment_cost f64_add (Fin 0) (pair_cost sent reply used_rtt) ks'))"
proof -
  let ?c = "pair_cost sent reply used_rtt" and ?n = "length sent" and ?m = "length reply"
  let ?prev = "map (map snd) (dp_table sent reply used_rtt)"
  have ok: "dp.costs_ok ?n ?m ?c" using assms(2) by (simp add: dp.costs_ok_def)
  have "i < length ?prev \<and> j < length (?prev ! i) \<and> ?prev ! i ! j = dp_pred ?c i j"
    if "i \<le> ?n" "j \<le> ?m" for i j
    using that by (simp add: dp_table_ideal dp_ideal_row_def less_Suc_eq_le del: upt_Suc)
  from dp_backtrack_trace [OF ok this assms(1), of "replicate ?n None"] obtain mp where
    mp: "match_sent_reply_dp sent reply used_rtt = Some mp" "length mp = ?n"
    "\<forall>t < ?m. mp ! (dp.trace ?c ?n ?m ! t) = Some t"
    "\<forall>k. k \<notin> set (dp.trace ?c ?n ?m) \<longrightarrow> mp ! k = replicate ?n None ! k"
    by (auto simp: match_sent_reply_dp_def)
  from dp.trace_alignment [OF ok assms(1)] have
    tr: "alignment ?n ?m (dp.trace ?c ?n ?m)"
    "alignment_cost f64_add (Fin 0) ?c (dp.trace ?c ?n ?m) = dp.opt ?c ?n ?m" by auto
  with mp dp.opt_least [OF ok order_refl order_refl] show ?thesis
    by (intro exI [of _ mp] exI [of _ "dp.trace ?c ?n ?m"]) auto
qed

text \<open>
  C7. The alignment of replies with packets. With at most as many replies as packets and finite
  pair costs the programme never fails: backtracking reaches the start through set entries only. The
  mapping it returns matches reply \<open>t\<close> with the packet \<open>ks ! t\<close> for an order-preserving \<open>ks\<close>, leaves
  all other packets unmatched, and the cost of \<open>ks\<close>, summed in floating point, is minimal among
  all order-preserving alignments of all replies.
\<close>

theorem match_sent_reply_dp_optimal:
  assumes "length reply \<le> length sent"
    and "\<And>i j. i < length sent \<Longrightarrow> j < length reply \<Longrightarrow> finite_f64 (pair_cost sent reply used_rtt i j)"
  shows "\<exists>mapping ks. match_sent_reply_dp sent reply used_rtt = Some mapping \<and>
    length mapping = length sent \<and> alignment (length sent) (length reply) ks \<and>
    (\<forall>t < length reply. mapping ! (ks ! t) = Some t) \<and>
    (\<forall>k < length sent. k \<notin> set ks \<longrightarrow> mapping ! k = None) \<and>
    (\<forall>ks'. alignment (length sent) (length reply) ks' \<longrightarrow>
      f64_le (alignment_cost f64_add (Fin 0) (pair_cost sent reply used_rtt) ks)
             (alignment_cost f64_add (Fin 0) (pair_cost sent reply used_rtt) ks'))"
  by (rule match_sent_reply_dp_aligns [OF assms])

lemma match_cost_int:
  assumes "\<bar>a - b\<bar> < 2 ^ 53" and "\<bar>a - b - r\<bar> < 2 ^ 53"
  shows "match_cost (Fin (of_int a)) (Fin (of_int b)) (Fin (of_int r)) = Fin (of_int \<bar>a - b - r\<bar>)"
  using fl64_of_int [OF assms(1)] fl64_of_int [OF assms(2)] by (simp add: match_cost_def f64_sub_def)

theorem match_sent_reply_dp_optimal_witness:
  "\<exists>mapping ks. match_sent_reply_dp [Fin 0, Fin 1, Fin 2] [Fin 2, Fin 3] (Fin 1) = Some mapping \<and>
    length mapping = 3 \<and> alignment 3 2 ks \<and>
    (\<forall>t < 2. mapping ! (ks ! t) = Some t) \<and>
    (\<forall>k < 3. k \<notin> set ks \<longrightarrow> mapping ! k = None) \<and>
    (\<forall>ks'. alignment 3 2 ks' \<longrightarrow>
      f64_le (alignment_cost f64_add (Fin 0) (pair_cost [Fin 0, Fin 1, Fin 2] [Fin 2, Fin 3] (Fin 1)) ks)
             (alignment_cost f64_add (Fin 0) (pair_cost [Fin 0, Fin 1, Fin 2] [Fin 2, Fin 3] (Fin 1)) ks'))"
proof -
  let ?s = "[Fin 0, Fin 1, Fin 2]" and ?r = "[Fin 2, Fin 3]"
  have fin: "finite_f64 (pair_cost ?s ?r (Fin 1) i j)" if "i < length ?s" "j < length ?r" for i j
  proof -
    have "?s ! i = Fin (of_int (int i))" "?r ! j = Fin (of_int (int j + 2))" "i < 3" "j < 2"
      using that by (auto simp: less_Suc_eq)
    with match_cost_int [of "int j + 2" "int i" 1] show ?thesis by (simp add: pair_cost_def)
  qed
  have len: "length ?s = 3" "length ?r = 2" by simp_all
  have "length ?r \<le> length ?s" by simp
  from match_sent_reply_dp_optimal [OF this fin] show ?thesis unfolding len by blast
qed

section \<open>Matching a flowlet\<close>

lemma match_cost_finite:
  assumes "as_secs_f64 a = Fin x" "as_secs_f64 b = Fin y" "as_secs_f64 r = Fin z"
    and "0 \<le> x" "x \<le> 2 ^ 32" "0 \<le> y" "y \<le> 2 ^ 32" "0 \<le> z" "z \<le> 2 ^ 32"
  shows "finite_f64 (match_cost (as_secs_f64 a) (as_secs_f64 b) (as_secs_f64 r))"
proof -
  have "\<bar>x - y\<bar> \<le> 2 ^ 33" using assms by auto
  from fl64_abs_bounded [OF this] obtain d where d: "fl64 (x - y) = Fin d" "\<bar>d\<bar> \<le> 2 ^ 33" by auto
  have "\<bar>d - z\<bar> \<le> 2 ^ 34" using d(2) assms by auto
  from fl64_abs_bounded [OF this] obtain e where "fl64 (d - z) = Fin e" by auto
  with d assms show ?thesis by (simp add: match_cost_def f64_sub_def)
qed

definition sane_flowlet :: "flowlet \<Rightarrow> bool" where
  "sane_flowlet fl \<longleftrightarrow> sane_clock (fl_begin_time fl) \<and> sane_clock (fl_end_time fl) \<and>
     (\<forall>t \<in> set (reply_pkt_times fl). sane_clock t)"

lemma match_used_rtt_total:
  assumes "sane_flowlet fl" and "reply_pkt_times fl \<noteq> []" and "reply_rtt \<le> SANE"
  shows "\<exists>r. match_used_rtt reply_rtt fl = Some r \<and> r \<le> SANE"
proof -
  have s: "duration_since (fl_end_time fl) (fl_begin_time fl) \<le> from_secs (2 ^ 32)"
    "duration_since (last (reply_pkt_times fl)) (fl_end_time fl) \<le> SANE"
    unfolding SANE_def [symmetric]
    using assms(1,2) by (auto simp: sane_flowlet_def intro!: sane_duration_since)
  have "(8 / 10 :: rat) \<le> 2 ^ 0" by simp
  from fl64_bounded [OF _ this] obtain x where x: "DURATION_RATIO_THRESHOLD = Fin x" "0 \<le> x" "x \<le> 2 ^ 0"
    by (auto simp: DURATION_RATIO_THRESHOLD_def)
  obtain b where "mul_f64 (duration_since (fl_end_time fl) (fl_begin_time fl)) (Fin x) = Some b"
    using mul_f64_pow2 [OF s(1) _ x(2,3)] by auto
  with x(1) s(2) assms(2,3) show ?thesis
    by (auto simp: match_used_rtt_def Let_def neq_Nil_conv)
qed

lemma match_sent_part_reply_aligns:
  assumes "sane_flowlet fl" and "\<forall>t \<in> set ts. sane_clock t" and "reply_rtt \<le> SANE"
    and "reply_pkt_times fl \<noteq> []" and "length (reply_pkt_times fl) \<le> length ts"
  shows "\<exists>mapping ks. match_sent_part_reply ts reply_rtt fl = Some mapping \<and>
    length mapping = length ts \<and> alignment (length ts) (length (reply_pkt_times fl)) ks \<and>
    (\<forall>t < length (reply_pkt_times fl). mapping ! (ks ! t) = Some t) \<and>
    (\<forall>k < length ts. k \<notin> set ks \<longrightarrow> mapping ! k = None)"
proof -
  obtain r where r: "match_used_rtt reply_rtt fl = Some r" "r \<le> SANE"
    using match_used_rtt_total [OF assms(1,4,3)] by blast
  have ts: "ts \<noteq> []" using assms(4,5) by auto
  define base where "base = ts ! 0"
  have base: "sane_clock base" using assms(2) ts by (simp add: base_def)
  let ?f = "\<lambda>t. as_secs_f64 (duration_since t base)"
  let ?sent = "map ?f ts" and ?reply = "map ?f (reply_pkt_times fl)"
  have fin: "\<exists>s. as_secs_f64 d = Fin s \<and> 0 \<le> s \<and> s \<le> 2 ^ 32" if "d \<le> SANE" for d
    using as_secs_f64_le [of d 32] that by (simp add: SANE_def)
  have "finite_f64 (pair_cost ?sent ?reply (as_secs_f64 r) i j)"
    if "i < length ?sent" "j < length ?reply" for i j
  proof -
    have "duration_since (ts ! i) base \<le> SANE" "duration_since (reply_pkt_times fl ! j) base \<le> SANE"
      using that assms(1,2) base by (auto intro!: sane_duration_since simp: sane_flowlet_def)
    from fin [OF this(1)] fin [OF this(2)] fin [OF r(2)] that show ?thesis
      by (auto simp: pair_cost_def intro!: match_cost_finite)
  qed
  from match_sent_reply_dp_aligns [OF _ this] assms(5) obtain mapping ks where
    "match_sent_reply_dp ?sent ?reply (as_secs_f64 r) = Some mapping"
    "length mapping = length ts" "alignment (length ts) (length (reply_pkt_times fl)) ks"
    "\<forall>t < length (reply_pkt_times fl). mapping ! (ks ! t) = Some t"
    "\<forall>k < length ts. k \<notin> set ks \<longrightarrow> mapping ! k = None" by auto
  moreover from this r ts assms(4)
  have "match_sent_part_reply ts reply_rtt fl = Some mapping"
    by (simp add: match_sent_part_reply_def index_def base_def Let_def)
  ultimately show ?thesis by blast
qed

text \<open>
  C8. Matching a partly replied flowlet never panics and is complete: with between one reply and as
  many replies as packets, on clock readings and an RTT below \<open>2^32\<close> seconds, the mapping covers all
  packets, every reply is matched exactly once and replies keep the order of the packets.
\<close>

theorem match_sent_part_reply_ok:
  assumes "sane_flowlet fl" and "\<forall>t \<in> set ts. sane_clock t" and "reply_rtt \<le> SANE"
    and "reply_pkt_times fl \<noteq> []" and "length (reply_pkt_times fl) \<le> length ts"
  shows "\<exists>mapping ks. match_sent_part_reply ts reply_rtt fl = Some mapping \<and>
    length mapping = length ts \<and> alignment (length ts) (length (reply_pkt_times fl)) ks \<and>
    (\<forall>t < length (reply_pkt_times fl). mapping ! (ks ! t) = Some t) \<and>
    (\<forall>k < length ts. k \<notin> set ks \<longrightarrow> mapping ! k = None)"
  by (rule match_sent_part_reply_aligns [OF assms])

theorem match_sent_part_reply_ok_witness:
  "\<exists>mapping ks. match_sent_part_reply [0, 1000000000, 2000000000] 1000000000
      \<lparr>pkt_nums = [1, 2, 3], close_count = 0, reply_pkt_times = [2000000000, 3000000000],
       reply_pkt_nums = [1, 2], fl_begin_time = 0, fl_end_time = 2000000000, fl_complete = True\<rparr> = Some mapping \<and>
    length mapping = 3 \<and> alignment 3 2 ks \<and> mapping ! (ks ! 0) = Some 0 \<and> mapping ! (ks ! 1) = Some 1"
proof -
  let ?fl = "\<lparr>pkt_nums = [1, 2, 3], close_count = 0, reply_pkt_times = [2000000000, 3000000000],
       reply_pkt_nums = [1, 2], fl_begin_time = 0, fl_end_time = 2000000000, fl_complete = True\<rparr>"
  let ?ts = "[0, 1000000000, 2000000000] :: instant list"
  have len: "length ?ts = 3" "length (reply_pkt_times ?fl) = 2" by simp_all
  have "sane_flowlet ?fl" "\<forall>t \<in> set ?ts. sane_clock t" "1000000000 \<le> SANE"
    "reply_pkt_times ?fl \<noteq> []" "length (reply_pkt_times ?fl) \<le> length ?ts"
    by (simp_all add: sane_flowlet_def sane_clock_iff SANE_eq)
  from match_sent_part_reply_ok [OF this] show ?thesis unfolding len by (meson one_less_numeral_iff pos2 semiring_norm(76))
qed

end
