(* ===== verification/Loss_Inference.thy ===== *)
theory Loss_Inference
  imports Flowlet
begin

text \<open>
  What \<open>Flowlet::extract_part_loss\<close> computes: the loops that spread a reply to close packets and the
  two-pointer loop over unreplied runs give the declarative relations \<open>replied\<close> and \<open>lost\<close>. These follow
  the code, which counts fewer packets as replied than the comment of the function says (\<open>after_reply_lost\<close>).
\<close>

section \<open>Specification\<close>

text \<open>All packets from one to the other follow each other closer than \<open>CLOSE_THRESHOLD\<close>.\<close>

definition close_run :: "instant list \<Rightarrow> nat \<Rightarrow> nat \<Rightarrow> bool" where
  "close_run ts k l \<longleftrightarrow> (\<forall>p. min k l \<le> p \<and> p < max k l \<longrightarrow> close_gap ts p)"

definition replied :: "instant list \<Rightarrow> nat option list \<Rightarrow> nat \<Rightarrow> bool" where
  "replied ts mapping l \<longleftrightarrow> (\<exists>k < length ts. mapping ! k \<noteq> None \<and> close_run ts k l)"

text \<open>
  With a threshold of two a single unreplied packet that has a replied successor and no unreplied
  predecessor counts as replied; one at the end of the flowlet and two in a row do not. (The comment of the
  function counts all packets next to a mapped one, and all within the threshold before and after it, as
  replied.)
\<close>

definition lost :: "instant list \<Rightarrow> nat option list \<Rightarrow> nat \<Rightarrow> nat \<Rightarrow> bool" where
  "lost ts mapping threshold l \<longleftrightarrow> \<not> replied ts mapping l \<and>
     (threshold < 2 \<or> l + 1 = length ts \<or> \<not> replied ts mapping (l + 1) \<or>
      (0 < l \<and> \<not> replied ts mapping (l - 1)))"

lemma close_run_refl [simp]: "close_run ts k k"
  by (auto simp: close_run_def)

lemma close_run_trans:
  assumes "close_run ts a b" and "close_run ts b c"
  shows "close_run ts a c"
  unfolding close_run_def
proof (intro allI impI)
  fix p
  assume "min a c \<le> p \<and> p < max a c"
  then have "(min a b \<le> p \<and> p < max a b) \<or> (min b c \<le> p \<and> p < max b c)"
    by (auto simp: min_def max_def split: if_splits)
  with assms show "close_gap ts p" by (auto simp: close_run_def)
qed

section \<open>Spreading a reply\<close>

lemma length_spread_before [simp]: "length (spread_before ts r j xs) = length xs"
  by (induction ts r j xs rule: spread_before.induct) auto

lemma length_spread_after [simp]: "length (spread_after ts r j xs) = length xs"
proof (induction ts r j xs rule: spread_after.induct)
  case (1 ts r j xs)
  then show ?case by (subst spread_after.simps) simp
qed

lemma spread_before_iff:
  "j \<le> length xs \<Longrightarrow> spread_before ts r j xs ! l \<noteq> None \<longleftrightarrow>
     xs ! l \<noteq> None \<or> (l < j \<and> (\<forall>p. l \<le> p \<and> p < j \<longrightarrow> close_gap ts p \<and> xs ! p = None))"
proof (induction ts r j xs rule: spread_before.induct)
  case (2 ts r j xs)
  show ?case
  proof (cases "xs ! j = None \<and> close_gap ts j")
    case True
    with 2 have "spread_before ts r (Suc j) xs ! l \<noteq> None \<longleftrightarrow>
        xs[j := Some r] ! l \<noteq> None \<or>
        (l < j \<and> (\<forall>p. l \<le> p \<and> p < j \<longrightarrow> close_gap ts p \<and> xs[j := Some r] ! p = None))"
      by simp
    also have "\<dots> \<longleftrightarrow> xs ! l \<noteq> None \<or>
        (l < Suc j \<and> (\<forall>p. l \<le> p \<and> p < Suc j \<longrightarrow> close_gap ts p \<and> xs ! p = None))"
      using True 2(2) by (auto simp: nth_list_update less_Suc_eq)
    finally show ?thesis .
  next
    case False
    then show ?thesis by (auto simp: less_Suc_eq)
  qed
qed simp

lemma all_from_Suc:
  "j \<le> l \<Longrightarrow> (\<forall>p. j \<le> p \<and> p \<le> l \<longrightarrow> Q p) \<longleftrightarrow> Q j \<and> (\<forall>p. j + 1 \<le> p \<and> p \<le> l \<longrightarrow> Q p)" for j l :: nat
  by (auto simp: Suc_le_eq) (metis le_neq_implies_less)

lemma spread_after_iff:
  "length xs = length ts \<Longrightarrow> spread_after ts r j xs ! l \<noteq> None \<longleftrightarrow>
     xs ! l \<noteq> None \<or> (j \<le> l \<and> l < length ts \<and> (\<forall>p. j \<le> p \<and> p \<le> l \<longrightarrow> close_gap ts (p - 1) \<and> xs ! p = None))"
proof (induction ts r j xs rule: spread_after.induct)
  case (1 ts r j xs)
  show ?case
  proof (cases "j < length ts \<and> xs ! j = None \<and> close_gap ts (j - 1)")
    case True
    with 1 have "spread_after ts r j xs ! l \<noteq> None \<longleftrightarrow>
        xs[j := Some r] ! l \<noteq> None \<or> (j + 1 \<le> l \<and> l < length ts \<and>
          (\<forall>p. j + 1 \<le> p \<and> p \<le> l \<longrightarrow> close_gap ts (p - 1) \<and> xs[j := Some r] ! p = None))"
      by (subst spread_after.simps) simp
    also have "\<dots> \<longleftrightarrow> xs ! l \<noteq> None \<or> (j \<le> l \<and> l < length ts \<and>
        (\<forall>p. j \<le> p \<and> p \<le> l \<longrightarrow> close_gap ts (p - 1) \<and> xs ! p = None))"
    proof -
      let ?Q = "\<lambda>p. close_gap ts (p - 1) \<and> xs ! p = None"
      have split: "(\<forall>p. j \<le> p \<and> p \<le> l \<longrightarrow> ?Q p) \<longleftrightarrow> ?Q j \<and> (\<forall>p. j + 1 \<le> p \<and> p \<le> l \<longrightarrow> ?Q p)"
        if "j \<le> l" by (rule all_from_Suc [OF that])
      have upd: "(\<forall>p. j + 1 \<le> p \<and> p \<le> l \<longrightarrow> close_gap ts (p - 1) \<and> xs[j := Some r] ! p = None) \<longleftrightarrow>
          (\<forall>p. j + 1 \<le> p \<and> p \<le> l \<longrightarrow> ?Q p)"
        by auto
      consider "l < j" | "l = j" | "j < l" by linarith
      then show ?thesis
      proof cases
        case 3
        with True 1(2) split show ?thesis unfolding upd by (simp add: nth_list_update)
      qed (use True 1(2) in \<open>auto simp: nth_list_update\<close>)
    qed
    finally show ?thesis .
  next
    case False
    then show ?thesis by (subst spread_after.simps) auto
  qed
qed

text \<open>After the first \<open>i\<close> packets exactly the runs that contain a matched one of them are marked.\<close>

definition inferred_upto :: "instant list \<Rightarrow> nat option list \<Rightarrow> nat \<Rightarrow> nat option list \<Rightarrow> bool" where
  "inferred_upto ts mapping i xs \<longleftrightarrow> length xs = length ts \<and>
     (\<forall>l < length ts. xs ! l \<noteq> None \<longleftrightarrow> (\<exists>k < i. mapping ! k \<noteq> None \<and> close_run ts k l))"

lemma infer_step_inferred:
  assumes inv: "inferred_upto ts mapping i xs" and i: "i < length ts"
  shows "inferred_upto ts mapping (Suc i) (infer_step ts mapping i xs)"
proof (cases "mapping ! i")
  case None
  with inv show ?thesis by (auto simp: infer_step_def inferred_upto_def less_Suc_eq)
next
  case (Some r)
  let ?xs = "xs[i := Some r]"
  let ?b = "spread_before ts r i ?xs"
  have len: "length xs = length ts" using inv by (simp add: inferred_upto_def)
  have old: "xs ! l \<noteq> None" if "l < length ts" "close_run ts p l" "p < length ts" "xs ! p \<noteq> None" for l p
    using inv that by (auto simp: inferred_upto_def intro: close_run_trans)
  have after: "spread_after ts r (i + 1) ?b ! l \<noteq> None \<longleftrightarrow> xs ! l \<noteq> None \<or> close_run ts i l"
    if l: "l < length ts" for l
  proof -
    have b: "?b ! p \<noteq> None \<longleftrightarrow> ?xs ! p \<noteq> None \<or>
        (p < i \<and> (\<forall>q. p \<le> q \<and> q < i \<longrightarrow> close_gap ts q \<and> ?xs ! q = None))" for p
      using i len by (intro spread_before_iff) simp
    have a: "spread_after ts r (i + 1) ?b ! l \<noteq> None \<longleftrightarrow> ?b ! l \<noteq> None \<or>
        (i + 1 \<le> l \<and> (\<forall>p. i + 1 \<le> p \<and> p \<le> l \<longrightarrow> close_gap ts (p - 1) \<and> ?b ! p = None))"
      using spread_after_iff [of ?b ts r "i + 1" l] l len by simp
    consider "l = i" | "l < i" | "i < l" by linarith
    then show ?thesis
    proof cases
      case 1
      with a b [of i] i len show ?thesis by auto
    next
      case 2
      have "(\<forall>q. l \<le> q \<and> q < i \<longrightarrow> close_gap ts q \<and> xs ! q = None) \<longleftrightarrow>
          close_run ts i l \<and> (\<forall>q. l \<le> q \<and> q < i \<longrightarrow> xs ! q = None)"
        using 2 by (auto simp: close_run_def)
      moreover have "xs ! l \<noteq> None" if "close_run ts i l" "l \<le> q" "q < i" "xs ! q \<noteq> None" for q
        using that i l old [of l q] by (auto simp: close_run_def)
      ultimately show ?thesis using a b [of l] 2 by (auto simp: nth_list_update)
    next
      case 3
      have "(\<forall>p. i + 1 \<le> p \<and> p \<le> l \<longrightarrow> close_gap ts (p - 1) \<and> ?b ! p = None) \<longleftrightarrow>
          close_run ts i l \<and> (\<forall>p. i < p \<and> p \<le> l \<longrightarrow> xs ! p = None)"
      proof -
        have "(\<forall>p. i + 1 \<le> p \<and> p \<le> l \<longrightarrow> close_gap ts (p - 1)) \<longleftrightarrow> close_run ts i l"
          using 3 by (auto simp: close_run_def min_def max_def Suc_le_eq)
            (metis Suc_pred diff_Suc_1 less_Suc_eq_le less_imp_Suc_add not_less_eq zero_less_Suc)+
        moreover have "?b ! p = None \<longleftrightarrow> xs ! p = None" if "i < p" for p
          using b [of p] that by (simp del: not_None_eq)
        ultimately show ?thesis by (auto simp: Suc_le_eq)
      qed
      moreover have "xs ! l \<noteq> None" if "close_run ts i l" "i < q" "q \<le> l" "xs ! q \<noteq> None" for q
        using that l old [of l q] by (auto simp: close_run_def)
      ultimately show ?thesis using a b [of l] 3 by (auto simp: nth_list_update)
    qed
  qed
  with inv Some len show ?thesis
    by (auto simp: infer_step_def inferred_upto_def less_Suc_eq)
qed

lemma infer_replies_inferred: "inferred_upto ts mapping (length ts) (infer_replies ts mapping)"
proof -
  have "inferred_upto ts mapping i (fold (infer_step ts mapping) [0..<i] (replicate (length ts) None))"
    if "i \<le> length ts" for i
    using that
  proof (induction i)
    case 0
    then show ?case by (simp add: inferred_upto_def)
  next
    case (Suc i)
    then show ?case using infer_step_inferred [of ts mapping i] by simp
  qed
  from this [of "length ts"] show ?thesis by (simp add: infer_replies_def)
qed

lemma length_infer_replies [simp]: "length (infer_replies ts mapping) = length ts"
  using infer_replies_inferred [of ts mapping] by (simp add: inferred_upto_def)

lemma infer_replies_iff:
  "l < length ts \<Longrightarrow> infer_replies ts mapping ! l \<noteq> None \<longleftrightarrow> replied ts mapping l"
  using infer_replies_inferred [of ts mapping] unfolding inferred_upto_def replied_def by blast

section \<open>Runs of unreplied packets\<close>

lemma run_end_props:
  "right \<le> length xs \<Longrightarrow> run_end xs right \<le> length xs \<and>
     (\<forall>p. right \<le> p \<and> p < run_end xs right \<longrightarrow> xs ! p = None) \<and>
     (run_end xs right < length xs \<longrightarrow> xs ! run_end xs right \<noteq> None)"
proof (induction xs right rule: run_end.induct)
  case (1 xs right)
  show ?case
  proof (cases "right < length xs \<and> xs ! right = None")
    case True
    then have eq: "run_end xs right = run_end xs (right + 1)" by (subst run_end.simps) simp
    have "right + 1 \<le> length xs" using True by simp
    note ih = 1(1) [OF True this]
    have "xs ! p = None" if "right \<le> p" "p < run_end xs (right + 1)" for p
      using ih True that by (cases "p = right") auto
    with ih show ?thesis unfolding eq by blast
  next
    case False
    then have "run_end xs right = right" by (subst run_end.simps) auto
    with False 1(2) show ?thesis by auto
  qed
qed

definition single_gap :: "nat option list \<Rightarrow> nat \<Rightarrow> bool" where
  "single_gap xs p \<longleftrightarrow> xs ! p = None \<and> p + 1 < length xs \<and> xs ! (p + 1) \<noteq> None \<and>
     (0 < p \<longrightarrow> xs ! (p - 1) \<noteq> None)"

text \<open>At the head of the loop \<open>left\<close> is not inside a run.\<close>

lemma eliciting_pass_spec:
  assumes "left < length xs \<longrightarrow> xs ! left = None \<longrightarrow> 0 < left \<longrightarrow> xs ! (left - 1) \<noteq> None"
  shows "\<exists>ys. eliciting_pass 2 left xs = Some ys \<and> length ys = length xs \<and>
    (\<forall>p < length xs. ys ! p = None \<longleftrightarrow> xs ! p = None \<and> \<not> (left \<le> p \<and> single_gap xs p))"
  using assms
proof (induction "2::nat" left xs rule: eliciting_pass.induct)
  case (1 left xs)
  note IH = 1(1-3) and head = 1(4)
  let ?r = "run_end xs left"
  consider (finished) "\<not> left < length xs" | (matched) "left < length xs" "xs ! left \<noteq> None"
    | (gap) "left < length xs" "xs ! left = None" by blast
  then show ?case
  proof cases
    case finished
    then show ?thesis by (subst eliciting_pass.simps) auto
  next
    case matched
    then have "eliciting_pass 2 left xs = eliciting_pass 2 (left + 1) xs"
      by (subst eliciting_pass.simps) simp
    moreover have "left \<le> p \<and> single_gap xs p \<longleftrightarrow> left + 1 \<le> p \<and> single_gap xs p" for p
      using matched(2) by (auto simp: single_gap_def le_eq_less_or_eq)
    ultimately show ?thesis using IH(1) [OF matched] matched(2) by auto
  next
    case gap
    note r = run_end_props [of left xs] run_end_gt [OF gap]
    show ?thesis
    proof (cases "?r = length xs")
      case True
      have "\<not> single_gap xs p" if "left \<le> p" "p < length xs" for p
        using that True r gap by (auto simp: single_gap_def)
      moreover have "eliciting_pass 2 left xs = Some xs"
        using gap True by (subst eliciting_pass.simps) (simp add: Let_def)
      ultimately show ?thesis by auto
    next
      case False
      with r gap have r_lt: "?r < length xs" "xs ! ?r \<noteq> None" by auto
      show ?thesis
      proof (cases "?r - left = 1")
        case True
        then have right: "?r = left + 1" using r(2) by simp
        have mark: "mark_replied left (Suc left) xs = xs[left := Some 0]"
          by (simp add: mark_replied_def)
        have eq: "eliciting_pass 2 left xs = eliciting_pass 2 ?r (xs[left := Some 0])"
          using gap False True mark right by (subst eliciting_pass.simps) (simp add: Let_def)
        have "\<exists>ys. eliciting_pass 2 ?r (xs[left := Some 0]) = Some ys \<and> length ys = length xs \<and>
            (\<forall>p < length xs. ys ! p = None \<longleftrightarrow> xs[left := Some 0] ! p = None \<and>
               \<not> (?r \<le> p \<and> single_gap (xs[left := Some 0]) p))"
          using IH(2) [of ?r] gap False True r_lt right by (simp add: mark)
        moreover have "xs[left := Some 0] ! p = None \<and> \<not> (?r \<le> p \<and> single_gap (xs[left := Some 0]) p) \<longleftrightarrow>
            xs ! p = None \<and> \<not> (left \<le> p \<and> single_gap xs p)" if "p < length xs" for p
          using that gap head r_lt right by (auto simp: single_gap_def nth_list_update le_Suc_eq)
        ultimately show ?thesis unfolding eq by auto
      next
        case long: False
        with r(2) have "2 \<le> ?r - left" by simp
        then have eq: "eliciting_pass 2 left xs = eliciting_pass 2 ?r xs"
          using gap False by (subst eliciting_pass.simps) (simp add: Let_def)
        have "\<not> single_gap xs p" if "left \<le> p" "p < ?r" for p
        proof (cases "p + 1 < ?r")
          case True
          then have "xs ! (p + 1) = None" using r gap that by auto
          then show ?thesis by (simp add: single_gap_def)
        next
          case False
          then have "left \<le> p - 1" "p - 1 < ?r" "0 < p" using that \<open>2 \<le> ?r - left\<close> by auto
          moreover from this have "xs ! (p - 1) = None" using r(1) gap by auto
          ultimately show ?thesis by (simp add: single_gap_def)
        qed
        then have "left \<le> p \<and> single_gap xs p \<longleftrightarrow> ?r \<le> p \<and> single_gap xs p" for p
          using r(2) by (metis leI le_trans less_imp_le)
        moreover have "\<exists>ys. eliciting_pass 2 ?r xs = Some ys \<and> length ys = length xs \<and>
            (\<forall>p < length xs. ys ! p = None \<longleftrightarrow> xs ! p = None \<and> \<not> (?r \<le> p \<and> single_gap xs p))"
          using IH(3) [of ?r] gap False \<open>2 \<le> ?r - left\<close> r_lt by simp
        ultimately show ?thesis unfolding eq by auto
      qed
    qed
  qed
qed

lemma lossed_of_eq:
  assumes "length nums = length xs"
  shows "lossed_of nums xs = Some {nums ! p | p. p < length xs \<and> xs ! p = None}"
proof -
  have "mapO (index nums) (filter (\<lambda>i. xs ! i = None) [0..<length xs])
      = Some (map ((!) nums) (filter (\<lambda>i. xs ! i = None) [0..<length xs]))"
    by (rule mapO_Some_map) (use assms in auto)
  then show ?thesis by (auto simp: lossed_of_def)
qed

lemma extract_part_loss_spec:
  assumes "length mapping = length ts" and "length (pkt_nums fl) = length ts"
    and "threshold = 1 \<or> threshold = 2"
  shows "extract_part_loss ts mapping threshold fl
    = Some {pkt_nums fl ! p | p. p < length ts \<and> lost ts mapping threshold p}"
proof -
  let ?xs = "infer_replies ts mapping"
  have len: "length ?xs = length ts" by simp
  have rep: "?xs ! p \<noteq> None \<longleftrightarrow> replied ts mapping p" if "p < length ts" for p
    by (rule infer_replies_iff [OF that])
  show ?thesis
  proof (cases "threshold = 2")
    case True
    obtain ys where ys: "eliciting_pass 2 0 ?xs = Some ys" "length ys = length ts"
      "\<forall>p < length ts. ys ! p = None \<longleftrightarrow> ?xs ! p = None \<and> \<not> single_gap ?xs p"
      using eliciting_pass_spec [of 0 ?xs] by (auto simp: len)
    have "ys ! p = None \<longleftrightarrow> lost ts mapping 2 p" if p: "p < length ts" for p
    proof -
      have "p + 1 \<noteq> length ts \<Longrightarrow> ?xs ! (p + 1) \<noteq> None \<longleftrightarrow> replied ts mapping (p + 1)"
        "0 < p \<Longrightarrow> ?xs ! (p - 1) \<noteq> None \<longleftrightarrow> replied ts mapping (p - 1)"
        using p rep [of "p + 1"] rep [of "p - 1"] by simp_all
      with ys(3) p rep [OF p] show ?thesis by (auto simp: single_gap_def lost_def len)
    qed
    with ys True assms show ?thesis
      by (simp add: extract_part_loss_def lossed_of_eq Let_def) blast
  next
    case False
    then have "?xs ! p = None \<longleftrightarrow> lost ts mapping threshold p" if "p < length ts" for p
      using rep [OF that] assms(3) by (auto simp: lost_def)
    with False assms len show ?thesis
      by (simp add: extract_part_loss_def lossed_of_eq Let_def) blast
  qed
qed

text \<open>
  Where the code differs from the comment of the function: the last packet of a flowlet, right after a packet
  with a reply but not close to it, is lost for both thresholds, and so are two packets between
  packets with a reply, each next to one of them.
\<close>

lemma after_reply_lost:
  assumes "threshold = 1 \<or> threshold = 2" and "\<not> close_gap [s, t] 0" and "pkt_nums fl = [m, n]"
  shows "extract_part_loss [s, t] [Some r, None] threshold fl = Some {n}"
proof -
  have "replied [s, t] [Some r, None] 0" "\<not> replied [s, t] [Some r, None] 1"
    using assms(2) by (auto simp: replied_def close_run_def less_Suc_eq numeral_2_eq_2)
  then have "{[m, n] ! p | p. p < length [s, t] \<and> lost [s, t] [Some r, None] threshold p} = {n}"
    by (auto simp: lost_def less_Suc_eq numeral_2_eq_2 intro!: exI [of _ "Suc 0"])
  with extract_part_loss_spec [of "[Some r, None]" "[s, t]" fl threshold] assms show ?thesis by simp
qed

lemma between_replies_lost:
  "extract_part_loss [0, 2000000, 4000000, 6000000] [Some 0, None, None, Some 1] 2 (flowlet_new 1 0\<lparr>pkt_nums := [1, 2, 3, 4]\<rparr>)
    = Some {2, 3}"
  by code_simp

text \<open>
  C9. What loss extraction returns, in the terms of its code. With an eliciting threshold of one or two
  it never panics, and the lost packet numbers are exactly those of the packets that no run of close packets
  connects with a matched packet, except, for a threshold of two, single unreplied packets with a
  replied successor and no unreplied predecessor. The comment of the function also counts unreplied packets
  after a matched one as replied; the code does not (\<open>after_reply_lost\<close>, \<open>between_replies_lost\<close>).
\<close>

theorem extract_part_loss_exact:
  assumes "length mapping = length ts" and "length (pkt_nums fl) = length ts"
    and "threshold = 1 \<or> threshold = 2"
  shows "extract_part_loss ts mapping threshold fl
    = Some {pkt_nums fl ! p | p. p < length ts \<and> lost ts mapping threshold p}"
  by (rule extract_part_loss_spec [OF assms])

theorem extract_part_loss_exact_witness:
  "extract_part_loss [0, 10, 2000000, 4000000] [Some 0, None, None, Some 1] 1 (flowlet_new 1 0\<lparr>pkt_nums := [1, 2, 3, 4]\<rparr>)
    = Some {[1, 2, 3, 4] ! p | p. p < length [0, 10, 2000000, 4000000 :: instant] \<and> lost [0, 10, 2000000, 4000000] [Some 0, None, None, Some 1] 1 p}"
  using extract_part_loss_exact [of "[Some 0, None, None, Some 1]" "[0, 10, 2000000, 4000000]"
      "flowlet_new 1 0\<lparr>pkt_nums := [1, 2, 3, 4]\<rparr>" 1] by simp

end
