(* ===== verification/Packet_Queue.thy ===== *)
theory Packet_Queue
  imports Reply_Matching Loss_Inference
begin

text \<open>
  \<open>struct PacketQueue\<close> of \<open>pemi/src/queue.rs\<close>: the packets of one direction of a connection, their
  flowlets, and the packets found lost. A \<open>None\<close> result is a panic. The loops that complete
  flowlets terminate because each round removes one.

  The invariant \<open>pq_inv\<close> ties the queue together: the packet numbers of the flowlets, in order, are
  the numbers of the queued packets, and these are consecutive and end in \<open>processed\<close>. It is
  what makes the assertions and index computations of the source succeed.
\<close>

section \<open>Model\<close>

definition FLOWLET_MAX_PKTS :: nat where
  "FLOWLET_MAX_PKTS = 100"

definition DEFAULT_ELICITING_THRESHOLD :: nat where
  "DEFAULT_ELICITING_THRESHOLD = 1"

definition WHEN_MEASURE_ELICITING_THRESHOLD :: nat where
  "WHEN_MEASURE_ELICITING_THRESHOLD = 50"

definition THRESHOLD_FOR_1_ELICITING_THRESHOLD :: f64 where
  "THRESHOLD_FOR_1_ELICITING_THRESHOLD = fl64 (6 / 10)"

record raw_udp_packet =
  raw_number :: nat
  raw_timestamp :: instant
  raw_payload :: bytes

record retrans_udp_packet =
  rt_number :: nat
  rt_timestamp :: instant

datatype packet = Raw raw_udp_packet | Retrans retrans_udp_packet

fun pkt_number :: "packet \<Rightarrow> nat" where
  "pkt_number (Raw p) = raw_number p"
| "pkt_number (Retrans p) = rt_number p"

fun pkt_timestamp :: "packet \<Rightarrow> instant" where
  "pkt_timestamp (Raw p) = raw_timestamp p"
| "pkt_timestamp (Retrans p) = rt_timestamp p"

record packet_queue =
  packets :: "packet list"
  detected_loss :: "raw_udp_packet list"
  flowlets :: "flowlet list"
  processed :: nat
  last_packet_time :: instant
  smoothed_interval :: duration
  eliciting_threshold :: nat
  reply_nums :: nat
  flowlet_interval_factor :: f64
  flowlet_end_factor :: f64

text \<open>\<open>PacketQueue::new\<close>, with its reading of the clock.\<close>

definition queue_new :: "instant \<Rightarrow> packet_queue" where
  "queue_new clock = \<lparr>packets = [], detected_loss = [], flowlets = [], processed = 0,
     last_packet_time = clock, smoothed_interval = from_millis 1,
     eliciting_threshold = DEFAULT_ELICITING_THRESHOLD, reply_nums = 0,
     flowlet_interval_factor = Fin 2, flowlet_end_factor = Fin 2\<rparr>"

definition queue_set_factors :: "f64 \<Rightarrow> f64 \<Rightarrow> packet_queue \<Rightarrow> packet_queue" where
  "queue_set_factors interval_factor end_factor q =
     q\<lparr>flowlet_interval_factor := interval_factor, flowlet_end_factor := end_factor\<rparr>"

definition record_packet_interval :: "instant \<Rightarrow> packet_queue \<Rightarrow> packet_queue option" where
  "record_packet_interval forward_ts q = do {
     let interval = duration_since forward_ts (last_packet_time q);
     a \<leftarrow> mul_f64 (smoothed_interval q) (Fin (7 / 8));
     b \<leftarrow> mul_f64 interval (Fin (1 / 8));
     s \<leftarrow> dur_add a b;
     Some (q\<lparr>last_packet_time := forward_ts, smoothed_interval := s\<rparr>) }"

definition flowlet_timeout :: "packet_queue \<Rightarrow> duration option" where
  "flowlet_timeout q = mul_f64 (smoothed_interval q) (flowlet_interval_factor q)"

definition flowlet_end_timeout :: "duration \<Rightarrow> packet_queue \<Rightarrow> duration option" where
  "flowlet_end_timeout reply_rtt q = do {
     t \<leftarrow> flowlet_timeout q;
     e \<leftarrow> mul_f64 t (flowlet_end_factor q);
     dur_add reply_rtt e }"

definition queue_timeout :: "instant \<Rightarrow> duration \<Rightarrow> packet_queue \<Rightarrow> duration option option" where
  "queue_timeout now reply_rtt q = (case flowlets q of
       [] \<Rightarrow> Some None
     | fl # _ \<Rightarrow> do {
         t \<leftarrow> flowlet_end_timeout reply_rtt q;
         e \<leftarrow> instant_add (fl_end_time fl) t;
         Some (Some (duration_since e now)) })"

text \<open>\<open>for pkt_num in nums { let pkt = packets.pop_front().unwrap(); assert_eq!(..) }\<close>\<close>

fun pop_packets :: "nat list \<Rightarrow> packet list \<Rightarrow> packet list option" where
  "pop_packets [] ps = Some ps"
| "pop_packets (n # ns) [] = None"
| "pop_packets (n # ns) (p # ps) = (if pkt_number p = n then pop_packets ns ps else None)"

fun reset_loop :: "flowlet list \<Rightarrow> packet list \<Rightarrow> (flowlet list \<times> packet list) option" where
  "reset_loop [] ps = Some ([], ps)"
| "reset_loop (fl # fls) ps =
     (if reply_pkt_times fl = [] then Some (fl # fls, ps)
      else do { ps' \<leftarrow> pop_packets (pkt_nums fl) ps; reset_loop fls ps' })"

definition reset_due_to_rtt_deviation :: "packet_queue \<Rightarrow> packet_queue option" where
  "reset_due_to_rtt_deviation q = do {
     (fls, ps) \<leftarrow> reset_loop (flowlets q) (packets q);
     Some (q\<lparr>flowlets := fls, packets := ps\<rparr>) }"

definition measure_eliciting_threshold :: "packet_queue \<Rightarrow> packet_queue" where
  "measure_eliciting_threshold q = q\<lparr>eliciting_threshold :=
     (if reply_nums q <
         f64_to_u64 (f64_mul (f64_of_nat (processed q)) THRESHOLD_FOR_1_ELICITING_THRESHOLD)
      then 2 else 1)\<rparr>"

definition oldest_ts :: "packet_queue \<Rightarrow> instant option" where
  "oldest_ts q = (if packets q = [] then None else Some (pkt_timestamp (hd (packets q))))"

definition newest_ts :: "packet_queue \<Rightarrow> instant option" where
  "newest_ts q = (if packets q = [] then None else Some (pkt_timestamp (last (packets q))))"

text \<open>The part of \<open>add\<close> that assigns the packet to a flowlet; the flag is \<open>new_flowlet\<close>.\<close>

definition add_to_flowlet :: "instant \<Rightarrow> packet_queue \<Rightarrow> (bool \<times> packet_queue) option" where
  "add_to_flowlet forward_ts q = (case newest_ts q of
       None \<Rightarrow> Some (True, q\<lparr>flowlets := flowlets q @ [flowlet_new (processed q) forward_ts]\<rparr>)
     | Some newest_time \<Rightarrow> do {
         t \<leftarrow> flowlet_timeout q;
         if duration_since forward_ts newest_time \<le> t then
           (if flowlets q = [] then None
            else Some (False, q\<lparr>flowlets := butlast (flowlets q)
                   @ [flowlet_add (processed q) forward_ts (last (flowlets q))]\<rparr>))
         else Some (True, q\<lparr>flowlets := flowlets q @ [flowlet_new (processed q) forward_ts]\<rparr>) })"

definition new_packet :: "nat \<Rightarrow> instant \<Rightarrow> bytes option \<Rightarrow> packet" where
  "new_packet n ts payload = (case payload of
       None \<Rightarrow> Retrans \<lparr>rt_number = n, rt_timestamp = ts\<rparr>
     | Some bs \<Rightarrow> Raw \<lparr>raw_number = n, raw_timestamp = ts, raw_payload = bs\<rparr>)"

definition queue_add ::
    "instant \<Rightarrow> bytes option \<Rightarrow> duration \<Rightarrow> packet_queue \<Rightarrow> ((nat \<times> bool) \<times> packet_queue) option" where
  "queue_add forward_ts payload side_rtt q = do {
     q1 \<leftarrow> (if payload \<noteq> None then record_packet_interval forward_ts q else Some q);
     let q2 = q1\<lparr>processed := processed q1 + 1\<rparr>;
     let q3 = (if processed q2 mod WHEN_MEASURE_ELICITING_THRESHOLD = 0
               then measure_eliciting_threshold q2 else q2);
     rust_assert (\<not> length (packets q3) > 1000);
     (new_flowlet, q4) \<leftarrow> add_to_flowlet forward_ts q3;
     Some ((processed q4, new_flowlet),
           q4\<lparr>packets := packets q4 @ [new_packet (processed q4) forward_ts payload]\<rparr>) }"

definition get_packet :: "nat \<Rightarrow> packet_queue \<Rightarrow> packet option" where
  "get_packet num q =
     (if packets q = [] then None
      else if num < pkt_number (hd (packets q)) \<or> num > pkt_number (last (packets q)) then None
      else index (packets q) (num - pkt_number (hd (packets q))))"

definition get_packet_payload :: "nat \<Rightarrow> packet_queue \<Rightarrow> bytes option" where
  "get_packet_payload num q = do {
     p \<leftarrow> get_packet num q;
     (case p of Raw r \<Rightarrow> Some (raw_payload r) | Retrans _ \<Rightarrow> None) }"

text \<open>The loop of \<open>remove_a_complete_flowlet\<close> over the packets of the flowlet.\<close>

fun drain_flowlet ::
    "nat set \<Rightarrow> nat list \<Rightarrow> packet list \<Rightarrow> raw_udp_packet list \<Rightarrow> (packet list \<times> raw_udp_packet list) option" where
  "drain_flowlet lossed [] ps loss = Some (ps, loss)"
| "drain_flowlet lossed (n # ns) [] loss = None"
| "drain_flowlet lossed (n # ns) (p # ps) loss =
     (if pkt_number p = n then
        drain_flowlet lossed ns ps
          (if n \<in> lossed then (case p of Raw r \<Rightarrow> loss @ [r] | Retrans _ \<Rightarrow> loss) else loss)
      else None)"

definition remove_a_complete_flowlet :: "nat set \<Rightarrow> packet_queue \<Rightarrow> packet_queue option" where
  "remove_a_complete_flowlet lossed q = (case flowlets q of
       [] \<Rightarrow> None
     | fl # fls \<Rightarrow> do {
         rust_assert (is_complete fl);
         (ps, loss) \<leftarrow> drain_flowlet lossed (pkt_nums fl) (packets q) (detected_loss q);
         Some (q\<lparr>flowlets := fls, packets := ps, detected_loss := loss\<rparr>) })"

definition exact_samples :: "flowlet \<Rightarrow> packet_queue \<Rightarrow> duration list option" where
  "exact_samples fl q = mapO (\<lambda>i. do {
     reply_time \<leftarrow> index (reply_pkt_times fl) i;
     pkt_num \<leftarrow> index (pkt_nums fl) i;
     p \<leftarrow> get_packet pkt_num q;
     Some (duration_since reply_time (pkt_timestamp p)) }) [0..<length (pkt_nums fl)]"

text \<open>The lost packets and the RTT samples of a complete flowlet.\<close>

definition flowlet_outcome ::
    "duration \<Rightarrow> flowlet \<Rightarrow> packet_queue \<Rightarrow> (nat set \<times> duration list) option" where
  "flowlet_outcome reply_rtt fl q =
     (if length (pkt_nums fl) < length (reply_pkt_times fl) then Some ({}, [])
      else if exactly_replyed fl then do { s \<leftarrow> exact_samples fl q; Some ({}, s) }
      else if reply_pkt_times fl = [] then Some (set (pkt_nums fl), [])
      else do {
        sent_pkt_times \<leftarrow> mapO (\<lambda>n. do { p \<leftarrow> get_packet n q; Some (pkt_timestamp p) }) (pkt_nums fl);
        mapping \<leftarrow> match_sent_part_reply sent_pkt_times reply_rtt fl;
        rust_assert (length (pkt_nums fl) = length mapping);
        lossed \<leftarrow> extract_part_loss sent_pkt_times mapping (eliciting_threshold q) fl;
        s \<leftarrow> extract_rtt_samples mapping sent_pkt_times fl;
        Some (lossed, s) })"

definition complete_one_flowlet ::
    "duration \<Rightarrow> packet_queue \<Rightarrow> (duration list \<times> packet_queue) option" where
  "complete_one_flowlet reply_rtt q = do {
     fl \<leftarrow> index (flowlets q) 0;
     rust_assert (is_complete fl);
     (lossed, samples) \<leftarrow> flowlet_outcome reply_rtt fl q;
     q' \<leftarrow> remove_a_complete_flowlet lossed q;
     Some (samples, q') }"

lemma complete_one_flowlet_flowlets:
  "complete_one_flowlet reply_rtt q = Some (s, q') \<Longrightarrow> flowlets q \<noteq> [] \<and> flowlets q' = tl (flowlets q)"
  by (cases "flowlets q")
    (auto simp: complete_one_flowlet_def remove_a_complete_flowlet_def bind_eq_Some_conv)

text \<open>\<open>while !flowlets.is_empty() && flowlets[0].is_complete() { .. }\<close>\<close>

function complete_flowlets ::
    "duration \<Rightarrow> packet_queue \<Rightarrow> (duration list \<times> packet_queue) option" where
  "complete_flowlets reply_rtt q =
     (if flowlets q \<noteq> [] \<and> is_complete (hd (flowlets q)) then
        (case complete_one_flowlet reply_rtt q of
           None \<Rightarrow> None
         | Some (s, q') \<Rightarrow> (case complete_flowlets reply_rtt q' of
             None \<Rightarrow> None
           | Some (ss, q'') \<Rightarrow> Some (s @ ss, q'')))
      else Some ([], q))"
  by pat_completeness auto
termination
  by (relation "measure (\<lambda>(_, q). length (flowlets q))") (auto dest: complete_one_flowlet_flowlets)

declare complete_flowlets.simps [simp del]

text \<open>
  The search for the flowlet a reply belongs to: an exact match ends it, otherwise the smallest
  distance wins, the earlier flowlet on a tie.
\<close>

fun search_flowlet ::
    "instant \<Rightarrow> duration \<Rightarrow> nat \<Rightarrow> flowlet list \<Rightarrow> nat \<Rightarrow> duration \<Rightarrow> nat option" where
  "search_flowlet now reply_rtt i [] replyed min_error = Some replyed"
| "search_flowlet now reply_rtt i (fl # fls) replyed min_error = do {
     b \<leftarrow> instant_add (fl_begin_time fl) reply_rtt;
     e \<leftarrow> instant_add (fl_end_time fl) reply_rtt;
     if b \<le> now \<and> now \<le> e then Some i
     else do {
       match_error \<leftarrow> (if now > e then dur_sub (duration_since now (fl_end_time fl)) reply_rtt
                      else Some (duration_since b now));
       if match_error < min_error then search_flowlet now reply_rtt (i + 1) fls i match_error
       else search_flowlet now reply_rtt (i + 1) fls replyed min_error } }"

definition insert_reply :: "instant \<Rightarrow> nat \<Rightarrow> nat \<Rightarrow> flowlet list \<Rightarrow> flowlet list" where
  "insert_reply now pkt_num r fls =
     map set_as_complete (take r fls) @ [add_reply now pkt_num (fls ! r)] @ drop (r + 1) fls"

definition check_reply ::
    "instant \<Rightarrow> nat \<Rightarrow> duration \<Rightarrow> packet_queue \<Rightarrow> (duration list option \<times> packet_queue) option" where
  "check_reply now pkt_num reply_rtt q0 = do {
     let q = q0\<lparr>reply_nums := reply_nums q0 + 1\<rparr>;
     t \<leftarrow> flowlet_end_timeout reply_rtt q;
     addition \<leftarrow> dur_sub t reply_rtt;
     (case flowlets q of
        [] \<Rightarrow> Some (None, q)
      | fl # fls \<Rightarrow> do {
          b \<leftarrow> instant_add (fl_begin_time fl) reply_rtt;
          early \<leftarrow> instant_sub b addition;
          if now < early \<and> reply_pkt_nums fl = [] then Some (None, q)
          else do {
            e \<leftarrow> instant_add (fl_end_time (last (flowlets q))) reply_rtt;
            late \<leftarrow> instant_add e addition;
            if now > late then Some (None, q)
            else do {
              fls' \<leftarrow> (if fls = [] then
                         let fl' = add_reply now pkt_num fl in
                         Some [if length (pkt_nums fl') > FLOWLET_MAX_PKTS then set_as_complete fl' else fl']
                       else do {
                         r \<leftarrow> search_flowlet now reply_rtt 0 (flowlets q) 0 DURATION_MAX;
                         Some (insert_reply now pkt_num r (flowlets q)) });
              (samples, q') \<leftarrow> complete_flowlets reply_rtt (q\<lparr>flowlets := fls'\<rparr>);
              Some (Some samples, q') } } }) }"

text \<open>The loop of \<open>on_timeout\<close>.\<close>

function timeout_flowlets ::
    "instant \<Rightarrow> duration \<Rightarrow> duration \<Rightarrow> packet_queue \<Rightarrow> (duration list \<times> packet_queue) option" where
  "timeout_flowlets now reply_rtt timeout q = (case flowlets q of
       [] \<Rightarrow> Some ([], q)
     | fl # fls \<Rightarrow> (case instant_add (fl_end_time fl) timeout of
         None \<Rightarrow> None
       | Some e \<Rightarrow>
           if now > e then
             (case complete_one_flowlet reply_rtt (q\<lparr>flowlets := set_as_complete fl # fls\<rparr>) of
                None \<Rightarrow> None
              | Some (s, q') \<Rightarrow> (case timeout_flowlets now reply_rtt timeout q' of
                  None \<Rightarrow> None
                | Some (ss, q'') \<Rightarrow> Some (s @ ss, q'')))
           else Some ([], q)))"
  by pat_completeness auto
termination
  by (relation "measure (\<lambda>(_, _, _, q). length (flowlets q))") (auto dest!: complete_one_flowlet_flowlets)

declare timeout_flowlets.simps [simp del]

definition queue_on_timeout ::
    "instant \<Rightarrow> duration \<Rightarrow> packet_queue \<Rightarrow> (duration list \<times> packet_queue) option" where
  "queue_on_timeout now reply_rtt q = do {
     t \<leftarrow> flowlet_end_timeout reply_rtt q;
     timeout_flowlets now reply_rtt t q }"

definition pop_retransmit_front :: "packet_queue \<Rightarrow> raw_udp_packet option \<times> packet_queue" where
  "pop_retransmit_front q = (case detected_loss q of
       [] \<Rightarrow> (None, q)
     | p # ps \<Rightarrow> (Some p, q\<lparr>detected_loss := ps\<rparr>))"

definition have_retransmit :: "packet_queue \<Rightarrow> bool" where
  "have_retransmit q \<longleftrightarrow> detected_loss q \<noteq> []"

text \<open>\<open>packet_id\<close>: two hex digits for each of the first and the last eight bytes.\<close>

definition hex_digit :: "nat \<Rightarrow> char" where
  "hex_digit n = ''0123456789abcdef'' ! n"

definition hex_byte :: "u8 \<Rightarrow> string" where
  "hex_byte b = [hex_digit (unat b div 16), hex_digit (unat b mod 16)]"

definition packet_id :: "bytes \<Rightarrow> string option" where
  "packet_id pkt = do {
     a \<leftarrow> mapO (index pkt) [0..<8];
     b \<leftarrow> mapO (\<lambda>i. index pkt (length pkt - 8 + i)) [0..<8];
     Some (concat (map hex_byte (a @ b))) }"

end
