(* ===== verification/Queue_Invariant.thy ===== *)
theory Queue_Invariant
  imports Packet_Queue
begin

text \<open>
  The packet queue never trips over its own bookkeeping: every public operation, on a queue that
  satisfies \<open>pq_ok\<close> and on sane clock readings, returns instead of panicking and leaves \<open>pq_ok\<close>.
  The locale \<open>queue_op\<close> is this contract; connections rely on it.
\<close>

section \<open>The invariant\<close>

text \<open>Packets numbered up to \<open>retired\<close> have left the queue.\<close>

definition retired :: "packet_queue \<Rightarrow> nat" where
  "retired q = processed q - length (packets q)"

definition pq_inv :: "packet_queue \<Rightarrow> bool" where
  "pq_inv q \<longleftrightarrow>
     concat (map pkt_nums (flowlets q)) = map pkt_number (packets q) \<and>
     length (packets q) \<le> processed q \<and>
     map pkt_number (packets q) = [Suc (retired q)..<Suc (processed q)] \<and>
     (\<forall>fl \<in> set (flowlets q). pkt_nums fl \<noteq> []) \<and>
     eliciting_threshold q \<in> {1, 2} \<and>
     sorted_wrt (<) (map raw_number (detected_loss q)) \<and>
     (\<forall>r \<in> set (detected_loss q). raw_number r \<le> retired q)"

definition sane_factor :: "f64 \<Rightarrow> bool" where
  "sane_factor x \<longleftrightarrow> (\<exists>a. x = Fin a \<and> 0 \<le> a \<and> a \<le> 2 ^ 10)"

definition pq_sane :: "packet_queue \<Rightarrow> bool" where
  "pq_sane q \<longleftrightarrow>
     (\<forall>p \<in> set (packets q). sane_clock (pkt_timestamp p)) \<and>
     (\<forall>fl \<in> set (flowlets q). sane_flowlet fl) \<and>
     sane_clock (last_packet_time q) \<and> smoothed_interval q \<le> SANE \<and>
     sane_factor (flowlet_interval_factor q) \<and> sane_factor (flowlet_end_factor q)"

definition pq_ok :: "packet_queue \<Rightarrow> bool" where
  "pq_ok q \<longleftrightarrow> pq_inv q \<and> pq_sane q"

locale queue_op =
  fixes op :: "packet_queue \<Rightarrow> ('r \<times> packet_queue) option" and pre :: "packet_queue \<Rightarrow> bool"
  assumes step: "pq_ok q \<Longrightarrow> pre q \<Longrightarrow> \<exists>r q'. op q = Some (r, q') \<and> pq_ok q'"
begin

lemma no_panic: "pq_ok q \<Longrightarrow> pre q \<Longrightarrow> op q \<noteq> None"
  using step by force

lemma keeps: "pq_ok q \<Longrightarrow> pre q \<Longrightarrow> op q = Some (r, q') \<Longrightarrow> pq_ok q'"
  using step [of q] by auto

end

lemma queue_new_ok: "sane_clock clock \<Longrightarrow> pq_ok (queue_new clock)"
  by (simp add: pq_ok_def pq_inv_def pq_sane_def queue_new_def retired_def sane_factor_def
      DEFAULT_ELICITING_THRESHOLD_def from_millis_def SANE_eq)

section \<open>Timeouts\<close>

lemma flowlet_timeout_ok:
  assumes "pq_sane q"
  shows "\<exists>t. flowlet_timeout q = Some t \<and> t \<le> from_secs (2 ^ 42)"
proof -
  obtain a where a: "flowlet_interval_factor q = Fin a" "0 \<le> a" "a \<le> 2 ^ 10"
    using assms by (auto simp: pq_sane_def sane_factor_def)
  have "smoothed_interval q \<le> from_secs (2 ^ 32)" using assms by (simp add: pq_sane_def SANE_def)
  from mul_f64_pow2 [OF this _ a(2,3)] a(1) show ?thesis by (simp add: flowlet_timeout_def)
qed

lemma flowlet_end_timeout_ok:
  assumes "pq_sane q" and "rtt \<le> SANE"
  shows "\<exists>t. flowlet_end_timeout rtt q = Some t \<and> rtt \<le> t \<and> t \<le> from_secs (2 ^ 53)"
proof -
  obtain t where t: "flowlet_timeout q = Some t" "t \<le> from_secs (2 ^ 42)"
    using flowlet_timeout_ok [OF assms(1)] by blast
  obtain a where a: "flowlet_end_factor q = Fin a" "0 \<le> a" "a \<le> 2 ^ 10"
    using assms by (auto simp: pq_sane_def sane_factor_def)
  from mul_f64_pow2 [OF t(2) _ a(2,3)] obtain e where
    e: "mul_f64 t (Fin a) = Some e" "e \<le> from_secs (2 ^ 52)" by auto
  moreover have "rtt + e \<le> from_secs (2 ^ 53)" using e(2) assms(2) by (simp add: SANE_eq from_secs_def)
  moreover have "from_secs (2 ^ 53) \<le> DURATION_MAX" by (simp add: from_secs_def DURATION_MAX_def)
  ultimately show ?thesis using t(1) a(1)
    by (auto simp: flowlet_end_timeout_def dur_add_def)
qed

lemma sane_instant_add:
  "sane_clock t \<Longrightarrow> d \<le> from_secs (2 ^ 60) \<Longrightarrow> instant_add t d = Some (t + int d)"
  by (simp add: instant_add_def sane_clock_iff INSTANT_LIMIT_def from_secs_def)

section \<open>Looking up packets\<close>

lemma pq_inv_nth:
  assumes "pq_inv q" and "i < length (packets q)"
  shows "pkt_number (packets q ! i) = Suc (retired q) + i"
proof -
  have "pkt_number (packets q ! i) = map pkt_number (packets q) ! i" using assms(2) by simp
  also have "map pkt_number (packets q) = [Suc (retired q)..<Suc (processed q)]"
    using assms(1) unfolding pq_inv_def by blast
  also have "\<dots> ! i = Suc (retired q) + i"
    using assms by (intro nth_upt) (auto simp: pq_inv_def retired_def)
  finally show ?thesis .
qed

lemma get_packet_ok:
  assumes "pq_inv q" and "n \<in> set (map pkt_number (packets q))"
  shows "\<exists>p \<in> set (packets q). get_packet n q = Some p \<and> pkt_number p = n"
proof -
  from assms(2) obtain i where i: "i < length (packets q)" "n = pkt_number (packets q ! i)"
    by (auto simp: in_set_conv_nth)
  have ne: "packets q \<noteq> []" using i by auto
  have "pkt_number (hd (packets q)) = Suc (retired q)"
    using pq_inv_nth [OF assms(1), of 0] ne by (simp add: hd_conv_nth)
  moreover have "pkt_number (last (packets q)) = Suc (retired q) + (length (packets q) - 1)"
    using pq_inv_nth [OF assms(1), of "length (packets q) - 1"] ne by (simp add: last_conv_nth)
  moreover have "n = Suc (retired q) + i" using pq_inv_nth [OF assms(1) i(1)] i(2) by simp
  ultimately have "get_packet n q = Some (packets q ! i)" using i(1) ne by (simp add: get_packet_def)
  with i show ?thesis by auto
qed

lemma flowlet_nums_in_queue:
  "pq_inv q \<Longrightarrow> fl \<in> set (flowlets q) \<Longrightarrow> set (pkt_nums fl) \<subseteq> set (map pkt_number (packets q))"
proof -
  assume inv: "pq_inv q" and fl: "fl \<in> set (flowlets q)"
  have "set (pkt_nums fl) \<subseteq> set (concat (map pkt_nums (flowlets q)))" using fl by auto
  also have "concat (map pkt_nums (flowlets q)) = map pkt_number (packets q)"
    using inv by (simp add: pq_inv_def)
  finally show ?thesis .
qed

text \<open>Each packet of a flowlet is found in the queue under its number.\<close>

lemma flowlet_packets:
  assumes "pq_inv q" and "fl \<in> set (flowlets q)" and "n \<in> set (pkt_nums fl)"
  shows "\<exists>p \<in> set (packets q). get_packet n q = Some p \<and> pkt_number p = n"
  using get_packet_ok [OF assms(1)] flowlet_nums_in_queue [OF assms(1,2)] assms(3) by blast

section \<open>Removing a flowlet\<close>

text \<open>The raw packets of a list whose numbers are in a set, in order.\<close>

definition raws_in :: "nat set \<Rightarrow> packet list \<Rightarrow> raw_udp_packet list" where
  "raws_in L ps = concat (map (\<lambda>p. case p of Raw r \<Rightarrow> if raw_number r \<in> L then [r] else [] | Retrans _ \<Rightarrow> []) ps)"

lemma raws_in_simps [simp]:
  "raws_in L [] = []"
  "raws_in L (Raw r # ps) = (if raw_number r \<in> L then r # raws_in L ps else raws_in L ps)"
  "raws_in L (Retrans t # ps) = raws_in L ps"
  by (simp_all add: raws_in_def)

lemma set_raws_in: "set (raws_in L ps) = {r. Raw r \<in> set ps \<and> raw_number r \<in> L}"
proof (induction ps)
  case (Cons p ps)
  then show ?case by (cases p) auto
qed simp

lemma raws_in_sorted:
  "sorted_wrt (<) (map pkt_number ps) \<Longrightarrow> sorted_wrt (<) (map raw_number (raws_in L ps))"
proof (induction ps)
  case (Cons p ps)
  then show ?case by (cases p) (auto simp: set_raws_in)
qed simp

lemma drain_flowlet_eq:
  "map pkt_number ps = ns @ rest \<Longrightarrow>
     drain_flowlet L ns ps loss = Some (drop (length ns) ps, loss @ raws_in L (take (length ns) ps))"
proof (induction L ns ps loss rule: drain_flowlet.induct)
  case (3 L n ns p ps loss)
  then show ?case by (cases p; cases "n \<in> L") auto
qed auto

lemma pop_packets_eq: "map pkt_number ps = ns @ rest \<Longrightarrow> pop_packets ns ps = Some (drop (length ns) ps)"
  by (induction ns ps rule: pop_packets.induct) auto

text \<open>The invariant looks at nothing of a flowlet but its packet numbers.\<close>

lemma pq_inv_flowlets:
  "map pkt_nums fls = map pkt_nums (flowlets q) \<Longrightarrow> pq_inv (q\<lparr>flowlets := fls\<rparr>) \<longleftrightarrow> pq_inv q"
proof -
  assume eq: "map pkt_nums fls = map pkt_nums (flowlets q)"
  then have "set (map pkt_nums fls) = set (map pkt_nums (flowlets q))" by simp
  then have "(\<forall>fl \<in> set fls. pkt_nums fl \<noteq> []) \<longleftrightarrow> (\<forall>fl \<in> set (flowlets q). pkt_nums fl \<noteq> [])"
    by (metis (no_types, lifting) image_iff set_map)
  with eq show ?thesis by (simp add: pq_inv_def retired_def)
qed

lemma pq_inv_sorted: "pq_inv q \<Longrightarrow> sorted_wrt (<) (map pkt_number (packets q))"
  by (simp add: pq_inv_def del: upt_Suc)

lemma pq_inv_above_retired:
  assumes "pq_inv q" and "p \<in> set (packets q)"
  shows "retired q < pkt_number p" and "pkt_number p \<le> processed q"
proof -
  have "pkt_number p \<in> set (map pkt_number (packets q))" using assms(2) by simp
  also have "map pkt_number (packets q) = [Suc (retired q)..<Suc (processed q)]"
    using assms(1) unfolding pq_inv_def by blast
  finally show "retired q < pkt_number p" and "pkt_number p \<le> processed q" by auto
qed

lemma pq_inv_drop_flowlet:
  assumes inv: "pq_inv q" and fls: "flowlets q = fl # fls"
  defines "n \<equiv> length (pkt_nums fl)"
  shows "map pkt_number (packets q) = pkt_nums fl @ map pkt_number (drop n (packets q))"
    and "pq_inv (q\<lparr>flowlets := fls, packets := drop n (packets q),
           detected_loss := detected_loss q @ raws_in L (take n (packets q))\<rparr>)"
proof -
  have cat: "pkt_nums fl @ concat (map pkt_nums fls) = map pkt_number (packets q)"
    using inv by (simp add: pq_inv_def fls)
  then have tk: "take n (map pkt_number (packets q)) = pkt_nums fl"
    and dr: "drop n (map pkt_number (packets q)) = concat (map pkt_nums fls)"
    unfolding n_def by (metis append_eq_conv_conj)+
  then show split: "map pkt_number (packets q) = pkt_nums fl @ map pkt_number (drop n (packets q))"
    by (metis append_take_drop_id drop_map)
  have le: "n \<le> length (packets q)" using arg_cong [OF split, of length] by (simp add: n_def)
  have upt: "map pkt_number (packets q) = [Suc (retired q)..<Suc (processed q)]"
    using inv unfolding pq_inv_def by blast
  have plen: "length (packets q) \<le> processed q" using inv by (simp add: pq_inv_def)
  let ?q = "q\<lparr>flowlets := fls, packets := drop n (packets q),
           detected_loss := detected_loss q @ raws_in L (take n (packets q))\<rparr>"
  have ret: "retired ?q = retired q + n" using le plen by (simp add: retired_def)
  have "map pkt_number (drop n (packets q)) = [Suc (retired q) + n..<Suc (processed q)]"
    by (simp only: drop_map [symmetric] upt drop_upt)
  then have nums: "map pkt_number (packets ?q) = [Suc (retired ?q)..<Suc (processed ?q)]" by (simp add: ret)
  have raw_le: "retired q < raw_number r \<and> raw_number r \<le> retired q + n"
    if r: "Raw r \<in> set (take n (packets q))" for r
  proof -
    from r obtain i where "i < n" "i < length (packets q)" "packets q ! i = Raw r"
      by (auto simp: in_set_conv_nth)
    with pq_inv_nth [OF inv, of i] show ?thesis by simp
  qed
  have "sorted_wrt (<) (map pkt_number (take n (packets q)))"
    using pq_inv_sorted [OF inv] by (simp add: take_map [symmetric] sorted_wrt_take)
  then have srt: "sorted_wrt (<) (map raw_number (raws_in L (take n (packets q))))" by (rule raws_in_sorted)
  have "sorted_wrt (<) (map raw_number (detected_loss q @ raws_in L (take n (packets q))))"
    using inv srt raw_le by (fastforce simp: pq_inv_def sorted_wrt_append set_raws_in)
  moreover have "\<forall>r \<in> set (detected_loss ?q). raw_number r \<le> retired ?q"
    using inv raw_le unfolding ret by (fastforce simp: pq_inv_def set_raws_in)
  moreover have "concat (map pkt_nums (flowlets ?q)) = map pkt_number (packets ?q)"
    using dr by (simp add: drop_map)
  ultimately show "pq_inv ?q"
    using inv nums plen le by (auto simp: pq_inv_def fls)
qed


section \<open>Completing a flowlet\<close>

lemma exact_samples_ok:
  assumes inv: "pq_inv q" and sane: "pq_sane q" and fl: "fl \<in> set (flowlets q)" and ex: "exactly_replyed fl"
  shows "\<exists>s. exact_samples fl q = Some s \<and> (\<forall>d \<in> set s. d \<le> SANE)"
  unfolding exact_samples_def
proof (rule mapO_total)
  fix i
  assume "i \<in> set [0..<length (pkt_nums fl)]"
  then have i: "i < length (pkt_nums fl)" "i < length (reply_pkt_times fl)"
    using ex by (auto simp: exactly_replyed_def)
  from flowlet_packets [OF inv fl nth_mem [OF i(1)]] obtain p where
    p: "p \<in> set (packets q)" "get_packet (pkt_nums fl ! i) q = Some p" by blast
  have "sane_clock (reply_pkt_times fl ! i)" "sane_clock (pkt_timestamp p)"
    using sane fl i(2) p(1) by (auto simp: pq_sane_def sane_flowlet_def)
  with i p(2) show "\<exists>y. do { reply_time \<leftarrow> index (reply_pkt_times fl) i; pkt_num \<leftarrow> index (pkt_nums fl) i;
     p \<leftarrow> get_packet pkt_num q; Some (duration_since reply_time (pkt_timestamp p)) } = Some y \<and> y \<le> SANE"
    by (simp add: sane_duration_since)
qed

lemma sent_times_ok:
  assumes inv: "pq_inv q" and sane: "pq_sane q" and fl: "fl \<in> set (flowlets q)"
  shows "\<exists>ts. mapO (\<lambda>n. do { p \<leftarrow> get_packet n q; Some (pkt_timestamp p) }) (pkt_nums fl) = Some ts \<and>
    (\<forall>t \<in> set ts. sane_clock t)"
proof (rule mapO_total)
  fix n
  assume "n \<in> set (pkt_nums fl)"
  from flowlet_packets [OF inv fl this] sane
  show "\<exists>y. do { p \<leftarrow> get_packet n q; Some (pkt_timestamp p) } = Some y \<and> sane_clock y"
    by (auto simp: pq_sane_def)
qed

text \<open>A mapping whose entries are indices of replies.\<close>

lemma extract_rtt_samples_ok:
  assumes "length mapping = length ts" and "sane_flowlet fl" and "\<forall>t \<in> set ts. sane_clock t"
    and "\<And>k r. k < length ts \<Longrightarrow> mapping ! k = Some r \<Longrightarrow> r < length (reply_pkt_times fl)"
  shows "\<exists>s. extract_rtt_samples mapping ts fl = Some s \<and> (\<forall>d \<in> set s. d \<le> SANE)"
proof -
  let ?f = "\<lambda>(i, reply_index). case reply_index of None \<Rightarrow> Some [] | Some r \<Rightarrow> do {
       reply_ts \<leftarrow> index (reply_pkt_times fl) r; sent_ts \<leftarrow> index ts i;
       Some [duration_since reply_ts sent_ts] }"
  have "\<exists>ys. ?f x = Some ys \<and> (\<forall>d \<in> set ys. d \<le> SANE)" if "x \<in> set (enumerate 0 mapping)" for x
  proof -
    obtain k y where x: "x = (k, y)" by fastforce
    with that assms(1) have k: "x = (k, mapping ! k)" "k < length ts"
      by (auto simp: in_set_enumerate_eq)
    show ?thesis
    proof (cases "mapping ! k")
      case (Some r)
      with assms(4) k have r: "r < length (reply_pkt_times fl)" by blast
      have "sane_clock (reply_pkt_times fl ! r)" "sane_clock (ts ! k)"
        using assms(2,3) r k by (auto simp: sane_flowlet_def)
      with Some r k show ?thesis by (simp add: sane_duration_since)
    qed (simp add: k)
  qed
  then have "\<exists>yss. mapO ?f (enumerate 0 mapping) = Some yss \<and> (\<forall>ys \<in> set yss. \<forall>d \<in> set ys. d \<le> SANE)"
    by (rule mapO_total)
  then obtain yss where "mapO ?f (enumerate 0 mapping) = Some yss" "\<forall>ys \<in> set yss. \<forall>d \<in> set ys. d \<le> SANE"
    by blast
  then show ?thesis unfolding extract_rtt_samples_def by (intro exI [of _ "concat yss"]) simp
qed

lemma flowlet_outcome_ok:
  assumes inv: "pq_inv q" and sane: "pq_sane q" and fl: "fl \<in> set (flowlets q)" and rtt: "rtt \<le> SANE"
  shows "\<exists>L s. flowlet_outcome rtt fl q = Some (L, s) \<and> L \<subseteq> set (pkt_nums fl) \<and> (\<forall>d \<in> set s. d \<le> SANE)"
proof -
  let ?n = "length (pkt_nums fl)" and ?m = "length (reply_pkt_times fl)"
  consider "?n < ?m" | "?m = ?n" | "?m < ?n" "reply_pkt_times fl = []" | "?m < ?n" "reply_pkt_times fl \<noteq> []"
    by linarith
  then show ?thesis
  proof cases
    case 1
    then show ?thesis by (simp add: flowlet_outcome_def)
  next
    case 2
    with exact_samples_ok [OF inv sane fl] show ?thesis
      by (auto simp: flowlet_outcome_def exactly_replyed_def)
  next
    case 3
    then show ?thesis by (simp add: flowlet_outcome_def exactly_replyed_def)
  next
    case 4
    obtain ts where ts: "mapO (\<lambda>n. do { p \<leftarrow> get_packet n q; Some (pkt_timestamp p) }) (pkt_nums fl) = Some ts"
      "\<forall>t \<in> set ts. sane_clock t" using sent_times_ok [OF inv sane fl] by blast
    have len: "length ts = ?n" using mapO_length [OF ts(1)] by simp
    have sfl: "sane_flowlet fl" using sane fl by (simp add: pq_sane_def)
    obtain mp ks where mp: "match_sent_part_reply ts rtt fl = Some mp" "length mp = ?n" "alignment ?n ?m ks"
      "\<forall>t < ?m. mp ! (ks ! t) = Some t" "\<forall>k < ?n. k \<notin> set ks \<longrightarrow> mp ! k = None"
      using match_sent_part_reply_aligns [OF sfl ts(2) rtt 4(2)] 4(1) len by auto
    have idx: "r < ?m" if "k < length ts" "mp ! k = Some r" for k r
    proof -
      have "k \<in> set ks" using mp(5) that len by force
      then obtain t where "t < ?m" "k = ks ! t" using mp(3) by (auto simp: alignment_def in_set_conv_nth)
      with mp(4) that show ?thesis by simp
    qed
    have thr: "eliciting_threshold q = 1 \<or> eliciting_threshold q = 2" using inv by (auto simp: pq_inv_def)
    have loss: "extract_part_loss ts mp (eliciting_threshold q) fl
        = Some {pkt_nums fl ! p | p. p < length ts \<and> lost ts mp (eliciting_threshold q) p}" (is "_ = Some ?L")
      by (rule extract_part_loss_spec [OF _ _ thr]) (simp_all only: mp(2) len)
    have "\<exists>s. extract_rtt_samples mp ts fl = Some s \<and> (\<forall>d \<in> set s. d \<le> SANE)"
      by (rule extract_rtt_samples_ok [OF _ sfl ts(2)]) (simp add: mp(2) len, rule idx)
    then obtain s where s: "extract_rtt_samples mp ts fl = Some s" "\<forall>d \<in> set s. d \<le> SANE"
      by blast
    have "flowlet_outcome rtt fl q = Some (?L, s)"
      using 4 by (simp add: flowlet_outcome_def exactly_replyed_def ts(1) mp(1,2) loss s(1))
    moreover have "?L \<subseteq> set (pkt_nums fl)" by (auto simp: len)
    ultimately show ?thesis using s(2) by blast
  qed
qed

lemma complete_one_flowlet_spec:
  assumes ok: "pq_ok q" and fls: "flowlets q = fl # fls" and compl: "is_complete fl" and rtt: "rtt \<le> SANE"
  shows "\<exists>L s q'. flowlet_outcome rtt fl q = Some (L, s) \<and> complete_one_flowlet rtt q = Some (s, q') \<and>
    q' = q\<lparr>flowlets := fls, packets := drop (length (pkt_nums fl)) (packets q),
      detected_loss := detected_loss q @ raws_in L (take (length (pkt_nums fl)) (packets q))\<rparr> \<and>
    pq_ok q' \<and> (\<forall>d \<in> set s. d \<le> SANE)"
proof -
  have inv: "pq_inv q" and sane: "pq_sane q" using ok by (simp_all add: pq_ok_def)
  obtain L s where out: "flowlet_outcome rtt fl q = Some (L, s)" "\<forall>d \<in> set s. d \<le> SANE"
    using flowlet_outcome_ok [OF inv sane _ rtt, of fl] by (auto simp: fls)
  let ?n = "length (pkt_nums fl)"
  let ?q = "q\<lparr>flowlets := fls, packets := drop ?n (packets q),
      detected_loss := detected_loss q @ raws_in L (take ?n (packets q))\<rparr>"
  note d1 = pq_inv_drop_flowlet(1) [OF inv fls] and d2 = pq_inv_drop_flowlet(2) [OF inv fls, of L]
  have "remove_a_complete_flowlet L q = Some ?q"
    using drain_flowlet_eq [OF d1] compl by (simp add: remove_a_complete_flowlet_def fls)
  then have "complete_one_flowlet rtt q = Some (s, ?q)"
    using out(1) compl by (simp add: complete_one_flowlet_def index_def fls)
  moreover have "pq_sane ?q" using sane by (auto simp: pq_sane_def fls dest: in_set_dropD)
  ultimately show ?thesis using out d2 by (auto simp: pq_ok_def)
qed

section \<open>The operations keep the invariant\<close>

lemma pq_ok_flowlets:
  assumes "pq_ok q" and "map pkt_nums fls = map pkt_nums (flowlets q)" and "\<forall>fl \<in> set fls. sane_flowlet fl"
  shows "pq_ok (q\<lparr>flowlets := fls\<rparr>)"
  using assms pq_inv_flowlets [OF assms(2)] by (simp add: pq_ok_def pq_sane_def)

lemma set_as_complete_simps [simp]:
  "pkt_nums (set_as_complete fl) = pkt_nums fl" "fl_end_time (set_as_complete fl) = fl_end_time fl"
  "sane_flowlet (set_as_complete fl) = sane_flowlet fl" "is_complete (set_as_complete fl)"
  by (simp_all add: set_as_complete_def sane_flowlet_def is_complete_def)

lemma add_reply_simps [simp]:
  "pkt_nums (add_reply t n fl) = pkt_nums fl"
  "sane_flowlet (add_reply t n fl) \<longleftrightarrow> sane_clock t \<and> sane_flowlet fl"
  by (auto simp: add_reply_def sane_flowlet_def)

lemma complete_flowlets_ok:
  assumes "pq_ok q" and "rtt \<le> SANE"
  shows "\<exists>s q'. complete_flowlets rtt q = Some (s, q') \<and> pq_ok q' \<and> (\<forall>d \<in> set s. d \<le> SANE) \<and>
    (flowlets q' \<noteq> [] \<longrightarrow> \<not> is_complete (hd (flowlets q')))"
  using assms
proof (induction rtt q rule: complete_flowlets.induct)
  case (1 rtt q)
  show ?case
  proof (cases "flowlets q \<noteq> [] \<and> is_complete (hd (flowlets q))")
    case True
    then obtain fl fls where "flowlets q = fl # fls" "is_complete fl" by (cases "flowlets q") auto
    from complete_one_flowlet_spec [OF 1(2) this 1(3)] obtain s q1 where
      one: "complete_one_flowlet rtt q = Some (s, q1)" "pq_ok q1" "\<forall>d \<in> set s. d \<le> SANE" by blast
    from 1(1) [OF True one(1) refl one(2) 1(3)] obtain ss q2 where
      "complete_flowlets rtt q1 = Some (ss, q2)" "pq_ok q2" "\<forall>d \<in> set ss. d \<le> SANE"
      "flowlets q2 \<noteq> [] \<longrightarrow> \<not> is_complete (hd (flowlets q2))" by blast
    with True one show ?thesis by (subst complete_flowlets.simps) auto
  next
    case False
    with 1(2) show ?thesis by (subst complete_flowlets.simps) auto
  qed
qed

lemma timeout_flowlets_ok:
  assumes "pq_ok q" and "rtt \<le> SANE" and "timeout \<le> from_secs (2 ^ 60)"
  shows "\<exists>s q'. timeout_flowlets now rtt timeout q = Some (s, q') \<and> pq_ok q' \<and> (\<forall>d \<in> set s. d \<le> SANE) \<and>
    (flowlets q' \<noteq> [] \<longrightarrow> now \<le> fl_end_time (hd (flowlets q')) + int timeout)"
  using assms
proof (induction now rtt timeout q rule: timeout_flowlets.induct)
  case (1 now rtt timeout q)
  show ?case
  proof (cases "flowlets q")
    case Nil
    with 1(2) show ?thesis by (subst timeout_flowlets.simps) simp
  next
    case (Cons fl fls)
    have sfl: "\<forall>fl \<in> set (flowlets q). sane_flowlet fl" using 1(2) by (simp add: pq_ok_def pq_sane_def)
    then have "sane_clock (fl_end_time fl)" by (simp add: Cons sane_flowlet_def)
    note e = sane_instant_add [OF this 1(4)]
    show ?thesis
    proof (cases "now > fl_end_time fl + int timeout")
      case True
      let ?q = "q\<lparr>flowlets := set_as_complete fl # fls\<rparr>"
      have okq: "pq_ok ?q" using sfl by (intro pq_ok_flowlets 1(2)) (simp_all add: Cons)
      have "flowlets ?q = set_as_complete fl # fls" by simp
      from complete_one_flowlet_spec [OF okq this set_as_complete_simps(4) 1(3)] obtain s q1 where
        one: "complete_one_flowlet rtt ?q = Some (s, q1)" "pq_ok q1" "\<forall>d \<in> set s. d \<le> SANE" by blast
      from 1(1) [OF Cons e True one(1) refl one(2) 1(3,4)] obtain ss q2 where
        "timeout_flowlets now rtt timeout q1 = Some (ss, q2)" "pq_ok q2" "\<forall>d \<in> set ss. d \<le> SANE"
        "flowlets q2 \<noteq> [] \<longrightarrow> now \<le> fl_end_time (hd (flowlets q2)) + int timeout" by blast
      with True one e Cons show ?thesis by (subst timeout_flowlets.simps) auto
    next
      case False
      with 1(2) e Cons show ?thesis by (subst timeout_flowlets.simps) auto
    qed
  qed
qed

lemma queue_on_timeout_ok:
  assumes "pq_ok q" and "rtt \<le> SANE"
  shows "\<exists>s q' t. flowlet_end_timeout rtt q = Some t \<and> queue_on_timeout now rtt q = Some (s, q') \<and> pq_ok q' \<and>
    (\<forall>d \<in> set s. d \<le> SANE) \<and> (flowlets q' \<noteq> [] \<longrightarrow> now \<le> fl_end_time (hd (flowlets q')) + int t)"
proof -
  obtain t where t: "flowlet_end_timeout rtt q = Some t" "t \<le> from_secs (2 ^ 53)"
    using flowlet_end_timeout_ok [of q rtt] assms by (auto simp: pq_ok_def)
  have "t \<le> from_secs (2 ^ 60)" using t(2) by (simp add: from_secs_def)
  from timeout_flowlets_ok [OF assms this, of now] t(1) show ?thesis
    by (auto simp: queue_on_timeout_def)
qed

lemma record_packet_interval_ok:
  assumes "pq_ok q" and "sane_clock ts"
  shows "\<exists>s. record_packet_interval ts q = Some (q\<lparr>last_packet_time := ts, smoothed_interval := s\<rparr>) \<and>
    pq_ok (q\<lparr>last_packet_time := ts, smoothed_interval := s\<rparr>)"
proof -
  have "smoothed_interval q \<le> SANE" "duration_since ts (last_packet_time q) \<le> SANE"
    using assms by (auto simp: pq_ok_def pq_sane_def intro!: sane_duration_since)
  from smoothing_sane [OF this] obtain x y z where
    "mul_f64 (smoothed_interval q) (Fin (7 / 8)) = Some x"
    "mul_f64 (duration_since ts (last_packet_time q)) (Fin (1 / 8)) = Some y"
    "dur_add x y = Some z" "z \<le> SANE" by blast
  with assms show ?thesis
    by (intro exI [of _ z]) (auto simp: record_packet_interval_def Let_def pq_ok_def pq_inv_def pq_sane_def retired_def)
qed

lemma measure_eliciting_inv: "pq_ok q \<Longrightarrow> pq_ok (measure_eliciting_threshold q)"
  by (auto simp: measure_eliciting_threshold_def pq_ok_def pq_inv_def pq_sane_def retired_def)


subsection \<open>Adding a packet\<close>

text \<open>The queue between counting the packet and storing it.\<close>

definition counted :: "packet_queue \<Rightarrow> packet_queue \<Rightarrow> bool" where
  "counted q q3 \<longleftrightarrow> packets q3 = packets q \<and> flowlets q3 = flowlets q \<and>
     detected_loss q3 = detected_loss q \<and> processed q3 = processed q + 1 \<and>
     eliciting_threshold q3 \<in> {1, 2} \<and> pq_sane q3"

lemma store_packet_ok:
  assumes ok: "pq_ok q" and c: "counted q q3" and ts: "sane_clock ts"
    and fls: "concat (map pkt_nums fls) = concat (map pkt_nums (flowlets q)) @ [processed q + 1]"
    and ne: "\<forall>fl \<in> set fls. pkt_nums fl \<noteq> [] \<and> sane_flowlet fl"
  shows "pq_ok (q3\<lparr>flowlets := fls, packets := packets q3 @ [new_packet (processed q3) ts payload]\<rparr>)"
    (is "pq_ok ?q")
proof -
  have inv: "pq_inv q" using ok by (simp add: pq_ok_def)
  have num: "pkt_number (new_packet n ts payload) = n" "pkt_timestamp (new_packet n ts payload) = ts" for n
    by (simp_all add: new_packet_def split: option.splits)
  have upt: "map pkt_number (packets q) = [Suc (retired q)..<Suc (processed q)]" and le: "length (packets q) \<le> processed q"
    using inv unfolding pq_inv_def by blast+
  have ret: "retired ?q = retired q" and pr: "processed ?q = Suc (processed q)"
    using c by (simp_all add: retired_def counted_def)
  have "map pkt_number (packets ?q) = [Suc (retired q)..<Suc (processed q)] @ [Suc (processed q)]"
    using c num by (simp add: counted_def upt del: upt_Suc)
  also have "\<dots> = [Suc (retired q)..<Suc (Suc (processed q))]"
    by (subst (2) upt_Suc) (simp add: retired_def del: upt_Suc)
  finally have nums: "map pkt_number (packets ?q) = [Suc (retired ?q)..<Suc (processed ?q)]"
    using pr by (simp only: ret)
  have "concat (map pkt_nums (flowlets ?q)) = map pkt_number (packets ?q)"
    "length (packets ?q) \<le> processed ?q" "\<forall>fl \<in> set (flowlets ?q). pkt_nums fl \<noteq> []"
    "eliciting_threshold ?q \<in> {1, 2}" "sorted_wrt (<) (map raw_number (detected_loss ?q))"
    using fls inv c num le ne by (simp_all add: pq_inv_def counted_def)
  moreover have "\<forall>r \<in> set (detected_loss ?q). raw_number r \<le> retired ?q"
    unfolding ret using inv c by (simp add: pq_inv_def counted_def)
  ultimately have "pq_inv ?q" unfolding pq_inv_def using nums by blast
  moreover have "pq_sane ?q" using c ne ts num by (auto simp: pq_sane_def counted_def)
  ultimately show ?thesis by (simp add: pq_ok_def)
qed

lemma add_to_flowlet_ok:
  assumes ok: "pq_ok q" and c: "counted q q3" and ts: "sane_clock ts"
  shows "\<exists>nf fls. add_to_flowlet ts q3 = Some (nf, q3\<lparr>flowlets := fls\<rparr>) \<and>
    concat (map pkt_nums fls) = concat (map pkt_nums (flowlets q)) @ [processed q + 1] \<and>
    (\<forall>fl \<in> set fls. pkt_nums fl \<noteq> [] \<and> sane_flowlet fl) \<and>
    length fls = length (flowlets q) + (if nf then 1 else 0)"
proof -
  have fl: "flowlets q3 = flowlets q" "processed q3 = processed q + 1" "packets q3 = packets q" "pq_sane q3"
    using c by (simp_all add: counted_def)
  have ne: "\<forall>fl \<in> set (flowlets q). pkt_nums fl \<noteq> [] \<and> sane_flowlet fl"
    using ok by (simp add: pq_ok_def pq_inv_def pq_sane_def)
  have new: "sane_flowlet (flowlet_new n ts)" "pkt_nums (flowlet_new n ts) = [n]" for n
    using ts by (simp_all add: flowlet_new_def sane_flowlet_def)
  let ?new = "flowlets q @ [flowlet_new (processed q + 1) ts]"
  have fresh: "concat (map pkt_nums ?new) = concat (map pkt_nums (flowlets q)) @ [processed q + 1]"
    "\<forall>fl \<in> set ?new. pkt_nums fl \<noteq> [] \<and> sane_flowlet fl"
    using ne new by auto
  obtain t where t: "flowlet_timeout q3 = Some t" using flowlet_timeout_ok [OF fl(4)] by blast
  show ?thesis
  proof (cases "packets q = []")
    case True
    with fresh fl show ?thesis
      by (intro exI [of _ True] exI [of _ ?new]) (simp add: add_to_flowlet_def newest_ts_def)
  next
    case False
    let ?lst = "last (flowlets q)" and ?n = "pkt_timestamp (last (packets q))"
    have fne: "flowlets q \<noteq> []" using False ok by (auto simp: pq_ok_def pq_inv_def)
    show ?thesis
    proof (cases "duration_since ts ?n \<le> t")
      case True
      let ?add = "butlast (flowlets q) @ [flowlet_add (processed q + 1) ts ?lst]"
      have "concat (map pkt_nums (flowlets q)) = concat (map pkt_nums (butlast (flowlets q) @ [?lst]))"
        using fne by simp
      then have "concat (map pkt_nums ?add) = concat (map pkt_nums (flowlets q)) @ [processed q + 1]"
        by (simp add: flowlet_add_def)
      moreover have "\<forall>fl \<in> set ?add. pkt_nums fl \<noteq> [] \<and> sane_flowlet fl"
        using ne fne ts by (auto simp: flowlet_add_def sane_flowlet_def dest: in_set_butlastD)
      ultimately show ?thesis using False fne True t fl
        by (intro exI [of _ False] exI [of _ ?add]) (simp add: add_to_flowlet_def newest_ts_def)
    next
      case long: False
      with False fresh t fl show ?thesis
        by (intro exI [of _ True] exI [of _ ?new]) (simp add: add_to_flowlet_def newest_ts_def)
    qed
  qed
qed

lemma queue_add_spec:
  assumes ok: "pq_ok q" and ts: "sane_clock ts" and room: "length (packets q) \<le> 1000"
  shows "\<exists>nf q'. queue_add ts payload rtt q = Some ((processed q + 1, nf), q') \<and> pq_ok q' \<and>
    packets q' = packets q @ [new_packet (processed q + 1) ts payload] \<and> processed q' = processed q + 1 \<and>
    detected_loss q' = detected_loss q \<and> length (flowlets q') = length (flowlets q) + (if nf then 1 else 0)"
proof -
  obtain q1 where q1: "(if payload \<noteq> None then record_packet_interval ts q else Some q) = Some q1"
    "pq_ok q1" "packets q1 = packets q" "flowlets q1 = flowlets q" "processed q1 = processed q"
    "detected_loss q1 = detected_loss q"
    using record_packet_interval_ok [OF ok ts] ok by (cases payload) auto
  define q2 where "q2 = q1\<lparr>processed := processed q1 + 1\<rparr>"
  define q3 where "q3 = (if processed q2 mod WHEN_MEASURE_ELICITING_THRESHOLD = 0
               then measure_eliciting_threshold q2 else q2)"
  have c: "counted q q3"
    using q1 by (auto simp: counted_def q3_def q2_def measure_eliciting_threshold_def pq_ok_def pq_inv_def pq_sane_def)
  from add_to_flowlet_ok [OF ok c ts] obtain nf fls where
    a: "add_to_flowlet ts q3 = Some (nf, q3\<lparr>flowlets := fls\<rparr>)"
    "concat (map pkt_nums fls) = concat (map pkt_nums (flowlets q)) @ [processed q + 1]"
    "\<forall>fl \<in> set fls. pkt_nums fl \<noteq> [] \<and> sane_flowlet fl"
    "length fls = length (flowlets q) + (if nf then 1 else 0)" by blast
  let ?q = "q3\<lparr>flowlets := fls, packets := packets q3 @ [new_packet (processed q3) ts payload]\<rparr>"
  have "pq_ok ?q" by (rule store_packet_ok [OF ok c ts a(2,3)])
  moreover have "queue_add ts payload rtt q = Some ((processed q + 1, nf), ?q)"
    unfolding queue_add_def q1(1) bind.bind_lunit Let_def q2_def [symmetric] q3_def [symmetric]
    using a(1) c room by (simp add: counted_def)
  ultimately show ?thesis using c a(4) by (auto simp: counted_def)
qed

subsection \<open>Lost packets are found once\<close>

text \<open>
  \<open>extends q q'\<close>: between the two states packets only left the queue, and the losses found on the
  way were appended, all of them packets still queued in \<open>q\<close>.
\<close>

definition extends :: "packet_queue \<Rightarrow> packet_queue \<Rightarrow> bool" where
  "extends q q' \<longleftrightarrow> retired q \<le> retired q' \<and>
     (\<exists>new. detected_loss q' = detected_loss q @ new \<and> (\<forall>r \<in> set new. retired q < raw_number r))"

lemma extends_refl [simp]: "extends q q"
  by (simp add: extends_def)

lemma extends_trans: "extends q q1 \<Longrightarrow> extends q1 q2 \<Longrightarrow> extends q q2"
  unfolding extends_def by (auto intro: order_trans less_le_trans) (meson le_less_trans)

lemma extends_same:
  "retired q1 = retired q \<Longrightarrow> detected_loss q1 = detected_loss q \<Longrightarrow> extends q1 q2 = extends q q2"
  by (simp add: extends_def)

lemma complete_one_flowlet_extends:
  assumes ok: "pq_ok q" and rtt: "rtt \<le> SANE" and eq: "complete_one_flowlet rtt q = Some (s, q')"
  shows "pq_ok q' \<and> extends q q'"
proof -
  obtain fl fls where fls: "flowlets q = fl # fls" "is_complete fl"
    using eq complete_one_flowlet_flowlets [OF eq]
    by (cases "flowlets q") (auto simp: complete_one_flowlet_def index_def bind_eq_Some_conv)
  let ?n = "length (pkt_nums fl)"
  from complete_one_flowlet_spec [OF ok fls rtt] eq obtain L where
    q': "q' = q\<lparr>flowlets := fls, packets := drop ?n (packets q),
      detected_loss := detected_loss q @ raws_in L (take ?n (packets q))\<rparr>" and ok': "pq_ok q'" by auto
  have "retired q < raw_number r" if "r \<in> set (raws_in L (take ?n (packets q)))" for r
    using that pq_inv_above_retired(1) [of q "Raw r"] ok
    by (auto simp: set_raws_in pq_ok_def dest: in_set_takeD)
  moreover have "retired q \<le> retired q'" by (simp add: q' retired_def)
  ultimately show ?thesis using ok' by (auto simp: extends_def q')
qed

lemma complete_flowlets_extends:
  "pq_ok q \<Longrightarrow> rtt \<le> SANE \<Longrightarrow> complete_flowlets rtt q = Some (s, q') \<Longrightarrow> extends q q'"
proof (induction rtt q arbitrary: s q' rule: complete_flowlets.induct)
  case (1 rtt q)
  show ?case
  proof (cases "flowlets q \<noteq> [] \<and> is_complete (hd (flowlets q))")
    case True
    with 1(4) obtain s1 q1 s2 where one: "complete_one_flowlet rtt q = Some (s1, q1)"
      and rest: "complete_flowlets rtt q1 = Some (s2, q')"
      by (subst (asm) complete_flowlets.simps) (auto split: option.splits)
    note e = complete_one_flowlet_extends [OF 1(2,3) one]
    from 1(1) [OF True one refl _ 1(3) rest] e show ?thesis by (blast intro: extends_trans)
  next
    case False
    with 1(4) show ?thesis by (subst (asm) complete_flowlets.simps) auto
  qed
qed

lemma timeout_flowlets_extends:
  "pq_ok q \<Longrightarrow> rtt \<le> SANE \<Longrightarrow> timeout_flowlets now rtt t q = Some (s, q') \<Longrightarrow> extends q q'"
proof (induction now rtt t q arbitrary: s q' rule: timeout_flowlets.induct)
  case (1 now rtt t q)
  show ?case
  proof (cases "flowlets q")
    case Nil
    with 1(4) show ?thesis by (subst (asm) timeout_flowlets.simps) simp
  next
    case (Cons fl fls)
    with 1(4) obtain e where e: "instant_add (fl_end_time fl) t = Some e"
      by (subst (asm) timeout_flowlets.simps) (auto split: option.splits)
    show ?thesis
    proof (cases "now > e")
      case True
      let ?q = "q\<lparr>flowlets := set_as_complete fl # fls\<rparr>"
      from True 1(4) Cons e obtain s1 q1 s2 where one: "complete_one_flowlet rtt ?q = Some (s1, q1)"
        and rest: "timeout_flowlets now rtt t q1 = Some (s2, q')"
        by (subst (asm) timeout_flowlets.simps) (auto split: option.splits)
      have "pq_ok ?q"
        using 1(2) by (intro pq_ok_flowlets) (auto simp: Cons pq_ok_def pq_sane_def)
      note x = complete_one_flowlet_extends [OF this 1(3) one]
      have "extends ?q q1 = extends q q1" by (rule extends_same) (simp_all add: retired_def)
      with 1(1) [OF Cons e True one refl _ 1(3) rest] x show ?thesis by (blast intro: extends_trans)
    next
      case False
      with 1(4) Cons e show ?thesis by (subst (asm) timeout_flowlets.simps) auto
    qed
  qed
qed

subsection \<open>Attributing a reply\<close>

text \<open>How far the reply time is from the span in which replies to a flowlet are expected.\<close>

definition reply_distance :: "instant \<Rightarrow> duration \<Rightarrow> flowlet \<Rightarrow> nat" where
  "reply_distance now rtt fl =
     nat (max (fl_begin_time fl + int rtt - now) (now - (fl_end_time fl + int rtt)))"

text \<open>The first flowlet of least distance.\<close>

definition nearest :: "(flowlet \<Rightarrow> nat) \<Rightarrow> flowlet list \<Rightarrow> nat \<Rightarrow> bool" where
  "nearest d fls r \<longleftrightarrow> r < length fls \<and> (\<forall>k < length fls. d (fls ! r) \<le> d (fls ! k)) \<and>
     (\<forall>k < r. d (fls ! r) < d (fls ! k))"

lemma nearest_Cons_0: "(\<forall>x \<in> set fls. d fl \<le> d x) \<Longrightarrow> nearest d (fl # fls) 0"
  by (auto simp: nearest_def nth_Cons split: nat.splits)

lemma nearest_Cons_Suc: "nearest d fls r \<Longrightarrow> d (fls ! r) < d fl \<Longrightarrow> nearest d (fl # fls) (Suc r)"
  by (auto simp: nearest_def nth_Cons split: nat.splits)

lemma search_flowlet_spec:
  assumes "\<forall>fl \<in> set fls. sane_flowlet fl \<and> fl_begin_time fl \<le> fl_end_time fl" and "rtt \<le> SANE" and "0 < m"
  shows "\<exists>r. search_flowlet now rtt i fls r0 m = Some r \<and>
    (if \<forall>fl \<in> set fls. m \<le> reply_distance now rtt fl then r = r0
     else \<exists>k. r = i + k \<and> nearest (reply_distance now rtt) fls k \<and> reply_distance now rtt (fls ! k) < m)"
  using assms
proof (induction fls arbitrary: i r0 m)
  case (Cons fl fls)
  let ?d = "reply_distance now rtt"
  let ?b = "fl_begin_time fl + int rtt" and ?e = "fl_end_time fl + int rtt"
  have "rtt \<le> from_secs (2 ^ 60)" using Cons.prems(2) by (simp add: SANE_eq from_secs_def)
  then have be: "instant_add (fl_begin_time fl) rtt = Some ?b" "instant_add (fl_end_time fl) rtt = Some ?e"
    using Cons.prems(1) by (auto simp: sane_flowlet_def intro!: sane_instant_add)
  show ?case
  proof (cases "?b \<le> now \<and> now \<le> ?e")
    case True
    then have "?d fl = 0" by (simp add: reply_distance_def)
    with True be Cons.prems(3) show ?thesis by (auto intro!: exI [of _ 0] nearest_Cons_0)
  next
    case False
    have err: "(if now > ?e then dur_sub (duration_since now (fl_end_time fl)) rtt
        else Some (duration_since ?b now)) = Some (?d fl)" and pos: "0 < ?d fl"
      using False Cons.prems(1) by (auto simp: dur_sub_def duration_since_def reply_distance_def nat_diff_distrib')
    show ?thesis
    proof (cases "?d fl < m")
      case True
      then have eq: "search_flowlet now rtt i (fl # fls) r0 m = search_flowlet now rtt (i + 1) fls i (?d fl)"
        using be err False by auto
      from Cons.IH [of "?d fl" "i + 1" i] Cons.prems pos obtain r where
        r: "search_flowlet now rtt (i + 1) fls i (?d fl) = Some r"
        "if \<forall>fl' \<in> set fls. ?d fl \<le> ?d fl' then r = i
         else \<exists>k. r = i + 1 + k \<and> nearest ?d fls k \<and> ?d (fls ! k) < ?d fl" by auto
      show ?thesis
      proof (cases "\<forall>fl' \<in> set fls. ?d fl \<le> ?d fl'")
        case all: True
        with r True show ?thesis unfolding eq by (auto intro!: exI [of _ 0] nearest_Cons_0)
      next
        case some: False
        with r obtain k where "r = i + 1 + k" "nearest ?d fls k" "?d (fls ! k) < ?d fl" by auto
        with r(1) True show ?thesis unfolding eq
          by (auto intro!: exI [of _ "Suc k"] nearest_Cons_Suc)
      qed
    next
      case large: False
      then have eq: "search_flowlet now rtt i (fl # fls) r0 m = search_flowlet now rtt (i + 1) fls r0 m"
        using be err False by auto
      from Cons.IH [of m "i + 1" r0] Cons.prems obtain r where
        r: "search_flowlet now rtt (i + 1) fls r0 m = Some r"
        "if \<forall>fl' \<in> set fls. m \<le> ?d fl' then r = r0
         else \<exists>k. r = i + 1 + k \<and> nearest ?d fls k \<and> ?d (fls ! k) < m" by auto
      show ?thesis
      proof (cases "\<forall>fl' \<in> set fls. m \<le> ?d fl'")
        case True
        with r large show ?thesis unfolding eq by auto
      next
        case some: False
        with r obtain k where "r = i + 1 + k" "nearest ?d fls k" "?d (fls ! k) < m" by auto
        with r(1) large some show ?thesis unfolding eq
          by (auto intro!: exI [of _ "Suc k"] nearest_Cons_Suc)
      qed
    qed
  qed
qed simp


lemma search_flowlet_total:
  assumes "\<forall>fl \<in> set fls. sane_flowlet fl" and "rtt \<le> SANE"
  shows "\<exists>r. search_flowlet now rtt i fls r0 m = Some r \<and> (r = r0 \<or> i \<le> r \<and> r < i + length fls)"
  using assms
proof (induction fls arbitrary: i r0 m)
  case (Cons fl fls)
  let ?b = "fl_begin_time fl + int rtt" and ?e = "fl_end_time fl + int rtt"
  have "rtt \<le> from_secs (2 ^ 60)" using Cons.prems(2) by (simp add: SANE_eq from_secs_def)
  then have be: "instant_add (fl_begin_time fl) rtt = Some ?b" "instant_add (fl_end_time fl) rtt = Some ?e"
    using Cons.prems(1) by (auto simp: sane_flowlet_def intro!: sane_instant_add)
  obtain err where err: "(if now > ?e then dur_sub (duration_since now (fl_end_time fl)) rtt
      else Some (duration_since ?b now)) = Some err"
    by (cases "now > ?e") (auto simp: dur_sub_def duration_since_def le_nat_iff)
  from Cons.IH [of "i + 1" r0 m] Cons.IH [of "i + 1" i err] Cons.prems obtain r r' where
    "search_flowlet now rtt (i + 1) fls r0 m = Some r" "r = r0 \<or> i + 1 \<le> r \<and> r < i + 1 + length fls"
    "search_flowlet now rtt (i + 1) fls i err = Some r'" "r' = i \<or> i + 1 \<le> r' \<and> r' < i + 1 + length fls"
    by auto
  then show ?case by (simp add: be err) linarith
qed simp

lemma insert_reply_simps:
  assumes "r < length fls"
  shows "map pkt_nums (insert_reply now n r fls) = map pkt_nums fls"
    and "sane_clock now \<Longrightarrow> \<forall>fl \<in> set fls. sane_flowlet fl \<Longrightarrow> \<forall>fl \<in> set (insert_reply now n r fls). sane_flowlet fl"
proof -
  have "fls = take r fls @ [fls ! r] @ drop (r + 1) fls" using assms by (simp add: id_take_nth_drop)
  then have "map pkt_nums fls = map pkt_nums (take r fls @ [fls ! r] @ drop (r + 1) fls)" by (rule arg_cong)
  then show "map pkt_nums (insert_reply now n r fls) = map pkt_nums fls"
    by (simp add: insert_reply_def)
  show "\<forall>fl \<in> set (insert_reply now n r fls). sane_flowlet fl"
    if "sane_clock now" "\<forall>fl \<in> set fls. sane_flowlet fl"
    using that assms by (auto simp: insert_reply_def dest: in_set_takeD in_set_dropD)
qed

lemma pq_ok_reply_nums [simp]: "pq_ok (q\<lparr>reply_nums := n\<rparr>) = pq_ok q"
  by (simp add: pq_ok_def pq_inv_def pq_sane_def retired_def)

lemma check_reply_ok:
  assumes ok: "pq_ok q0" and now: "sane_clock now" and rtt: "rtt \<le> SANE"
  shows "\<exists>r q'. check_reply now n rtt q0 = Some (r, q') \<and> pq_ok q' \<and> extends q0 q' \<and> (\<forall>s. r = Some s \<longrightarrow>
    (\<forall>d \<in> set s. d \<le> SANE) \<and> (flowlets q' \<noteq> [] \<longrightarrow> \<not> is_complete (hd (flowlets q'))))"
proof -
  define q where "q = q0\<lparr>reply_nums := reply_nums q0 + 1\<rparr>"
  have same: "extends q0 x" if "extends (q\<lparr>flowlets := fls\<rparr>) x" for fls x
    using that extends_same [of "q\<lparr>flowlets := fls\<rparr>" q0 x] by (simp add: q_def retired_def)
  have okq: "pq_ok q" and ext: "extends q0 q" using ok by (simp_all add: q_def extends_def retired_def)
  from okq have sane: "pq_sane q" by (simp add: pq_ok_def)
  obtain t where t: "flowlet_end_timeout rtt q = Some t" "rtt \<le> t" "t \<le> from_secs (2 ^ 53)"
    using flowlet_end_timeout_ok [OF sane rtt] by blast
  have add: "dur_sub t rtt = Some (t - rtt)" using t(2) by (simp add: dur_sub_def)
  show ?thesis
  proof (cases "flowlets q")
    case Nil
    have "check_reply now n rtt q0 = Some (None, q)"
      unfolding check_reply_def q_def [symmetric] Let_def [of q] t(1) bind.bind_lunit add Nil by simp
    with okq ext show ?thesis by simp
  next
    case (Cons fl fls)
    let ?l = "last (flowlets q)"
    have a: "int (t - rtt) \<le> 9007199254740992000000000" "int rtt \<le> 4294967296000000000"
      using t rtt by (simp_all add: SANE_eq from_secs_def of_nat_diff)
    have sfl: "\<forall>f \<in> set (flowlets q). sane_flowlet f" using sane by (simp add: pq_sane_def)
    then have "sane_flowlet fl" "sane_flowlet ?l" by (simp_all add: Cons)
    then have i: "instant_add (fl_begin_time fl) rtt = Some (fl_begin_time fl + int rtt)"
      "instant_sub (fl_begin_time fl + int rtt) (t - rtt) = Some (fl_begin_time fl + int rtt - int (t - rtt))"
      "instant_add (fl_end_time ?l) rtt = Some (fl_end_time ?l + int rtt)"
      "instant_add (fl_end_time ?l + int rtt) (t - rtt) = Some (fl_end_time ?l + int rtt + int (t - rtt))"
      using a by (auto simp: instant_add_def instant_sub_def sane_flowlet_def sane_clock_iff INSTANT_LIMIT_def)
    let ?early = "now < fl_begin_time fl + int rtt - int (t - rtt) \<and> reply_pkt_nums fl = []"
    let ?late = "now > fl_end_time ?l + int rtt + int (t - rtt)"
    have "\<exists>fls'. (if fls = [] then
            let fl' = add_reply now n fl in
            Some [if length (pkt_nums fl') > FLOWLET_MAX_PKTS then set_as_complete fl' else fl']
          else do { r \<leftarrow> search_flowlet now rtt 0 (flowlets q) 0 DURATION_MAX;
                    Some (insert_reply now n r (flowlets q)) }) = Some fls' \<and> pq_ok (q\<lparr>flowlets := fls'\<rparr>)"
    proof (cases "fls = []")
      case True
      then show ?thesis
        using sfl now Cons by (auto simp: Let_def intro!: pq_ok_flowlets okq)
    next
      case False
      obtain r where r: "search_flowlet now rtt 0 (flowlets q) 0 DURATION_MAX = Some r" "r < length (flowlets q)"
        using search_flowlet_total [OF sfl rtt, of now 0 0 DURATION_MAX] Cons by auto
      from insert_reply_simps [OF r(2)] now sfl have "pq_ok (q\<lparr>flowlets := insert_reply now n r (flowlets q)\<rparr>)"
        by (intro pq_ok_flowlets okq) auto
      with False r(1) show ?thesis by simp
    qed
    then obtain fls' where f: "(if fls = [] then
            let fl' = add_reply now n fl in
            Some [if length (pkt_nums fl') > FLOWLET_MAX_PKTS then set_as_complete fl' else fl']
          else do { r \<leftarrow> search_flowlet now rtt 0 (flowlets q) 0 DURATION_MAX;
                    Some (insert_reply now n r (flowlets q)) }) = Some fls'" "pq_ok (q\<lparr>flowlets := fls'\<rparr>)" by blast
    from complete_flowlets_ok [OF f(2) rtt] obtain s q' where
      c: "complete_flowlets rtt (q\<lparr>flowlets := fls'\<rparr>) = Some (s, q')" "pq_ok q'" "\<forall>d \<in> set s. d \<le> SANE"
      "flowlets q' \<noteq> [] \<longrightarrow> \<not> is_complete (hd (flowlets q'))" by blast
    have "check_reply now n rtt q0 = (if ?early \<or> ?late then Some (None, q) else Some (Some s, q'))"
      unfolding check_reply_def q_def [symmetric] Let_def [of q] t(1) bind.bind_lunit add Cons list.case
        i [unfolded Cons] f(1) [unfolded Cons] c(1) by auto
    with okq ext c same [OF complete_flowlets_extends [OF f(2) rtt c(1)]] show ?thesis by auto
  qed
qed

lemma reset_loop_ok:
  "pq_inv q \<Longrightarrow> \<exists>fls ps. reset_loop (flowlets q) (packets q) = Some (fls, ps) \<and>
     pq_inv (q\<lparr>flowlets := fls, packets := ps\<rparr>) \<and> fls = dropWhile (\<lambda>fl. reply_pkt_times fl \<noteq> []) (flowlets q) \<and>
     set ps \<subseteq> set (packets q) \<and> length ps \<le> length (packets q)"
proof (induction "flowlets q" arbitrary: q)
  case Nil
  then show ?case by (cases q) simp
next
  case (Cons fl fls)
  note fls = Cons(2) [symmetric]
  show ?case
  proof (cases "reply_pkt_times fl = []")
    case True
    with Cons(3) show ?thesis by (simp add: fls) (simp add: fls [symmetric])
  next
    case False
    let ?q = "q\<lparr>flowlets := fls, packets := drop (length (pkt_nums fl)) (packets q)\<rparr>"
    have "raws_in {} ps = []" for ps by (induction ps) (auto simp: raws_in_def split: packet.splits)
    with pq_inv_drop_flowlet(2) [OF Cons(3) fls, of "{}"] have "pq_inv ?q" by simp
    from Cons(1) [OF _ this] obtain fls' ps where
      "reset_loop fls (packets ?q) = Some (fls', ps)" "pq_inv (?q\<lparr>flowlets := fls', packets := ps\<rparr>)"
      "fls' = dropWhile (\<lambda>fl. reply_pkt_times fl \<noteq> []) fls" "set ps \<subseteq> set (packets ?q)" "length ps \<le> length (packets ?q)" by auto
    with False pop_packets_eq [OF pq_inv_drop_flowlet(1) [OF Cons(3) fls]] show ?thesis
      by (auto simp: fls dest: in_set_dropD)
  qed
qed

lemma reset_ok:
  assumes "pq_ok q"
  shows "\<exists>q'. reset_due_to_rtt_deviation q = Some q' \<and> pq_ok q' \<and>
    flowlets q' = dropWhile (\<lambda>fl. reply_pkt_times fl \<noteq> []) (flowlets q) \<and> detected_loss q' = detected_loss q \<and>
    extends q q'"
proof -
  from reset_loop_ok [of q] assms obtain fls ps where
    "reset_loop (flowlets q) (packets q) = Some (fls, ps)" "pq_inv (q\<lparr>flowlets := fls, packets := ps\<rparr>)"
    "fls = dropWhile (\<lambda>fl. reply_pkt_times fl \<noteq> []) (flowlets q)" "set ps \<subseteq> set (packets q)"
    "length ps \<le> length (packets q)"
    by (auto simp: pq_ok_def)
  with assms show ?thesis
    by (auto simp: reset_due_to_rtt_deviation_def pq_ok_def pq_sane_def extends_def retired_def
        dest!: set_dropWhileD)
qed

end
