(* ===== verification/Queue_Contract.thy ===== *)
theory Queue_Contract
  imports Queue_Invariant
begin

text \<open>
  The contract \<open>queue_op\<close> holds for each public operation of the packet queue, and for every
  history of a queue the packets handed out for retransmission are handed out once.
\<close>

section \<open>The contract, operation by operation\<close>

interpretation q_add: queue_op "queue_add ts payload rtt" "\<lambda>q. sane_clock ts \<and> length (packets q) \<le> 1000"
  for ts payload rtt
proof
  fix q
  assume "pq_ok q" and "sane_clock ts \<and> length (packets q) \<le> 1000"
  with queue_add_spec [of q ts payload rtt] show "\<exists>r q'. queue_add ts payload rtt q = Some (r, q') \<and> pq_ok q'"
    by blast
qed

interpretation q_reply: queue_op "check_reply now n rtt" "\<lambda>_. sane_clock now \<and> rtt \<le> SANE" for now n rtt
  by unfold_locales (use check_reply_ok in blast)

interpretation q_timeout: queue_op "queue_on_timeout now rtt" "\<lambda>_. rtt \<le> SANE" for now rtt
  by unfold_locales (use queue_on_timeout_ok in blast)

interpretation q_reset: queue_op "\<lambda>q. map_option (Pair ()) (reset_due_to_rtt_deviation q)" "\<lambda>_. True"
  by unfold_locales (use reset_ok in force)

interpretation q_pop: queue_op "\<lambda>q. Some (pop_retransmit_front q)" "\<lambda>_. True"
proof
  fix q
  assume "pq_ok q"
  then have "pq_ok (snd (pop_retransmit_front q))"
    by (cases "detected_loss q")
      (simp_all add: pop_retransmit_front_def pq_ok_def pq_inv_def pq_sane_def retired_def del: upt_Suc)
  then show "\<exists>r q'. Some (pop_retransmit_front q) = Some (r, q') \<and> pq_ok q'"
    by (cases "pop_retransmit_front q") simp
qed

section \<open>Every history of a queue\<close>

text \<open>
  A queue in use: the operations in any order, with sane arguments. The list records the numbers
  of the packets handed out for retransmission.
\<close>

inductive queue_run :: "packet_queue \<Rightarrow> nat list \<Rightarrow> bool" where
  start: "sane_clock clock \<Longrightarrow> sane_factor a \<Longrightarrow> sane_factor b \<Longrightarrow>
     queue_run (queue_set_factors a b (queue_new clock)) []"
| add: "queue_run q tr \<Longrightarrow> sane_clock ts \<Longrightarrow> queue_add ts payload rtt q = Some (r, q') \<Longrightarrow> queue_run q' tr"
| reply: "queue_run q tr \<Longrightarrow> sane_clock now \<Longrightarrow> rtt \<le> SANE \<Longrightarrow> check_reply now n rtt q = Some (s, q') \<Longrightarrow>
     queue_run q' tr"
| timeout: "queue_run q tr \<Longrightarrow> rtt \<le> SANE \<Longrightarrow> queue_on_timeout now rtt q = Some (s, q') \<Longrightarrow> queue_run q' tr"
| reset: "queue_run q tr \<Longrightarrow> reset_due_to_rtt_deviation q = Some q' \<Longrightarrow> queue_run q' tr"
| pop: "queue_run q tr \<Longrightarrow> pop_retransmit_front q = (Some p, q') \<Longrightarrow> queue_run q' (tr @ [raw_number p])"

text \<open>Handed-out and waiting losses together are numbered in strictly increasing order.\<close>

definition losses_once :: "packet_queue \<Rightarrow> nat list \<Rightarrow> bool" where
  "losses_once q tr \<longleftrightarrow> sorted_wrt (<) (tr @ map raw_number (detected_loss q)) \<and> (\<forall>x \<in> set tr. x \<le> retired q)"

lemma losses_once_extends:
  assumes "losses_once q tr" and "extends q q'" and "pq_ok q" and "pq_ok q'"
  shows "losses_once q' tr"
proof -
  from assms(2) obtain new where new: "detected_loss q' = detected_loss q @ new" "retired q \<le> retired q'"
    "\<forall>r \<in> set new. retired q < raw_number r" by (auto simp: extends_def)
  have "sorted_wrt (<) (map raw_number (detected_loss q'))" using assms(4) by (simp add: pq_ok_def pq_inv_def)
  with assms(1) new show ?thesis
    by (auto simp: losses_once_def sorted_wrt_append intro: order_trans) (meson le_less_trans)
qed

lemma queue_add_full: "1000 < length (packets q) \<Longrightarrow> queue_add ts payload rtt q = None"
  by (auto simp: queue_add_def record_packet_interval_def measure_eliciting_threshold_def Let_def
      bind_eq_None_conv bind_eq_Some_conv)

lemma queue_add_retired:
  assumes "pq_ok q" and "sane_clock ts" and "queue_add ts payload rtt q = Some (r, q')"
  shows "pq_ok q' \<and> retired q' = retired q \<and> detected_loss q' = detected_loss q"
proof -
  have "length (packets q) \<le> 1000"
  proof (rule ccontr)
    assume "\<not> length (packets q) \<le> 1000"
    with queue_add_full [of q ts payload rtt] assms(3) show False by simp
  qed
  with queue_add_spec [OF assms(1,2), of payload rtt] assms(3) show ?thesis by (auto simp: retired_def)
qed

lemma queue_run_inv: "queue_run q tr \<Longrightarrow> pq_ok q \<and> losses_once q tr"
proof (induction rule: queue_run.induct)
  case (start clock a b)
  with queue_new_ok [of clock] show ?case
    by (auto simp: queue_set_factors_def pq_ok_def pq_inv_def pq_sane_def retired_def losses_once_def queue_new_def)
next
  case (add q tr ts payload rtt r q')
  with queue_add_retired [of q ts payload rtt r q'] show ?case by (simp add: losses_once_def)
next
  case (reply q tr now rtt n s q')
  with check_reply_ok [of q now rtt n] losses_once_extends [of q tr q'] show ?case by auto
next
  case (timeout q tr rtt now s q')
  from timeout obtain t where "timeout_flowlets now rtt t q = Some (s, q')"
    by (auto simp: queue_on_timeout_def bind_eq_Some_conv)
  with timeout timeout_flowlets_extends [of q rtt now t s q'] q_timeout.keeps [of q rtt now s q']
    losses_once_extends [of q tr q'] show ?case by auto
next
  case (reset q tr q')
  with reset_ok [of q] losses_once_extends [of q tr q'] show ?case by auto
next
  case (pop q tr p q')
  then have "pq_ok q'" using q_pop.keeps [of q "Some p" q'] by simp
  moreover from pop have "detected_loss q = p # detected_loss q'" "retired q' = retired q"
    by (auto simp: pop_retransmit_front_def retired_def split: list.splits)
  ultimately show ?case using pop by (auto simp: losses_once_def pq_ok_def pq_inv_def)
qed

section \<open>Properties\<close>

text \<open>
  C6. Along every history of a queue, in whatever order packets are added, replies are attributed,
  flowlets time out, the queue is reset and losses are taken out, the bookkeeping invariant holds and
  no packet is handed out for retransmission twice: the numbers handed out strictly increase.
\<close>

theorem queue_run_retransmits_once:
  assumes "queue_run q tr"
  shows "pq_ok q \<and> sorted_wrt (<) tr"
  using queue_run_inv [OF assms] by (simp add: losses_once_def sorted_wrt_append)

text \<open>
  A packet that gets no reply: it is added, its flowlet times out, and it is handed out. The factors
  of this queue are zero, so that a flowlet ends one RTT after its last packet; \<open>s\<close> is the smoothed
  interval.
\<close>

definition lone_packet :: "duration \<Rightarrow> packet_queue" where
  "lone_packet s = (queue_set_factors (Fin 0) (Fin 0) (queue_new 0))\<lparr>
     packets := [Raw \<lparr>raw_number = 1, raw_timestamp = 1000000, raw_payload = [1, 2]\<rparr>],
     flowlets := [flowlet_new 1 1000000], processed := 1, last_packet_time := 1000000, smoothed_interval := s\<rparr>"

definition lone_loss :: "duration \<Rightarrow> packet_queue" where
  "lone_loss s = (lone_packet s)\<lparr>packets := [], flowlets := [],
     detected_loss := [\<lparr>raw_number = 1, raw_timestamp = 1000000, raw_payload = [1, 2]\<rparr>]\<rparr>"

lemmas lone_defs = lone_packet_def lone_loss_def queue_set_factors_def queue_new_def flowlet_new_def

lemma mul_f64_zero: "d \<le> SANE \<Longrightarrow> mul_f64 d (Fin 0) = Some 0"
proof -
  assume "d \<le> SANE"
  then have "d \<le> DURATION_MAX" by (simp add: SANE_eq DURATION_MAX_def)
  from as_secs_f64_finite [OF this] obtain x where "as_secs_f64 d = Fin x" by blast
  moreover have "fl64 0 = Fin 0" using fl64_of_int [of 0] by simp
  ultimately show ?thesis using from_secs_f64.simps(1) [of 0] by (simp add: mul_f64_def rne_def rne_at_def)
qed

lemma lone_packet_ok: "s \<le> SANE \<Longrightarrow> pq_ok (lone_packet s)"
  by (simp add: lone_defs pq_ok_def pq_inv_def pq_sane_def retired_def sane_clock_iff sane_flowlet_def
      sane_factor_def DEFAULT_ELICITING_THRESHOLD_def)

lemma lone_packet_added:
  "\<exists>s \<le> SANE. queue_add 1000000 (Some [1, 2]) 0 (queue_set_factors (Fin 0) (Fin 0) (queue_new 0))
     = Some ((1, True), lone_packet s)"
proof -
  let ?q = "queue_set_factors (Fin 0) (Fin 0) (queue_new 0)"
  have ok: "pq_ok ?q" using queue_new_ok [of 0]
    by (simp add: queue_set_factors_def pq_ok_def pq_inv_def pq_sane_def retired_def sane_clock_iff sane_factor_def)
  have "sane_clock 1000000" by (simp add: sane_clock_iff)
  from record_packet_interval_ok [OF ok this] obtain s where
    "record_packet_interval 1000000 ?q = Some (?q\<lparr>last_packet_time := 1000000, smoothed_interval := s\<rparr>)"
    "s \<le> SANE" by (auto simp: pq_ok_def pq_sane_def)
  then show ?thesis
    by (intro exI [of _ s]) (simp add: queue_add_def WHEN_MEASURE_ELICITING_THRESHOLD_def add_to_flowlet_def
        newest_ts_def new_packet_def lone_defs)
qed

lemma lone_packet_times_out:
  "s \<le> SANE \<Longrightarrow> queue_on_timeout 20000000 1000000 (lone_packet s) = Some ([], lone_loss s)"
  using mul_f64_zero [of s] mul_f64_zero [of 0]
  by (simp add: queue_on_timeout_def flowlet_end_timeout_def flowlet_timeout_def lone_defs dur_add_def
      DURATION_MAX_def timeout_flowlets.simps instant_add_def INSTANT_LIMIT_def complete_one_flowlet_def
      set_as_complete_def is_complete_def flowlet_outcome_def exactly_replyed_def remove_a_complete_flowlet_def
      index_def)

theorem queue_run_retransmits_once_witness:
  "\<exists>s. pq_ok ((lone_loss s)\<lparr>detected_loss := []\<rparr>) \<and> sorted_wrt (<) [1 :: nat]"
proof -
  obtain s where s: "s \<le> SANE" "queue_add 1000000 (Some [1, 2]) 0 (queue_set_factors (Fin 0) (Fin 0) (queue_new 0))
     = Some ((1, True), lone_packet s)" using lone_packet_added by blast
  have "queue_run (lone_packet s) []"
    by (rule queue_run.add [OF queue_run.start [of 0] _ s(2)])
      (simp_all add: sane_clock_iff sane_factor_def)
  then have "queue_run (lone_loss s) []"
    by (rule queue_run.timeout [OF _ _ lone_packet_times_out [OF s(1)]]) (simp add: SANE_eq)
  then have "queue_run ((lone_loss s)\<lparr>detected_loss := []\<rparr>) [1]"
    using queue_run.pop [of "lone_loss s" "[]" "\<lparr>raw_number = 1, raw_timestamp = 1000000, raw_payload = [1, 2]\<rparr>"]
    by (simp add: pop_retransmit_front_def lone_loss_def)
  from queue_run_retransmits_once [OF this] show ?thesis by blast
qed

text \<open>
  \<open>add\<close> on a queue with at most 1000 packets returns the next number and appends the packet,
  with its payload, at the back; it is assigned to the last flowlet or to a new one, and nothing is
  lost from the queue or added to the losses.
\<close>

theorem queue_add_appends:
  assumes "pq_ok q" and "sane_clock ts" and "length (packets q) \<le> 1000"
  shows "\<exists>nf q'. queue_add ts payload rtt q = Some ((processed q + 1, nf), q') \<and> pq_ok q' \<and>
    packets q' = packets q @ [new_packet (processed q + 1) ts payload] \<and> processed q' = processed q + 1 \<and>
    detected_loss q' = detected_loss q \<and> length (flowlets q') = length (flowlets q) + (if nf then 1 else 0)"
  by (rule queue_add_spec [OF assms])

theorem queue_add_appends_witness:
  "\<exists>nf q'. queue_add 1000000 (Some [1]) 0 (queue_new 0) = Some ((1, nf), q') \<and>
    packets q' = [Raw \<lparr>raw_number = 1, raw_timestamp = 1000000, raw_payload = [1]\<rparr>]"
  using queue_add_appends [OF queue_new_ok [of 0], of 1000000 "Some [1]" 0]
  by (auto simp: sane_clock_iff queue_new_def new_packet_def)

text \<open>
  The queue of a connection whose packets are not taken out stops the program: with more than
  1000 packets queued, \<open>add\<close> panics, whatever the packet.
\<close>

theorem queue_add_overflow_panics:
  assumes "1000 < length (packets q)"
  shows "queue_add ts payload rtt q = None"
  by (rule queue_add_full [OF assms])

theorem queue_add_overflow_panics_witness:
  "queue_add 7 (Some [1]) 0 ((queue_new 0)\<lparr>packets := replicate 1001 (Retrans \<lparr>rt_number = 0, rt_timestamp = 0\<rparr>)\<rparr>) = None"
  by (rule queue_add_overflow_panics) simp

text \<open>
  C17. \<open>check_reply\<close> never panics on a sound queue: none of its assertions, index computations and
  time arithmetic fails, whatever the packet number and the reply time. When the reply is attributed,
  every complete flowlet at the front has been removed, and what is added to the losses are packets
  that were in the queue.
\<close>

theorem check_reply_total:
  assumes "pq_ok q" and "sane_clock now" and "rtt \<le> SANE"
  shows "\<exists>r q'. check_reply now n rtt q = Some (r, q') \<and> pq_ok q' \<and> extends q q' \<and> (\<forall>s. r = Some s \<longrightarrow>
    (\<forall>d \<in> set s. d \<le> SANE) \<and> (flowlets q' \<noteq> [] \<longrightarrow> \<not> is_complete (hd (flowlets q'))))"
  by (rule check_reply_ok [OF assms])

theorem check_reply_total_witness: "check_reply 3000000 9 1000000 (lone_packet 1000000) \<noteq> None"
  using check_reply_total [OF lone_packet_ok [of 1000000], of 3000000 1000000 9]
  by (auto simp: sane_clock_iff SANE_eq)

text \<open>
  C25. The search of \<open>check_reply\<close> picks, among the flowlets waiting for replies, the first one of
  least distance between the reply time and the span in which its replies are expected.
\<close>

theorem search_flowlet_nearest:
  assumes "\<forall>fl \<in> set fls. sane_flowlet fl \<and> fl_begin_time fl \<le> fl_end_time fl" and "fls \<noteq> []"
    and "rtt \<le> SANE" and "sane_clock now"
  shows "\<exists>r. search_flowlet now rtt 0 fls 0 DURATION_MAX = Some r \<and> nearest (reply_distance now rtt) fls r"
proof -
  have "reply_distance now rtt (hd fls) < DURATION_MAX"
    using assms hd_in_set [OF assms(2)]
    by (fastforce simp: reply_distance_def DURATION_MAX_def sane_flowlet_def sane_clock_iff SANE_eq)
  with hd_in_set [OF assms(2)] have "\<not> (\<forall>fl \<in> set fls. DURATION_MAX \<le> reply_distance now rtt fl)" by force
  moreover have "0 < DURATION_MAX" by (simp add: DURATION_MAX_def)
  ultimately show ?thesis using search_flowlet_spec [OF assms(1,3), of DURATION_MAX now 0 0]
    by (simp add: if_not_P) blast
qed

theorem search_flowlet_nearest_witness:
  "\<exists>r. search_flowlet 900 100 0 [flowlet_new 1 0, flowlet_new 2 600, flowlet_new 3 1000] 0 DURATION_MAX = Some r \<and>
    nearest (reply_distance 900 100) [flowlet_new 1 0, flowlet_new 2 600, flowlet_new 3 1000] r"
  by (rule search_flowlet_nearest) (simp_all add: flowlet_new_def sane_flowlet_def sane_clock_iff SANE_eq)

text \<open>
  C12. \<open>complete_one_flowlet\<close> removes exactly the first flowlet and its packets, and of these it moves
  to the losses the raw ones that the matching declares lost, in their order; retransmitted packets are
  never retransmitted again.
\<close>

theorem complete_one_flowlet_moves_losses:
  assumes "pq_ok q" and "flowlets q = fl # fls" and "is_complete fl" and "rtt \<le> SANE"
  shows "\<exists>L s q'. flowlet_outcome rtt fl q = Some (L, s) \<and> complete_one_flowlet rtt q = Some (s, q') \<and>
    q' = q\<lparr>flowlets := fls, packets := drop (length (pkt_nums fl)) (packets q),
      detected_loss := detected_loss q @ raws_in L (take (length (pkt_nums fl)) (packets q))\<rparr> \<and>
    pq_ok q' \<and> (\<forall>d \<in> set s. d \<le> SANE)"
  by (rule complete_one_flowlet_spec [OF assms])

theorem complete_one_flowlet_moves_losses_witness:
  "\<exists>q'. complete_one_flowlet 1000000 ((lone_packet 1000000)\<lparr>flowlets := [set_as_complete (flowlet_new 1 1000000)]\<rparr>)
       = Some ([], q') \<and> packets q' = [] \<and> map raw_number (detected_loss q') = [1]"
proof -
  let ?fl = "set_as_complete (flowlet_new 1 1000000)"
  let ?q = "(lone_packet 1000000)\<lparr>flowlets := [?fl]\<rparr>"
  have "pq_ok ?q"
    by (rule pq_ok_flowlets [OF lone_packet_ok])
      (simp_all add: SANE_eq lone_packet_def, simp add: flowlet_new_def sane_flowlet_def sane_clock_iff)
  moreover have "flowlet_outcome 1000000 ?fl ?q = Some ({1}, [])"
    by (simp add: flowlet_outcome_def exactly_replyed_def flowlet_new_def set_as_complete_def)
  ultimately show ?thesis
    using complete_one_flowlet_moves_losses [of ?q ?fl "[]" 1000000]
    by (auto simp: SANE_eq lone_defs set_as_complete_def is_complete_def)
qed

text \<open>
  C26. \<open>on_timeout\<close> never panics on a sound queue, and afterwards no flowlet at the front is past its
  deadline: the end of the flowlet plus the RTT plus the scaled packet interval.
\<close>

theorem queue_on_timeout_expires:
  assumes "pq_ok q" and "rtt \<le> SANE"
  shows "\<exists>s q' t. flowlet_end_timeout rtt q = Some t \<and> queue_on_timeout now rtt q = Some (s, q') \<and> pq_ok q' \<and>
    (\<forall>d \<in> set s. d \<le> SANE) \<and> (flowlets q' \<noteq> [] \<longrightarrow> now \<le> fl_end_time (hd (flowlets q')) + int t)"
  by (rule queue_on_timeout_ok [OF assms])

theorem queue_on_timeout_expires_witness: "\<exists>s q'. queue_on_timeout 20000000 1000000 (queue_new 0) = Some (s, q') \<and> pq_ok q'"
  using queue_on_timeout_expires [OF queue_new_ok [of 0], of 1000000 20000000]
  by (auto simp: sane_clock_iff SANE_eq)

end
