(* ===== verification/Pemi_Io.thy ===== *)
theory Pemi_Io
  imports Prelude "HOL-Library.Product_Lexorder"
begin

text \<open>
  \<open>pemi/src/pemi_io.rs\<close>: addresses and the transparent sender. \<open>std::net::SocketAddr\<close> is ordered as
  the standard library orders it, IPv4 before IPv6, then by address, port and the two IPv6 fields;
  \<open>nix\<close>'s \<open>SockaddrIn\<close> is an IPv4 address and a port. A call of \<open>send_transparently\<close> puts one
  datagram on the wire; its system calls are taken to succeed.
\<close>

section \<open>Model\<close>

datatype socket_addr =
    V4 (v4_ip: u32) (v4_port: u16)
  | V6 (v6_ip: "128 word") (v6_port: u16) (v6_flowinfo: u32) (v6_scope_id: u32)

record sockaddr_in =
  sin_addr :: u32
  sin_port :: u16

record addr =
  std_addr :: socket_addr
  nix_addr :: sockaddr_in

record datagram =
  dg_src :: sockaddr_in
  dg_dst :: sockaddr_in
  dg_payload :: bytes

definition send_transparently :: "sockaddr_in \<Rightarrow> sockaddr_in \<Rightarrow> bytes \<Rightarrow> datagram list \<Rightarrow> datagram list" where
  "send_transparently srcaddr dstaddr buf wire =
     wire @ [\<lparr>dg_src = srcaddr, dg_dst = dstaddr, dg_payload = buf\<rparr>]"

definition to_std_addr :: "sockaddr_in \<Rightarrow> socket_addr" where
  "to_std_addr a = V4 (sin_addr a) (sin_port a)"

definition to_nix_addr :: "socket_addr \<Rightarrow> sockaddr_in option" where
  "to_nix_addr a = (case a of
       V4 ip port \<Rightarrow> Some \<lparr>sin_addr = ip, sin_port = port\<rparr>
     | V6 _ _ _ _ \<Rightarrow> None)"

definition from_std_addr :: "socket_addr \<Rightarrow> addr option" where
  "from_std_addr a = do { n \<leftarrow> to_nix_addr a; Some \<lparr>std_addr = a, nix_addr = n\<rparr> }"

definition from_nix_addr :: "sockaddr_in \<Rightarrow> addr" where
  "from_nix_addr a = \<lparr>std_addr = to_std_addr a, nix_addr = a\<rparr>"

text \<open>The IP address without the port, the key of the RTT detector's table.\<close>

datatype ip_addr = IpV4 u32 | IpV6 "128 word"

fun socket_ip :: "socket_addr \<Rightarrow> ip_addr" where
  "socket_ip (V4 ip _) = IpV4 ip"
| "socket_ip (V6 ip _ _ _) = IpV6 ip"

section \<open>The order of addresses\<close>

fun addr_key :: "socket_addr \<Rightarrow> nat \<times> nat \<times> nat \<times> nat \<times> nat" where
  "addr_key (V4 ip port) = (0, unat ip, unat port, 0, 0)"
| "addr_key (V6 ip port flowinfo scope_id) = (1, unat ip, unat port, unat flowinfo, unat scope_id)"

lemma addr_key_inj: "addr_key a = addr_key b \<longleftrightarrow> a = b"
  by (cases a; cases b) (auto simp: word_unat_eq_iff)

instantiation socket_addr :: linorder
begin

definition less_eq_socket_addr :: "socket_addr \<Rightarrow> socket_addr \<Rightarrow> bool" where
  "a \<le> b \<longleftrightarrow> addr_key a \<le> addr_key b"

definition less_socket_addr :: "socket_addr \<Rightarrow> socket_addr \<Rightarrow> bool" where
  "a < b \<longleftrightarrow> addr_key a < addr_key b"

instance
proof
  fix a b c :: socket_addr
  show "a < b \<longleftrightarrow> a \<le> b \<and> \<not> b \<le> a"
    unfolding less_eq_socket_addr_def less_socket_addr_def by (rule less_le_not_le)
  show "a \<le> a" and "a \<le> b \<or> b \<le> a"
    unfolding less_eq_socket_addr_def by (rule order_refl, rule linear)
  show "a \<le> b \<Longrightarrow> b \<le> c \<Longrightarrow> a \<le> c"
    unfolding less_eq_socket_addr_def by (rule order_trans)
  show "a \<le> b \<Longrightarrow> b \<le> a \<Longrightarrow> a = b"
    unfolding less_eq_socket_addr_def using addr_key_inj [of a b] by simp
qed

end

section \<open>Laws\<close>

lemma send_transparently_simps [simp]:
  "send_transparently s d buf wire = wire @ [\<lparr>dg_src = s, dg_dst = d, dg_payload = buf\<rparr>]"
  by (simp add: send_transparently_def)

lemma to_nix_addr_eq: "to_nix_addr a = Some n \<longleftrightarrow> a = to_std_addr n"
  by (cases a; cases n) (auto simp: to_nix_addr_def to_std_addr_def)

lemma from_std_addr_eq: "from_std_addr a = Some x \<longleftrightarrow> std_addr x = a \<and> a = to_std_addr (nix_addr x)"
  by (cases x) (auto simp: from_std_addr_def bind_eq_Some_conv to_nix_addr_eq)

text \<open>An address whose two forms agree, as every address of the program is.\<close>

definition addr_ok :: "addr \<Rightarrow> bool" where
  "addr_ok a \<longleftrightarrow> std_addr a = to_std_addr (nix_addr a)"

lemma from_nix_addr_ok [simp]: "addr_ok (from_nix_addr a)"
  by (simp add: addr_ok_def from_nix_addr_def)

end
