(* ===== verification/Retrans.thy ===== *)
theory Retrans
  imports Queue_Contract Pemi_Io
begin

text \<open>
  \<open>pemi/src/retrans.rs\<close>: a retransmission task takes the losses out of a packet queue. The locale
  \<open>fifo_source\<close> is what the draining loop relies on; the queue of losses and the task itself
  provide it.
\<close>

section \<open>Model\<close>

record task =
  task_src :: socket_addr
  task_dst :: socket_addr
  retrans_queue :: "raw_udp_packet list"

text \<open>\<open>while let Some(p) = queue.pop() { out.push_back(p) }\<close>; a loop that does not end is \<open>None\<close>.\<close>

partial_function (option) drain_all :: "('q \<Rightarrow> 'a option \<times> 'q) \<Rightarrow> 'q \<Rightarrow> ('a list \<times> 'q) option" where
  "drain_all pop q = (case pop q of
       (None, q') \<Rightarrow> Some ([], q')
     | (Some x, q') \<Rightarrow> do { (xs, q'') \<leftarrow> drain_all pop q'; Some (x # xs, q'') })"

declare drain_all.simps [code]

definition task_from_queue ::
    "packet_queue \<Rightarrow> socket_addr \<Rightarrow> socket_addr \<Rightarrow> bool \<Rightarrow> bool \<Rightarrow> (task option \<times> packet_queue) option" where
  "task_from_queue pkt_queue src dst direction_protect overspeed =
     (if \<not> have_retransmit pkt_queue then Some (None, pkt_queue)
      else do {
        (losses, q) \<leftarrow> drain_all pop_retransmit_front pkt_queue;
        Some (if \<not> direction_protect \<or> overspeed then None
              else Some \<lparr>task_src = src, task_dst = dst, retrans_queue = losses\<rparr>, q) })"

definition task_pop_front :: "task \<Rightarrow> raw_udp_packet option \<times> task" where
  "task_pop_front t = (case retrans_queue t of
       [] \<Rightarrow> (None, t)
     | p # ps \<Rightarrow> (Some p, t\<lparr>retrans_queue := ps\<rparr>))"

section \<open>Draining a source\<close>

locale fifo_source =
  fixes items :: "'q \<Rightarrow> 'a list" and pop :: "'q \<Rightarrow> 'a option \<times> 'q" and rest :: "'q \<Rightarrow> 'a list \<Rightarrow> 'q"
  assumes pop_empty: "items q = [] \<Longrightarrow> pop q = (None, q)"
    and pop_item: "items q = x # xs \<Longrightarrow> pop q = (Some x, rest q xs)"
    and items_rest: "items (rest q xs) = xs"
    and rest_rest: "rest (rest q xs) ys = rest q ys"
    and rest_items: "rest q (items q) = q"
begin

lemma drains: "drain_all pop q = Some (items q, rest q [])"
proof (induction "items q" arbitrary: q)
  case Nil
  then have "rest q [] = q" using rest_items [of q] by simp
  with Nil show ?case by (subst drain_all.simps) (simp add: pop_empty)
next
  case (Cons x xs)
  from Cons(1) [of "rest q xs"] have "drain_all pop (rest q xs) = Some (xs, rest q [])"
    by (simp add: items_rest rest_rest)
  with Cons(2) pop_item [OF Cons(2) [symmetric]] show ?case by (subst drain_all.simps) simp
qed

end

interpretation losses: fifo_source detected_loss pop_retransmit_front "\<lambda>q xs. q\<lparr>detected_loss := xs\<rparr>"
  by unfold_locales (simp_all add: pop_retransmit_front_def)

interpretation task_packets: fifo_source retrans_queue task_pop_front "\<lambda>t xs. t\<lparr>retrans_queue := xs\<rparr>"
  by unfold_locales (simp_all add: task_pop_front_def)

lemma task_from_queue_eq:
  "task_from_queue q src dst protect fast = Some
     (if detected_loss q = [] \<or> \<not> protect \<or> fast then None
      else Some \<lparr>task_src = src, task_dst = dst, retrans_queue = detected_loss q\<rparr>,
      q\<lparr>detected_loss := []\<rparr>)"
  using losses.rest_items [of q]
  by (simp add: task_from_queue_def have_retransmit_def losses.drains)

lemma task_from_queue_ok: "pq_ok q \<Longrightarrow> pq_ok (q\<lparr>detected_loss := []\<rparr>)"
  by (simp add: pq_ok_def pq_inv_def pq_sane_def retired_def del: upt_Suc)

section \<open>Properties\<close>

text \<open>
  Making a retransmission task always ends and leaves no loss behind in the queue; the task holds
  exactly the losses the queue had, in their order, and there is one exactly when there was a loss, the
  direction is protected and the sender is not over its rate. Losses of an unprotected or overspeeding
  connection are dropped.
\<close>

theorem task_takes_all_losses:
  "\<exists>t. task_from_queue q src dst protect fast = Some (t, q\<lparr>detected_loss := []\<rparr>) \<and>
     (t \<noteq> None \<longleftrightarrow> detected_loss q \<noteq> [] \<and> protect \<and> \<not> fast) \<and>
     (case t of None \<Rightarrow> True
      | Some k \<Rightarrow> drain_all task_pop_front k = Some (detected_loss q, k\<lparr>retrans_queue := []\<rparr>) \<and>
                  task_src k = src \<and> task_dst k = dst)"
  by (simp add: task_from_queue_eq task_packets.drains)

end
