(* ===== verification/Conn.thy ===== *)
theory Conn
  imports Quic_Parse Copa Retrans
begin

text \<open>
  \<open>pemi/src/conn.rs\<close>: one QUIC connection seen by the middlebox. It tracks the handshake, measures
  the round-trip times of both sides from the two packet queues, decides which direction carries the
  data, drives the congestion controller and holds back ACKs when the sender is too fast.

  A \<open>None\<close> result is a panic. The datagrams an operation sends are appended to its argument
  \<open>wire\<close>. \<open>usize\<close> and \<open>u64\<close> counters are natural numbers. The clock readings taken inside a
  method are its arguments.
\<close>

section \<open>Model\<close>

definition IDLE_TIMEOUT :: duration where
  "IDLE_TIMEOUT = from_secs 120"

definition RTT_SMOOTHING_FACTOR :: rat where
  "RTT_SMOOTHING_FACTOR = 1 / 8"

definition DELAY_kGranularity :: duration where
  "DELAY_kGranularity = from_millis 1"

definition DELAY_kTimeThreshold :: rat where
  "DELAY_kTimeThreshold = 9 / 8"

definition DELAY_kPacketThreshold :: nat where
  "DELAY_kPacketThreshold = 3"

definition USIZE_MAX :: nat where
  "USIZE_MAX = 2 ^ 64 - 1"

record conn_id =
  id_addr1 :: socket_addr
  id_addr2 :: socket_addr

definition conn_id_new :: "socket_addr \<Rightarrow> socket_addr \<Rightarrow> conn_id" where
  "conn_id_new addr1 addr2 =
     (if addr1 < addr2 then \<lparr>id_addr1 = addr1, id_addr2 = addr2\<rparr>
      else \<lparr>id_addr1 = addr2, id_addr2 = addr1\<rparr>)"

datatype conn_state = Initialed | Handshaked

datatype dominant_dir = ToClient | ToServer | NoDirection

record delayed_ack =
  ack_forward_ts :: instant
  ack_payload :: bytes
  ack_e2e_rtt :: duration

record conn =
  c_state :: conn_state
  last_access :: instant
  begin_time :: instant
  client_addr :: addr
  server_addr :: addr
  client_rtt :: duration
  server_rtt :: duration
  to_server_queue :: packet_queue
  to_server_pkt_num :: nat
  to_client_queue :: packet_queue
  min_pkt_size :: nat
  dominant_direction :: dominant_dir
  last_dominant_check :: instant
  server_bytes :: nat
  client_bytes :: nat
  conn_cc :: copa
  overspeed :: bool
  overspeed_begin :: "instant option"
  delayed_ack_queue :: "delayed_ack list"
  last_rtt_calibration :: instant

text \<open>The readings of the clock by the two packet queues and by the two filters of the controller.\<close>

type_synonym new_clocks = "instant \<times> instant \<times> instant \<times> instant"

definition conn_new :: "new_clocks \<Rightarrow> instant \<Rightarrow> socket_addr \<Rightarrow> socket_addr \<Rightarrow> conn option" where
  "conn_new ks now src dst = (case ks of (k1, k2, k3, k4) \<Rightarrow> do {
     client \<leftarrow> from_std_addr src;
     server \<leftarrow> from_std_addr dst;
     Some \<lparr>c_state = Initialed, last_access = now, begin_time = now,
       client_addr = client, server_addr = server,
       client_rtt = from_secs 0, server_rtt = from_secs 0,
       to_server_queue = queue_new k1, to_server_pkt_num = 0, to_client_queue = queue_new k2,
       min_pkt_size = USIZE_MAX, dominant_direction = NoDirection, last_dominant_check = now,
       server_bytes = 0, client_bytes = 0,
       conn_cc = copa_new k3 k4 now, overspeed = False, overspeed_begin = None,
       delayed_ack_queue = [], last_rtt_calibration = now\<rparr> })"

definition conn_set_factors :: "f64 \<Rightarrow> f64 \<Rightarrow> conn \<Rightarrow> conn" where
  "conn_set_factors interval_factor end_factor c = c\<lparr>
     to_server_queue := queue_set_factors interval_factor end_factor (to_server_queue c),
     to_client_queue := queue_set_factors interval_factor end_factor (to_client_queue c)\<rparr>"

subsection \<open>Handshake tracking\<close>

text \<open>Skips the payload; trailing UDP padding belongs to the packet.\<close>

definition packet_end :: "nat \<Rightarrow> header \<Rightarrow> nat parser" where
  "packet_end len hdr =
     and_then (try_octets (skip (h_length hdr))) (\<lambda>_.
     and_then (gets cap) (\<lambda>c.
     if c > 0 then and_then is_udp_padding (\<lambda>padding. if padding then ret len else gets o_off)
     else gets o_off))"

definition first_quic_packet ::
    "new_clocks \<Rightarrow> instant \<Rightarrow> socket_addr \<Rightarrow> socket_addr \<Rightarrow> bytes \<Rightarrow> (error, conn \<times> nat) outcome" where
  "first_quic_packet ks now src dst buf =
     fst (and_then (from_bytes 0) (\<lambda>hdr.
       if h_ty hdr \<noteq> Initial then fail MayNotQUIC
       else and_then (packet_end (length buf) hdr) (\<lambda>read.
         case conn_new ks now src dst of None \<Rightarrow> panic | Some c \<Rightarrow> ret (c, read))) (with_slice buf))"

definition is_handshaked :: "conn \<Rightarrow> bool" where
  "is_handshaked c \<longleftrightarrow> c_state c = Handshaked"

definition set_handshaked :: "conn \<Rightarrow> conn" where
  "set_handshaked c = c\<lparr>c_state := Handshaked\<rparr>"

definition touch :: "instant \<Rightarrow> conn \<Rightarrow> conn" where
  "touch now c = c\<lparr>last_access := now\<rparr>"

definition is_from_client :: "socket_addr \<Rightarrow> conn \<Rightarrow> bool" where
  "is_from_client src c \<longleftrightarrow> src = std_addr (client_addr c)"

definition process_quic_packet :: "instant \<Rightarrow> bytes \<Rightarrow> socket_addr \<Rightarrow> (conn, error, nat) meth" where
  "process_quic_packet now buf src c0 = (let c = touch now c0 in
     if is_handshaked c then (Ok (length buf), c)
     else (case from_bytes 0 (with_slice buf) of
         (Err e, b) \<Rightarrow> (Err e, c)
       | (Panic, b) \<Rightarrow> (Panic, c)
       | (Ok hdr, b) \<Rightarrow>
           if h_ty hdr = Handshake \<and> is_from_client src c then (Panic, c)
           else (fst (packet_end (length buf) hdr b),
                 if h_ty hdr = Handshake then set_handshaked c else c)))"

subsection \<open>Measurements\<close>

definition count_packet :: "bool \<Rightarrow> nat \<Rightarrow> conn \<Rightarrow> conn" where
  "count_packet from_client pkt_size c =
     (if pkt_size < min_pkt_size c then c\<lparr>min_pkt_size := pkt_size\<rparr>
      else if from_client then c\<lparr>client_bytes := client_bytes c + (pkt_size - min_pkt_size c)\<rparr>
      else c\<lparr>server_bytes := server_bytes c + (pkt_size - min_pkt_size c)\<rparr>)"

definition measure_dominant_direction :: "instant \<Rightarrow> bool \<Rightarrow> nat \<Rightarrow> conn \<Rightarrow> conn option" where
  "measure_dominant_direction recv_ts from_client pkt_size c0 = (let c = count_packet from_client pkt_size c0 in
     do {
       rtt \<leftarrow> dur_add (client_rtt c) (server_rtt c);
       Some (if duration_since recv_ts (last_dominant_check c) \<ge> rtt then
         c\<lparr>dominant_direction :=
             (if client_bytes c * 2 < server_bytes c then ToClient
              else if server_bytes c * 2 < client_bytes c then ToServer
              else dominant_direction c),
           last_dominant_check := recv_ts, server_bytes := 0, client_bytes := 0\<rparr>
       else c) })"

definition update_client_rtt :: "duration \<Rightarrow> instant \<Rightarrow> conn \<Rightarrow> conn option" where
  "update_client_rtt value now c = do {
     rtt \<leftarrow> (if client_rtt c = 0 then Some value
            else do {
              a \<leftarrow> mul_f64 (client_rtt c) (Fin (1 - RTT_SMOOTHING_FACTOR));
              b \<leftarrow> mul_f64 value (Fin RTT_SMOOTHING_FACTOR);
              dur_add a b });
     cc' \<leftarrow> on_ack_send rtt now (conn_cc c);
     Some (c\<lparr>client_rtt := rtt, conn_cc := cc'\<rparr>) }"

definition update_server_rtt :: "duration \<Rightarrow> conn \<Rightarrow> conn" where
  "update_server_rtt value c = c\<lparr>server_rtt := value\<rparr>"

definition update_client_rtts :: "duration list \<Rightarrow> instant \<Rightarrow> conn \<Rightarrow> conn option" where
  "update_client_rtts samples now c = foldO (\<lambda>s. update_client_rtt s now) samples c"

subsection \<open>Delayed ACKs\<close>

definition need_reorder_ack :: "socket_addr \<Rightarrow> conn \<Rightarrow> bool" where
  "need_reorder_ack src c \<longleftrightarrow> overspeed c \<and> is_from_client src c \<and> is_handshaked c"

definition send_ack :: "conn \<Rightarrow> delayed_ack \<Rightarrow> datagram list \<Rightarrow> datagram list" where
  "send_ack c ack wire =
     send_transparently (nix_addr (client_addr c)) (nix_addr (server_addr c)) (ack_payload ack) wire"

text \<open>\<open>while let Some(ack) = delayed_ack_queue.pop_front() { send }\<close>\<close>

fun send_acks :: "conn \<Rightarrow> delayed_ack list \<Rightarrow> datagram list \<Rightarrow> datagram list" where
  "send_acks c [] wire = wire"
| "send_acks c (ack # acks) wire = send_acks c acks (send_ack c ack wire)"

definition delay_exceeded :: "instant \<Rightarrow> delayed_ack \<Rightarrow> conn \<Rightarrow> bool option" where
  "delay_exceeded now front_ack c = do {
     overspeed_start \<leftarrow> overspeed_begin c;
     let long = duration_since now overspeed_start > ack_e2e_rtt front_ack;
     let pkt_thresh = (if long then DELAY_kPacketThreshold * 2 else DELAY_kPacketThreshold);
     let time_thresh = (if long then 1 + (DELAY_kTimeThreshold - 1) * 2 else DELAY_kTimeThreshold);
     if length (delayed_ack_queue c) > pkt_thresh then Some True
     else do {
       delay \<leftarrow> mul_f64 (ack_e2e_rtt front_ack) (Fin time_thresh);
       Some (duration_since now (ack_forward_ts front_ack) > max delay DELAY_kGranularity) } }"

definition check_delayed_acks :: "instant \<Rightarrow> datagram list \<Rightarrow> conn \<Rightarrow> (datagram list \<times> conn) option" where
  "check_delayed_acks now wire c = (let acks = delayed_ack_queue c in
     if acks = [] then Some (wire, c)
     else if \<not> overspeed c then Some (send_acks c acks wire, c\<lparr>delayed_ack_queue := []\<rparr>)
     else if length acks < 2 then Some (wire, c)
     else do {
       due \<leftarrow> delay_exceeded now (hd acks) c;
       Some (if due then
               (send_acks c (butlast acks) (send_ack c (last acks) wire), c\<lparr>delayed_ack_queue := []\<rparr>)
             else (wire, c)) })"

definition add_delayed_ack ::
    "instant \<Rightarrow> bytes \<Rightarrow> datagram list \<Rightarrow> conn \<Rightarrow> (datagram list \<times> conn) option" where
  "add_delayed_ack forward_ts payload wire c = do {
     e2e_rtt \<leftarrow> dur_add (client_rtt c) (server_rtt c);
     check_delayed_acks forward_ts wire (c\<lparr>delayed_ack_queue := delayed_ack_queue c @
       [\<lparr>ack_forward_ts = forward_ts, ack_payload = payload, ack_e2e_rtt = e2e_rtt\<rparr>]\<rparr>) }"

subsection \<open>Packets\<close>

text \<open>The first RTT of either side, from the oldest packet sent to it.\<close>

definition initial_rtt :: "instant \<Rightarrow> socket_addr \<Rightarrow> conn \<Rightarrow> conn option" where
  "initial_rtt recv_ts src c =
     (if is_from_client src c then
        (if client_rtt c = 0 \<and> server_rtt c \<noteq> 0 then do {
           oldest \<leftarrow> oldest_ts (to_client_queue c);
           update_client_rtt (duration_since recv_ts oldest) recv_ts c }
         else Some c)
      else if server_rtt c = 0 then do {
        oldest \<leftarrow> oldest_ts (to_server_queue c);
        Some (update_server_rtt (duration_since recv_ts oldest) c) }
      else Some c)"

definition record_for_server_rtt :: "instant \<Rightarrow> bytes \<Rightarrow> conn \<Rightarrow> conn option" where
  "record_for_server_rtt recv_ts buf c =
     (if server_rtt c = 0 then do {
        (_, q) \<leftarrow> queue_add recv_ts (Some buf) (server_rtt c) (to_server_queue c);
        Some (c\<lparr>to_server_queue := q\<rparr>) }
      else Some c)"

definition reply_from_client :: "instant \<Rightarrow> conn \<Rightarrow> conn option" where
  "reply_from_client recv_ts c = do {
     let c1 = c\<lparr>to_server_pkt_num := to_server_pkt_num c + 1\<rparr>;
     (rtt_samples, q) \<leftarrow> check_reply recv_ts (to_server_pkt_num c1) (client_rtt c1) (to_client_queue c1);
     let c2 = c1\<lparr>to_client_queue := q\<rparr>;
     (case rtt_samples of None \<Rightarrow> Some c2 | Some samples \<Rightarrow> update_client_rtts samples recv_ts c2) }"

definition client_packet :: "instant \<Rightarrow> bytes \<Rightarrow> conn \<Rightarrow> conn option" where
  "client_packet recv_ts buf c = do {
     c1 \<leftarrow> record_for_server_rtt recv_ts buf c;
     reply_from_client recv_ts c1 }"

definition rate_check :: "instant \<Rightarrow> conn \<Rightarrow> conn option" where
  "rate_check recv_ts c =
     (if client_rtt c \<noteq> 0 then do {
        (fast, cc') \<leftarrow> on_data_send recv_ts (client_rtt c) (conn_cc c);
        Some (c\<lparr>conn_cc := cc', overspeed := fast,
          overspeed_begin := (if fast then (if overspeed_begin c = None then Some recv_ts else overspeed_begin c)
                              else None)\<rparr>) }
      else Some c)"

definition server_packet :: "instant \<Rightarrow> bytes \<Rightarrow> conn \<Rightarrow> (bool \<times> conn) option" where
  "server_packet recv_ts buf c = do {
     c1 \<leftarrow> rate_check recv_ts c;
     ((pkt_num, new_fl), q) \<leftarrow> queue_add recv_ts (Some buf) (client_rtt c1) (to_client_queue c1);
     Some (new_fl, c1\<lparr>to_client_queue := q\<rparr>) }"

definition process_udp_packet ::
    "instant \<Rightarrow> socket_addr \<Rightarrow> bytes \<Rightarrow> datagram list \<Rightarrow> conn \<Rightarrow> (bool \<times> datagram list \<times> conn) option" where
  "process_udp_packet recv_ts src buf wire c = do {
     c1 \<leftarrow> initial_rtt recv_ts src c;
     c2 \<leftarrow> measure_dominant_direction recv_ts (is_from_client src c) (length buf) c1;
     (new_flowlet, c3) \<leftarrow> (if is_from_client src c2 then do { c' \<leftarrow> client_packet recv_ts buf c2; Some (False, c') }
                          else server_packet recv_ts buf c2);
     (wire', c4) \<leftarrow> check_delayed_acks recv_ts wire c3;
     Some (new_flowlet, wire', c4) }"

definition conn_rtt_calibration ::
    "instant \<Rightarrow> instant \<times> instant \<Rightarrow> duration \<Rightarrow> conn \<Rightarrow> conn option" where
  "conn_rtt_calibration now_ts ks sample c = do {
     period \<leftarrow> dur_add sample (server_rtt c);
     if duration_since now_ts (last_rtt_calibration c) \<ge> period then do {
       let c1 = c\<lparr>last_rtt_calibration := now_ts\<rparr>;
       rtt_error \<leftarrow> (if sample \<ge> client_rtt c1 then dur_sub sample (client_rtt c1)
                    else dur_sub (client_rtt c1) sample);
       t \<leftarrow> flowlet_timeout (to_client_queue c1);
       allowable_error \<leftarrow> mul_f64 t (flowlet_end_factor (to_client_queue c1));
       if rtt_error > allowable_error then do {
         q \<leftarrow> reset_due_to_rtt_deviation (to_client_queue c1);
         Some (c1\<lparr>to_client_queue := q,
           conn_cc := (if client_rtt c1 < sample then reset_rtt_filters (fst ks) (snd ks) (conn_cc c1) else conn_cc c1),
           client_rtt := sample\<rparr>) }
       else Some c1 }
     else Some c }"

text \<open>\<open>None\<close> also for a packet from the client: \<open>todo!\<close> in the source.\<close>

definition conn_record_retrans_packet :: "instant \<Rightarrow> socket_addr \<Rightarrow> conn \<Rightarrow> conn option" where
  "conn_record_retrans_packet forward_ts src c =
     (if is_from_client src c then None
      else do {
        (_, q) \<leftarrow> queue_add forward_ts None (client_rtt c) (to_client_queue c);
        Some (c\<lparr>to_client_queue := q\<rparr>) })"

definition conn_timeout :: "instant \<Rightarrow> conn \<Rightarrow> duration option option" where
  "conn_timeout now c =
     (if client_rtt c = 0 then Some None else queue_timeout now (client_rtt c) (to_client_queue c))"

definition conn_on_timeout :: "instant \<Rightarrow> conn \<Rightarrow> conn option" where
  "conn_on_timeout now c = do {
     (rtt_samples, q) \<leftarrow> queue_on_timeout now (client_rtt c) (to_client_queue c);
     update_client_rtts rtt_samples now (c\<lparr>to_client_queue := q\<rparr>) }"

definition to_client_retrans_task :: "conn \<Rightarrow> (task option \<times> conn) option" where
  "to_client_retrans_task c = do {
     (t, q) \<leftarrow> task_from_queue (to_client_queue c) (std_addr (server_addr c)) (std_addr (client_addr c))
               (dominant_direction c = ToClient) (overspeed c);
     Some (t, c\<lparr>to_client_queue := q\<rparr>) }"

definition is_idle :: "instant \<Rightarrow> conn \<Rightarrow> bool" where
  "is_idle now c \<longleftrightarrow> duration_since now (last_access c) \<ge> IDLE_TIMEOUT"

end
