(* ===== verification/Conn_Contract.thy ===== *)
theory Conn_Contract
  imports Conn "HOL-Library.Multiset"
begin

text \<open>
  What a connection promises: identifiers do not depend on the direction, parsing a coalesced packet
  makes progress inside the datagram, held-back ACKs are neither lost nor duplicated, and every
  operation keeps \<open>conn_ok\<close>, the invariant under which the packets of the server are processed
  without a panic.
\<close>

section \<open>Identifiers\<close>

lemma conn_id_new_eq: "conn_id_new a b = conn_id_new c d \<longleftrightarrow> (a = c \<and> b = d) \<or> (a = d \<and> b = c)"
  by (auto simp: conn_id_new_def)

lemma conn_id_new_commute: "conn_id_new a b = conn_id_new b a"
  by (simp add: conn_id_new_eq)

text \<open>
  Both directions of a flow have the same connection identifier, and two flows have the same one
  only if they are between the same two addresses.
\<close>

theorem conn_id_identifies_flow: "conn_id_new a b = conn_id_new c d \<longleftrightarrow> {a, b} = {c, d}"
  by (simp add: conn_id_new_eq doubleton_eq_iff)

section \<open>Progress of the handshake tracking\<close>

lemma packet_end_read:
  assumes "octets_inv b" and "o_buf b = buf" and "0 < o_off b" and "packet_end (length buf) hdr b = (Ok read, b')"
  shows "0 < read \<and> read \<le> length buf"
proof -
  have skip: "reader_contract (try_octets (skip n))" for n
    by (rule try_octets_reader [OF skip.reader_contract_axioms])
  from assms(4) obtain b1 where b1: "try_octets (skip (h_length hdr)) b = (Ok (), b1)"
    and rest: "(if cap b1 > 0 then and_then is_udp_padding (\<lambda>p. if p then ret (length buf) else gets o_off)
      else gets o_off) b1 = (Ok read, b')"
    unfolding packet_end_def by (auto elim!: and_then_OkE simp: gets_def)
  have s: "octets_inv b1" "0 < o_off b1" "o_off b1 \<le> length buf" "o_buf b1 = buf"
    using cursor.step [OF reader_contract.axioms(1) [OF skip] assms(1) b1] reader_contract.keeps_buf [OF skip b1]
      cursor.in_bounds [OF reader_contract.axioms(1) [OF skip] assms(1) b1] assms(2,3) by auto
  show ?thesis
  proof (cases "cap b1 > 0")
    case True
    with rest have "and_then is_udp_padding (\<lambda>p. if p then ret (length buf) else gets o_off) b1 = (Ok read, b')"
      by simp
    then obtain p b2 where p: "is_udp_padding b1 = (Ok p, b2)"
      "(if p then ret (length buf) else gets o_off) b2 = (Ok read :: (error, nat) outcome, b')" by (rule and_then_OkE)
    have "0 < o_off b2" "o_off b2 \<le> length buf"
      using is_udp_padding.forward [OF s(1) p(1)] is_udp_padding.in_bounds [OF s(1) p(1)] s by auto
    with p(2) show ?thesis by (cases p) (auto simp: ret_def gets_def)
  next
    case False
    with rest s show ?thesis by (auto simp: gets_def)
  qed
qed

lemma from_bytes_start:
  "from_bytes n (with_slice buf) = (Ok h, b) \<Longrightarrow> octets_inv b \<and> o_buf b = buf \<and> 0 < o_off b"
  using from_bytes.consumes [OF with_slice_inv] from_bytes.inv [OF with_slice_inv]
    from_bytes.keeps_buf by fastforce

lemma fst_eq_pair: "fst p = x \<Longrightarrow> \<exists>s. p = (x, s)"
  by (cases p) simp

lemma first_quic_packet_read:
  assumes "first_quic_packet ks now src dst buf = Ok (c, read)"
  shows "0 < read \<and> read \<le> length buf \<and> conn_new ks now src dst = Some c"
proof -
  let ?k = "\<lambda>hdr. if h_ty hdr \<noteq> Initial then fail MayNotQUIC
       else and_then (packet_end (length buf) hdr) (\<lambda>read.
         case conn_new ks now src dst of None \<Rightarrow> panic | Some c \<Rightarrow> ret (c, read))"
  obtain s where "and_then (from_bytes 0) ?k (with_slice buf) = (Ok (c, read), s)"
    using fst_eq_pair [OF assms [unfolded first_quic_packet_def]] by blast
  then obtain hdr b where hdr1: "from_bytes 0 (with_slice buf) = (Ok hdr, b)" and k: "?k hdr b = (Ok (c, read), s)"
    by (rule and_then_OkE)
  from k have "and_then (packet_end (length buf) hdr) (\<lambda>read.
         case conn_new ks now src dst of None \<Rightarrow> panic | Some c \<Rightarrow> ret (c, read)) b = (Ok (c, read), s)"
    by (simp add: fail_def split: if_splits)
  then obtain r b' where "packet_end (length buf) hdr b = (Ok r, b')"
    "(case conn_new ks now src dst of None \<Rightarrow> panic | Some c \<Rightarrow> ret (c, r)) b'
       = (Ok (c, read) :: (error, conn \<times> nat) outcome, s)"
    by (rule and_then_OkE)
  then have hdr: "packet_end (length buf) hdr b = (Ok read, b')" "conn_new ks now src dst = Some c"
    by (auto simp: panic_def ret_def split: option.splits)
  with from_bytes_start [OF hdr1] packet_end_read [OF _ _ _ hdr(1)] show ?thesis by auto
qed

lemma process_quic_packet_read:
  assumes "process_quic_packet now buf src c = (Ok read, c')" and "buf \<noteq> []"
  shows "0 < read \<and> read \<le> length buf"
proof (cases "is_handshaked (touch now c)")
  case False
  with assms(1) obtain hdr b where hdr: "from_bytes 0 (with_slice buf) = (Ok hdr, b)"
    "fst (packet_end (length buf) hdr b) = Ok read"
    by (auto simp: process_quic_packet_def Let_def split: prod.splits outcome.splits if_splits)
  obtain b' where "packet_end (length buf) hdr b = (Ok read, b')" using fst_eq_pair [OF hdr(2)] by blast
  from packet_end_read [OF _ _ _ this] from_bytes_start [OF hdr(1)] show ?thesis by simp
qed (use assms in \<open>auto simp: process_quic_packet_def Let_def\<close>)

text \<open>
  Every packet of a datagram that is accepted, by a new or by a known connection, is at least one
  byte and at most the rest of the datagram, so that the loop over coalesced packets makes progress and
  its \<open>left -= read\<close> never underflows.
\<close>

theorem coalesced_packet_progress:
  "(\<forall>ks now src dst buf c read. first_quic_packet ks now src dst buf = Ok (c, read) \<longrightarrow>
      0 < read \<and> read \<le> length buf) \<and>
   (\<forall>now buf src c c' read. process_quic_packet now buf src c = (Ok read, c') \<longrightarrow> buf \<noteq> [] \<longrightarrow>
      0 < read \<and> read \<le> length buf)"
  using first_quic_packet_read process_quic_packet_read by blast

theorem coalesced_packet_progress_witness:
  "\<exists>c read. first_quic_packet (0, 0, 0, 0) 0 (V4 1 2) (V4 3 4) [0xC3, 0, 0, 0, 1, 2, 7, 8, 0, 0, 3, 1, 2, 3] = Ok (c, read) \<and>
     0 < read \<and> read \<le> 14"
proof -
  let ?buf = "[0xC3, 0, 0, 0, 1, 2, 7, 8, 0, 0, 3, 1, 2, 3] :: bytes"
  have "from_bytes 0 (with_slice ?buf) =
    (Ok \<lparr>h_ty = Initial, h_spin = False, h_version = 1, h_dcid = CidVec [7, 8], h_scid = CidVec [], h_length = 3\<rparr>,
     \<lparr>o_buf = ?buf, o_off = 11\<rparr>)" by code_simp
  then have "first_quic_packet (0, 0, 0, 0) 0 (V4 1 2) (V4 3 4) ?buf = Ok (the (conn_new (0, 0, 0, 0) 0 (V4 1 2) (V4 3 4)), 14)"
    by (simp add: first_quic_packet_def packet_end_def try_octets_def map_err_def skip_def cap_def and_then_def
        gets_def ret_def conn_new_def from_std_addr_def to_nix_addr_def)
  with coalesced_packet_progress show ?thesis by fastforce
qed

section \<open>Held-back ACKs\<close>

definition ack_datagram :: "conn \<Rightarrow> delayed_ack \<Rightarrow> datagram" where
  "ack_datagram c ack = \<lparr>dg_src = nix_addr (client_addr c), dg_dst = nix_addr (server_addr c),
     dg_payload = ack_payload ack\<rparr>"

lemma send_acks_eq: "send_acks c acks wire = wire @ map (ack_datagram c) acks"
  by (induction acks arbitrary: wire) (simp_all add: send_ack_def ack_datagram_def)

definition acks_ok :: "conn \<Rightarrow> bool" where
  "acks_ok c \<longleftrightarrow> (overspeed c \<longrightarrow> overspeed_begin c \<noteq> None) \<and>
     (\<forall>ack \<in> set (delayed_ack_queue c). ack_e2e_rtt ack \<le> 2 * SANE)"

lemma delay_exceeded_ok:
  assumes "acks_ok c" and "overspeed c" and "ack \<in> set (delayed_ack_queue c)"
  shows "\<exists>due. delay_exceeded now ack c = Some due \<and> (6 < length (delayed_ack_queue c) \<longrightarrow> due)"
proof -
  from assms(1,2) obtain t where t: "overspeed_begin c = Some t" by (auto simp: acks_ok_def)
  have "ack_e2e_rtt ack \<le> from_secs (2 ^ 33)"
    using assms(1,3) by (auto simp: acks_ok_def SANE_def from_secs_def)
  from mul_f64_pow2 [OF this, of "9 / 8" 1] mul_f64_pow2 [OF this, of "5 / 4" 1] obtain r1 r2 where
    "mul_f64 (ack_e2e_rtt ack) (Fin (9 / 8)) = Some r1" "mul_f64 (ack_e2e_rtt ack) (Fin (5 / 4)) = Some r2" by auto
  then show ?thesis
    by (auto simp: delay_exceeded_def t Let_def DELAY_kTimeThreshold_def DELAY_kPacketThreshold_def)
qed

lemma check_delayed_acks_cases:
  assumes "acks_ok c"
  defines "q \<equiv> delayed_ack_queue c"
  shows "check_delayed_acks now wire c = Some (wire, c) \<and> (q = [] \<or> overspeed c \<and> length q \<le> 6) \<or>
    check_delayed_acks now wire c = Some
      (wire @ map (ack_datagram c) (if overspeed c then last q # butlast q else q), c\<lparr>delayed_ack_queue := []\<rparr>) \<and>
    (overspeed c \<longrightarrow> 2 \<le> length q)"
proof (cases "q = [] \<or> \<not> overspeed c \<or> length q < 2")
  case True
  then show ?thesis by (auto simp: check_delayed_acks_def Let_def q_def [symmetric] send_acks_eq)
next
  case False
  then have "hd q \<in> set q" by simp
  with delay_exceeded_ok [OF assms(1), of "hd q" now] False obtain due where
    "delay_exceeded now (hd q) c = Some due" "6 < length q \<longrightarrow> due" by (auto simp: q_def)
  with False show ?thesis
    by (auto simp: check_delayed_acks_def Let_def q_def [symmetric] send_acks_eq send_ack_def ack_datagram_def)
qed

lemma mset_tail_first: "q \<noteq> [] \<Longrightarrow> mset (last q # butlast q) = mset q"
  by (metis append_butlast_last_id mset.simps(2) mset_append union_mset_add_mset_right add.right_neutral mset.simps(1))

text \<open>
  C14. Holding back ACKs neither loses, alters nor repeats one: a check panics never, and what it puts on
  the wire together with what stays queued is exactly what was queued. It sends either nothing or
  everything; in order when the sender is no longer too fast, and otherwise the newest ACK first and the
  others in order behind it. At most six ACKs stay held back.
\<close>

theorem check_delayed_acks_conserves:
  assumes "acks_ok c"
  shows "\<exists>out c'. check_delayed_acks now wire c = Some (wire @ map (ack_datagram c) out, c') \<and>
    mset (delayed_ack_queue c) = mset out + mset (delayed_ack_queue c') \<and>
    c' = c\<lparr>delayed_ack_queue := delayed_ack_queue c'\<rparr> \<and> length (delayed_ack_queue c') \<le> 6 \<and>
    (out = [] \<or> out = (if overspeed c then last (delayed_ack_queue c) # butlast (delayed_ack_queue c)
                     else delayed_ack_queue c)) \<and>
    (\<not> overspeed c \<longrightarrow> delayed_ack_queue c' = [])"
  using check_delayed_acks_cases [OF assms, of now wire] mset_tail_first [of "delayed_ack_queue c"]
  by fastforce

text \<open>A connection from \<open>0.0.0.1:2\<close> to \<open>0.0.0.3:4\<close>, for examples.\<close>

definition sample_conn :: conn where
  "sample_conn = the (conn_new (0, 0, 0, 0) 0 (V4 1 2) (V4 3 4))"

lemma conn_new_simp:
  "conn_new (k1, k2, k3, k4) now (V4 i p) (V4 j r) = Some
     \<lparr>c_state = Initialed, last_access = now, begin_time = now,
       client_addr = \<lparr>std_addr = V4 i p, nix_addr = \<lparr>sin_addr = i, sin_port = p\<rparr>\<rparr>,
       server_addr = \<lparr>std_addr = V4 j r, nix_addr = \<lparr>sin_addr = j, sin_port = r\<rparr>\<rparr>,
       client_rtt = 0, server_rtt = 0,
       to_server_queue = queue_new k1, to_server_pkt_num = 0, to_client_queue = queue_new k2,
       min_pkt_size = USIZE_MAX, dominant_direction = NoDirection, last_dominant_check = now,
       server_bytes = 0, client_bytes = 0,
       conn_cc = copa_new k3 k4 now, overspeed = False, overspeed_begin = None,
       delayed_ack_queue = [], last_rtt_calibration = now\<rparr>"
  by (simp add: conn_new_def from_std_addr_def to_nix_addr_def from_secs_def)

theorem check_delayed_acks_conserves_witness:
  "\<exists>out c'. check_delayed_acks 50 [] (sample_conn\<lparr>overspeed := True, overspeed_begin := Some 0,
       delayed_ack_queue := [\<lparr>ack_forward_ts = 1, ack_payload = [1], ack_e2e_rtt = 5\<rparr>,
         \<lparr>ack_forward_ts = 2, ack_payload = [2], ack_e2e_rtt = 5\<rparr>]\<rparr>) = Some (out, c') \<and>
     length (delayed_ack_queue c') \<le> 6"
proof -
  let ?c = "sample_conn\<lparr>overspeed := True, overspeed_begin := Some 0,
       delayed_ack_queue := [\<lparr>ack_forward_ts = 1, ack_payload = [1], ack_e2e_rtt = 5\<rparr>,
         \<lparr>ack_forward_ts = 2, ack_payload = [2], ack_e2e_rtt = 5\<rparr>]\<rparr>"
  have "acks_ok ?c" by (simp add: acks_ok_def SANE_eq)
  from check_delayed_acks_conserves [OF this, of 50 "[]"] show ?thesis by auto
qed

section \<open>The invariant of a connection\<close>

definition conn_ok :: "instant \<Rightarrow> conn \<Rightarrow> bool" where
  "conn_ok now c \<longleftrightarrow> addr_ok (client_addr c) \<and> addr_ok (server_addr c) \<and>
     client_rtt c \<le> SANE \<and> server_rtt c \<le> SANE \<and>
     pq_ok (to_server_queue c) \<and> pq_ok (to_client_queue c) \<and> acks_ok c \<and>
     filter_ready now (rtt_min_filter (conn_cc c)) \<and> filter_ready now (rtt_standing_filter (conn_cc c))"

lemma conn_ok_later: "conn_ok now c \<Longrightarrow> now \<le> now' \<Longrightarrow> conn_ok now' c"
  by (auto simp: conn_ok_def intro: filter_ready_later)

text \<open>The contract of the operations, for a reading \<open>now\<close> of the clock.\<close>

locale conn_op =
  fixes op :: "conn \<Rightarrow> ('r \<times> conn) option" and now :: instant and pre :: "conn \<Rightarrow> bool"
  assumes keeps: "conn_ok now c \<Longrightarrow> pre c \<Longrightarrow> op c = Some (r, c') \<Longrightarrow> conn_ok now c'"
begin

lemma keeps_later: "conn_ok t c \<Longrightarrow> t \<le> now \<Longrightarrow> pre c \<Longrightarrow> op c = Some (r, c') \<Longrightarrow> conn_ok now c'"
  using keeps conn_ok_later by blast

end

lemma conn_new_ok:
  assumes "conn_new (k1, k2, k3, k4) now src dst = Some c" and "sane_clock k1" and "sane_clock k2"
  shows "conn_ok now c"
  using assms queue_new_ok
  by (auto simp: conn_new_def bind_eq_Some_conv conn_ok_def acks_ok_def addr_ok_def from_std_addr_eq from_secs_def
      copa_new_def filter_ready_new)

lemma queue_set_factors_ok: "pq_ok q \<Longrightarrow> sane_factor a \<Longrightarrow> sane_factor b \<Longrightarrow> pq_ok (queue_set_factors a b q)"
  by (simp add: queue_set_factors_def pq_ok_def pq_inv_def pq_sane_def retired_def)

lemma conn_set_factors_ok: "conn_ok now c \<Longrightarrow> sane_factor a \<Longrightarrow> sane_factor b \<Longrightarrow> conn_ok now (conn_set_factors a b c)"
  by (simp add: conn_set_factors_def conn_ok_def acks_ok_def queue_set_factors_ok)

lemma process_quic_packet_ok: "conn_ok now c \<Longrightarrow> process_quic_packet now buf src c = (r, c') \<Longrightarrow> conn_ok now c'"
  by (auto simp: process_quic_packet_def Let_def touch_def set_handshaked_def conn_ok_def acks_ok_def
      split: if_splits prod.splits outcome.splits)

lemma measure_dominant_direction_ok:
  assumes "conn_ok now c"
  shows "\<exists>c'. measure_dominant_direction ts fc n c = Some c' \<and> conn_ok now c' \<and>
    client_rtt c' = client_rtt c \<and> server_rtt c' = server_rtt c \<and> client_addr c' = client_addr c \<and>
    to_server_queue c' = to_server_queue c \<and> to_client_queue c' = to_client_queue c \<and> conn_cc c' = conn_cc c"
proof -
  have "client_rtt c + server_rtt c \<le> DURATION_MAX" using assms by (simp add: conn_ok_def SANE_eq DURATION_MAX_def)
  with assms show ?thesis
    by (auto simp: measure_dominant_direction_def count_packet_def Let_def dur_add_def conn_ok_def acks_ok_def)
qed

lemma on_ack_send_filters:
  assumes "on_ack_send rtt now cc = Some cc'" and "rtt \<le> SANE"
    and "filter_ready now (rtt_min_filter cc)" and "filter_ready now (rtt_standing_filter cc)"
  shows "filter_ready now (rtt_min_filter cc') \<and> filter_ready now (rtt_standing_filter cc')"
proof -
  have "rtt \<le> from_secs (2 ^ 60)" using assms(2) by (simp add: SANE_eq from_secs_def)
  from filters_on_ack_ready [OF assms(3,4) this] assms(1) show ?thesis
    by (auto simp: on_ack_send_def bind_eq_Some_conv Let_def)
qed

lemma update_client_rtt_eq:
  assumes "client_rtt c \<le> SANE" and "value \<le> SANE"
  shows "\<exists>rtt \<le> SANE. update_client_rtt value now c
    = map_option (\<lambda>cc'. c\<lparr>client_rtt := rtt, conn_cc := cc'\<rparr>) (on_ack_send rtt now (conn_cc c))"
proof (cases "client_rtt c = 0")
  case True
  with assms(2) show ?thesis
    by (intro exI [of _ "value"]) (simp add: update_client_rtt_def map_conv_bind_option comp_def)
next
  case False
  from smoothing_sane [OF assms] obtain x y z where "mul_f64 (client_rtt c) (Fin (7 / 8)) = Some x"
    "mul_f64 value (Fin (1 / 8)) = Some y" "dur_add x y = Some z" "z \<le> SANE" by blast
  with False show ?thesis
    by (intro exI [of _ z]) (simp add: update_client_rtt_def RTT_SMOOTHING_FACTOR_def map_conv_bind_option comp_def)
qed

lemma update_client_rtt_ok:
  assumes "conn_ok now c" and "value \<le> SANE" and "update_client_rtt value now c = Some c'"
  shows "conn_ok now c'"
proof -
  have "client_rtt c \<le> SANE" using assms(1) by (simp add: conn_ok_def)
  from update_client_rtt_eq [OF this assms(2), of now] obtain rtt where u: "rtt \<le> SANE"
    and e: "update_client_rtt value now c
      = map_option (\<lambda>cc'. c\<lparr>client_rtt := rtt, conn_cc := cc'\<rparr>) (on_ack_send rtt now (conn_cc c))" by blast
  from assms(3) obtain cc' where
    "on_ack_send rtt now (conn_cc c) = Some cc'" "c' = c\<lparr>client_rtt := rtt, conn_cc := cc'\<rparr>" unfolding e by auto
  with on_ack_send_filters [OF _ u] u assms(1) show ?thesis by (auto simp: conn_ok_def acks_ok_def)
qed

lemma update_client_rtts_ok:
  assumes "update_client_rtts samples now c = Some c'" and "conn_ok now c" and "\<forall>s \<in> set samples. s \<le> SANE"
  shows "conn_ok now c'"
  using assms unfolding update_client_rtts_def
  by (rule_tac foldO_invariant [where P = "conn_ok now"]) (auto intro: update_client_rtt_ok)

lemma oldest_ts_sane: "pq_ok q \<Longrightarrow> oldest_ts q = Some t \<Longrightarrow> sane_clock t"
  by (auto simp: oldest_ts_def pq_ok_def pq_sane_def split: if_splits)

lemma initial_rtt_ok:
  assumes "conn_ok now c" and "sane_clock now" and "initial_rtt now src c = Some c'"
  shows "conn_ok now c'"
proof -
  have d: "duration_since now t \<le> SANE" if "sane_clock t" for t using sane_duration_since assms(2) that by blast
  from assms(1) have "pq_ok (to_client_queue c)" "pq_ok (to_server_queue c)" by (simp_all add: conn_ok_def)
  with assms(1,3) d oldest_ts_sane show ?thesis
    by (auto simp: initial_rtt_def bind_eq_Some_conv update_server_rtt_def split: if_splits
        intro: update_client_rtt_ok) (auto simp: conn_ok_def acks_ok_def)
qed

lemma queue_add_keeps: "pq_ok q \<Longrightarrow> sane_clock ts \<Longrightarrow> queue_add ts payload rtt q = Some (r, q') \<Longrightarrow> pq_ok q'"
  by (cases r) (blast dest: queue_add_retired)

lemma record_for_server_rtt_ok:
  "conn_ok now c \<Longrightarrow> sane_clock now \<Longrightarrow> record_for_server_rtt now buf c = Some c' \<Longrightarrow> conn_ok now c'"
  by (auto simp: record_for_server_rtt_def bind_eq_Some_conv conn_ok_def acks_ok_def
      split: if_splits dest: queue_add_keeps)

lemma reply_from_client_ok:
  assumes ok: "conn_ok now c" and now: "sane_clock now" and eq: "reply_from_client now c = Some c'"
  shows "conn_ok now c'"
proof -
  let ?n = "to_server_pkt_num c + 1"
  have "pq_ok (to_client_queue c)" "client_rtt c \<le> SANE" using ok by (simp_all add: conn_ok_def)
  from check_reply_ok [OF this(1) now this(2), of ?n] obtain r q where
    q: "check_reply now ?n (client_rtt c) (to_client_queue c) = Some (r, q)" "pq_ok q"
      "\<forall>s. r = Some s \<longrightarrow> (\<forall>d \<in> set s. d \<le> SANE)" by blast
  have "conn_ok now (c\<lparr>to_server_pkt_num := ?n, to_client_queue := q\<rparr>)"
    using ok q(2) by (simp add: conn_ok_def acks_ok_def)
  with eq q show ?thesis
    by (auto simp: reply_from_client_def Let_def split: option.splits intro: update_client_rtts_ok)
qed

lemma client_packet_ok:
  "conn_ok now c \<Longrightarrow> sane_clock now \<Longrightarrow> client_packet now buf c = Some c' \<Longrightarrow> conn_ok now c'"
  by (auto simp: client_packet_def bind_eq_Some_conv intro: record_for_server_rtt_ok reply_from_client_ok)

text \<open>Packets of the server.\<close>

lemma used_on_data_send_total:
  assumes "sane_clock now" and "rtt \<le> SANE"
  shows "\<exists>n w'. used_on_data_send rtt now w = Some (n, w')"
proof -
  have "instant_sub now rtt = Some (now - int rtt)"
    using assms by (simp add: instant_sub_def sane_clock_iff INSTANT_LIMIT_def SANE_eq)
  moreover have "expire (now - int rtt) (packet_record w @ [now]) = Some (dropWhile (\<lambda>t. t < now - int rtt) (packet_record w @ [now]))"
    by (rule expire_dropWhile) auto
  ultimately show ?thesis by (simp add: used_on_data_send_def)
qed

lemma rate_check_ok:
  assumes ok: "conn_ok now c" and now: "sane_clock now"
  shows "\<exists>c'. rate_check now c = Some c' \<and> conn_ok now c' \<and> to_client_queue c' = to_client_queue c \<and>
    client_rtt c' = client_rtt c"
proof (cases "client_rtt c = 0")
  case False
  have rtt: "client_rtt c \<le> SANE" "client_rtt c \<le> DURATION_MAX"
    using ok by (simp_all add: conn_ok_def SANE_eq DURATION_MAX_def)
  obtain n w where "used_on_data_send (client_rtt c) now (cwnd_used (conn_cc c)) = Some (n, w)"
    using used_on_data_send_total [OF now rtt(1)] by blast
  moreover have "MIN_RTT_WINDOW \<le> from_secs (2 ^ 60)" by (simp add: MIN_RTT_WINDOW_def from_secs_def)
  moreover from running_min_ready [OF _ this rtt(2), of now "rtt_min_filter (conn_cc c)"] ok obtain r f where
    "running_min MIN_RTT_WINDOW now (client_rtt c) (rtt_min_filter (conn_cc c)) = Some (r, f)" "filter_ready now f"
    by (auto simp: conn_ok_def)
  ultimately show ?thesis using False ok
    by (auto simp: rate_check_def on_data_send_def Let_def conn_ok_def acks_ok_def)
qed (use ok in \<open>simp add: rate_check_def\<close>)

lemma server_packet_ok:
  assumes "conn_ok now c" and "sane_clock now" and "server_packet now buf c = Some (nf, c')"
  shows "conn_ok now c'"
proof -
  from rate_check_ok [OF assms(1,2)] assms(3) obtain c1 r q where
    "conn_ok now c1" "queue_add now (Some buf) (client_rtt c1) (to_client_queue c1) = Some (r, q)"
    "c' = c1\<lparr>to_client_queue := q\<rparr>"
    by (auto simp: server_packet_def bind_eq_Some_conv)
  with queue_add_keeps [OF _ assms(2), of "to_client_queue c1" "Some buf" "client_rtt c1" r q] show ?thesis
    by (auto simp: conn_ok_def acks_ok_def)
qed

lemma check_delayed_acks_ok:
  assumes "conn_ok now c" and "check_delayed_acks t wire c = Some (wire', c')"
  shows "conn_ok now c'"
proof -
  have "acks_ok c" using assms(1) by (simp add: conn_ok_def)
  from check_delayed_acks_cases [OF this, of t wire] assms show ?thesis by (auto simp: conn_ok_def acks_ok_def)
qed

lemma process_udp_packet_ok:
  assumes ok: "conn_ok now c" and now: "sane_clock now"
    and eq: "process_udp_packet now src buf wire c = Some (nf, wire', c')"
  shows "conn_ok now c'"
proof -
  from eq obtain c1 c2 c3 where c1: "initial_rtt now src c = Some c1"
    and c2: "measure_dominant_direction now (is_from_client src c) (length buf) c1 = Some c2"
    and c3: "client_packet now buf c2 = Some c3 \<or> server_packet now buf c2 = Some (nf, c3)"
    and c4: "check_delayed_acks now wire c3 = Some (wire', c')"
    by (auto simp: process_udp_packet_def bind_eq_Some_conv split: if_splits)
  have "conn_ok now c2"
    using measure_dominant_direction_ok [OF initial_rtt_ok [OF ok now c1], of now "is_from_client src c" "length buf"] c2 by auto
  with c3 client_packet_ok [OF _ now] server_packet_ok [OF _ now] have "conn_ok now c3" by blast
  with c4 show ?thesis by (rule check_delayed_acks_ok [rotated])
qed

lemma add_delayed_ack_ok:
  assumes "conn_ok now c" and "add_delayed_ack t payload wire c = Some (wire', c')"
  shows "conn_ok now c'"
proof -
  from assms(2) obtain e where e: "dur_add (client_rtt c) (server_rtt c) = Some e"
    and chk: "check_delayed_acks t wire (c\<lparr>delayed_ack_queue := delayed_ack_queue c @
       [\<lparr>ack_forward_ts = t, ack_payload = payload, ack_e2e_rtt = e\<rparr>]\<rparr>) = Some (wire', c')"
    by (auto simp: add_delayed_ack_def bind_eq_Some_conv)
  have "e \<le> 2 * SANE" using e assms(1) by (auto simp: dur_add_eq_Some conn_ok_def)
  with assms(1) have "conn_ok now (c\<lparr>delayed_ack_queue := delayed_ack_queue c @
       [\<lparr>ack_forward_ts = t, ack_payload = payload, ack_e2e_rtt = e\<rparr>]\<rparr>)"
    by (auto simp: conn_ok_def acks_ok_def)
  with chk show ?thesis by (rule check_delayed_acks_ok [rotated])
qed

lemma record_retrans_ok:
  "conn_ok now c \<Longrightarrow> sane_clock t \<Longrightarrow> conn_record_retrans_packet t src c = Some c' \<Longrightarrow> conn_ok now c'"
  by (auto simp: conn_record_retrans_packet_def bind_eq_Some_conv conn_ok_def acks_ok_def
      split: if_splits dest: queue_add_keeps)

lemma conn_on_timeout_ok:
  assumes "conn_ok now c" and "conn_on_timeout now c = Some c'"
  shows "conn_ok now c'"
proof -
  have "pq_ok (to_client_queue c)" "client_rtt c \<le> SANE" using assms(1) by (simp_all add: conn_ok_def)
  from queue_on_timeout_ok [OF this, of now] obtain s q where
    q: "queue_on_timeout now (client_rtt c) (to_client_queue c) = Some (s, q)" "pq_ok q" "\<forall>d \<in> set s. d \<le> SANE" by blast
  with assms have "update_client_rtts s now (c\<lparr>to_client_queue := q\<rparr>) = Some c'" "conn_ok now (c\<lparr>to_client_queue := q\<rparr>)"
    by (simp_all add: conn_on_timeout_def conn_ok_def acks_ok_def)
  from update_client_rtts_ok [OF this q(3)] show ?thesis .
qed

lemma to_client_retrans_task_eq:
  "to_client_retrans_task c = Some
     (if detected_loss (to_client_queue c) = [] \<or> dominant_direction c \<noteq> ToClient \<or> overspeed c then None
      else Some \<lparr>task_src = std_addr (server_addr c), task_dst = std_addr (client_addr c),
             retrans_queue = detected_loss (to_client_queue c)\<rparr>,
      c\<lparr>to_client_queue := (to_client_queue c)\<lparr>detected_loss := []\<rparr>\<rparr>)"
  by (simp add: to_client_retrans_task_def task_from_queue_eq)

lemma retrans_task_ok: "conn_ok now c \<Longrightarrow> to_client_retrans_task c = Some (t, c') \<Longrightarrow> conn_ok now c'"
  by (auto simp: to_client_retrans_task_eq conn_ok_def acks_ok_def task_from_queue_ok)

lemma flowlet_slack_ok:
  assumes "pq_ok q"
  shows "\<exists>t e. flowlet_timeout q = Some t \<and> mul_f64 t (flowlet_end_factor q) = Some e"
proof -
  have sane: "pq_sane q" using assms by (simp add: pq_ok_def)
  obtain t where t: "flowlet_timeout q = Some t" "t \<le> from_secs (2 ^ 42)" using flowlet_timeout_ok [OF sane] by blast
  obtain a where "flowlet_end_factor q = Fin a" "0 \<le> a" "a \<le> 2 ^ 10"
    using sane by (auto simp: pq_sane_def sane_factor_def)
  with mul_f64_pow2 [OF t(2), of a 10] t(1) show ?thesis by auto
qed

text \<open>
  The calibration: nothing before one end-to-end RTT has passed; otherwise the client RTT is kept when
  the sample differs from it by at most the slack of a flowlet, and replaced by the sample otherwise.
\<close>

lemma rtt_calibration_cases:
  assumes ok: "conn_ok now c" and sample: "sample \<le> SANE"
  shows "\<exists>t e c'. flowlet_timeout (to_client_queue c) = Some t \<and> mul_f64 t (flowlet_end_factor (to_client_queue c)) = Some e \<and>
    conn_rtt_calibration now_ts ks sample c = Some c' \<and> conn_ok now c' \<and>
    (if duration_since now_ts (last_rtt_calibration c) < sample + server_rtt c then c' = c
     else if \<bar>int sample - int (client_rtt c)\<bar> \<le> int e then c' = c\<lparr>last_rtt_calibration := now_ts\<rparr>
     else client_rtt c' = sample \<and> last_rtt_calibration c' = now_ts \<and>
       flowlets (to_client_queue c') = dropWhile (\<lambda>fl. reply_pkt_times fl \<noteq> []) (flowlets (to_client_queue c)) \<and>
       detected_loss (to_client_queue c') = detected_loss (to_client_queue c))"
proof -
  have okq: "pq_ok (to_client_queue c)" using ok by (simp add: conn_ok_def)
  from flowlet_slack_ok [OF okq] obtain t e where te: "flowlet_timeout (to_client_queue c) = Some t"
    "mul_f64 t (flowlet_end_factor (to_client_queue c)) = Some e" by blast
  from reset_ok [OF okq] obtain q where q: "reset_due_to_rtt_deviation (to_client_queue c) = Some q" "pq_ok q"
    "flowlets q = dropWhile (\<lambda>fl. reply_pkt_times fl \<noteq> []) (flowlets (to_client_queue c))"
    "detected_loss q = detected_loss (to_client_queue c)" by blast
  have period: "dur_add sample (server_rtt c) = Some (sample + server_rtt c)"
    using ok sample by (simp add: dur_add_def conn_ok_def SANE_eq DURATION_MAX_def)
  have err: "(if sample \<ge> client_rtt c then dur_sub sample (client_rtt c) else dur_sub (client_rtt c) sample)
    = Some (nat \<bar>int sample - int (client_rtt c)\<bar>)" by (auto simp: dur_sub_def)
  consider (early) "duration_since now_ts (last_rtt_calibration c) < sample + server_rtt c"
    | (close) "\<not> duration_since now_ts (last_rtt_calibration c) < sample + server_rtt c" "\<bar>int sample - int (client_rtt c)\<bar> \<le> int e"
    | (far) "\<not> duration_since now_ts (last_rtt_calibration c) < sample + server_rtt c" "\<not> \<bar>int sample - int (client_rtt c)\<bar> \<le> int e"
    by blast
  then show ?thesis
  proof cases
    case early
    with ok te show ?thesis by (auto simp: conn_rtt_calibration_def period)
  next
    case close
    with ok te err show ?thesis
      by (auto simp: conn_rtt_calibration_def period Let_def conn_ok_def acks_ok_def nat_le_iff)
  next
    case far
    with ok te q err sample show ?thesis
      by (auto simp: conn_rtt_calibration_def period Let_def conn_ok_def acks_ok_def nat_le_iff not_le zless_nat_eq_int_zless
          reset_rtt_filters_def filter_ready_new)
  qed
qed

section \<open>The operations keep the invariant\<close>

interpretation c_udp: conn_op "\<lambda>c. map_option (\<lambda>(nf, w, c'). ((nf, w), c')) (process_udp_packet now src buf wire c)"
    now "\<lambda>_. sane_clock now" for now src buf wire
  by unfold_locales (auto dest: process_udp_packet_ok)

interpretation c_ack: conn_op "add_delayed_ack t payload wire" now "\<lambda>_. True" for t payload wire now
  by unfold_locales (rule add_delayed_ack_ok)

interpretation c_calibration: conn_op "\<lambda>c. map_option (Pair ()) (conn_rtt_calibration t ks sample c)" now
    "\<lambda>_. sample \<le> SANE" for t ks sample now
proof
  fix c r c'
  assume "conn_ok now c" "sample \<le> SANE" "map_option (Pair ()) (conn_rtt_calibration t ks sample c) = Some (r, c')"
  with rtt_calibration_cases [of now c sample t ks] show "conn_ok now c'" by auto
qed

interpretation c_retrans: conn_op "\<lambda>c. map_option (Pair ()) (conn_record_retrans_packet t src c)" now
    "\<lambda>_. sane_clock t" for t src now
  by unfold_locales (auto intro: record_retrans_ok)

interpretation c_timeout: conn_op "\<lambda>c. map_option (Pair ()) (conn_on_timeout now c)" now "\<lambda>_. True" for now
  by unfold_locales (auto intro: conn_on_timeout_ok)

interpretation c_task: conn_op to_client_retrans_task now "\<lambda>_. True" for now
  by unfold_locales (rule retrans_task_ok)

text \<open>A connection in use: its operations in any order, on a clock that does not go back.\<close>

inductive conn_run :: "instant \<Rightarrow> conn \<Rightarrow> bool" where
  start: "conn_new (k1, k2, k3, k4) now src dst = Some c \<Longrightarrow> sane_clock k1 \<Longrightarrow> sane_clock k2 \<Longrightarrow>
     sane_factor a \<Longrightarrow> sane_factor b \<Longrightarrow> conn_run now (conn_set_factors a b c)"
| quic: "conn_run t c \<Longrightarrow> t \<le> now \<Longrightarrow> process_quic_packet now buf src c = (r, c') \<Longrightarrow> conn_run now c'"
| udp: "conn_run t c \<Longrightarrow> t \<le> now \<Longrightarrow> sane_clock now \<Longrightarrow>
     process_udp_packet now src buf wire c = Some (nf, wire', c') \<Longrightarrow> conn_run now c'"
| ack: "conn_run t c \<Longrightarrow> t \<le> now \<Longrightarrow> add_delayed_ack now payload wire c = Some (wire', c') \<Longrightarrow> conn_run now c'"
| calibrate: "conn_run t c \<Longrightarrow> t \<le> now \<Longrightarrow> sample \<le> SANE \<Longrightarrow>
     conn_rtt_calibration now ks sample c = Some c' \<Longrightarrow> conn_run now c'"
| retransmit: "conn_run t c \<Longrightarrow> t \<le> now \<Longrightarrow> sane_clock now \<Longrightarrow>
     conn_record_retrans_packet now src c = Some c' \<Longrightarrow> conn_run now c'"
| timeout: "conn_run t c \<Longrightarrow> t \<le> now \<Longrightarrow> conn_on_timeout now c = Some c' \<Longrightarrow> conn_run now c'"
| task: "conn_run t c \<Longrightarrow> to_client_retrans_task c = Some (k, c') \<Longrightarrow> conn_run t c'"

lemma conn_run_inv: "conn_run now c \<Longrightarrow> conn_ok now c"
proof (induction rule: conn_run.induct)
  case (start k1 k2 k3 k4 now src dst c a b)
  then show ?case by (blast intro: conn_set_factors_ok conn_new_ok)
next
  case (quic t c now buf src r c')
  then show ?case by (blast intro: process_quic_packet_ok conn_ok_later)
next
  case (udp t c now src buf wire nf wire' c')
  then show ?case by (blast intro: process_udp_packet_ok conn_ok_later)
next
  case (ack t c now payload wire wire' c')
  then show ?case using c_ack.keeps_later by blast
next
  case (calibrate t c now sample ks c')
  then show ?case using c_calibration.keeps_later [of t c now sample now ks "()" c'] by simp
next
  case (retransmit t c now src c')
  then show ?case using c_retrans.keeps_later [of t c now now src "()" c'] by simp
next
  case (timeout t c now c')
  then show ?case using c_timeout.keeps_later [of t c now "()" c'] by simp
next
  case (task t c k c')
  then show ?case using c_task.keeps by blast
qed

text \<open>
  C21. Whatever happens to a connection, in whatever order, its invariant holds: both packet queues are
  sound, the RTTs stay within the clock's range, the filters of the controller are ready for the next
  sample, the two forms of each address agree, and while the sender is too fast the beginning of that
  period is known, so that the \<open>unwrap\<close> of the ACK delay never fails.
\<close>

theorem conn_run_ok:
  assumes "conn_run now c"
  shows "conn_ok now c \<and> (overspeed c \<longrightarrow> overspeed_begin c \<noteq> None)"
  using conn_run_inv [OF assms] by (simp add: conn_ok_def acks_ok_def)

theorem conn_run_ok_witness: "conn_ok 0 (conn_set_factors (Fin 2) (Fin 2) sample_conn)"
proof -
  have "conn_new (0, 0, 0, 0) 0 (V4 1 2) (V4 3 4) = Some sample_conn" by (simp add: sample_conn_def conn_new_simp)
  then have "conn_run 0 (conn_set_factors (Fin 2) (Fin 2) sample_conn)"
    by (rule conn_run.start) (simp_all add: sane_clock_iff sane_factor_def)
  from conn_run_ok [OF this] show ?thesis by simp
qed

lemma process_server_packet:
  assumes ok: "conn_ok now c" and now: "sane_clock now" and src: "\<not> is_from_client src c"
    and known: "server_rtt c \<noteq> 0 \<or> packets (to_server_queue c) \<noteq> []"
    and room: "length (packets (to_client_queue c)) \<le> 1000"
  shows "\<exists>nf wire' c'. process_udp_packet now src buf wire c = Some (nf, wire', c') \<and> conn_ok now c' \<and>
    packets (to_client_queue c') = packets (to_client_queue c) @
      [new_packet (processed (to_client_queue c) + 1) now (Some buf)] \<and>
    to_server_queue c' = to_server_queue c \<and> client_rtt c' = client_rtt c"
proof -
  obtain c1 where c1: "initial_rtt now src c = Some c1" "client_addr c1 = client_addr c"
    "to_client_queue c1 = to_client_queue c" "to_server_queue c1 = to_server_queue c" "client_rtt c1 = client_rtt c"
    using src known that by (cases "server_rtt c = 0") (auto simp: initial_rtt_def oldest_ts_def update_server_rtt_def)
  note ok1 = initial_rtt_ok [OF ok now c1(1)]
  from measure_dominant_direction_ok [OF ok1, of now False "length buf"] obtain c2 where
    c2: "measure_dominant_direction now False (length buf) c1 = Some c2" "conn_ok now c2"
    "client_addr c2 = client_addr c1" "to_client_queue c2 = to_client_queue c1" "to_server_queue c2 = to_server_queue c1"
    "client_rtt c2 = client_rtt c1" by blast
  from rate_check_ok [OF c2(2) now] obtain c3 where
    c3: "rate_check now c2 = Some c3" "conn_ok now c3" "to_client_queue c3 = to_client_queue c2" "client_rtt c3 = client_rtt c2" by blast
  have srvq: "to_server_queue c3 = to_server_queue c2"
    using c3(1) by (auto simp: rate_check_def bind_eq_Some_conv split: if_splits)
  have "pq_ok (to_client_queue c3)" using c3 by (simp add: conn_ok_def)
  from queue_add_spec [OF this now, of "Some buf" "client_rtt c3"] room c1 c2 c3 obtain nf q where
    q: "queue_add now (Some buf) (client_rtt c3) (to_client_queue c3) = Some ((processed (to_client_queue c) + 1, nf), q)" "pq_ok q"
    "packets q = packets (to_client_queue c) @ [new_packet (processed (to_client_queue c) + 1) now (Some buf)]" by auto
  let ?c4 = "c3\<lparr>to_client_queue := q\<rparr>"
  have sp: "server_packet now buf c2 = Some (nf, ?c4)" using c3(1) q(1) by (simp add: server_packet_def)
  have ok4: "conn_ok now ?c4" using c3(2) q(2) by (simp add: conn_ok_def acks_ok_def)
  have "\<not> is_from_client src c2" using src c1 c2 by (simp add: is_from_client_def)
  moreover obtain w' c' where chk: "check_delayed_acks now wire ?c4 = Some (w', c')"
    "to_client_queue c' = q" "to_server_queue c' = to_server_queue c3" "client_rtt c' = client_rtt c3"
    using check_delayed_acks_cases [of ?c4 now wire] ok4 by (auto simp: conn_ok_def)
  ultimately have "process_udp_packet now src buf wire c = Some (nf, w', c')"
    using c1 c2 sp src by (simp add: process_udp_packet_def)
  with check_delayed_acks_ok [OF ok4 chk(1)] chk q c1 c2 c3 srvq show ?thesis by auto
qed

text \<open>
  A packet from the server is processed without a panic, whatever it contains, provided a packet of
  the client has been recorded before or the server's RTT is known, and the queue towards the client has
  room; its payload is then queued for a later retransmission, and the queue towards the server and the
  client's RTT are left alone.
\<close>

theorem server_packet_processed:
  assumes "conn_ok now c" and "sane_clock now" and "\<not> is_from_client src c"
    and "server_rtt c \<noteq> 0 \<or> packets (to_server_queue c) \<noteq> []" and "length (packets (to_client_queue c)) \<le> 1000"
  shows "\<exists>nf wire' c'. process_udp_packet now src buf wire c = Some (nf, wire', c') \<and> conn_ok now c' \<and>
    packets (to_client_queue c') = packets (to_client_queue c) @
      [new_packet (processed (to_client_queue c) + 1) now (Some buf)] \<and>
    to_server_queue c' = to_server_queue c \<and> client_rtt c' = client_rtt c"
  by (rule process_server_packet [OF assms])

lemma sample_conn_ok: "conn_ok 0 sample_conn"
  by (rule conn_new_ok [of 0 0 0 0 0 "V4 1 2" "V4 3 4"]) (simp_all add: sample_conn_def conn_new_simp sane_clock_iff)

theorem server_packet_processed_witness:
  "process_udp_packet 9 (V4 3 4) [1, 2, 3] [] (sample_conn\<lparr>server_rtt := 1000\<rparr>) \<noteq> None"
proof -
  have "conn_ok 9 (sample_conn\<lparr>server_rtt := 1000\<rparr>)"
    using conn_ok_later [OF sample_conn_ok, of 9] by (simp add: conn_ok_def acks_ok_def SANE_eq)
  from server_packet_processed [OF this, of "V4 3 4" "[1, 2, 3]" "[]"] show ?thesis
    by (auto simp: sane_clock_iff is_from_client_def sample_conn_def conn_new_simp queue_new_def)
qed

text \<open>
  The proviso is needed: a packet of the server that arrives when no packet of the client is
  recorded and the server's RTT is unknown stops the program.
\<close>

theorem server_packet_first_panics:
  assumes "\<not> is_from_client src c" and "server_rtt c = 0" and "packets (to_server_queue c) = []"
  shows "process_udp_packet now src buf wire c = None"
  using assms by (simp add: process_udp_packet_def initial_rtt_def oldest_ts_def)

theorem server_packet_first_panics_witness: "process_udp_packet 9 (V4 3 4) [1, 2, 3] [] sample_conn = None"
  by (rule server_packet_first_panics) (simp_all add: is_from_client_def sample_conn_def conn_new_simp queue_new_def)

text \<open>
  The calibration by an ICMP round trip never panics. It does nothing before one end-to-end RTT has
  passed since the last one; it keeps the measured RTT when the sample differs from it by no more than
  the slack of a flowlet; otherwise it adopts the sample and forgets the flowlets at the front that have
  been replied, and nothing of the losses found.
\<close>

theorem rtt_calibration_spec:
  assumes "conn_ok now c" and "sample \<le> SANE"
  shows "\<exists>t e c'. flowlet_timeout (to_client_queue c) = Some t \<and> mul_f64 t (flowlet_end_factor (to_client_queue c)) = Some e \<and>
    conn_rtt_calibration now_ts ks sample c = Some c' \<and> conn_ok now c' \<and>
    (if duration_since now_ts (last_rtt_calibration c) < sample + server_rtt c then c' = c
     else if \<bar>int sample - int (client_rtt c)\<bar> \<le> int e then c' = c\<lparr>last_rtt_calibration := now_ts\<rparr>
     else client_rtt c' = sample \<and> last_rtt_calibration c' = now_ts \<and>
       flowlets (to_client_queue c') = dropWhile (\<lambda>fl. reply_pkt_times fl \<noteq> []) (flowlets (to_client_queue c)) \<and>
       detected_loss (to_client_queue c') = detected_loss (to_client_queue c))"
  by (rule rtt_calibration_cases [OF assms])

theorem rtt_calibration_spec_witness: "conn_rtt_calibration 500 (0, 0) 1000 sample_conn = Some sample_conn"
proof -
  have "duration_since 500 (last_rtt_calibration sample_conn) < 1000 + server_rtt sample_conn"
    by (simp add: sample_conn_def conn_new_simp duration_since_def)
  with rtt_calibration_spec [OF sample_conn_ok, of 1000 500 "(0, 0)"] show ?thesis by (auto simp: SANE_eq)
qed

end
