(* ===== verification/Rtt_Det.thy ===== *)
theory Rtt_Det
  imports Rust_Time Pemi_Io
begin

text \<open>
  \<open>pemi/src/rtt_det.rs\<close>: the RTT detector, which measures a round trip by an ICMP echo request.
  The tables are maps; the sequence number of an address is a 16-bit word that wraps around, as the
  release build does. The socket and the ICMP codec are outside: \<open>send_request\<close> returns the fields
  of the request, \<open>recv_response\<close> takes what the socket and the codec delivered.
\<close>

section \<open>Model\<close>

record ip_requests =
  req_seq :: u16
  requests :: "u16 \<rightharpoonup> instant"

definition ip_requests_new :: ip_requests where
  "ip_requests_new = \<lparr>req_seq = 1, requests = Map.empty\<rparr>"

definition ip_send_request :: "instant \<Rightarrow> ip_requests \<Rightarrow> ip_requests" where
  "ip_send_request now r = r\<lparr>requests := (requests r)(req_seq r \<mapsto> now), req_seq := req_seq r + 1\<rparr>"

definition ip_recv_response :: "u16 \<Rightarrow> ip_requests \<Rightarrow> instant option \<times> ip_requests" where
  "ip_recv_response s r = (requests r s, r\<lparr>requests := (requests r)(s := None)\<rparr>)"

record rtt_detector =
  det_id :: u16
  sent_requests :: "ip_addr \<rightharpoonup> ip_requests"
  det_begin_time :: instant

definition detector_new :: "instant \<Rightarrow> rtt_detector" where
  "detector_new clock = \<lparr>det_id = 2025, sent_requests = Map.empty, det_begin_time = clock\<rparr>"

definition fresh_begin_time :: "instant \<Rightarrow> rtt_detector \<Rightarrow> rtt_detector" where
  "fresh_begin_time now d = d\<lparr>det_begin_time := now\<rparr>"

definition detector_elapsed :: "instant \<Rightarrow> rtt_detector \<Rightarrow> duration" where
  "detector_elapsed now d = duration_since now (det_begin_time d)"

record echo_request =
  echo_dst :: socket_addr
  echo_id :: u16
  echo_seq :: u16

definition send_request :: "instant \<Rightarrow> socket_addr \<Rightarrow> rtt_detector \<Rightarrow> echo_request \<times> rtt_detector" where
  "send_request now dest d =
     (let r = (case sent_requests d (socket_ip dest) of Some r \<Rightarrow> r | None \<Rightarrow> ip_requests_new) in
      (\<lparr>echo_dst = dest, echo_id = det_id d, echo_seq = req_seq r\<rparr>,
       d\<lparr>sent_requests := (sent_requests d)(socket_ip dest \<mapsto> ip_send_request now r)\<rparr>))"

datatype io_error = WouldBlock | RecvFailed | InvalidData

text \<open>
  What reading the socket delivers: nothing yet, an error, bytes that are no ICMP packet, an echo reply,
  another packet.
\<close>

datatype icmp_input = SocketWouldBlock | SocketError | NotIcmp | EchoReply socket_addr u16 | OtherIcmp

fun recv_response :: "instant \<Rightarrow> icmp_input \<Rightarrow> (rtt_detector, io_error, duration) meth" where
  "recv_response now SocketWouldBlock d = (Err WouldBlock, d)"
| "recv_response now SocketError d = (Err RecvFailed, d)"
| "recv_response now NotIcmp d = (Err InvalidData, d)"
| "recv_response now OtherIcmp d = (Err InvalidData, d)"
| "recv_response now (EchoReply server_addr s) d = (case sent_requests d (socket_ip server_addr) of
     None \<Rightarrow> (Panic, d)
   | Some r \<Rightarrow> (case ip_recv_response s r of
       (None, r') \<Rightarrow> (Panic, d\<lparr>sent_requests := (sent_requests d)(socket_ip server_addr \<mapsto> r')\<rparr>)
     | (Some sent, r') \<Rightarrow>
         (Ok (duration_since now sent), d\<lparr>sent_requests := (sent_requests d)(socket_ip server_addr \<mapsto> r')\<rparr>)))"

section \<open>A series of requests\<close>

text \<open>The table of one address after requests at the given times.\<close>

definition ip_sends :: "instant list \<Rightarrow> ip_requests" where
  "ip_sends ts = fold ip_send_request ts ip_requests_new"

lemma ip_sends_snoc: "ip_sends (ts @ [t]) = ip_send_request t (ip_sends ts)"
  by (simp add: ip_sends_def)

lemma ip_sends_seq: "req_seq (ip_sends ts) = of_nat (length ts + 1)"
proof (induction ts rule: rev_induct)
  case (snoc t ts)
  then show ?case by (simp add: ip_sends_snoc ip_send_request_def add.commute)
qed (simp add: ip_sends_def ip_requests_new_def)

lemma of_nat_u16_eq:
  assumes "j \<le> k" and "k < j + 65536"
  shows "(of_nat k :: u16) = of_nat j \<longleftrightarrow> k = j"
proof
  assume "(of_nat k :: u16) = of_nat j"
  then have "k mod 65536 = j mod 65536" by (simp add: word_unat_eq_iff unsigned_of_nat take_bit_eq_mod)
  then have "(k - j) mod 65536 = 0" using assms(1) by (simp add: mod_eq_dvd_iff_nat)
  with assms show "k = j" by simp
qed simp

text \<open>The sequence number of a request maps to its time until the numbers come round again.\<close>

lemma ip_sends_requests:
  "k < length ts \<Longrightarrow> length ts \<le> k + 65536 \<Longrightarrow> requests (ip_sends ts) (of_nat (k + 1)) = Some (ts ! k)"
proof (induction ts rule: rev_induct)
  case (snoc t ts)
  have eq: "(of_nat (length ts + 1) :: u16) = of_nat (k + 1) \<longleftrightarrow> length ts + 1 = k + 1"
    by (rule of_nat_u16_eq) (use snoc.prems in simp_all)
  show ?case
  proof (cases "k = length ts")
    case True
    then show ?thesis by (simp add: ip_sends_snoc ip_send_request_def ip_sends_seq)
  next
    case False
    with eq have ne: "(of_nat (k + 1) :: u16) \<noteq> of_nat (length ts + 1)" by (auto simp del: of_nat_add)
    from False snoc.prems have "k < length ts" "length ts \<le> k + 65536" by simp_all
    from snoc.IH [OF this] this(1) ne show ?thesis
      by (simp only: ip_sends_snoc ip_send_request_def ip_sends_seq) (simp add: nth_append)
  qed
qed simp

section \<open>Sane times\<close>

definition detector_ok :: "rtt_detector \<Rightarrow> bool" where
  "detector_ok d \<longleftrightarrow> (\<forall>a r s t. sent_requests d a = Some r \<longrightarrow> requests r s = Some t \<longrightarrow> sane_clock t)"

lemma detector_new_ok: "detector_ok (detector_new clock)"
  by (simp add: detector_ok_def detector_new_def)

lemma send_request_ok: "detector_ok d \<Longrightarrow> sane_clock now \<Longrightarrow> detector_ok (snd (send_request now dest d))"
  by (auto simp: detector_ok_def send_request_def Let_def ip_send_request_def ip_requests_new_def
      split: if_splits option.splits)

lemma recv_response_ok:
  assumes "recv_response now i d = (Ok rtt, d')" and "detector_ok d" and "sane_clock now"
  shows "detector_ok d' \<and> rtt \<le> SANE"
  using assms
  by (cases i) (auto simp: ip_recv_response_def detector_ok_def sane_duration_since split: option.splits if_splits)

section \<open>Properties\<close>

text \<open>
  The detector measures each request by its own reply: after any number of requests to an address,
  the reply to request \<open>k\<close>, if at most 65535 requests follow it and no other reply has come, is
  attributed to the time request \<open>k\<close> was sent.
\<close>

theorem rtt_det_roundtrip:
  assumes "k < length ts" and "length ts \<le> k + 65536"
    and "sent_requests d (socket_ip a) = Some (ip_sends ts)"
  shows "\<exists>d'. recv_response now (EchoReply a (of_nat (k + 1))) d = (Ok (duration_since now (ts ! k)), d')"
  using ip_sends_requests [OF assms(1,2)] assms(3) by (simp add: ip_recv_response_def del: of_nat_Suc of_nat_add)

theorem rtt_det_roundtrip_witness:
  "\<exists>d'. recv_response 70 (EchoReply (V4 1 2) 2) (snd (send_request 30 (V4 1 9) (snd (send_request 20 (V4 1 2)
      (detector_new 0))))) = (Ok 40, d')"
  using rtt_det_roundtrip [of 1 "[20, 30]" "snd (send_request 30 (V4 1 9) (snd (send_request 20 (V4 1 2) (detector_new 0))))"
      "V4 1 2" 70]
  by (simp add: send_request_def detector_new_def ip_sends_def Let_def duration_since_def)

text \<open>
  A reply that answers no outstanding request stops the program: one from an address that was never
  asked, and a second copy of a reply already counted.
\<close>

theorem rtt_det_unsolicited_panics:
  assumes "sent_requests d (socket_ip a) = None \<or>
    (\<exists>d0 rtt t. recv_response t (EchoReply a s) d0 = (Ok rtt, d))"
  shows "fst (recv_response now (EchoReply a s) d) = Panic"
  using assms
proof
  assume "\<exists>d0 rtt t. recv_response t (EchoReply a s) d0 = (Ok rtt, d)"
  then obtain d0 rtt t where ok: "recv_response t (EchoReply a s) d0 = (Ok rtt, d)" by blast
  then obtain r0 sent where "sent_requests d0 (socket_ip a) = Some r0" "requests r0 s = Some sent"
    by (cases "sent_requests d0 (socket_ip a)"; cases "requests (the (sent_requests d0 (socket_ip a))) s")
      (auto simp: ip_recv_response_def)
  with ok obtain r where "sent_requests d (socket_ip a) = Some r" "requests r s = None"
    by (auto simp: ip_recv_response_def)
  then show ?thesis by (simp add: ip_recv_response_def)
qed simp

theorem rtt_det_unsolicited_panics_witness:
  "fst (recv_response 80 (EchoReply (V4 1 2) 1) (snd (recv_response 70 (EchoReply (V4 1 2) 1)
     (snd (send_request 20 (V4 1 2) (detector_new 0)))))) = Panic"
proof -
  have "recv_response 70 (EchoReply (V4 1 2) 1) (snd (send_request 20 (V4 1 2) (detector_new 0))) = (Ok 50,
      snd (recv_response 70 (EchoReply (V4 1 2) 1) (snd (send_request 20 (V4 1 2) (detector_new 0)))))"
    by (simp add: send_request_def detector_new_def ip_requests_new_def ip_send_request_def ip_recv_response_def duration_since_def)
  then show ?thesis by (intro rtt_det_unsolicited_panics) blast
qed

text \<open>
  The sequence numbers wrap: after 65536 further requests the reply to the first one is measured from
  the time of the last one.
\<close>

theorem rtt_det_sequence_wraps:
  assumes "length ts = 65537" and "sent_requests d (socket_ip a) = Some (ip_sends ts)"
  shows "\<exists>d'. recv_response now (EchoReply a 1) d = (Ok (duration_since now (ts ! 65536)), d')"
proof -
  have "(of_nat (65536 + 1) :: u16) = 1" by simp
  with ip_sends_requests [of 65536 ts] assms(1) have "requests (ip_sends ts) 1 = Some (ts ! 65536)" by (simp only:)
  with assms(2) show ?thesis by (simp add: ip_recv_response_def)
qed

theorem rtt_det_sequence_wraps_witness:
  "\<exists>d'. recv_response 9 (EchoReply (V4 1 2) 1)
      ((detector_new 0)\<lparr>sent_requests := [IpV4 1 \<mapsto> ip_sends (replicate 65536 0 @ [5])]\<rparr>) = (Ok 4, d')"
  using rtt_det_sequence_wraps [of "replicate 65536 0 @ [5]"
      "(detector_new 0)\<lparr>sent_requests := [IpV4 1 \<mapsto> ip_sends (replicate 65536 0 @ [5])]\<rparr>" "V4 1 2" 9]
  by (simp add: nth_append duration_since_def)

end
