(* ===== verification/Pemi.thy ===== *)
theory Pemi
  imports Conn_Contract Rtt_Det "HOL-Library.AList"
begin

text \<open>
  \<open>pemi/src/lib.rs\<close>: the middlebox. The connection table is an association list with distinct keys,
  whose order stands for the unspecified iteration order of the \<open>HashMap\<close>; the heap of access times
  is a list of which the earliest entry is the top. \<open>wire\<close> and \<open>pings\<close> record the datagrams and the
  ICMP requests sent so far. Methods that return \<open>Result\<close> are \<open>meth\<close>; the other ones return
  \<open>None\<close> when they panic. Clock readings are arguments; where a method reads the clock once per
  connection or per packet, the argument is a function.
\<close>

section \<open>Model\<close>

subsection \<open>The heap of access times\<close>

type_synonym access_time = "instant \<times> conn_id"

definition heap_peek :: "access_time list \<Rightarrow> access_time option" where
  "heap_peek h = (if h = [] then None else Some (arg_min_list fst h))"

definition heap_pop :: "access_time list \<Rightarrow> access_time list" where
  "heap_pop h = (if h = [] then [] else remove1 (arg_min_list fst h) h)"

definition heap_push :: "access_time \<Rightarrow> access_time list \<Rightarrow> access_time list" where
  "heap_push x h = h @ [x]"

subsection \<open>State\<close>

record stats =
  st_pkts :: nat
  st_retrans_pkts :: nat

record pemi =
  conns :: "(conn_id \<times> conn) list"
  detector :: rtt_detector
  access_times :: "access_time list"
  pemi_stats :: stats
  retrans_tasks :: "task list"
  interval_factor :: f64
  end_factor :: f64
  retrans_rate_limit :: f64
  proxy_only :: bool
  wire :: "datagram list"
  pings :: "echo_request list"

definition stats_new :: stats where
  "stats_new = \<lparr>st_pkts = 0, st_retrans_pkts = 0\<rparr>"

definition new_pkt :: "stats \<Rightarrow> stats" where
  "new_pkt s = s\<lparr>st_pkts := st_pkts s + 1\<rparr>"

definition new_retrans_pkt :: "stats \<Rightarrow> stats" where
  "new_retrans_pkt s = s\<lparr>st_retrans_pkts := st_retrans_pkts s + 1\<rparr>"

definition pemi_new :: "instant \<Rightarrow> pemi" where
  "pemi_new clock = \<lparr>conns = [], detector = detector_new clock, access_times = [], pemi_stats = stats_new,
     retrans_tasks = [], interval_factor = Fin 2, end_factor = Fin 2, retrans_rate_limit = fl64 (1 / 10),
     proxy_only = False, wire = [], pings = []\<rparr>"

definition set_proxy_only :: "bool \<Rightarrow> pemi \<Rightarrow> pemi" where
  "set_proxy_only b p = p\<lparr>proxy_only := b\<rparr>"

definition pemi_set_factors :: "f64 \<Rightarrow> f64 \<Rightarrow> pemi \<Rightarrow> pemi" where
  "pemi_set_factors a b p = p\<lparr>interval_factor := a, end_factor := b\<rparr>"

definition put_conn :: "conn_id \<Rightarrow> conn \<Rightarrow> pemi \<Rightarrow> pemi" where
  "put_conn k c p = p\<lparr>conns := AList.update k c (conns p)\<rparr>"

subsection \<open>Tracking connections\<close>

definition new_conn :: "conn_id \<Rightarrow> conn \<Rightarrow> instant \<Rightarrow> pemi \<Rightarrow> pemi" where
  "new_conn k c now p = (let c' = conn_set_factors (interval_factor p) (end_factor p) c in
     (put_conn k c' p)\<lparr>access_times := heap_push (now, k) (access_times p)\<rparr>)"

text \<open>
  The loop \<open>while left > 0\<close> over the coalesced packets; \<open>rest\<close> is \<open>buf[len - left..len]\<close>.
\<close>

function quic_conn_process ::
    "new_clocks \<Rightarrow> conn_id \<Rightarrow> instant \<Rightarrow> socket_addr \<Rightarrow> socket_addr \<Rightarrow> bytes \<Rightarrow> (pemi, error, unit) meth" where
  "quic_conn_process ks k now src dst rest p =
     (if rest = [] then (Ok (), p)
      else case map_of (conns p) k of
          None \<Rightarrow> (case first_quic_packet ks now src dst rest of
              Err e \<Rightarrow> (Err e, p)
            | Panic \<Rightarrow> (Panic, p)
            | Ok (c, read) \<Rightarrow>
                let p1 = new_conn k c now p;
                    p2 = p1\<lparr>detector := fresh_begin_time now (detector p1)\<rparr> in
                quic_conn_process ks k now src dst (drop read rest) p2)
        | Some c \<Rightarrow> (case process_quic_packet now rest src c of
              (Err e, c') \<Rightarrow> (Err e, put_conn k c' p)
            | (Panic, c') \<Rightarrow> (Panic, put_conn k c' p)
            | (Ok read, c') \<Rightarrow> quic_conn_process ks k now src dst (drop read rest) (put_conn k c' p)))"
  by pat_completeness auto
termination
  by (relation "measure (\<lambda>(_, _, _, _, _, rest, _). length rest)")
    (auto dest!: first_quic_packet_read process_quic_packet_read [OF sym])

declare quic_conn_process.simps [simp del]

definition may_be_idle :: "instant \<Rightarrow> access_time \<Rightarrow> bool" where
  "may_be_idle now x \<longleftrightarrow> duration_since now (fst x) \<ge> IDLE_TIMEOUT"

lemma remove_top_less:
  assumes "heap_peek h = Some x" and "P x"
  shows "length (filter P (heap_pop h)) < length (filter P h)"
proof -
  have x: "x = arg_min_list fst h" "h \<noteq> []" using assms(1) by (auto simp: heap_peek_def split: if_splits)
  then have "x \<in> set h" using arg_min_list_in by blast
  then have "length (filter P h) = Suc (length (filter P (remove1 x h)))"
    using assms(2) by (induction h) auto
  with x show ?thesis by (simp add: heap_pop_def)
qed

function remove_idle_loop ::
    "instant \<Rightarrow> (conn_id \<times> conn) list \<Rightarrow> access_time list \<Rightarrow> ((conn_id \<times> conn) list \<times> access_time list) option" where
  "remove_idle_loop now cs h = (case heap_peek h of
       None \<Rightarrow> Some (cs, h)
     | Some x \<Rightarrow>
         if may_be_idle now x then
           (case map_of cs (snd x) of
              None \<Rightarrow> None
            | Some c \<Rightarrow>
                if is_idle now c then remove_idle_loop now (AList.delete (snd x) cs) (heap_pop h)
                else remove_idle_loop now cs (heap_push (now, snd x) (heap_pop h)))
         else Some (cs, h))"
  by pat_completeness auto
termination
proof (relation "measure (\<lambda>(now, _, h). length (filter (may_be_idle now) h))", goal_cases)
  case (3 now cs h x c)
  have "\<not> may_be_idle now (now, snd x)" by (simp add: may_be_idle_def IDLE_TIMEOUT_def from_secs_def)
  with remove_top_less [OF 3(1), of "may_be_idle now"] 3(2) show ?case by (simp add: heap_push_def)
qed (auto intro: remove_top_less)

declare remove_idle_loop.simps [simp del]

definition remove_idle_conns :: "instant \<Rightarrow> pemi \<Rightarrow> pemi option" where
  "remove_idle_conns now p = do {
     (cs, h) \<leftarrow> remove_idle_loop now (conns p) (access_times p);
     Some (p\<lparr>conns := cs, access_times := h\<rparr>) }"

subsection \<open>Packets\<close>

definition push_task :: "task option \<Rightarrow> pemi \<Rightarrow> pemi" where
  "push_task t p = (case t of None \<Rightarrow> p | Some t \<Rightarrow> p\<lparr>retrans_tasks := retrans_tasks p @ [t]\<rparr>)"

text \<open>
  A packet of a known connection, forwarded or held back and processed. \<open>icmp_clock\<close> is the reading
  of \<open>send_request\<close>.
\<close>

definition pemi_udp_packet ::
    "instant \<Rightarrow> bytes \<Rightarrow> instant \<Rightarrow> addr \<Rightarrow> addr \<Rightarrow> conn \<Rightarrow> pemi \<Rightarrow> (conn \<times> pemi) option" where
  "pemi_udp_packet icmp_clock buf recv_ts srcaddr dstaddr c p =
     (if proxy_only p then
        Some (c, p\<lparr>wire := send_transparently (nix_addr srcaddr) (nix_addr dstaddr) buf (wire p)\<rparr>)
      else do {
        (w1, c1) \<leftarrow> (if need_reorder_ack (std_addr srcaddr) c then add_delayed_ack recv_ts buf (wire p) c
                    else Some (send_transparently (nix_addr srcaddr) (nix_addr dstaddr) buf (wire p), c));
        (new_flowlet, w2, c2) \<leftarrow> process_udp_packet recv_ts (std_addr srcaddr) buf w1 c1;
        let p1 = p\<lparr>wire := w2\<rparr>;
        Some (c2, if new_flowlet then
            let (echo, d) = send_request icmp_clock (std_addr dstaddr) (detector p1) in
            p1\<lparr>detector := d, pings := pings p1 @ [echo]\<rparr>
          else p1) })"

text \<open>The part of \<open>process_packet\<close> after the connection is known.\<close>

definition forward_packet ::
    "instant \<Rightarrow> bytes \<Rightarrow> instant \<Rightarrow> addr \<Rightarrow> addr \<Rightarrow> conn_id \<Rightarrow> pemi \<Rightarrow> pemi option" where
  "forward_packet icmp_clock buf recv_ts srcaddr dstaddr k p = do {
     c \<leftarrow> map_of (conns p) k;
     (c1, p1) \<leftarrow> pemi_udp_packet icmp_clock buf recv_ts srcaddr dstaddr c p;
     (t, c2) \<leftarrow> to_client_retrans_task c1;
     remove_idle_conns recv_ts (push_task t (put_conn k c2 p1)) }"

definition process_packet ::
    "new_clocks \<Rightarrow> instant \<Rightarrow> bytes \<Rightarrow> instant \<Rightarrow> addr \<Rightarrow> addr \<Rightarrow> (pemi, error, unit) meth" where
  "process_packet ks icmp_clock buf recv_ts srcaddr dstaddr p0 =
     (let p = p0\<lparr>pemi_stats := new_pkt (pemi_stats p0)\<rparr>;
          k = conn_id_new (std_addr srcaddr) (std_addr dstaddr) in
      case quic_conn_process ks k recv_ts (std_addr srcaddr) (std_addr dstaddr) buf p of
        (Panic, p1) \<Rightarrow> (Panic, p1)
      | (Err e, p1) \<Rightarrow>
          if e = InvalidState \<or> e = MayNotQUIC then
            (Ok (), p1\<lparr>wire := send_transparently (nix_addr srcaddr) (nix_addr dstaddr) buf (wire p1)\<rparr>)
          else (Err e, p1)
      | (Ok _, p1) \<Rightarrow> (case forward_packet icmp_clock buf recv_ts srcaddr dstaddr k p1 of
            None \<Rightarrow> (Panic, p1)
          | Some p2 \<Rightarrow> (Ok (), p2)))"

definition pemi_rtt_calibration ::
    "(conn_id \<Rightarrow> instant \<times> instant \<times> instant) \<Rightarrow> duration \<Rightarrow> pemi \<Rightarrow> pemi option" where
  "pemi_rtt_calibration clock sample p = do {
     cs \<leftarrow> mapO (\<lambda>(k, c). map_option (Pair k) (conn_rtt_calibration (fst (clock k)) (snd (clock k)) sample c)) (conns p);
     Some (p\<lparr>conns := cs\<rparr>) }"

subsection \<open>Retransmission\<close>

definition match_retrans_limit :: "pemi \<Rightarrow> bool" where
  "match_retrans_limit p = f64_lt (retrans_rate_limit p)
     (f64_div (f64_of_nat (st_retrans_pkts (pemi_stats p))) (f64_of_nat (st_pkts (pemi_stats p))))"

definition pkts :: "pemi \<Rightarrow> nat" where
  "pkts p = st_pkts (pemi_stats p)"

definition pemi_record_retrans_packet :: "instant \<Rightarrow> socket_addr \<Rightarrow> socket_addr \<Rightarrow> pemi \<Rightarrow> pemi option" where
  "pemi_record_retrans_packet now srcaddr dstaddr p = (let k = conn_id_new srcaddr dstaddr in do {
     c \<leftarrow> map_of (conns p) k;
     c' \<leftarrow> conn_record_retrans_packet now srcaddr c;
     Some (put_conn k c' p) })"

text \<open>One round of the loop of \<open>process_retrans_task\<close>.\<close>

definition retransmit_one ::
    "sockaddr_in \<Rightarrow> sockaddr_in \<Rightarrow> socket_addr \<Rightarrow> socket_addr \<Rightarrow> instant \<times> raw_udp_packet \<Rightarrow> pemi \<Rightarrow> pemi option" where
  "retransmit_one src dst t_src t_dst x p = (case x of (now, pkt) \<Rightarrow>
     if match_retrans_limit p \<and> pkts p > 100 then Some p
     else pemi_record_retrans_packet now t_src t_dst
       (p\<lparr>wire := send_transparently src dst (raw_payload pkt) (wire p),
          pemi_stats := new_retrans_pkt (pemi_stats p)\<rparr>))"

definition process_retrans_task :: "(nat \<Rightarrow> instant) \<Rightarrow> task \<Rightarrow> pemi \<Rightarrow> pemi option" where
  "process_retrans_task clock t p = do {
     src \<leftarrow> to_nix_addr (task_src t);
     dst \<leftarrow> to_nix_addr (task_dst t);
     foldO (retransmit_one src dst (task_src t) (task_dst t))
       (map (\<lambda>(i, pkt). (clock i, pkt)) (enumerate 0 (retrans_queue t))) p }"

definition has_retrans_task :: "pemi \<Rightarrow> bool" where
  "has_retrans_task p \<longleftrightarrow> retrans_tasks p \<noteq> []"

definition pop_retrans_task :: "pemi \<Rightarrow> task option \<times> pemi" where
  "pop_retrans_task p = (if retrans_tasks p = [] then (None, p)
     else (Some (last (retrans_tasks p)), p\<lparr>retrans_tasks := butlast (retrans_tasks p)\<rparr>))"

subsection \<open>Timeouts\<close>

definition min_duration :: "duration option list \<Rightarrow> duration option" where
  "min_duration ts = (case List.map_filter id ts of [] \<Rightarrow> None | d # ds \<Rightarrow> Some (fold min ds d))"

definition pemi_timeout :: "instant \<Rightarrow> pemi \<Rightarrow> duration option option" where
  "pemi_timeout now p = (case heap_peek (access_times p) of
       None \<Rightarrow> Some None
     | Some x \<Rightarrow> do {
         let idle_timer = IDLE_TIMEOUT - duration_since now (fst x);
         ts \<leftarrow> mapO (\<lambda>(_, c). conn_timeout now c) (conns p);
         let reply_timeout = (case min_duration ts of None \<Rightarrow> DURATION_MAX | Some t \<Rightarrow> t);
         Some (Some (min idle_timer reply_timeout)) })"

definition timeout_conn :: "instant \<Rightarrow> conn \<Rightarrow> (task option \<times> conn) option" where
  "timeout_conn now c = do {
     t \<leftarrow> conn_timeout now c;
     c1 \<leftarrow> (if t = Some 0 then conn_on_timeout now c else Some c);
     to_client_retrans_task c1 }"

fun timeout_conns ::
    "instant \<Rightarrow> (conn_id \<times> conn) list \<Rightarrow> (task list \<times> (conn_id \<times> conn) list) option" where
  "timeout_conns now [] = Some ([], [])"
| "timeout_conns now ((k, c) # cs) = do {
     (t, c') \<leftarrow> timeout_conn now c;
     (ts, cs') \<leftarrow> timeout_conns now cs;
     Some ((case t of None \<Rightarrow> ts | Some t \<Rightarrow> t # ts), (k, c') # cs') }"

definition process_timeout :: "instant \<Rightarrow> pemi \<Rightarrow> pemi option" where
  "process_timeout now p0 = do {
     p \<leftarrow> remove_idle_conns now p0;
     (ts, cs) \<leftarrow> timeout_conns now (conns p);
     Some (p\<lparr>conns := cs, retrans_tasks := retrans_tasks p @ ts\<rparr>) }"

text \<open>\<open>print_stats\<close> asserts that a packet was processed.\<close>

definition print_stats :: "pemi \<Rightarrow> unit option" where
  "print_stats p = rust_assert (st_pkts (pemi_stats p) > 0)"

end
