(* ===== verification/Idle_Conns.thy ===== *)
theory Idle_Conns
  imports Pemi "HOL-Library.Multiset"
begin

text \<open>
  The connection table and the heap of access times (\<open>remove_idle_conns\<close> of \<open>pemi/src/lib.rs\<close>).
  The locale \<open>access_heap\<close> is what the loop relies on of the \<open>BinaryHeap\<close>; each connection has one
  entry, whose time is less than one idle period later than the connection's last access.
\<close>

section \<open>The heap\<close>

locale access_heap =
  fixes peek :: "'h \<Rightarrow> access_time option" and pop :: "'h \<Rightarrow> 'h" and push :: "access_time \<Rightarrow> 'h \<Rightarrow> 'h"
    and items :: "'h \<Rightarrow> access_time multiset"
  assumes peek_empty: "peek h = None \<longleftrightarrow> items h = {#}"
    and peek_least: "peek h = Some x \<Longrightarrow> x \<in># items h \<and> (\<forall>y \<in># items h. fst x \<le> fst y)"
    and items_pop: "peek h = Some x \<Longrightarrow> items h = add_mset x (items (pop h))"
    and items_push: "items (push x h) = add_mset x (items h)"
begin

lemma young_top: "peek h = Some x \<Longrightarrow> \<not> may_be_idle now x \<Longrightarrow> \<forall>y \<in># items h. \<not> may_be_idle now y"
  using peek_least [of h x] by (auto simp: may_be_idle_def duration_since_def)

lemma restamp_keys:
  "peek h = Some x \<Longrightarrow> image_mset snd (items (push (now, snd x) (pop h))) = image_mset snd (items h)"
  using items_pop [of h x] by (simp add: items_push)

lemma pop_keys: "peek h = Some x \<Longrightarrow> add_mset (snd x) (image_mset snd (items (pop h))) = image_mset snd (items h)"
  using items_pop [of h x] by simp

end

lemma arg_min_list_least: "xs \<noteq> [] \<Longrightarrow> y \<in> set xs \<Longrightarrow> (f (arg_min_list f xs) :: 'b::linorder) \<le> f y"
  by (simp add: f_arg_min_list_f)

interpretation heap: access_heap heap_peek heap_pop heap_push mset
proof
  fix h and x :: access_time
  assume "heap_peek h = Some x"
  then have x: "x = arg_min_list fst h" "h \<noteq> []" by (auto simp: heap_peek_def split: if_splits)
  then have "x \<in> set h" using arg_min_list_in by blast
  with x show "x \<in># mset h \<and> (\<forall>y \<in># mset h. fst x \<le> fst y)" and "mset h = add_mset x (mset (heap_pop h))"
    by (auto simp: arg_min_list_least heap_pop_def)
qed (auto simp: heap_peek_def heap_push_def)

section \<open>Table and heap in step\<close>

text \<open>Each connection has exactly one entry in the heap.\<close>

definition heap_sync :: "(conn_id \<times> conn) list \<Rightarrow> access_time list \<Rightarrow> bool" where
  "heap_sync cs h \<longleftrightarrow> distinct (map fst cs) \<and> mset (map snd h) = mset (map fst cs)"

lemma heap_sync_distinct: "heap_sync cs h \<Longrightarrow> distinct (map snd h)"
  unfolding heap_sync_def by (metis mset_eq_imp_distinct_iff)

lemma heap_sync_set: "heap_sync cs h \<Longrightarrow> snd ` set h = fst ` set cs"
  unfolding heap_sync_def by (metis list.set_map set_mset_mset)

lemma heap_sync_lookup: "heap_sync cs h \<Longrightarrow> x \<in> set h \<Longrightarrow> \<exists>c. map_of cs (snd x) = Some c"
  using heap_sync_set [of cs h] by (metis image_eqI map_of_eq_None_iff not_None_eq)

lemma heap_pop_set:
  assumes "heap_sync cs h" and "heap_peek h = Some x"
  shows "set (heap_pop h) = set h - {x}" and "snd x \<notin> snd ` set (heap_pop h)"
proof -
  have "mset h = add_mset x (mset (heap_pop h))" by (rule heap.items_pop [OF assms(2)])
  moreover have "distinct (map snd h)" by (rule heap_sync_distinct [OF assms(1)])
  ultimately have d: "distinct (map snd (x # heap_pop h))" and s: "set h = insert x (set (heap_pop h))"
    by (metis mset.simps(2) mset_eq_imp_distinct_iff mset_map, metis set_mset_add_mset_insert set_mset_mset)
  then show "set (heap_pop h) = set h - {x}" and "snd x \<notin> snd ` set (heap_pop h)" by (auto simp: image_iff)
qed

lemma heap_sync_remove:
  assumes "heap_sync cs h" and "heap_peek h = Some x"
  shows "heap_sync (AList.delete (snd x) cs) (heap_pop h)"
proof -
  have d: "distinct (map fst cs)" using assms(1) by (simp add: heap_sync_def)
  have "snd x \<in> fst ` set cs"
    using heap.peek_least [OF assms(2)] heap_sync_set [OF assms(1)] by (metis image_eqI set_mset_mset)
  then have "mset (map fst cs) = add_mset (snd x) (mset (map fst (AList.delete (snd x) cs)))"
    by (simp add: delete_keys flip: distinct_remove1_removeAll [OF d])
  moreover have "add_mset (snd x) (mset (map snd (heap_pop h))) = mset (map snd h)"
    using heap.pop_keys [OF assms(2)] by simp
  ultimately show ?thesis using assms(1) d by (simp add: heap_sync_def distinct_delete)
qed

lemma heap_sync_restamp:
  assumes "heap_sync cs h" and "heap_peek h = Some x"
  shows "heap_sync cs (heap_push (now, snd x) (heap_pop h))"
  using assms heap.restamp_keys [OF assms(2), of now] by (simp add: heap_sync_def)

text \<open>The connections the loop removes: idle ones whose entry is old enough to be looked at.\<close>

definition expired :: "instant \<Rightarrow> access_time list \<Rightarrow> conn_id \<times> conn \<Rightarrow> bool" where
  "expired now h kc \<longleftrightarrow> is_idle now (snd kc) \<and> (\<exists>t. (t, fst kc) \<in> set h \<and> may_be_idle now (t, fst kc))"

lemma filter_expired_cong:
  "(\<And>k c. (k, c) \<in> set cs \<Longrightarrow> expired now h (k, c) = expired now h' (k, c)) \<Longrightarrow>
    filter (\<lambda>kc. \<not> expired now h kc) cs = filter (\<lambda>kc. \<not> expired now h' kc) cs"
  by (rule filter_cong) auto

lemma remove_idle_loop_spec:
  assumes "heap_sync cs h"
  shows "\<exists>h'. remove_idle_loop now cs h = Some (filter (\<lambda>kc. \<not> expired now h kc) cs, h') \<and>
    heap_sync (filter (\<lambda>kc. \<not> expired now h kc) cs) h' \<and> (\<forall>x \<in> set h'. \<not> may_be_idle now x) \<and>
    (\<forall>x \<in> set h'. x \<in> set h \<or> fst x = now \<and> (\<exists>c. map_of cs (snd x) = Some c \<and> \<not> is_idle now c))"
  using assms
proof (induction now cs h rule: remove_idle_loop.induct)
  case (1 now cs h)
  show ?case
  proof (cases "heap_peek h")
    case None
    then have "h = []" using heap.peek_empty [of h] by simp
    with 1(3) None show ?thesis by (subst remove_idle_loop.simps) (simp add: expired_def)
  next
    case (Some x)
    note x = heap_pop_set [OF 1(3) Some]
    have xin: "x \<in> set h" using heap.peek_least [OF Some] by simp
    then obtain c where c: "map_of cs (snd x) = Some c" using heap_sync_lookup [OF 1(3)] by blast
    have dist: "distinct (map fst cs)" using 1(3) by (simp add: heap_sync_def)
    have uniq: "\<And>d. (snd x, d) \<in> set cs \<Longrightarrow> d = c" using c dist by (metis map_of_eq_Some_iff option.inject)
    show ?thesis
    proof (cases "may_be_idle now x")
      case young: False
      then have "\<forall>y \<in> set h. \<not> may_be_idle now y" using heap.young_top [OF Some] by simp
      moreover from this have "filter (\<lambda>kc. \<not> expired now h kc) cs = cs" by (auto simp: expired_def filter_id_conv)
      ultimately show ?thesis using Some young 1(3) by (subst remove_idle_loop.simps) auto
    next
      case old: True
      show ?thesis
      proof (cases "is_idle now c")
        case True
        let ?cs = "AList.delete (snd x) cs"
        have "filter (\<lambda>kc. \<not> expired now (heap_pop h) kc) ?cs = filter (\<lambda>kc. \<not> expired now h kc) ?cs"
          by (rule filter_expired_cong) (auto simp: expired_def x AList.delete_eq)
        also have "\<dots> = filter (\<lambda>kc. \<not> expired now h kc) cs"
        proof -
          have "expired now h (k, d)" if "(k, d) \<in> set cs" "k = snd x" for k d
            using that c dist True old xin by (auto simp: expired_def intro!: exI [of _ "fst x"])
          then show ?thesis by (auto simp: AList.delete_eq intro!: filter_cong)
        qed
        finally have eq: "filter (\<lambda>kc. \<not> expired now (heap_pop h) kc) ?cs = filter (\<lambda>kc. \<not> expired now h kc) cs" .
        from 1(1) [OF Some old c True heap_sync_remove [OF 1(3) Some]] True old Some c show ?thesis
          unfolding eq by (subst remove_idle_loop.simps)
            (auto simp: x AList.delete_conv split: if_splits dest!: bspec)
      next
        case False
        let ?h = "heap_push (now, snd x) (heap_pop h)"
        have "\<not> may_be_idle now (now, snd x)" by (simp add: may_be_idle_def IDLE_TIMEOUT_def from_secs_def)
        then have eq: "filter (\<lambda>kc. \<not> expired now ?h kc) cs = filter (\<lambda>kc. \<not> expired now h kc) cs"
          using False x uniq by (intro filter_expired_cong) (fastforce simp: expired_def heap_push_def)
        from 1(2) [OF Some old c False heap_sync_restamp [OF 1(3) Some]] obtain h' where
          h': "remove_idle_loop now cs ?h = Some (filter (\<lambda>kc. \<not> expired now h kc) cs, h')"
            "heap_sync (filter (\<lambda>kc. \<not> expired now h kc) cs) h'" "\<forall>x \<in> set h'. \<not> may_be_idle now x"
            "\<forall>y \<in> set h'. y \<in> set ?h \<or> fst y = now \<and> (\<exists>c. map_of cs (snd y) = Some c \<and> \<not> is_idle now c)"
          unfolding eq by blast
        have "y \<in> set h \<or> fst y = now \<and> (\<exists>c. map_of cs (snd y) = Some c \<and> \<not> is_idle now c)" if "y \<in> set h'" for y
          using h'(4) that x c False by (auto simp: heap_push_def)
        with h'(1-3) False old Some c show ?thesis by (subst remove_idle_loop.simps) auto
      qed
    qed
  qed
qed

section \<open>Properties\<close>

text \<open>An entry of the heap is less than one idle period later than the last access of its connection.\<close>

definition stamps_ok :: "(conn_id \<times> conn) list \<Rightarrow> access_time list \<Rightarrow> bool" where
  "stamps_ok cs h \<longleftrightarrow> (\<forall>t k c. (t, k) \<in> set h \<longrightarrow> (k, c) \<in> set cs \<longrightarrow> t < last_access c + int IDLE_TIMEOUT)"

lemma not_idle_iff: "\<not> is_idle now c \<longleftrightarrow> now < last_access c + int IDLE_TIMEOUT"
  using duration_since_gt [of "IDLE_TIMEOUT" now "last_access c"]
  by (auto simp: is_idle_def duration_since_def IDLE_TIMEOUT_def from_secs_def)

lemma young_iff: "\<not> may_be_idle now (t, k) \<longleftrightarrow> now < t + int IDLE_TIMEOUT"
  by (auto simp: may_be_idle_def duration_since_def IDLE_TIMEOUT_def from_secs_def)

lemma remove_idle_conns_ok:
  assumes sync: "heap_sync (conns p) (access_times p)" and stamps: "stamps_ok (conns p) (access_times p)"
  shows "\<exists>h'. remove_idle_conns now p = Some (p\<lparr>conns := filter (\<lambda>kc. \<not> expired now (access_times p) kc) (conns p), access_times := h'\<rparr>) \<and>
    heap_sync (filter (\<lambda>kc. \<not> expired now (access_times p) kc) (conns p)) h' \<and>
    stamps_ok (filter (\<lambda>kc. \<not> expired now (access_times p) kc) (conns p)) h' \<and> (\<forall>x \<in> set h'. \<not> may_be_idle now x)"
proof -
  let ?cs = "filter (\<lambda>kc. \<not> expired now (access_times p) kc) (conns p)"
  from remove_idle_loop_spec [OF sync, of now] obtain h' where
    h': "remove_idle_loop now (conns p) (access_times p) = Some (?cs, h')" "heap_sync ?cs h'"
      "\<forall>x \<in> set h'. \<not> may_be_idle now x"
      "\<forall>x \<in> set h'. x \<in> set (access_times p) \<or> fst x = now \<and> (\<exists>c. map_of (conns p) (snd x) = Some c \<and> \<not> is_idle now c)"
    by blast
  have "stamps_ok ?cs h'" unfolding stamps_ok_def
  proof (intro allI impI)
    fix t k c
    assume t: "(t, k) \<in> set h'" and c: "(k, c) \<in> set ?cs"
    then have kc: "map_of (conns p) k = Some c" "(k, c) \<in> set (conns p)"
      using sync by (auto simp: heap_sync_def)
    from h'(4) t consider "(t, k) \<in> set (access_times p)" | "t = now" "\<exists>c. map_of (conns p) k = Some c \<and> \<not> is_idle now c"
      by fastforce
    then show "t < last_access c + int IDLE_TIMEOUT"
    proof cases
      case 1
      with stamps kc show ?thesis by (auto simp: stamps_ok_def)
    qed (use kc in \<open>auto simp: not_idle_iff\<close>)
  qed
  with h' show ?thesis by (auto simp: remove_idle_conns_def)
qed

text \<open>
  C10. Removing idle connections always ends, never panics and keeps table and heap in step. It removes
  only connections without a packet for 120 seconds, leaves the others as they are and in place, and
  no connection survives it that has been without a packet for twice that time.
\<close>

theorem remove_idle_conns_exact:
  assumes "heap_sync (conns p) (access_times p)" and "stamps_ok (conns p) (access_times p)"
  shows "\<exists>p'. remove_idle_conns now p = Some p' \<and> heap_sync (conns p') (access_times p') \<and>
    stamps_ok (conns p') (access_times p') \<and> (\<exists>gone. conns p' = filter (\<lambda>kc. \<not> gone kc) (conns p) \<and>
      (\<forall>(k, c) \<in> set (conns p). gone (k, c) \<longrightarrow> is_idle now c)) \<and>
    (\<forall>(k, c) \<in> set (conns p'). now - last_access c < 2 * int IDLE_TIMEOUT)"
proof -
  let ?cs = "filter (\<lambda>kc. \<not> expired now (access_times p) kc) (conns p)"
  from remove_idle_conns_ok [OF assms, of now] obtain h' where
    h': "remove_idle_conns now p = Some (p\<lparr>conns := ?cs, access_times := h'\<rparr>)"
      "heap_sync ?cs h'" "stamps_ok ?cs h'" "\<forall>x \<in> set h'. \<not> may_be_idle now x" by blast
  have "now - last_access c < 2 * int IDLE_TIMEOUT" if kc: "(k, c) \<in> set ?cs" for k c
  proof -
    from kc have "k \<in> snd ` set h'" unfolding heap_sync_set [OF h'(2)] by force
    then obtain t where t: "(t, k) \<in> set h'" by auto
    with h'(4) have "\<not> may_be_idle now (t, k)" by blast
    moreover have "t < last_access c + int IDLE_TIMEOUT" using h'(3) t kc unfolding stamps_ok_def by blast
    ultimately show ?thesis unfolding young_iff by linarith
  qed
  moreover have "is_idle now c" if "expired now (access_times p) (k, c)" for k c
    using that by (simp add: expired_def)
  ultimately show ?thesis using h' by (auto intro!: exI [of _ "expired now (access_times p)"])
qed

theorem remove_idle_conns_exact_witness:
  "\<exists>p'. remove_idle_conns 200000000000 ((pemi_new 0)\<lparr>conns := [(conn_id_new (V4 1 2) (V4 3 4), sample_conn)],
      access_times := [(0, conn_id_new (V4 1 2) (V4 3 4))]\<rparr>) = Some p' \<and> heap_sync (conns p') (access_times p')"
  using remove_idle_conns_exact [of "(pemi_new 0)\<lparr>conns := [(conn_id_new (V4 1 2) (V4 3 4), sample_conn)],
      access_times := [(0, conn_id_new (V4 1 2) (V4 3 4))]\<rparr>" 200000000000]
  by (auto simp: heap_sync_def stamps_ok_def sample_conn_def conn_new_simp IDLE_TIMEOUT_def from_secs_def)

text \<open>
  The bound of two periods is reached: a connection whose entry was renewed at 120 s, because of a packet
  at 1 s, is still there 238 seconds after that packet.
\<close>

lemma idle_conn_kept:
  "remove_idle_conns 239000000000 ((pemi_new 0)\<lparr>conns := [(k, sample_conn\<lparr>last_access := 1000000000\<rparr>)],
      access_times := [(120000000000, k)]\<rparr>)
   = Some ((pemi_new 0)\<lparr>conns := [(k, sample_conn\<lparr>last_access := 1000000000\<rparr>)], access_times := [(120000000000, k)]\<rparr>)"
  by (simp add: remove_idle_conns_def remove_idle_loop.simps heap_peek_def may_be_idle_def duration_since_def
      IDLE_TIMEOUT_def from_secs_def)

end
