(* ===== verification/Conn_Frame.thy ===== *)
theory Conn_Frame
  imports Conn_Contract
begin

text \<open>
  What the operations of a connection leave alone, and the conservation of its datagrams: what is on the
  wire together with what the connection holds back only grows by the packet that came in.
\<close>

definition same_frame :: "conn \<Rightarrow> conn \<Rightarrow> bool" where
  "same_frame c c' \<longleftrightarrow> client_addr c' = client_addr c \<and> server_addr c' = server_addr c \<and>
     last_access c' = last_access c \<and> c_state c' = c_state c \<and> delayed_ack_queue c' = delayed_ack_queue c"

lemma same_frame_trans: "same_frame c c1 \<Longrightarrow> same_frame c1 c2 \<Longrightarrow> same_frame c c2"
  by (simp add: same_frame_def)

lemma update_client_rtt_frame: "update_client_rtt v now c = Some c' \<Longrightarrow> same_frame c c'"
  by (auto simp: update_client_rtt_def bind_eq_Some_conv same_frame_def)

lemma update_client_rtts_frame: "update_client_rtts vs now c = Some c' \<Longrightarrow> same_frame c c'"
  unfolding update_client_rtts_def
  by (erule foldO_invariant) (auto simp: same_frame_def dest: update_client_rtt_frame [unfolded same_frame_def])

lemma initial_rtt_frame: "initial_rtt now src c = Some c' \<Longrightarrow> same_frame c c'"
  by (auto simp: initial_rtt_def bind_eq_Some_conv update_server_rtt_def split: if_splits
      dest: update_client_rtt_frame) (simp_all add: same_frame_def)

lemma measure_dominant_direction_frame: "measure_dominant_direction now fc n c = Some c' \<Longrightarrow> same_frame c c'"
proof -
  have count: "same_frame c (count_packet fc n c)" by (simp add: count_packet_def same_frame_def)
  assume "measure_dominant_direction now fc n c = Some c'"
  then obtain b d where "c' = (if b then (count_packet fc n c)\<lparr>dominant_direction := d, last_dominant_check := now,
      server_bytes := 0, client_bytes := 0\<rparr> else count_packet fc n c)"
    unfolding measure_dominant_direction_def Let_def bind_eq_Some_conv option.inject by blast
  with count show ?thesis by (simp add: same_frame_def)
qed

lemma client_packet_frame: "client_packet now buf c = Some c' \<Longrightarrow> same_frame c c'"
proof -
  assume "client_packet now buf c = Some c'"
  then obtain c1 where c1: "record_for_server_rtt now buf c = Some c1" "reply_from_client now c1 = Some c'"
    by (auto simp: client_packet_def bind_eq_Some_conv)
  have "same_frame c c1"
    using c1(1) by (auto simp: record_for_server_rtt_def bind_eq_Some_conv same_frame_def split: if_splits)
  moreover have "same_frame c1 c'"
    using c1(2) by (auto simp: reply_from_client_def Let_def bind_eq_Some_conv split: option.splits
        dest!: update_client_rtts_frame) (simp_all add: same_frame_def)
  ultimately show ?thesis by (rule same_frame_trans)
qed

lemma server_packet_frame: "server_packet now buf c = Some (nf, c') \<Longrightarrow> same_frame c c'"
  by (auto simp: server_packet_def rate_check_def bind_eq_Some_conv same_frame_def split: if_splits)

lemma task_frame: "to_client_retrans_task c = Some (t, c') \<Longrightarrow> same_frame c c'"
  by (auto simp: to_client_retrans_task_eq same_frame_def)

lemma process_quic_packet_frame:
  assumes "process_quic_packet now buf src c = (r, c')"
  shows "client_addr c' = client_addr c" "server_addr c' = server_addr c" "delayed_ack_queue c' = delayed_ack_queue c"
    "last_access c' = now"
  using assms by (auto simp: process_quic_packet_def Let_def touch_def set_handshaked_def split: if_splits prod.splits outcome.splits)

text \<open>The datagrams a connection holds back.\<close>

definition held_back :: "conn \<Rightarrow> datagram multiset" where
  "held_back c = mset (map (ack_datagram c) (delayed_ack_queue c))"

lemma ack_datagram_cong:
  "client_addr c' = client_addr c \<Longrightarrow> server_addr c' = server_addr c \<Longrightarrow> ack_datagram c' = ack_datagram c"
  by (rule ext) (simp add: ack_datagram_def)

lemma held_back_frame: "same_frame c c' \<Longrightarrow> held_back c' = held_back c"
  using ack_datagram_cong [of c' c] by (simp add: held_back_def same_frame_def)

lemma check_delayed_acks_held:
  assumes "acks_ok c" and "check_delayed_acks now w c = Some (w', c')"
  shows "mset w' + held_back c' = mset w + held_back c" and "client_addr c' = client_addr c"
    and "server_addr c' = server_addr c" and "last_access c' = last_access c" and "c_state c' = c_state c"
proof -
  let ?q = "delayed_ack_queue c"
  have "mset (last ?q # butlast ?q) = mset ?q" if "overspeed c" "2 \<le> length ?q"
    using that by (intro mset_tail_first) auto
  then have "mset (map (ack_datagram c) (last ?q # butlast ?q)) = mset (map (ack_datagram c) ?q)"
    if "overspeed c" "2 \<le> length ?q" using that by (simp only: mset_map)
  then show "mset w' + held_back c' = mset w + held_back c" and "client_addr c' = client_addr c"
    and "server_addr c' = server_addr c" and "last_access c' = last_access c" and "c_state c' = c_state c"
    using check_delayed_acks_cases [OF assms(1), of now w] assms(2) by (auto simp: held_back_def)
qed

lemma process_udp_packet_held:
  assumes ok: "conn_ok now c" and now: "sane_clock now"
    and eq: "process_udp_packet now src buf w c = Some (nf, w', c')"
  shows "mset w' + held_back c' = mset w + held_back c" and "client_addr c' = client_addr c"
    and "server_addr c' = server_addr c" and "last_access c' = last_access c"
proof -
  from eq obtain c1 c2 c3 where c1: "initial_rtt now src c = Some c1"
    and c2: "measure_dominant_direction now (is_from_client src c) (length buf) c1 = Some c2"
    and c3: "client_packet now buf c2 = Some c3 \<or> server_packet now buf c2 = Some (nf, c3)"
    and c4: "check_delayed_acks now w c3 = Some (w', c')"
    by (auto simp: process_udp_packet_def bind_eq_Some_conv split: if_splits)
  have fr: "same_frame c c3"
    using initial_rtt_frame [OF c1] measure_dominant_direction_frame [OF c2] c3
      client_packet_frame [of now buf c2 c3] server_packet_frame [of now buf c2 nf c3] same_frame_trans by blast
  have "conn_ok now c2"
    using measure_dominant_direction_ok [OF initial_rtt_ok [OF ok now c1], of now "is_from_client src c" "length buf"] c2 by auto
  with c3 client_packet_ok [OF _ now] server_packet_ok [OF _ now] have "conn_ok now c3" by blast
  then have "acks_ok c3" by (simp add: conn_ok_def)
  from check_delayed_acks_held [OF this c4] held_back_frame [OF fr] fr
  show "mset w' + held_back c' = mset w + held_back c" and "client_addr c' = client_addr c"
    and "server_addr c' = server_addr c" and "last_access c' = last_access c" by (auto simp: same_frame_def)
qed

lemma add_delayed_ack_held:
  assumes ok: "conn_ok now c" and eq: "add_delayed_ack t payload w c = Some (w', c')"
  shows "mset w' + held_back c' = add_mset \<lparr>dg_src = nix_addr (client_addr c), dg_dst = nix_addr (server_addr c),
      dg_payload = payload\<rparr> (mset w + held_back c)" and "client_addr c' = client_addr c"
    and "server_addr c' = server_addr c" and "last_access c' = last_access c"
proof -
  from eq obtain e where e: "dur_add (client_rtt c) (server_rtt c) = Some e"
    and chk: "check_delayed_acks t w (c\<lparr>delayed_ack_queue := delayed_ack_queue c @
       [\<lparr>ack_forward_ts = t, ack_payload = payload, ack_e2e_rtt = e\<rparr>]\<rparr>) = Some (w', c')" (is "check_delayed_acks _ _ ?c = _")
    by (auto simp: add_delayed_ack_def bind_eq_Some_conv)
  have "e \<le> 2 * SANE" using e ok by (auto simp: dur_add_eq_Some conn_ok_def)
  with ok have "acks_ok ?c" by (auto simp: conn_ok_def acks_ok_def)
  note h = check_delayed_acks_held [OF this chk]
  have "ack_datagram ?c = ack_datagram c" by (rule ack_datagram_cong) simp_all
  then have "held_back ?c = add_mset \<lparr>dg_src = nix_addr (client_addr c), dg_dst = nix_addr (server_addr c),
      dg_payload = payload\<rparr> (held_back c)"
    by (simp add: held_back_def) (simp add: ack_datagram_def)
  with h show "mset w' + held_back c' = add_mset \<lparr>dg_src = nix_addr (client_addr c), dg_dst = nix_addr (server_addr c),
      dg_payload = payload\<rparr> (mset w + held_back c)" and "client_addr c' = client_addr c"
    and "server_addr c' = server_addr c" and "last_access c' = last_access c" by simp_all
qed

end
