(* ===== verification/Forwarding.thy ===== *)
theory Forwarding
  imports Idle_Conns Conn_Frame
begin

text \<open>
  The middlebox as a forwarder. Its abstract state is the multiset \<open>in_flight\<close> of the datagrams that are
  on the wire or held back; receiving a datagram adds it, unchanged and once. The theorems relate the
  handlers of \<open>pemi/src/lib.rs\<close> to this specification and carry the invariant \<open>pemi_ok\<close> of the
  connection table along.
\<close>

section \<open>The connection table\<close>

definition held :: "(conn_id \<times> conn) list \<Rightarrow> datagram multiset" where
  "held cs = sum_list (map (\<lambda>kc. held_back (snd kc)) cs)"

definition in_flight :: "pemi \<Rightarrow> datagram multiset" where
  "in_flight p = mset (wire p) + held (conns p)"

definition conn_entry_ok :: "instant \<Rightarrow> conn_id \<Rightarrow> conn \<Rightarrow> bool" where
  "conn_entry_ok now k c \<longleftrightarrow> conn_ok now c \<and> last_access c \<le> now \<and>
     k = conn_id_new (std_addr (client_addr c)) (std_addr (server_addr c))"

definition pemi_ok :: "instant \<Rightarrow> pemi \<Rightarrow> bool" where
  "pemi_ok now p \<longleftrightarrow> heap_sync (conns p) (access_times p) \<and> stamps_ok (conns p) (access_times p) \<and>
     (\<forall>(k, c) \<in> set (conns p). conn_entry_ok now k c) \<and>
     sane_factor (interval_factor p) \<and> sane_factor (end_factor p)"

lemma pemi_ok_new: "pemi_ok now (pemi_new clock)"
  by (simp add: pemi_ok_def pemi_new_def heap_sync_def stamps_ok_def sane_factor_def)

lemma conn_entry_later: "conn_entry_ok now k c \<Longrightarrow> now \<le> now' \<Longrightarrow> conn_entry_ok now' k c"
  by (auto simp: conn_entry_ok_def intro: conn_ok_later)

lemma pemi_ok_later: "pemi_ok now p \<Longrightarrow> now \<le> now' \<Longrightarrow> pemi_ok now' p"
  unfolding pemi_ok_def by (blast intro: conn_entry_later)

lemma pemi_ok_cong:
  "conns p' = conns p \<Longrightarrow> access_times p' = access_times p \<Longrightarrow> interval_factor p' = interval_factor p \<Longrightarrow>
    end_factor p' = end_factor p \<Longrightarrow> pemi_ok now p' \<longleftrightarrow> pemi_ok now p"
  by (simp add: pemi_ok_def)

lemma pemi_ok_distinct: "pemi_ok now p \<Longrightarrow> distinct (map fst (conns p))"
  by (simp add: pemi_ok_def heap_sync_def)

lemma pemi_ok_lookup:
  assumes "pemi_ok now p" and "map_of (conns p) k = Some c"
  shows "conn_entry_ok now k c"
  using assms map_of_SomeD [OF assms(2)] by (auto simp: pemi_ok_def)

lemma update_existing:
  "distinct (map fst cs) \<Longrightarrow> map_of cs k = Some c \<Longrightarrow>
    held (AList.update k c' cs) + held_back c = held cs + held_back c'"
  by (induction cs) (auto simp: held_def ac_simps)

lemma update_fresh: "map_of cs k = None \<Longrightarrow> AList.update k c cs = cs @ [(k, c)]"
  by (induction cs) (auto split: if_splits)

lemma in_update:
  assumes "distinct (map fst cs)" and "(j, d) \<in> set (AList.update k c cs)"
  shows "j = k \<and> d = c \<or> (j, d) \<in> set cs"
proof -
  have "map_of (AList.update k c cs) j = Some d"
    using assms by (simp add: distinct_update)
  then show ?thesis by (auto simp: update_conv' split: if_splits dest: map_of_SomeD)
qed

lemma put_conn_ok:
  assumes ok: "pemi_ok now p" and c: "map_of (conns p) k = Some c" and ok': "conn_ok now c'"
    and addr: "client_addr c' = client_addr c" "server_addr c' = server_addr c"
    and acc: "last_access c \<le> last_access c'" "last_access c' \<le> now"
  shows "pemi_ok now (put_conn k c' p)"
proof -
  note d = pemi_ok_distinct [OF ok]
  have k: "k \<in> fst ` set (conns p)" "(k, c) \<in> set (conns p)" using map_of_SomeD [OF c] by force+
  then have "map fst (AList.update k c' (conns p)) = map fst (conns p)" by (simp add: update_keys)
  then have "heap_sync (AList.update k c' (conns p)) (access_times p)"
    using ok by (simp add: pemi_ok_def heap_sync_def del: mset_map)
  moreover have "stamps_ok (AList.update k c' (conns p)) (access_times p)"
    unfolding stamps_ok_def
  proof (intro allI impI)
    fix t j e
    assume t: "(t, j) \<in> set (access_times p)" and e: "(j, e) \<in> set (AList.update k c' (conns p))"
    from in_update [OF d e] show "t < last_access e + int IDLE_TIMEOUT"
    proof
      assume "j = k \<and> e = c'"
      moreover have "t < last_access c + int IDLE_TIMEOUT" if "j = k"
        using ok t k(2) that unfolding pemi_ok_def stamps_ok_def by blast
      ultimately show ?thesis using acc(1) by auto
    qed (use ok t in \<open>unfold pemi_ok_def stamps_ok_def, blast\<close>)
  qed
  moreover have "conn_entry_ok now k c'"
    using pemi_ok_lookup [OF ok c] ok' addr acc by (simp add: conn_entry_ok_def)
  then have "\<forall>(j, e) \<in> set (AList.update k c' (conns p)). conn_entry_ok now j e"
    using ok in_update [OF d] unfolding pemi_ok_def by blast
  ultimately show ?thesis using ok by (simp add: pemi_ok_def put_conn_def)
qed

lemma new_conn_ok:
  assumes ok: "pemi_ok now p" and fresh: "map_of (conns p) k = None" and okc: "conn_ok now c"
    and k: "k = conn_id_new (std_addr (client_addr c)) (std_addr (server_addr c))" and acc: "last_access c = now"
  shows "pemi_ok now (new_conn k c now p)"
proof -
  let ?c = "conn_set_factors (interval_factor p) (end_factor p) c"
  have fields: "client_addr ?c = client_addr c" "server_addr ?c = server_addr c" "last_access ?c = now"
    using acc by (simp_all add: conn_set_factors_def)
  have kn: "k \<notin> fst ` set (conns p)" using fresh by (simp add: map_of_eq_None_iff)
  have cs: "conns (new_conn k c now p) = conns p @ [(k, ?c)]" "access_times (new_conn k c now p) = access_times p @ [(now, k)]"
    using fresh by (simp_all add: new_conn_def put_conn_def Let_def update_fresh heap_push_def)
  have "conn_entry_ok now k ?c"
    using conn_set_factors_ok [OF okc] ok k fields by (simp add: conn_entry_ok_def pemi_ok_def)
  moreover have "k \<notin> snd ` set (access_times p)"
    using heap_sync_set [of "conns p" "access_times p"] kn ok by (simp add: pemi_ok_def)
  then have "stamps_ok (conns p @ [(k, ?c)]) (access_times p @ [(now, k)])"
    using ok kn fields(3) unfolding pemi_ok_def stamps_ok_def
    by (auto simp: IDLE_TIMEOUT_def from_secs_def rev_image_eqI)
  moreover have "heap_sync (conns p @ [(k, ?c)]) (access_times p @ [(now, k)])"
    using ok kn by (simp add: pemi_ok_def heap_sync_def)
  moreover have "interval_factor (new_conn k c now p) = interval_factor p" "end_factor (new_conn k c now p) = end_factor p"
    by (simp_all add: new_conn_def put_conn_def Let_def)
  ultimately show ?thesis using ok unfolding pemi_ok_def cs by auto
qed

section \<open>Tracking the handshake changes no datagram\<close>

text \<open>What handshake tracking leaves alone.\<close>

definition same_rest :: "pemi \<Rightarrow> pemi \<Rightarrow> bool" where
  "same_rest p p' \<longleftrightarrow> wire p' = wire p \<and> pings p' = pings p \<and> pemi_stats p' = pemi_stats p \<and>
     retrans_tasks p' = retrans_tasks p \<and> proxy_only p' = proxy_only p \<and> interval_factor p' = interval_factor p \<and>
     end_factor p' = end_factor p \<and> retrans_rate_limit p' = retrans_rate_limit p \<and> held (conns p') = held (conns p) \<and>
     sent_requests (detector p') = sent_requests (detector p)"

lemma same_rest_trans: "same_rest p p1 \<Longrightarrow> same_rest p1 p2 \<Longrightarrow> same_rest p p2"
  by (simp add: same_rest_def)

definition others_same :: "conn_id \<Rightarrow> pemi \<Rightarrow> pemi \<Rightarrow> bool" where
  "others_same k p p' \<longleftrightarrow> (\<forall>j. j \<noteq> k \<longrightarrow> map_of (conns p') j = map_of (conns p) j)"

lemma others_same_trans: "others_same k p p1 \<Longrightarrow> others_same k p1 p2 \<Longrightarrow> others_same k p p2"
  by (simp add: others_same_def)

lemma put_conn_others: "others_same k p (put_conn k c p)"
  by (simp add: others_same_def put_conn_def update_conv')

definition accessed :: "instant \<Rightarrow> conn_id \<Rightarrow> pemi \<Rightarrow> bool" where
  "accessed now k p \<longleftrightarrow> (\<exists>c. map_of (conns p) k = Some c \<and> last_access c = now)"

lemma conn_new_fields:
  assumes "conn_new ks now src dst = Some c"
  shows "std_addr (client_addr c) = src" "std_addr (server_addr c) = dst" "last_access c = now" "held_back c = {#}"
  using assms by (auto simp: conn_new_def bind_eq_Some_conv from_std_addr_eq held_back_def split: prod.splits)

lemma new_conn_step:
  assumes ok: "pemi_ok now p" and fresh: "map_of (conns p) k = None" and k: "k = conn_id_new src dst"
    and new: "conn_new ks now src dst = Some c" and ks: "sane_clock (fst ks)" "sane_clock (fst (snd ks))"
    and p'_def: "p' = (new_conn k c now p)\<lparr>detector := fresh_begin_time now (detector (new_conn k c now p))\<rparr>"
  shows "pemi_ok now p' \<and> same_rest p p' \<and> others_same k p p' \<and> accessed now k p'"
proof -
  obtain k1 k2 k3 k4 where "ks = (k1, k2, k3, k4)" by (metis prod.exhaust)
  with new ks have "conn_ok now c" using conn_new_ok by auto
  from new_conn_ok [OF ok fresh this] conn_new_fields [OF new] k have "pemi_ok now (new_conn k c now p)" by simp
  then have "pemi_ok now p'" unfolding p'_def by (subst pemi_ok_cong) auto
  moreover have "held_back (conn_set_factors a b c) = {#}" for a b
    using conn_new_fields(4) [OF new] by (simp add: held_back_def conn_set_factors_def)
  then have "same_rest p p'"
    using fresh by (simp add: same_rest_def p'_def new_conn_def put_conn_def Let_def update_fresh held_def fresh_begin_time_def)
  moreover have "accessed now k p'"
    using conn_new_fields(3) [OF new] by (simp add: accessed_def p'_def new_conn_def put_conn_def Let_def update_conv' conn_set_factors_def)
  moreover have "others_same k p p'"
    by (simp add: others_same_def p'_def new_conn_def put_conn_def Let_def update_conv')
  ultimately show ?thesis by simp
qed

lemma known_conn_step:
  assumes ok: "pemi_ok now p" and c: "map_of (conns p) k = Some c" and q: "process_quic_packet now buf src c = (r, c')"
  shows "pemi_ok now (put_conn k c' p) \<and> same_rest p (put_conn k c' p) \<and> others_same k p (put_conn k c' p) \<and>
    accessed now k (put_conn k c' p)"
proof -
  note e = pemi_ok_lookup [OF ok c] and f = process_quic_packet_frame [OF q]
  have "pemi_ok now (put_conn k c' p)"
    using e f process_quic_packet_ok [OF _ q] by (intro put_conn_ok [OF ok c]) (auto simp: conn_entry_ok_def)
  moreover have "held_back c' = held_back c" using f ack_datagram_cong [of c' c] by (simp add: held_back_def)
  then have "same_rest p (put_conn k c' p)"
    using update_existing [OF pemi_ok_distinct [OF ok] c, of c'] by (simp add: same_rest_def put_conn_def)
  moreover have "accessed now k (put_conn k c' p)" using f(4) by (simp add: accessed_def put_conn_def update_conv')
  ultimately show ?thesis using put_conn_others by simp
qed

lemma quic_conn_process_ok:
  assumes "quic_conn_process ks k now src dst rest p = (r, p')" and "pemi_ok now p" and "k = conn_id_new src dst"
    and "sane_clock (fst ks)" and "sane_clock (fst (snd ks))"
  shows "pemi_ok now p' \<and> same_rest p p' \<and> others_same k p p' \<and> (r = Ok () \<longrightarrow> rest \<noteq> [] \<or> accessed now k p \<longrightarrow> accessed now k p')"
  using assms
proof (induction ks k now src dst rest p arbitrary: r p' rule: quic_conn_process.induct)
  case (1 ks k now src dst rest p)
  show ?case
  proof (cases "rest = []")
    case True
    with 1(3,4) show ?thesis by (subst (asm) quic_conn_process.simps) (auto simp: same_rest_def others_same_def)
  next
    case ne: False
    show ?thesis
    proof (cases "map_of (conns p) k")
      case None
      show ?thesis
      proof (cases "first_quic_packet ks now src dst rest")
        case (Ok x)
        obtain c read where x: "x = (c, read)" by fastforce
        let ?p = "(new_conn k c now p)\<lparr>detector := fresh_begin_time now (detector (new_conn k c now p))\<rparr>"
        from Ok x first_quic_packet_read [of ks now src dst rest c read] have "conn_new ks now src dst = Some c" by simp
        note st = new_conn_step [OF 1(4) None 1(5) this 1(6,7) refl]
        from 1(3) ne None Ok x have "quic_conn_process ks k now src dst (drop read rest) ?p = (r, p')"
          by (subst (asm) quic_conn_process.simps) (simp add: Let_def)
        from 1(1) [OF ne None Ok x [symmetric] refl refl this _ 1(5,6,7)] st same_rest_trans others_same_trans show ?thesis by blast
      qed (use 1(3,4) ne None in \<open>subst (asm) quic_conn_process.simps, auto simp: same_rest_def others_same_def\<close>)+
    next
      case (Some c)
      obtain rr c' where q: "process_quic_packet now rest src c = (rr, c')" by fastforce
      note st = known_conn_step [OF 1(4) Some q]
      show ?thesis
      proof (cases rr)
        case (Ok read)
        from 1(3) ne Some q Ok have "quic_conn_process ks k now src dst (drop read rest) (put_conn k c' p) = (r, p')"
          by (subst (asm) quic_conn_process.simps) simp
        from 1(2) [OF ne Some _ Ok this _ 1(5,6,7)] q st same_rest_trans others_same_trans show ?thesis by (metis (no_types, lifting))
      qed (use 1(3) ne Some q st in \<open>subst (asm) quic_conn_process.simps, auto\<close>)+
    qed
  qed
qed

section \<open>One datagram\<close>

definition datagram_of :: "addr \<Rightarrow> addr \<Rightarrow> bytes \<Rightarrow> datagram" where
  "datagram_of srcaddr dstaddr buf = \<lparr>dg_src = nix_addr srcaddr, dg_dst = nix_addr dstaddr, dg_payload = buf\<rparr>"

lemma addr_ok_eq: "addr_ok a \<Longrightarrow> addr_ok b \<Longrightarrow> std_addr a = std_addr b \<Longrightarrow> nix_addr a = nix_addr b"
  by (auto simp: addr_ok_def to_std_addr_def)

text \<open>A packet of the client travels between the two addresses of its connection.\<close>

lemma from_client_addrs:
  assumes "conn_entry_ok now (conn_id_new (std_addr s) (std_addr d)) c" and "is_from_client (std_addr s) c"
    and "addr_ok s" and "addr_ok d"
  shows "nix_addr (client_addr c) = nix_addr s" and "nix_addr (server_addr c) = nix_addr d"
proof -
  have "addr_ok (client_addr c)" "addr_ok (server_addr c)"
    using assms(1) by (simp_all add: conn_entry_ok_def conn_ok_def)
  moreover have "std_addr (client_addr c) = std_addr s" "std_addr (server_addr c) = std_addr d"
    using assms(1,2) by (auto simp: conn_entry_ok_def is_from_client_def conn_id_new_eq)
  ultimately show "nix_addr (client_addr c) = nix_addr s" and "nix_addr (server_addr c) = nix_addr d"
    using addr_ok_eq assms(3,4) by blast+
qed

lemma pemi_udp_packet_ok:
  assumes e: "conn_entry_ok now (conn_id_new (std_addr s) (std_addr d)) c" and now: "sane_clock now"
    and s: "addr_ok s" and d: "addr_ok d" and eq: "pemi_udp_packet ic buf now s d c p = Some (c1, p1)"
  shows "mset (wire p1) + held_back c1 = add_mset (datagram_of s d buf) (mset (wire p) + held_back c)"
    and "conn_ok now c1" and "client_addr c1 = client_addr c" and "server_addr c1 = server_addr c"
    and "last_access c1 = last_access c" and "conns p1 = conns p" and "access_times p1 = access_times p"
    and "interval_factor p1 = interval_factor p" and "end_factor p1 = end_factor p"
proof -
  have ok: "conn_ok now c" using e by (simp add: conn_entry_ok_def)
  have "(mset (wire p1) + held_back c1 = add_mset (datagram_of s d buf) (mset (wire p) + held_back c) \<and>
    conn_ok now c1 \<and> client_addr c1 = client_addr c \<and> server_addr c1 = server_addr c \<and> last_access c1 = last_access c) \<and>
    conns p1 = conns p \<and> access_times p1 = access_times p \<and> interval_factor p1 = interval_factor p \<and> end_factor p1 = end_factor p"
  proof (cases "proxy_only p")
    case True
    with eq ok show ?thesis by (auto simp: pemi_udp_packet_def datagram_of_def)
  next
    case False
    from eq False obtain w1 c2 nf w2 where
      w1: "(if need_reorder_ack (std_addr s) c then add_delayed_ack now buf (wire p) c
            else Some (send_transparently (nix_addr s) (nix_addr d) buf (wire p), c)) = Some (w1, c2)"
      and w2: "process_udp_packet now (std_addr s) buf w1 c2 = Some (nf, w2, c1)"
      and p1: "wire p1 = w2" "conns p1 = conns p" "access_times p1 = access_times p"
        "interval_factor p1 = interval_factor p" "end_factor p1 = end_factor p"
      unfolding pemi_udp_packet_def by (auto simp: bind_eq_Some_conv Let_def split: prod.splits if_splits)
    have one: "mset w1 + held_back c2 = add_mset (datagram_of s d buf) (mset (wire p) + held_back c) \<and>
      conn_ok now c2 \<and> client_addr c2 = client_addr c \<and> server_addr c2 = server_addr c \<and> last_access c2 = last_access c"
    proof (cases "need_reorder_ack (std_addr s) c")
      case True
      with w1 have a: "add_delayed_ack now buf (wire p) c = Some (w1, c2)" by simp
      have "is_from_client (std_addr s) c" using True by (simp add: need_reorder_ack_def)
      note f = from_client_addrs [OF e this s d]
      show ?thesis using add_delayed_ack_held [OF ok a] add_delayed_ack_ok [OF ok a] f by (simp add: datagram_of_def)
    next
      case False
      with w1 ok show ?thesis by (auto simp: datagram_of_def)
    qed
    then have ok2: "conn_ok now c2" by simp
    from one process_udp_packet_held [OF ok2 now w2] process_udp_packet_ok [OF ok2 now w2] p1 show ?thesis by simp
  qed
  then show "mset (wire p1) + held_back c1 = add_mset (datagram_of s d buf) (mset (wire p) + held_back c)"
    and "conn_ok now c1" and "client_addr c1 = client_addr c" and "server_addr c1 = server_addr c"
    and "last_access c1 = last_access c" and "conns p1 = conns p" and "access_times p1 = access_times p"
    and "interval_factor p1 = interval_factor p" and "end_factor p1 = end_factor p" by blast+
qed

lemma held_partition: "held cs = held (filter (\<lambda>x. \<not> P x) cs) + held (filter P cs)"
  by (induction cs) (auto simp: held_def ac_simps)

lemma remove_idle_pemi_ok:
  assumes "pemi_ok now p"
  shows "\<exists>h'. remove_idle_conns now p = Some (p\<lparr>conns := filter (\<lambda>kc. \<not> expired now (access_times p) kc) (conns p),
      access_times := h'\<rparr>) \<and>
    pemi_ok now (p\<lparr>conns := filter (\<lambda>kc. \<not> expired now (access_times p) kc) (conns p), access_times := h'\<rparr>)"
proof -
  from remove_idle_conns_ok [of p now] assms obtain h' where
    "remove_idle_conns now p = Some (p\<lparr>conns := filter (\<lambda>kc. \<not> expired now (access_times p) kc) (conns p), access_times := h'\<rparr>)"
    "heap_sync (filter (\<lambda>kc. \<not> expired now (access_times p) kc) (conns p)) h'"
    "stamps_ok (filter (\<lambda>kc. \<not> expired now (access_times p) kc) (conns p)) h'" by (auto simp: pemi_ok_def)
  with assms show ?thesis by (auto simp: pemi_ok_def)
qed

lemma forward_packet_ok:
  assumes ok: "pemi_ok now p" and c: "map_of (conns p) (conn_id_new (std_addr s) (std_addr d)) = Some c"
    and now: "sane_clock now" and s: "addr_ok s" and d: "addr_ok d"
    and eq: "forward_packet ic buf now s d (conn_id_new (std_addr s) (std_addr d)) p = Some p'"
  shows "pemi_ok now p' \<and> (\<exists>gone. in_flight p' + held gone = add_mset (datagram_of s d buf) (in_flight p) \<and>
    (\<forall>(j, b) \<in> set gone. is_idle now b \<and> (last_access c = now \<longrightarrow> map_of (conns p) j = Some b)))"
proof -
  let ?k = "conn_id_new (std_addr s) (std_addr d)"
  from eq c obtain c1 p1 t c2 where c1: "pemi_udp_packet ic buf now s d c p = Some (c1, p1)"
    and c2: "to_client_retrans_task c1 = Some (t, c2)"
    and p': "remove_idle_conns now (push_task t (put_conn ?k c2 p1)) = Some p'"
    by (auto simp: forward_packet_def bind_eq_Some_conv)
  note e = pemi_ok_lookup [OF ok c]
  note u = pemi_udp_packet_ok [OF e now s d c1]
  note f = task_frame [OF c2, unfolded same_frame_def]
  have ok1: "pemi_ok now p1" and cp1: "map_of (conns p1) ?k = Some c" using ok u c by (simp_all add: pemi_ok_def)
  define p2 where "p2 = push_task t (put_conn ?k c2 p1)"
  have p2: "conns p2 = AList.update ?k c2 (conns p1)" "wire p2 = wire p1"
    by (simp_all add: p2_def push_task_def put_conn_def split: option.splits)
  have "pemi_ok now (put_conn ?k c2 p1)"
    using u f e retrans_task_ok [OF u(2) c2] by (intro put_conn_ok [OF ok1 cp1]) (auto simp: conn_entry_ok_def)
  then have ok2: "pemi_ok now p2" unfolding p2_def push_task_def by (auto simp: pemi_ok_def split: option.splits)
  have "in_flight p2 + held_back c = add_mset (datagram_of s d buf) (in_flight p) + held_back c"
  proof -
    have "in_flight p2 + held_back c = mset (wire p1) + (held (AList.update ?k c2 (conns p1)) + held_back c)"
      by (simp only: in_flight_def p2 add.assoc)
    also have "\<dots> = held (conns p) + (mset (wire p1) + held_back c1)"
      using update_existing [OF pemi_ok_distinct [OF ok1] cp1, of c2] held_back_frame [OF task_frame [OF c2]]
      by (simp add: u(6) ac_simps)
    also have "\<dots> = add_mset (datagram_of s d buf) (in_flight p) + held_back c"
      by (simp only: u(1)) (simp add: in_flight_def ac_simps)
    finally show ?thesis .
  qed
  then have fl: "in_flight p2 = add_mset (datagram_of s d buf) (in_flight p)" by simp
  let ?gone = "filter (expired now (access_times p2)) (conns p2)"
  from remove_idle_pemi_ok [OF ok2] p' obtain h' where h': "pemi_ok now p'"
    "p' = p2\<lparr>conns := filter (\<lambda>kc. \<not> expired now (access_times p2) kc) (conns p2), access_times := h'\<rparr>"
    by (auto simp: p2_def)
  have "in_flight p' + held ?gone = in_flight p2"
    using held_partition [of "conns p2" "expired now (access_times p2)"] by (simp add: in_flight_def h'(2) ac_simps)
  moreover have "is_idle now b \<and> (last_access c = now \<longrightarrow> map_of (conns p) j = Some b)" if "(j, b) \<in> set ?gone" for j b
  proof -
    from that have idle: "is_idle now b" and "(j, b) \<in> set (conns p2)" by (auto simp: expired_def)
    then have "map_of (AList.update ?k c2 (conns p1)) j = Some b"
      using pemi_ok_distinct [OF ok2] p2(1) by simp
    then have "map_of (conns p) j = Some b" if "last_access c = now"
      using idle that f u by (auto simp: update_conv' is_idle_def IDLE_TIMEOUT_def from_secs_def split: if_splits)
    with idle show ?thesis by blast
  qed
  ultimately show ?thesis using h'(1) fl by (auto intro!: exI [of _ ?gone])
qed

lemma process_packet_pemi_ok:
  assumes ok: "pemi_ok t p" and t: "t \<le> now" and now: "sane_clock now"
    and ks: "sane_clock (fst ks)" "sane_clock (fst (snd ks))" and s: "addr_ok s" and d: "addr_ok d"
    and eq: "process_packet ks ic buf now s d p = (Ok (), p')"
  shows "pemi_ok now p'"
proof -
  let ?k = "conn_id_new (std_addr s) (std_addr d)"
  let ?p = "p\<lparr>pemi_stats := new_pkt (pemi_stats p)\<rparr>"
  obtain r p1 where q: "quic_conn_process ks ?k now (std_addr s) (std_addr d) buf ?p = (r, p1)" by fastforce
  have "pemi_ok now ?p" using pemi_ok_later [OF ok t] by (simp add: pemi_ok_def)
  from quic_conn_process_ok [OF q this refl ks] have p1: "pemi_ok now p1" by blast
  show ?thesis
  proof (cases r)
    case (Ok u)
    with eq q have f: "forward_packet ic buf now s d ?k p1 = Some p'"
      by (auto simp: process_packet_def Let_def split: option.splits)
    then obtain c where "map_of (conns p1) ?k = Some c" by (auto simp: forward_packet_def bind_eq_Some_conv)
    from forward_packet_ok [OF p1 this now s d f] show ?thesis by blast
  qed (use eq q p1 in \<open>auto simp: process_packet_def Let_def pemi_ok_def split: if_splits\<close>)
qed

lemma process_packet_ok:
  assumes ok: "pemi_ok t p" and t: "t \<le> now" and now: "sane_clock now"
    and ks: "sane_clock (fst ks)" "sane_clock (fst (snd ks))" and s: "addr_ok s" and d: "addr_ok d" and ne: "buf \<noteq> []"
    and eq: "process_packet ks ic buf now s d p = (Ok (), p')"
  shows "pemi_ok now p' \<and> (\<exists>gone. in_flight p' + held gone = add_mset (datagram_of s d buf) (in_flight p) \<and>
    (\<forall>(j, b) \<in> set gone. is_idle now b \<and> j \<noteq> conn_id_new (std_addr s) (std_addr d) \<and> map_of (conns p) j = Some b))"
proof -
  let ?k = "conn_id_new (std_addr s) (std_addr d)"
  let ?p = "p\<lparr>pemi_stats := new_pkt (pemi_stats p)\<rparr>"
  obtain r p1 where q: "quic_conn_process ks ?k now (std_addr s) (std_addr d) buf ?p = (r, p1)" by fastforce
  have "pemi_ok now ?p" using pemi_ok_later [OF ok t] by (simp add: pemi_ok_def)
  from quic_conn_process_ok [OF q this refl ks] ne have
    p1: "pemi_ok now p1" "same_rest ?p p1" "others_same ?k ?p p1" "r = Ok () \<Longrightarrow> accessed now ?k p1" by auto
  have fl: "in_flight p1 = in_flight p" using p1(2) by (simp add: in_flight_def same_rest_def)
  show ?thesis
  proof (cases r)
    case (Ok u)
    with p1(4) obtain c where c: "map_of (conns p1) ?k = Some c" "last_access c = now" by (auto simp: accessed_def)
    from eq q Ok have "forward_packet ic buf now s d ?k p1 = Some p'"
      by (auto simp: process_packet_def Let_def split: option.splits)
    from forward_packet_ok [OF p1(1) c(1) now s d this] c(2) fl obtain gone where
      g: "pemi_ok now p'" "in_flight p' + held gone = add_mset (datagram_of s d buf) (in_flight p)"
        "\<forall>(j, b) \<in> set gone. is_idle now b \<and> map_of (conns p1) j = Some b" by auto
    have "j \<noteq> ?k \<and> map_of (conns p) j = Some b" if "(j, b) \<in> set gone" for j b
    proof -
      from g(3) that have jb: "is_idle now b" "map_of (conns p1) j = Some b" by auto
      have "\<not> is_idle now c" using c(2) by (simp add: is_idle_def IDLE_TIMEOUT_def from_secs_def)
      with jb c(1) have "j \<noteq> ?k" by auto
      with p1(3) jb(2) show ?thesis by (simp add: others_same_def)
    qed
    with g show ?thesis by blast
  next
    case (Err e)
    with eq q have "e = InvalidState \<or> e = MayNotQUIC"
      "p' = p1\<lparr>wire := send_transparently (nix_addr s) (nix_addr d) buf (wire p1)\<rparr>"
      by (auto simp: process_packet_def Let_def split: if_splits)
    then have "in_flight p' + held [] = add_mset (datagram_of s d buf) (in_flight p)" "pemi_ok now p'"
      using fl p1(1) by (simp_all add: in_flight_def datagram_of_def held_def pemi_ok_def)
    then show ?thesis by (intro conjI exI [of _ "[]"]) auto
  next
    case Panic
    with eq q show ?thesis by (simp add: process_packet_def Let_def)
  qed
qed

section \<open>Properties\<close>

text \<open>
  C2. PEMI is a transparent forwarder. With the datagrams on the wire and those held back as its abstract
  state, processing a received datagram without an error adds exactly that datagram, unchanged, with its
  source and destination: none is lost, altered, repeated or made up, whatever the datagram contains,
  QUIC or not, with or without the enhancement, and the invariant of the connection table is kept. Only
  the ACKs still held back of other connections, removed at that moment because they are idle, are given up.
\<close>

theorem process_packet_forwards:
  assumes "pemi_ok t p" and "t \<le> now" and "sane_clock now" and "sane_clock (fst ks)" and "sane_clock (fst (snd ks))"
    and "addr_ok s" and "addr_ok d" and "buf \<noteq> []" and "process_packet ks ic buf now s d p = (Ok (), p')"
  shows "pemi_ok now p' \<and> (\<exists>gone. in_flight p' + held gone = add_mset (datagram_of s d buf) (in_flight p) \<and>
    (\<forall>(j, b) \<in> set gone. is_idle now b \<and> j \<noteq> conn_id_new (std_addr s) (std_addr d) \<and> map_of (conns p) j = Some b))"
  by (rule process_packet_ok [OF assms])

text \<open>A datagram that starts with a short header, from an unknown address.\<close>

lemma stray_packet:
  "process_packet (0, 0, 0, 0) 5 [0x40, 1] 7 (from_nix_addr \<lparr>sin_addr = 1, sin_port = 2\<rparr>) (from_nix_addr \<lparr>sin_addr = 3, sin_port = 4\<rparr>)
     (pemi_new 0) = (Ok (), (pemi_new 0)\<lparr>pemi_stats := \<lparr>st_pkts = 1, st_retrans_pkts = 0\<rparr>,
        wire := [\<lparr>dg_src = \<lparr>sin_addr = 1, sin_port = 2\<rparr>, dg_dst = \<lparr>sin_addr = 3, sin_port = 4\<rparr>, dg_payload = [0x40, 1]\<rparr>]\<rparr>)"
proof -
  have "from_bytes 0 (with_slice [0x40, 1]) = (Err InvalidState, \<lparr>o_buf = [0x40, 1], o_off = 1\<rparr>)" by code_simp
  then show ?thesis
    by (simp add: process_packet_def Let_def quic_conn_process.simps first_quic_packet_def pemi_new_def new_pkt_def stats_new_def
        from_nix_addr_def and_then_def)
qed

theorem process_packet_forwards_witness:
  "\<exists>p'. process_packet (0, 0, 0, 0) 5 [0x40, 1] 7 (from_nix_addr \<lparr>sin_addr = 1, sin_port = 2\<rparr>)
      (from_nix_addr \<lparr>sin_addr = 3, sin_port = 4\<rparr>) (pemi_new 0) = (Ok (), p') \<and> pemi_ok 7 p'"
  using process_packet_forwards [OF pemi_ok_new [of 0] _ _ _ _ from_nix_addr_ok from_nix_addr_ok _ stray_packet] stray_packet
  by (simp add: sane_clock_iff)

end
