(* ===== verification/Retransmission.thy ===== *)
theory Retransmission
  imports Forwarding "HOL-Library.Sublist"
begin

text \<open>
  Retransmission by the middlebox (\<open>process_retrans_task\<close> of \<open>pemi/src/lib.rs\<close>): what is put on the wire,
  that the bookkeeping does not panic, and the rate limit.
\<close>

section \<open>One packet\<close>

definition retrans_datagram :: "sockaddr_in \<Rightarrow> sockaddr_in \<Rightarrow> raw_udp_packet \<Rightarrow> datagram" where
  "retrans_datagram src dst pkt = \<lparr>dg_src = src, dg_dst = dst, dg_payload = raw_payload pkt\<rparr>"

lemma pemi_record_retrans_frame:
  assumes "pemi_record_retrans_packet now a b p = Some p'"
  shows "wire p' = wire p" and "pemi_stats p' = pemi_stats p" and "retrans_tasks p' = retrans_tasks p"
    and "retrans_rate_limit p' = retrans_rate_limit p" and "held (conns p') = held (conns p) \<or> \<not> distinct (map fst (conns p))"
proof -
  from assms obtain c c' where c: "map_of (conns p) (conn_id_new a b) = Some c"
    "conn_record_retrans_packet now a c = Some c'" "p' = put_conn (conn_id_new a b) c' p"
    by (auto simp: pemi_record_retrans_packet_def Let_def bind_eq_Some_conv)
  then show "wire p' = wire p" and "pemi_stats p' = pemi_stats p" and "retrans_tasks p' = retrans_tasks p"
    and "retrans_rate_limit p' = retrans_rate_limit p" by (simp_all add: put_conn_def)
  have "same_frame c c'"
    using c(2) by (auto simp: conn_record_retrans_packet_def bind_eq_Some_conv same_frame_def split: if_splits)
  then have "held_back c' = held_back c" by (rule held_back_frame)
  with update_existing [of "conns p", OF _ c(1), of c'] show "held (conns p') = held (conns p) \<or> \<not> distinct (map fst (conns p))"
    by (auto simp: c(3) put_conn_def)
qed

text \<open>A packet is either skipped, because the rate limit is reached, or sent once and counted.\<close>

lemma retransmit_one_cases:
  assumes "retransmit_one src dst a b (now, pkt) p = Some p'"
  shows "match_retrans_limit p \<and> pkts p > 100 \<and> p' = p \<or>
    \<not> (match_retrans_limit p \<and> pkts p > 100) \<and> wire p' = wire p @ [retrans_datagram src dst pkt] \<and>
      pemi_stats p' = new_retrans_pkt (pemi_stats p) \<and> retrans_tasks p' = retrans_tasks p \<and>
      retrans_rate_limit p' = retrans_rate_limit p"
  using assms pemi_record_retrans_frame [of now a b "p\<lparr>wire := wire p @ [retrans_datagram src dst pkt],
      pemi_stats := new_retrans_pkt (pemi_stats p)\<rparr>" p']
  by (auto simp: retransmit_one_def retrans_datagram_def split: if_splits)

lemma retransmit_one_ok:
  assumes ok: "pemi_ok now p" and t: "sane_clock t" and eq: "retransmit_one src dst a b (t, pkt) p = Some p'"
  shows "pemi_ok now p'"
proof (cases "match_retrans_limit p \<and> pkts p > 100")
  case False
  let ?p = "p\<lparr>wire := wire p @ [retrans_datagram src dst pkt], pemi_stats := new_retrans_pkt (pemi_stats p)\<rparr>"
  from eq False obtain c c' where c: "map_of (conns p) (conn_id_new a b) = Some c"
    "conn_record_retrans_packet t a c = Some c'" "p' = put_conn (conn_id_new a b) c' ?p"
    by (auto simp: retransmit_one_def pemi_record_retrans_packet_def Let_def bind_eq_Some_conv retrans_datagram_def)
  have "same_frame c c'"
    using c(2) by (auto simp: conn_record_retrans_packet_def bind_eq_Some_conv same_frame_def split: if_splits)
  moreover note e = pemi_ok_lookup [OF ok c(1)]
  moreover have "conn_ok now c'" using record_retrans_ok [OF _ t c(2)] e by (simp add: conn_entry_ok_def)
  moreover have "pemi_ok now ?p" using ok by (simp add: pemi_ok_def)
  ultimately show ?thesis unfolding c(3) using c(1)
    by (intro put_conn_ok [of now ?p _ c]) (auto simp: same_frame_def conn_entry_ok_def)
qed (use ok eq in \<open>auto simp: retransmit_one_def\<close>)

section \<open>A task\<close>

lemma retransmits:
  assumes "foldO (retransmit_one src dst a b) xs p = Some p'"
  shows "\<exists>sent. subseq sent (map snd xs) \<and> wire p' = wire p @ map (retrans_datagram src dst) sent \<and>
    pemi_stats p' = (pemi_stats p)\<lparr>st_retrans_pkts := st_retrans_pkts (pemi_stats p) + length sent\<rparr> \<and>
    retrans_tasks p' = retrans_tasks p \<and> retrans_rate_limit p' = retrans_rate_limit p"
  using assms
proof (induction xs arbitrary: p)
  case (Cons x xs)
  obtain now pkt where x: "x = (now, pkt)" by fastforce
  from Cons.prems obtain p1 where p1: "retransmit_one src dst a b (now, pkt) p = Some p1"
    and "foldO (retransmit_one src dst a b) xs p1 = Some p'" by (auto simp: x bind_eq_Some_conv)
  from Cons.IH [OF this(2)] obtain sent where
    s: "subseq sent (map snd xs)" "wire p' = wire p1 @ map (retrans_datagram src dst) sent"
    "pemi_stats p' = (pemi_stats p1)\<lparr>st_retrans_pkts := st_retrans_pkts (pemi_stats p1) + length sent\<rparr>"
    "retrans_tasks p' = retrans_tasks p1" "retrans_rate_limit p' = retrans_rate_limit p1" by blast
  from retransmit_one_cases [OF p1] show ?case
  proof
    assume "match_retrans_limit p \<and> pkts p > 100 \<and> p1 = p"
    with s x show ?thesis by (intro exI [of _ sent]) auto
  next
    assume "\<not> (match_retrans_limit p \<and> pkts p > 100) \<and> wire p1 = wire p @ [retrans_datagram src dst pkt] \<and>
      pemi_stats p1 = new_retrans_pkt (pemi_stats p) \<and> retrans_tasks p1 = retrans_tasks p \<and>
      retrans_rate_limit p1 = retrans_rate_limit p"
    with s x show ?thesis by (intro exI [of _ "pkt # sent"]) (auto simp: new_retrans_pkt_def)
  qed
qed simp

lemma process_retrans_task_spec:
  assumes "process_retrans_task clock t p = Some p'"
  shows "\<exists>src dst sent. task_src t = to_std_addr src \<and> task_dst t = to_std_addr dst \<and> subseq sent (retrans_queue t) \<and>
    wire p' = wire p @ map (retrans_datagram src dst) sent \<and>
    pemi_stats p' = (pemi_stats p)\<lparr>st_retrans_pkts := st_retrans_pkts (pemi_stats p) + length sent\<rparr> \<and>
    retrans_tasks p' = retrans_tasks p \<and> retrans_rate_limit p' = retrans_rate_limit p"
proof -
  have snds: "map snd (map (\<lambda>(i, pkt). (clock i, pkt)) (enumerate 0 (retrans_queue t))) = retrans_queue t"
    by (simp add: comp_def case_prod_beta)
  from assms obtain src dst where a: "task_src t = to_std_addr src" "task_dst t = to_std_addr dst"
    and "foldO (retransmit_one src dst (task_src t) (task_dst t)) (map (\<lambda>(i, pkt). (clock i, pkt)) (enumerate 0 (retrans_queue t))) p = Some p'"
    unfolding process_retrans_task_def bind_eq_Some_conv to_nix_addr_eq by blast
  from retransmits [OF this(3)] a show ?thesis unfolding snds by blast
qed

lemma process_retrans_task_ok:
  assumes "process_retrans_task clock t p = Some p'" and "pemi_ok now p" and "\<forall>i. sane_clock (clock i)"
  shows "pemi_ok now p'"
proof -
  from assms(1) obtain src dst where
    f: "foldO (retransmit_one src dst (task_src t) (task_dst t)) (map (\<lambda>(i, pkt). (clock i, pkt)) (enumerate 0 (retrans_queue t))) p = Some p'"
    unfolding process_retrans_task_def bind_eq_Some_conv by blast
  show ?thesis
    by (rule foldO_invariant [OF f, of "pemi_ok now"]) (use assms(2,3) in \<open>auto intro: retransmit_one_ok\<close>)
qed

section \<open>The rate limit\<close>

lemma f64_lt_le_trans: "f64_lt a b \<Longrightarrow> f64_le b c \<Longrightarrow> f64_lt a c"
  by (cases a; cases b; cases c) auto

lemma tenth_below: "f64_lt (fl64 (1 / 10)) (fl64 (1 / 10 + 1 / 2 ^ 36))"
  by code_simp

text \<open>The rounded quotient is above the rounded tenth as soon as the exact one is above the tenth.\<close>

lemma above_tenth_limits:
  assumes "0 < n" and "n \<le> 2 ^ 32" and "n < 10 * r" and "r < 2 ^ 53"
  shows "f64_lt (fl64 (1 / 10)) (f64_div (f64_of_nat r) (f64_of_nat n))"
proof -
  have "1 / 10 + 1 / 2 ^ 36 \<le> (of_nat r / of_nat n :: rat)"
  proof -
    have "n * 2 ^ 36 + 10 * n \<le> 10 * 2 ^ 36 * r"
    proof -
      have "n * 2 ^ 36 + 10 * n \<le> n * 2 ^ 36 + 2 ^ 36" using assms(2) by simp
      also have "\<dots> = (n + 1) * 2 ^ 36" by simp
      also have "\<dots> \<le> 10 * r * 2 ^ 36" using assms(3) by (intro mult_right_mono) simp_all
      finally show ?thesis by (simp add: ac_simps)
    qed
    then have "(of_nat (n * 2 ^ 36 + 10 * n) :: rat) \<le> of_nat (10 * 2 ^ 36 * r)" by (simp only: of_nat_le_iff)
    then show ?thesis using assms(1) by (simp add: field_simps)
  qed
  then have "f64_le (fl64 (1 / 10 + 1 / 2 ^ 36)) (fl64 (of_nat r / of_nat n))" by (rule fl64_mono)
  moreover have "n < 2 ^ 53" using assms(2) by simp
  ultimately show ?thesis
    using f64_lt_le_trans [OF tenth_below] assms(1,4) by (simp add: f64_of_nat_exact)
qed

lemma match_retrans_limit_above:
  assumes "retrans_rate_limit p = fl64 (1 / 10)" and "0 < pkts p" and "pkts p \<le> 2 ^ 32"
    and "pkts p < 10 * st_retrans_pkts (pemi_stats p)" and "st_retrans_pkts (pemi_stats p) < 2 ^ 53"
  shows "match_retrans_limit p"
  using above_tenth_limits [OF assms(2-5)] assms(1) by (simp add: match_retrans_limit_def pkts_def)

text \<open>The number of retransmissions the limit allows.\<close>

definition within_limit :: "nat \<Rightarrow> pemi \<Rightarrow> bool" where
  "within_limit r0 p \<longleftrightarrow> st_retrans_pkts (pemi_stats p) \<le> max r0 (pkts p div 10 + 1)"

lemma retransmit_one_limit:
  assumes "retransmit_one src dst a b x p = Some p'" and "within_limit r0 p" and "r0 \<le> 2 ^ 32"
    and "retrans_rate_limit p = fl64 (1 / 10)" and "100 < pkts p" and "pkts p \<le> 2 ^ 32"
  shows "within_limit r0 p' \<and> retrans_rate_limit p' = fl64 (1 / 10) \<and> pkts p' = pkts p"
proof -
  obtain now pkt where x: "x = (now, pkt)" by fastforce
  from retransmit_one_cases [OF assms(1) [unfolded x]] show ?thesis
  proof
    assume sent: "\<not> (match_retrans_limit p \<and> pkts p > 100) \<and> wire p' = wire p @ [retrans_datagram src dst pkt] \<and>
      pemi_stats p' = new_retrans_pkt (pemi_stats p) \<and> retrans_tasks p' = retrans_tasks p \<and>
      retrans_rate_limit p' = retrans_rate_limit p"
    have "st_retrans_pkts (pemi_stats p) \<le> 2 ^ 32"
      using assms(2,3,6) by (auto simp: within_limit_def max_def split: if_splits)
    then have "\<not> pkts p < 10 * st_retrans_pkts (pemi_stats p)"
      using match_retrans_limit_above [OF assms(4) _ assms(6)] sent assms(5) by auto
    then show ?thesis using sent assms(4) by (auto simp: within_limit_def new_retrans_pkt_def pkts_def)
  qed (use assms in auto)
qed

lemma retrans_limit:
  assumes "process_retrans_task clock t p = Some p'" and "retrans_rate_limit p = fl64 (1 / 10)" and "100 < pkts p"
    and "pkts p \<le> 2 ^ 32" and "st_retrans_pkts (pemi_stats p) \<le> 2 ^ 32"
  shows "within_limit (st_retrans_pkts (pemi_stats p)) p'"
proof -
  let ?P = "\<lambda>q. within_limit (st_retrans_pkts (pemi_stats p)) q \<and> retrans_rate_limit q = fl64 (1 / 10) \<and> pkts q = pkts p"
  from assms(1) obtain src dst where
    f: "foldO (retransmit_one src dst (task_src t) (task_dst t)) (map (\<lambda>(i, pkt). (clock i, pkt)) (enumerate 0 (retrans_queue t))) p = Some p'"
    unfolding process_retrans_task_def bind_eq_Some_conv by blast
  have "?P p'"
  proof (rule foldO_invariant [OF f, of ?P])
    show "?P p" using assms(2) by (simp add: within_limit_def)
    fix x s s'
    assume "?P s" and "retransmit_one src dst (task_src t) (task_dst t) x s = Some s'"
    with retransmit_one_limit [of src dst _ _ x s s' "st_retrans_pkts (pemi_stats p)"] assms(3-5) show "?P s'" by auto
  qed
  then show ?thesis by blast
qed

section \<open>The bookkeeping does not panic\<close>

lemma record_retrans_total:
  assumes "conn_ok now c" and "sane_clock t" and "\<not> is_from_client a c" and "length (packets (to_client_queue c)) \<le> 1000"
  shows "\<exists>c'. conn_record_retrans_packet t a c = Some c' \<and> same_frame c c' \<and>
    length (packets (to_client_queue c')) = length (packets (to_client_queue c)) + 1"
proof -
  have "pq_ok (to_client_queue c)" using assms(1) by (simp add: conn_ok_def)
  from queue_add_spec [OF this assms(2,4), of None "client_rtt c"] assms(3) show ?thesis
    by (auto simp: conn_record_retrans_packet_def same_frame_def)
qed

lemma retransmits_total:
  assumes "pemi_ok now p" and "map_of (conns p) (conn_id_new a b) = Some c" and "\<not> is_from_client a c"
    and "length (packets (to_client_queue c)) + length xs \<le> 1001" and "\<forall>(t, pkt) \<in> set xs. sane_clock t"
  shows "\<exists>p'. foldO (retransmit_one src dst a b) xs p = Some p'"
  using assms
proof (induction xs arbitrary: p c)
  case (Cons x xs)
  obtain t pkt where x: "x = (t, pkt)" by fastforce
  have t: "sane_clock t" using Cons.prems(5) by (simp add: x)
  show ?case
  proof (cases "match_retrans_limit p \<and> pkts p > 100")
    case True
    with Cons.IH [OF Cons.prems(1-3)] Cons.prems(4,5) show ?thesis by (simp add: x retransmit_one_def)
  next
    case False
    have "conn_ok now c" using pemi_ok_lookup [OF Cons.prems(1,2)] by (simp add: conn_entry_ok_def)
    from record_retrans_total [OF this t Cons.prems(3)] Cons.prems(4) obtain c' where
      c': "conn_record_retrans_packet t a c = Some c'" "same_frame c c'"
        "length (packets (to_client_queue c')) = length (packets (to_client_queue c)) + 1" by auto
    obtain p1 where p1: "retransmit_one src dst a b (t, pkt) p = Some p1" "map_of (conns p1) (conn_id_new a b) = Some c'"
      using False Cons.prems(2) c'(1)
      by (auto simp: retransmit_one_def pemi_record_retrans_packet_def Let_def put_conn_def update_conv')
    have "\<not> is_from_client a c'" using c'(2) Cons.prems(3) by (simp add: is_from_client_def same_frame_def)
    from Cons.IH [OF retransmit_one_ok [OF Cons.prems(1) t p1(1)] p1(2) this] c'(3) Cons.prems(4,5) p1(1) show ?thesis
      by (simp add: x)
  qed
qed simp

lemma process_retrans_task_total:
  assumes "pemi_ok now p" and "map_of (conns p) (conn_id_new (task_src t) (task_dst t)) = Some c"
    and "\<not> is_from_client (task_src t) c" and "length (packets (to_client_queue c)) + length (retrans_queue t) \<le> 1001"
    and "task_src t = to_std_addr src" and "task_dst t = to_std_addr dst" and "\<forall>i. sane_clock (clock i)"
  shows "\<exists>p'. process_retrans_task clock t p = Some p'"
proof -
  have "to_nix_addr (task_src t) = Some src" "to_nix_addr (task_dst t) = Some dst" using assms(5,6) by (simp_all only: to_nix_addr_eq)
  with retransmits_total [OF assms(1-3), of "map (\<lambda>(i, pkt). (clock i, pkt)) (enumerate 0 (retrans_queue t))" src dst] assms(4,7)
  show ?thesis unfolding process_retrans_task_def by (auto simp: case_prod_beta)
qed

section \<open>Properties\<close>

text \<open>
  C19. Processing a task puts on the wire a subsequence of the packets of the task, each at most once, in
  their order, with their payload and between the task's addresses, and counts exactly those.
\<close>

theorem process_retrans_task_sends:
  assumes "process_retrans_task clock t p = Some p'"
  shows "\<exists>src dst sent. task_src t = to_std_addr src \<and> task_dst t = to_std_addr dst \<and> subseq sent (retrans_queue t) \<and>
    wire p' = wire p @ map (retrans_datagram src dst) sent \<and>
    pemi_stats p' = (pemi_stats p)\<lparr>st_retrans_pkts := st_retrans_pkts (pemi_stats p) + length sent\<rparr> \<and>
    retrans_tasks p' = retrans_tasks p \<and> retrans_rate_limit p' = retrans_rate_limit p"
  by (rule process_retrans_task_spec [OF assms])

text \<open>One connection in the table, and a task for it with one packet.\<close>

definition sample_pemi :: pemi where
  "sample_pemi = (pemi_new 0)\<lparr>conns := [(conn_id_new (V4 1 2) (V4 3 4), sample_conn)],
     access_times := [(0, conn_id_new (V4 1 2) (V4 3 4))]\<rparr>"

definition sample_task :: task where
  "sample_task = \<lparr>task_src = V4 3 4, task_dst = V4 1 2,
     retrans_queue = [\<lparr>raw_number = 1, raw_timestamp = 0, raw_payload = [7, 8]\<rparr>]\<rparr>"

lemma sample_pemi_ok: "pemi_ok 0 sample_pemi"
  using sample_conn_ok
  by (auto simp: sample_pemi_def pemi_new_def pemi_ok_def heap_sync_def stamps_ok_def sane_factor_def conn_entry_ok_def)
    (auto simp: sample_conn_def conn_new_simp IDLE_TIMEOUT_def from_secs_def)

lemma sample_task_done: "\<exists>p'. process_retrans_task (\<lambda>_. 5) sample_task sample_pemi = Some p'"
  by (rule process_retrans_task_total [OF sample_pemi_ok, of _ sample_conn "\<lparr>sin_addr = 3, sin_port = 4\<rparr>" "\<lparr>sin_addr = 1, sin_port = 2\<rparr>"])
    (simp_all add: sample_pemi_def sample_task_def conn_id_new_commute is_from_client_def sample_conn_def conn_new_simp
      queue_new_def to_std_addr_def sane_clock_iff)

theorem process_retrans_task_sends_witness:
  "\<exists>p' sent. process_retrans_task (\<lambda>_. 5) sample_task sample_pemi = Some p' \<and> subseq sent (retrans_queue sample_task)"
  using sample_task_done process_retrans_task_sends [of "\<lambda>_. 5" sample_task sample_pemi] by blast

text \<open>
  C13. The retransmission rate is limited to ten percent: once more than 100 packets have been processed,
  a task raises the number of retransmissions to at most a tenth of the packets processed plus one. The
  comparison of the rounded quotient with the rounded constant \<open>0.1\<close> is exact up to \<open>2 ^ 32\<close> packets.
\<close>

theorem retrans_rate_limited:
  assumes "process_retrans_task clock t p = Some p'" and "retrans_rate_limit p = fl64 (1 / 10)" and "100 < pkts p"
    and "pkts p \<le> 2 ^ 32" and "st_retrans_pkts (pemi_stats p) \<le> 2 ^ 32"
  shows "st_retrans_pkts (pemi_stats p') \<le> max (st_retrans_pkts (pemi_stats p)) (pkts p div 10 + 1)"
proof -
  from process_retrans_task_spec [OF assms(1)] have "pkts p' = pkts p" by (auto simp: pkts_def)
  with retrans_limit [OF assms] show ?thesis by (simp add: within_limit_def)
qed

theorem retrans_rate_limited_witness:
  "\<exists>p'. process_retrans_task (\<lambda>_. 5) sample_task (sample_pemi\<lparr>pemi_stats := \<lparr>st_pkts = 200, st_retrans_pkts = 30\<rparr>\<rparr>) = Some p' \<and>
    st_retrans_pkts (pemi_stats p') \<le> 30"
proof -
  let ?p = "sample_pemi\<lparr>pemi_stats := \<lparr>st_pkts = 200, st_retrans_pkts = 30\<rparr>\<rparr>"
  have "pemi_ok 0 ?p" using sample_pemi_ok by (simp add: pemi_ok_def)
  from process_retrans_task_total [OF this, of sample_task sample_conn "\<lparr>sin_addr = 3, sin_port = 4\<rparr>" "\<lparr>sin_addr = 1, sin_port = 2\<rparr>" "\<lambda>_. 5"]
  obtain p' where p': "process_retrans_task (\<lambda>_. 5) sample_task ?p = Some p'"
    by (auto simp: sample_pemi_def sample_task_def conn_id_new_commute is_from_client_def sample_conn_def conn_new_simp
        queue_new_def to_std_addr_def sane_clock_iff)
  from retrans_rate_limited [OF this] p' show ?thesis by (auto simp: sample_pemi_def pemi_new_def pkts_def)
qed

text \<open>
  A task of a connection in the table is processed without a panic: the connection is found, the
  packets go towards the client, and the queue has room for them.
\<close>

theorem retrans_task_processed:
  assumes "pemi_ok now p" and "map_of (conns p) (conn_id_new (task_src t) (task_dst t)) = Some c"
    and "\<not> is_from_client (task_src t) c" and "length (packets (to_client_queue c)) + length (retrans_queue t) \<le> 1001"
    and "task_src t = to_std_addr src" and "task_dst t = to_std_addr dst" and "\<forall>i. sane_clock (clock i)"
  shows "\<exists>p'. process_retrans_task clock t p = Some p' \<and> pemi_ok now p'"
  using process_retrans_task_total [OF assms] process_retrans_task_ok [OF _ assms(1,7)] by blast

theorem retrans_task_processed_witness: "\<exists>p'. process_retrans_task (\<lambda>_. 5) sample_task sample_pemi = Some p' \<and> pemi_ok 0 p'"
  by (rule retrans_task_processed [OF sample_pemi_ok, of _ sample_conn "\<lparr>sin_addr = 3, sin_port = 4\<rparr>" "\<lparr>sin_addr = 1, sin_port = 2\<rparr>"])
    (simp_all add: sample_pemi_def sample_task_def conn_id_new_commute is_from_client_def sample_conn_def conn_new_simp
      queue_new_def to_std_addr_def sane_clock_iff)

end
