(* ===== verification/Timeouts.thy ===== *)
theory Timeouts
  imports Retransmission
begin

text \<open>
  Timers of the middlebox (\<open>timeout\<close> and \<open>process_timeout\<close> of \<open>pemi/src/lib.rs\<close>): the loop sleeps no
  longer than the earliest deadline, and handling a timeout turns every loss found into a task.
\<close>

section \<open>The next deadline\<close>

lemma queue_timeout_total:
  assumes "pq_ok q" and "rtt \<le> SANE"
  shows "\<exists>t. queue_timeout now rtt q = Some t"
proof (cases "flowlets q")
  case Nil
  then show ?thesis by (simp add: queue_timeout_def)
next
  case (Cons fl fls)
  have sane: "pq_sane q" using assms(1) by (simp add: pq_ok_def)
  from flowlet_end_timeout_ok [OF this assms(2)] obtain t where t: "flowlet_end_timeout rtt q = Some t" "t \<le> from_secs (2 ^ 53)" by blast
  have "sane_clock (fl_end_time fl)" using sane Cons by (simp add: pq_sane_def sane_flowlet_def)
  moreover have "t \<le> from_secs (2 ^ 60)" using t(2) by (simp add: from_secs_def)
  ultimately show ?thesis using Cons t(1) by (simp add: queue_timeout_def sane_instant_add)
qed

lemma conn_timeout_total: "conn_ok now c \<Longrightarrow> \<exists>t. conn_timeout t0 c = Some t"
  using queue_timeout_total [of "to_client_queue c" "client_rtt c" t0] by (auto simp: conn_timeout_def conn_ok_def)

lemma fold_min_le: "fold min ds (d :: 'a::linorder) \<le> d \<and> (\<forall>x \<in> set ds. fold min ds d \<le> x) \<and> fold min ds d \<in> insert d (set ds)"
proof (induction ds arbitrary: d)
  case (Cons a ds)
  from Cons.IH [of "min a d"] show ?case by (auto simp: min_def split: if_splits)
qed simp

lemma min_duration_None: "min_duration ts = None \<longleftrightarrow> (\<forall>t \<in> set ts. t = None)"
proof (induction ts)
  case (Cons t ts)
  then show ?case by (cases t) (auto simp: min_duration_def List.map_filter_def split: list.splits)
qed (simp add: min_duration_def List.map_filter_def)

lemma set_map_filter_id: "set (List.map_filter id ts) = {d. Some d \<in> set ts}"
  by (auto simp: List.map_filter_def image_iff) force

lemma min_duration_least:
  assumes "min_duration ts = Some m"
  shows "Some m \<in> set ts" and "Some d \<in> set ts \<Longrightarrow> m \<le> d"
proof -
  obtain x xs where xs: "List.map_filter id ts = x # xs" and m: "m = fold min xs x"
    using assms by (auto simp: min_duration_def split: list.splits)
  from fold_min_le [of xs x] set_map_filter_id [of ts]
  show "Some m \<in> set ts" and "Some d \<in> set ts \<Longrightarrow> m \<le> d" unfolding m xs by auto
qed

text \<open>The reply timer: the least timeout of the connections.\<close>

definition reply_timer :: "duration option list \<Rightarrow> duration" where
  "reply_timer ts = (case min_duration ts of None \<Rightarrow> DURATION_MAX | Some t \<Rightarrow> t)"

lemma reply_timer_least:
  assumes "pemi_ok t0 p"
  shows "\<exists>ts. mapO (\<lambda>(_, c). conn_timeout now c) (conns p) = Some ts \<and>
    (\<forall>(k, c) \<in> set (conns p). \<forall>t. conn_timeout now c = Some (Some t) \<longrightarrow> reply_timer ts \<le> t) \<and>
    (reply_timer ts = DURATION_MAX \<or> (\<exists>(k, c) \<in> set (conns p). conn_timeout now c = Some (Some (reply_timer ts))))"
proof -
  have "\<exists>t. (\<lambda>(_, c). conn_timeout now c) kc = Some t \<and> True" if "kc \<in> set (conns p)" for kc
    using assms that conn_timeout_total by (auto simp: pemi_ok_def conn_entry_ok_def)
  then have "\<exists>ts. mapO (\<lambda>(_, c). conn_timeout now c) (conns p) = Some ts \<and> (\<forall>y \<in> set ts. True)"
    by (rule mapO_total)
  then obtain ts where ts: "mapO (\<lambda>(_, c). conn_timeout now c) (conns p) = Some ts" by blast
  have set_ts: "set ts = {t. \<exists>(k, c) \<in> set (conns p). conn_timeout now c = Some t}"
    unfolding mapO_set [OF ts] by (simp add: case_prod_beta)
  have "reply_timer ts \<le> t" if "(k, c) \<in> set (conns p)" "conn_timeout now c = Some (Some t)" for k c t
  proof -
    have t: "Some t \<in> set ts" using that set_ts by blast
    then obtain m where "min_duration ts = Some m" using min_duration_None [of ts] by (metis not_None_eq)
    with min_duration_least(2) [OF this t] show ?thesis by (simp add: reply_timer_def)
  qed
  moreover have "reply_timer ts = DURATION_MAX \<or> (\<exists>(k, c) \<in> set (conns p). conn_timeout now c = Some (Some (reply_timer ts)))"
    using min_duration_least(1) [of ts] set_ts by (auto simp: reply_timer_def split: option.splits)
  ultimately show ?thesis using ts by blast
qed

text \<open>
  C15. The main loop never sleeps past a deadline: on a sound state \<open>timeout\<close> does not panic; it is
  \<open>None\<close> exactly when there is no connection, and otherwise at most the time left until any
  connection becomes due for the idle check and at most the reply timeout of every connection. It does
  not wake up needlessly either: it is one of these times, or \<open>Duration::MAX\<close>.
\<close>

theorem pemi_timeout_earliest:
  assumes "pemi_ok t0 p"
  shows "\<exists>r. pemi_timeout now p = Some r \<and> (r = None \<longleftrightarrow> conns p = []) \<and>
    (\<forall>d. r = Some d \<longrightarrow>
      (\<forall>(t, k) \<in> set (access_times p). d \<le> IDLE_TIMEOUT - duration_since now t) \<and>
      (\<forall>(k, c) \<in> set (conns p). \<forall>t. conn_timeout now c = Some (Some t) \<longrightarrow> d \<le> t) \<and>
      (d = DURATION_MAX \<or> (\<exists>(t, k) \<in> set (access_times p). d = IDLE_TIMEOUT - duration_since now t) \<or>
       (\<exists>(k, c) \<in> set (conns p). conn_timeout now c = Some (Some d))))"
proof -
  have sync: "heap_sync (conns p) (access_times p)" using assms by (simp add: pemi_ok_def)
  from reply_timer_least [OF assms, of now] obtain ts where
    ts: "mapO (\<lambda>(_, c). conn_timeout now c) (conns p) = Some ts"
      "\<forall>(k, c) \<in> set (conns p). \<forall>t. conn_timeout now c = Some (Some t) \<longrightarrow> reply_timer ts \<le> t"
      "reply_timer ts = DURATION_MAX \<or> (\<exists>(k, c) \<in> set (conns p). conn_timeout now c = Some (Some (reply_timer ts)))" by blast
  show ?thesis
  proof (cases "heap_peek (access_times p)")
    case None
    then have "access_times p = []" using heap.peek_empty [of "access_times p"] by simp
    with sync None show ?thesis by (simp add: pemi_timeout_def heap_sync_def)
  next
    case (Some x)
    let ?idle = "IDLE_TIMEOUT - duration_since now (fst x)"
    let ?d = "min ?idle (reply_timer ts)"
    from heap.peek_least [OF Some] have x: "x \<in> set (access_times p)" "\<forall>y \<in> set (access_times p). fst x \<le> fst y" by auto
    then have ne: "conns p \<noteq> []" using sync by (auto simp: heap_sync_def)
    have idle: "?d \<le> IDLE_TIMEOUT - duration_since now t" if "(t, k) \<in> set (access_times p)" for t k
    proof -
      have "duration_since now t \<le> duration_since now (fst x)" using x(2) that by (force simp: duration_since_def intro!: nat_mono)
      then show ?thesis by (simp add: min_le_iff_disj diff_le_mono2)
    qed
    have reply: "\<forall>(k, c) \<in> set (conns p). \<forall>t. conn_timeout now c = Some (Some t) \<longrightarrow> ?d \<le> t"
      using ts(2) by (fastforce simp: min_le_iff_disj)
    have attained: "?d = DURATION_MAX \<or> (\<exists>(t, k) \<in> set (access_times p). ?d = IDLE_TIMEOUT - duration_since now t) \<or>
      (\<exists>(k, c) \<in> set (conns p). conn_timeout now c = Some (Some ?d))"
    proof (cases "?idle \<le> reply_timer ts")
      case True
      then show ?thesis using x(1) by (intro disjI2 disjI1 bexI [OF _ x(1)]) (simp add: case_prod_beta min_absorb1)
    next
      case False
      then have "?d = reply_timer ts" by simp
      with ts(3) show ?thesis by auto
    qed
    have "pemi_timeout now p = Some (Some ?d)" using Some ts(1) by (simp add: pemi_timeout_def reply_timer_def Let_def)
    with ne idle reply attained show ?thesis by (intro exI [of _ "Some ?d"]) blast
  qed
qed

theorem pemi_timeout_earliest_witness: "\<exists>d. pemi_timeout 100000000000 sample_pemi = Some (Some d) \<and> d \<le> 20000000000"
proof -
  have cs: "conns sample_pemi \<noteq> []" "(0, conn_id_new (V4 1 2) (V4 3 4)) \<in> set (access_times sample_pemi)"
    by (simp_all add: sample_pemi_def)
  from pemi_timeout_earliest [OF sample_pemi_ok, of 100000000000] cs show ?thesis
    by (force simp: IDLE_TIMEOUT_def from_secs_def duration_since_def)
qed

section \<open>Handling a timeout\<close>

lemma conn_on_timeout_frame: "conn_on_timeout now c = Some c' \<Longrightarrow> same_frame c c'"
  by (auto simp: conn_on_timeout_def bind_eq_Some_conv dest!: update_client_rtts_frame) (simp add: same_frame_def)

lemma timeout_conn_ok:
  assumes "conn_ok now c" and "timeout_conn now c = Some (t, c')"
  shows "conn_ok now c' \<and> same_frame c c' \<and> detected_loss (to_client_queue c') = [] \<and>
    (\<forall>k. t = Some k \<longrightarrow> task_src k = std_addr (server_addr c) \<and> task_dst k = std_addr (client_addr c))"
proof -
  from assms(2) obtain c1 where c1: "conn_on_timeout now c = Some c1 \<or> c1 = c" "to_client_retrans_task c1 = Some (t, c')"
    by (auto simp: timeout_conn_def bind_eq_Some_conv split: if_splits)
  have "conn_ok now c1" "same_frame c c1"
    using c1(1) assms(1) conn_on_timeout_ok conn_on_timeout_frame by (auto simp: same_frame_def)
  with retrans_task_ok [OF _ c1(2)] task_frame [OF c1(2)] c1(2) show ?thesis
    by (auto simp: same_frame_def to_client_retrans_task_eq split: if_splits)
qed

definition timed_out :: "instant \<Rightarrow> (conn_id \<times> conn) list \<Rightarrow> task list \<Rightarrow> (conn_id \<times> conn) list \<Rightarrow> bool" where
  "timed_out now cs ts cs' \<longleftrightarrow> map fst cs' = map fst cs \<and> held cs' = held cs \<and>
     (\<forall>(k, c') \<in> set cs'. conn_ok now c' \<and> detected_loss (to_client_queue c') = [] \<and> (\<exists>c. (k, c) \<in> set cs \<and> same_frame c c')) \<and>
     (\<forall>t \<in> set ts. \<exists>(k, c) \<in> set cs. task_src t = std_addr (server_addr c) \<and> task_dst t = std_addr (client_addr c))"

lemma timeout_conns_ok:
  assumes "\<forall>(k, c) \<in> set cs. conn_ok now c" and "timeout_conns now cs = Some (ts, cs')"
  shows "timed_out now cs ts cs'"
  using assms
proof (induction cs arbitrary: ts cs')
  case (Cons kc cs)
  obtain k c where kc: "kc = (k, c)" by fastforce
  from Cons.prems(2) obtain t c' ts1 cs1 where t: "timeout_conn now c = Some (t, c')"
    and r: "timeout_conns now cs = Some (ts1, cs1)" "ts = (case t of None \<Rightarrow> ts1 | Some t \<Rightarrow> t # ts1)" "cs' = (k, c') # cs1"
    by (auto simp: kc bind_eq_Some_conv)
  have "conn_ok now c" using Cons.prems(1) by (simp add: kc)
  note one = timeout_conn_ok [OF this t]
  have IH: "timed_out now cs ts1 cs1" using Cons.IH [OF _ r(1)] Cons.prems(1) by simp
  have "held_back c' = held_back c" using one held_back_frame by blast
  with IH have "map fst cs' = map fst (kc # cs)" "held cs' = held (kc # cs)"
    by (simp_all add: timed_out_def r(3) kc held_def)
  moreover have "\<forall>(j, b') \<in> set cs'. conn_ok now b' \<and> detected_loss (to_client_queue b') = [] \<and> (\<exists>b. (j, b) \<in> set (kc # cs) \<and> same_frame b b')"
    using IH one unfolding timed_out_def r(3) kc by fastforce
  moreover have "\<forall>x \<in> set ts. \<exists>(j, b) \<in> set (kc # cs). task_src x = std_addr (server_addr b) \<and> task_dst x = std_addr (client_addr b)"
    using IH one unfolding timed_out_def r(2) kc by (auto split: option.splits)
  ultimately show ?case unfolding timed_out_def by blast
qed (simp add: timed_out_def)

lemma stamps_ok_frame:
  assumes "stamps_ok cs h" and "\<forall>(k, c') \<in> set cs'. \<exists>c. (k, c) \<in> set cs \<and> last_access c' = last_access c"
  shows "stamps_ok cs' h"
  unfolding stamps_ok_def
proof (intro allI impI)
  fix t k c'
  assume t: "(t, k) \<in> set h" and "(k, c') \<in> set cs'"
  with assms(2) obtain c where "(k, c) \<in> set cs" "last_access c' = last_access c" by blast
  with t assms(1) show "t < last_access c' + int IDLE_TIMEOUT" unfolding stamps_ok_def by metis
qed

lemma pemi_ok_conns:
  assumes ok: "pemi_ok now p" and keys: "map fst cs = map fst (conns p)"
    and fr: "\<forall>(k, c') \<in> set cs. conn_ok now c' \<and> (\<exists>c. (k, c) \<in> set (conns p) \<and> same_frame c c')"
  shows "pemi_ok now (p\<lparr>conns := cs\<rparr>)"
proof -
  have "heap_sync cs (access_times p)" using ok keys by (simp add: pemi_ok_def heap_sync_def)
  moreover have "stamps_ok cs (access_times p)"
  proof (rule stamps_ok_frame [of "conns p"])
    show "stamps_ok (conns p) (access_times p)" using ok by (simp add: pemi_ok_def)
    show "\<forall>(k, c') \<in> set cs. \<exists>c. (k, c) \<in> set (conns p) \<and> last_access c' = last_access c"
      using fr unfolding same_frame_def by blast
  qed
  moreover have "conn_entry_ok now k c'" if "(k, c') \<in> set cs" for k c'
  proof -
    from fr that obtain c where "(k, c) \<in> set (conns p)" "same_frame c c'" "conn_ok now c'" by blast
    moreover from this ok have "conn_entry_ok now k c" by (auto simp: pemi_ok_def)
    ultimately show ?thesis by (simp add: conn_entry_ok_def same_frame_def)
  qed
  ultimately show ?thesis using ok by (auto simp: pemi_ok_def)
qed

lemma process_timeout_ok:
  assumes ok: "pemi_ok t0 p" and t0: "t0 \<le> now" and eq: "process_timeout now p = Some p'"
  shows "pemi_ok now p' \<and> wire p' = wire p \<and> pemi_stats p' = pemi_stats p \<and> retrans_rate_limit p' = retrans_rate_limit p \<and>
    detector p' = detector p \<and> (\<forall>(k, c) \<in> set (conns p'). detected_loss (to_client_queue c) = []) \<and>
    (\<exists>ts. retrans_tasks p' = retrans_tasks p @ ts \<and> (\<forall>t \<in> set ts. \<exists>c.
      map_of (conns p') (conn_id_new (task_src t) (task_dst t)) = Some c \<and> task_src t = std_addr (server_addr c) \<and>
      task_dst t = std_addr (client_addr c)))"
proof -
  from remove_idle_pemi_ok [OF pemi_ok_later [OF ok t0]] eq obtain p1 h' where
    p1: "p1 = p\<lparr>conns := filter (\<lambda>kc. \<not> expired now (access_times p) kc) (conns p), access_times := h'\<rparr>" "pemi_ok now p1"
    and t: "\<exists>ts cs. timeout_conns now (conns p1) = Some (ts, cs) \<and> p' = p1\<lparr>conns := cs, retrans_tasks := retrans_tasks p1 @ ts\<rparr>"
    by (auto simp: process_timeout_def bind_eq_Some_conv)
  from t obtain ts cs where tc: "timeout_conns now (conns p1) = Some (ts, cs)"
    and p': "p' = p1\<lparr>conns := cs, retrans_tasks := retrans_tasks p1 @ ts\<rparr>" by blast
  have "\<forall>(k, c) \<in> set (conns p1). conn_ok now c" using p1(2) by (auto simp: pemi_ok_def conn_entry_ok_def)
  note td = timeout_conns_ok [OF this tc, unfolded timed_out_def]
  have fr: "\<forall>(k, c') \<in> set cs. \<exists>c. (k, c) \<in> set (conns p1) \<and> same_frame c c'" using td by blast
  have "pemi_ok now (p1\<lparr>conns := cs\<rparr>)" using td by (intro pemi_ok_conns [OF p1(2)]) blast+
  then have okp: "pemi_ok now p'" by (simp add: pemi_ok_def p')
  have "\<exists>c. map_of (conns p') (conn_id_new (task_src x) (task_dst x)) = Some c \<and> task_src x = std_addr (server_addr c) \<and>
      task_dst x = std_addr (client_addr c)" if x: "x \<in> set ts" for x
  proof -
    from td x obtain k c where kc: "(k, c) \<in> set (conns p1)" "task_src x = std_addr (server_addr c)" "task_dst x = std_addr (client_addr c)" by blast
    have k: "k = conn_id_new (task_src x) (task_dst x)"
      using p1(2) kc by (auto simp: pemi_ok_def conn_entry_ok_def conn_id_new_commute)
    have "k \<in> set (map fst cs)" using kc(1) td by force
    then obtain c' where c': "(k, c') \<in> set cs" by auto
    with fr obtain c0 where "(k, c0) \<in> set (conns p1)" "same_frame c0 c'" by blast
    with kc(1) pemi_ok_distinct [OF p1(2)] have "same_frame c c'" by (metis map_of_eq_Some_iff option.inject)
    moreover have "map_of (conns p') k = Some c'" using pemi_ok_distinct [OF okp] c' by (simp add: p')
    ultimately show ?thesis using kc k by (auto simp: same_frame_def)
  qed
  with okp td p1(1) show ?thesis by (auto simp: p')
qed

text \<open>
  C18. Handling a timeout keeps the state sound, sends nothing by itself, leaves no detected loss behind in
  any connection, and every task it makes belongs to a connection of the table, from its server to its
  client, so that the \<open>expect\<close> of the retransmission finds it.
\<close>

theorem process_timeout_tasks:
  assumes "pemi_ok t0 p" and "t0 \<le> now" and "process_timeout now p = Some p'"
  shows "pemi_ok now p' \<and> wire p' = wire p \<and> (\<forall>(k, c) \<in> set (conns p'). detected_loss (to_client_queue c) = []) \<and>
    (\<exists>ts. retrans_tasks p' = retrans_tasks p @ ts \<and> (\<forall>t \<in> set ts. \<exists>c.
      map_of (conns p') (conn_id_new (task_src t) (task_dst t)) = Some c \<and> task_src t = std_addr (server_addr c) \<and>
      task_dst t = std_addr (client_addr c)))"
  using process_timeout_ok [OF assms] by blast

lemma sample_timeout: "process_timeout 5 sample_pemi = Some sample_pemi"
  by (simp add: process_timeout_def remove_idle_conns_def remove_idle_loop.simps sample_pemi_def heap_peek_def may_be_idle_def
      duration_since_def IDLE_TIMEOUT_def from_secs_def timeout_conn_def conn_timeout_def sample_conn_def conn_new_simp
      to_client_retrans_task_eq queue_new_def pemi_new_def)

theorem process_timeout_tasks_witness:
  "\<exists>p'. process_timeout 5 sample_pemi = Some p' \<and> pemi_ok 5 p' \<and> wire p' = wire sample_pemi \<and>
    list_all (\<lambda>(k, c). detected_loss (to_client_queue c) = []) (conns p') \<and> conns p' \<noteq> []"
  using process_timeout_tasks [OF sample_pemi_ok _ sample_timeout] sample_timeout
  by (simp add: list_all_iff sample_pemi_def)

end
