(* ===== verification/Main_Loop.thy ===== *)
theory Main_Loop
  imports Timeouts
begin

text \<open>
  \<open>pemi/src/bin/main.rs\<close>: the event loop. One iteration takes what \<open>tokio::select!\<close> and the sockets
  deliver and the readings of the clock; its result is the next state, an error that ends the program, or
  a panic. Setting up the sockets and parsing the command line are outside.
\<close>

section \<open>Model\<close>

definition MAX_RECV_BUF :: nat where
  "MAX_RECV_BUF = 1500"

definition RETRANS_HELP :: bool where
  "RETRANS_HELP = True"

text \<open>
  What ends the wait: the timer; the ICMP socket becoming readable, or its wait failing; the UDP socket,
  where \<open>recvmsg\<close> has nothing, fails, or delivers a datagram, whose control messages cannot be read or which has, maybe, its
  source and original destination.
\<close>

datatype wakeup =
    TimerExpired
  | IcmpReadable icmp_input
  | IcmpWaitFailed
  | UdpEagain
  | UdpRecvError
  | UdpControlError
  | UdpDatagram "sockaddr_in option" "sockaddr_in option" bytes

datatype exit_reason = ReceiveError | ControlMessages | NoOriginalDst | NoSource | PacketError error

record main_state =
  the_pemi :: pemi
  last_print_stats :: nat

text \<open>The readings of the clock during one iteration.\<close>

record main_clocks =
  at_timeout :: instant
  at_process_timeout :: instant
  at_recv :: instant
  at_icmp_send :: instant
  at_icmp_recv :: instant
  at_new_conn :: new_clocks
  at_calibration :: "conn_id \<Rightarrow> instant \<times> instant \<times> instant"
  at_retrans :: "nat \<Rightarrow> nat \<Rightarrow> instant"

definition main_process_retrans_task :: "(nat \<Rightarrow> instant) \<Rightarrow> task \<Rightarrow> pemi \<Rightarrow> pemi option" where
  "main_process_retrans_task clock t p = (if \<not> RETRANS_HELP then Some p else process_retrans_task clock t p)"

lemma main_process_retrans_task_tasks:
  "main_process_retrans_task clock t p = Some p' \<Longrightarrow> retrans_tasks p' = retrans_tasks p"
  by (auto simp: main_process_retrans_task_def dest: process_retrans_task_spec split: if_splits)

text \<open>\<open>while let Some(task) = pemi.pop_retrans_task() { process_retrans_task(task)? }\<close>\<close>

function run_tasks :: "(nat \<Rightarrow> nat \<Rightarrow> instant) \<Rightarrow> pemi \<Rightarrow> pemi option" where
  "run_tasks clock p = (case pop_retrans_task p of
       (None, p1) \<Rightarrow> Some p1
     | (Some t, p1) \<Rightarrow> (case main_process_retrans_task (clock (length (retrans_tasks p1))) t p1 of
         None \<Rightarrow> None
       | Some p2 \<Rightarrow> run_tasks clock p2))"
  by pat_completeness auto
termination
  by (relation "measure (\<lambda>(_, p). length (retrans_tasks p))")
    (auto simp: pop_retrans_task_def dest!: main_process_retrans_task_tasks split: if_splits)

declare run_tasks.simps [simp del]

definition after_packet :: "nat \<Rightarrow> main_state \<Rightarrow> main_state option" where
  "after_packet print_interval st = (let n = pkts (the_pemi st) - last_print_stats st in
     if n \<ge> print_interval then do {
       rust_assert (n = print_interval);
       let st' = st\<lparr>last_print_stats := pkts (the_pemi st)\<rparr>;
       print_stats (the_pemi st');
       Some st' }
     else Some st)"

definition lift_panic :: "main_state option \<Rightarrow> (exit_reason, main_state) outcome" where
  "lift_panic r = (case r of None \<Rightarrow> Panic | Some st \<Rightarrow> Ok st)"

definition on_icmp :: "main_clocks \<Rightarrow> icmp_input \<Rightarrow> main_state \<Rightarrow> (exit_reason, main_state) outcome" where
  "on_icmp ks i st = (let p = the_pemi st in
     case recv_response (at_icmp_recv ks) i (detector p) of
       (Ok sample, d) \<Rightarrow> lift_panic (do {
         p' \<leftarrow> pemi_rtt_calibration (at_calibration ks) sample (p\<lparr>detector := d\<rparr>);
         Some (st\<lparr>the_pemi := p'\<rparr>) })
     | (Err WouldBlock, d) \<Rightarrow> Ok (st\<lparr>the_pemi := p\<lparr>detector := d\<rparr>\<rparr>)
     | _ \<Rightarrow> Panic)"

text \<open>The buffer holds \<open>MAX_RECV_BUF\<close> bytes; \<open>recvmsg\<close> cuts off the rest of a longer datagram.\<close>

definition on_datagram ::
    "nat \<Rightarrow> main_clocks \<Rightarrow> sockaddr_in option \<Rightarrow> sockaddr_in option \<Rightarrow> bytes \<Rightarrow> main_state \<Rightarrow>
     (exit_reason, main_state) outcome" where
  "on_datagram print_interval ks dst src payload st = (case dst of
       None \<Rightarrow> Err NoOriginalDst
     | Some dstaddr \<Rightarrow> (case src of
         None \<Rightarrow> Err NoSource
       | Some srcaddr \<Rightarrow>
           (case process_packet (at_new_conn ks) (at_icmp_send ks) (take MAX_RECV_BUF payload) (at_recv ks)
                   (from_nix_addr srcaddr) (from_nix_addr dstaddr) (the_pemi st) of
              (Panic, _) \<Rightarrow> Panic
            | (Err e, _) \<Rightarrow> Err (PacketError e)
            | (Ok _, p) \<Rightarrow> lift_panic (do {
                p' \<leftarrow> run_tasks (at_retrans ks) p;
                after_packet print_interval (st\<lparr>the_pemi := p'\<rparr>) }))))"

definition main_iter :: "nat \<Rightarrow> main_clocks \<Rightarrow> wakeup \<Rightarrow> main_state \<Rightarrow> (exit_reason, main_state) outcome" where
  "main_iter print_interval ks w st = (case pemi_timeout (at_timeout ks) (the_pemi st) of
       None \<Rightarrow> Panic
     | Some timeout \<Rightarrow>
         if timeout = Some 0 then lift_panic (do {
           p \<leftarrow> process_timeout (at_process_timeout ks) (the_pemi st);
           p' \<leftarrow> run_tasks (at_retrans ks) p;
           Some (st\<lparr>the_pemi := p'\<rparr>) })
         else (case w of
             TimerExpired \<Rightarrow> Ok st
           | IcmpReadable i \<Rightarrow> on_icmp ks i st
           | IcmpWaitFailed \<Rightarrow> Panic
           | UdpEagain \<Rightarrow> Ok st
           | UdpRecvError \<Rightarrow> Err ReceiveError
           | UdpControlError \<Rightarrow> Err ControlMessages
           | UdpDatagram src dst payload \<Rightarrow> on_datagram print_interval ks dst src payload st))"

definition main_init :: "instant \<Rightarrow> f64 \<Rightarrow> f64 \<Rightarrow> bool \<Rightarrow> main_state" where
  "main_init clock fl_inv_factor fl_end_factor proxy =
     \<lparr>the_pemi = set_proxy_only proxy (pemi_set_factors fl_inv_factor fl_end_factor (pemi_new clock)), last_print_stats = 0\<rparr>"

section \<open>The invariant of the loop\<close>

lemma conn_rtt_calibration_frame: "conn_rtt_calibration t ks sample c = Some c' \<Longrightarrow> same_frame c c'"
  by (auto simp: conn_rtt_calibration_def bind_eq_Some_conv Let_def same_frame_def split: if_splits)

lemma mapO_keys:
  "mapO (\<lambda>(k, c). map_option (Pair k) (f k c)) cs = Some cs' \<Longrightarrow>
    map fst cs' = map fst cs \<and> (\<forall>(k, c') \<in> set cs'. \<exists>c. (k, c) \<in> set cs \<and> f k c = Some c')"
  by (induction cs arbitrary: cs') (fastforce simp: bind_eq_Some_conv)+

lemma pemi_rtt_calibration_ok:
  assumes ok: "pemi_ok now p" and sample: "sample \<le> SANE" and eq: "pemi_rtt_calibration clock sample p = Some p'"
  shows "pemi_ok now p' \<and> (\<exists>cs. p' = p\<lparr>conns := cs\<rparr>)"
proof -
  from eq obtain cs where cs: "mapO (\<lambda>(k, c). map_option (Pair k) (conn_rtt_calibration (fst (clock k)) (snd (clock k)) sample c)) (conns p) = Some cs"
    and p': "p' = p\<lparr>conns := cs\<rparr>" by (auto simp: pemi_rtt_calibration_def bind_eq_Some_conv)
  note m = mapO_keys [OF cs]
  have "conn_ok now c' \<and> (\<exists>c. (k, c) \<in> set (conns p) \<and> same_frame c c')" if "(k, c') \<in> set cs" for k c'
  proof -
    from m that obtain c where c: "(k, c) \<in> set (conns p)" "conn_rtt_calibration (fst (clock k)) (snd (clock k)) sample c = Some c'" by blast
    moreover from this ok have "conn_ok now c" by (auto simp: pemi_ok_def conn_entry_ok_def)
    ultimately show ?thesis
      using c_calibration.keeps [of now c sample "fst (clock k)" "snd (clock k)" "()" c'] sample
        conn_rtt_calibration_frame [OF c(2)] by auto
  qed
  with m have "pemi_ok now (p\<lparr>conns := cs\<rparr>)" by (intro pemi_ok_conns [OF ok]) auto
  with p' show ?thesis by auto
qed

text \<open>What the main loop knows of the middlebox besides \<open>pemi_ok\<close>.\<close>

definition same_counters :: "pemi \<Rightarrow> pemi \<Rightarrow> bool" where
  "same_counters p p' \<longleftrightarrow> pkts p' = pkts p \<and> retrans_rate_limit p' = retrans_rate_limit p"

lemma retransmit_detector: "retransmit_one src dst a b x p = Some p' \<Longrightarrow> detector p' = detector p"
  by (auto simp: retransmit_one_def pemi_record_retrans_packet_def Let_def bind_eq_Some_conv put_conn_def
      split: prod.splits if_splits)

lemma process_retrans_task_detector:
  assumes "process_retrans_task clock t p = Some p'"
  shows "detector p' = detector p"
proof -
  from assms obtain src dst xs where f: "foldO (retransmit_one src dst (task_src t) (task_dst t)) xs p = Some p'"
    unfolding process_retrans_task_def bind_eq_Some_conv by blast
  show ?thesis by (rule foldO_invariant [OF f, of "\<lambda>q. detector q = detector p"]) (auto dest: retransmit_detector)
qed

lemma run_tasks_ok:
  assumes "run_tasks clock p = Some p'" and "pemi_ok now p" and "\<forall>i j. sane_clock (clock i j)"
  shows "pemi_ok now p' \<and> retrans_tasks p' = [] \<and> same_counters p p' \<and> detector p' = detector p"
  using assms
proof (induction clock p rule: run_tasks.induct)
  case (1 clock p)
  show ?case
  proof (cases "retrans_tasks p = []")
    case True
    with 1(2,3) show ?thesis by (subst (asm) run_tasks.simps) (simp add: pop_retrans_task_def same_counters_def)
  next
    case False
    let ?p1 = "p\<lparr>retrans_tasks := butlast (retrans_tasks p)\<rparr>" and ?t = "last (retrans_tasks p)"
    have pop: "pop_retrans_task p = (Some ?t, ?p1)" using False by (simp add: pop_retrans_task_def)
    from 1(2) pop obtain p2 where p2: "main_process_retrans_task (clock (length (retrans_tasks ?p1))) ?t ?p1 = Some p2"
      and r: "run_tasks clock p2 = Some p'"
      by (subst (asm) run_tasks.simps) (auto split: option.splits)
    have task: "process_retrans_task (clock (length (retrans_tasks ?p1))) ?t ?p1 = Some p2"
      using p2 by (simp add: main_process_retrans_task_def RETRANS_HELP_def)
    have "pemi_ok now ?p1" using 1(3) by (simp add: pemi_ok_def)
    from process_retrans_task_ok [OF task this] 1(4) have ok2: "pemi_ok now p2" by simp
    have "same_counters p p2" using process_retrans_task_spec [OF task] by (auto simp: same_counters_def pkts_def)
    with 1(1) [OF pop [symmetric] refl p2 r ok2 1(4)] process_retrans_task_detector [OF task] show ?thesis
      by (simp add: same_counters_def)
  qed
qed

lemma pemi_udp_packet_frame:
  assumes "pemi_udp_packet ic buf now s d c p = Some (c1, p1)" and "sane_clock ic" and "detector_ok (detector p)"
  shows "same_counters p p1 \<and> detector_ok (detector p1) \<and> retrans_tasks p1 = retrans_tasks p"
  using assms send_request_ok [OF assms(3,2), of "std_addr d"]
  by (auto simp: pemi_udp_packet_def bind_eq_Some_conv Let_def same_counters_def pkts_def split: if_splits prod.splits)

lemma process_packet_frame:
  assumes ok: "pemi_ok t p" and t: "t \<le> now" and ks: "sane_clock (fst ks)" "sane_clock (fst (snd ks))"
    and eq: "process_packet ks ic buf now s d p = (Ok (), p')" and ic: "sane_clock ic" and det: "detector_ok (detector p)"
  shows "pkts p' = pkts p + 1 \<and> retrans_rate_limit p' = retrans_rate_limit p \<and> detector_ok (detector p')"
proof -
  let ?k = "conn_id_new (std_addr s) (std_addr d)"
  let ?p = "p\<lparr>pemi_stats := new_pkt (pemi_stats p)\<rparr>"
  obtain r p1 where q: "quic_conn_process ks ?k now (std_addr s) (std_addr d) buf ?p = (r, p1)" by fastforce
  have "pemi_ok now ?p" using pemi_ok_later [OF ok t] by (simp add: pemi_ok_def)
  from quic_conn_process_ok [OF q this refl ks] have p1: "pemi_ok now p1" "same_rest ?p p1" by blast+
  have one: "pkts p1 = pkts p + 1" "retrans_rate_limit p1 = retrans_rate_limit p" "detector_ok (detector p1)"
    using p1(2) det by (auto simp: same_rest_def pkts_def new_pkt_def detector_ok_def)
  show ?thesis
  proof (cases r)
    case (Ok u)
    with eq q obtain c c1 p2 x c2 where "pemi_udp_packet ic buf now s d c p1 = Some (c1, p2)"
      "remove_idle_conns now (push_task x (put_conn ?k c2 p2)) = Some p'"
      by (auto simp: process_packet_def Let_def forward_packet_def bind_eq_Some_conv split: option.splits)
    moreover from this(1) one have "same_counters p1 p2 \<and> detector_ok (detector p2)" using pemi_udp_packet_frame ic by blast
    ultimately show ?thesis using one
      by (auto simp: remove_idle_conns_def bind_eq_Some_conv push_task_def put_conn_def same_counters_def pkts_def split: option.splits)
  qed (use eq q one in \<open>auto simp: process_packet_def Let_def pkts_def split: if_splits\<close>)
qed

definition main_ok :: "nat \<Rightarrow> instant \<Rightarrow> main_state \<Rightarrow> bool" where
  "main_ok print_interval now st \<longleftrightarrow> pemi_ok now (the_pemi st) \<and> retrans_tasks (the_pemi st) = [] \<and>
     detector_ok (detector (the_pemi st)) \<and> retrans_rate_limit (the_pemi st) = fl64 (1 / 10) \<and>
     last_print_stats st \<le> pkts (the_pemi st) \<and> pkts (the_pemi st) < last_print_stats st + print_interval"

definition clocks_ok :: "instant \<Rightarrow> instant \<Rightarrow> main_clocks \<Rightarrow> bool" where
  "clocks_ok t t' ks \<longleftrightarrow> t \<le> at_process_timeout ks \<and> at_process_timeout ks \<le> t' \<and> t \<le> at_recv ks \<and> at_recv ks \<le> t' \<and>
     sane_clock (at_recv ks) \<and> sane_clock (at_icmp_send ks) \<and> sane_clock (at_icmp_recv ks) \<and>
     sane_clock (fst (at_new_conn ks)) \<and> sane_clock (fst (snd (at_new_conn ks))) \<and> (\<forall>i j. sane_clock (at_retrans ks i j))"

lemma main_init_ok: "sane_factor a \<Longrightarrow> sane_factor b \<Longrightarrow> 0 < n \<Longrightarrow> main_ok n t (main_init clock a b proxy)"
  using pemi_ok_new [of t clock]
  by (simp add: main_ok_def main_init_def set_proxy_only_def pemi_set_factors_def pemi_ok_def)
    (simp add: pemi_new_def detector_new_ok pkts_def stats_new_def)

text \<open>The assertions after a packet hold, because the counter grows by one.\<close>

lemma after_packet_ok:
  assumes "last_print_stats st \<le> n" and "n < last_print_stats st + k" and "pkts (the_pemi st) = n + 1"
  shows "\<exists>st'. after_packet k st = Some st' \<and> the_pemi st' = the_pemi st \<and> last_print_stats st' \<le> n + 1 \<and>
    n + 1 < last_print_stats st' + k"
proof (cases "pkts (the_pemi st) - last_print_stats st \<ge> k")
  case True
  then have "pkts (the_pemi st) - last_print_stats st = k" "0 < pkts (the_pemi st)" using assms by simp_all
  then show ?thesis using assms by (auto simp: after_packet_def Let_def print_stats_def pkts_def)
next
  case False
  then show ?thesis using assms by (auto simp: after_packet_def Let_def)
qed

lemma on_icmp_ok:
  assumes "main_ok n t st" and "clocks_ok t t' ks" and "on_icmp ks i st = Ok st'"
  shows "main_ok n t st'"
proof -
  let ?p = "the_pemi st"
  obtain r d where rd: "recv_response (at_icmp_recv ks) i (detector ?p) = (r, d)" by fastforce
  have sane: "sane_clock (at_icmp_recv ks)" using assms(2) by (simp add: clocks_ok_def)
  show ?thesis
  proof (cases r)
    case (Ok sample)
    with recv_response_ok [OF rd [unfolded Ok] _ sane] assms(1) have d: "detector_ok d" "sample \<le> SANE" by (simp_all add: main_ok_def)
    from assms(3) rd Ok obtain p' where p': "pemi_rtt_calibration (at_calibration ks) sample (?p\<lparr>detector := d\<rparr>) = Some p'"
      "st' = st\<lparr>the_pemi := p'\<rparr>" by (auto simp: on_icmp_def Let_def lift_panic_def bind_eq_Some_conv split: option.splits)
    have "pemi_ok t (?p\<lparr>detector := d\<rparr>)" using assms(1) by (simp add: main_ok_def pemi_ok_def)
    from pemi_rtt_calibration_ok [OF this d(2) p'(1)] assms(1) d(1) p'(2) show ?thesis
      by (auto simp: main_ok_def pkts_def)
  next
    case (Err e)
    with assms(3) rd have e: "e = WouldBlock" "st' = st\<lparr>the_pemi := ?p\<lparr>detector := d\<rparr>\<rparr>"
      by (auto simp: on_icmp_def Let_def split: io_error.splits)
    from rd Err e(1) have "d = detector ?p" by (cases i) (auto split: option.splits prod.splits)
    with e(2) assms(1) show ?thesis by simp
  qed (use assms(3) rd in \<open>simp add: on_icmp_def Let_def\<close>)
qed

lemma on_datagram_ok:
  assumes ok: "main_ok n t st" and ks: "clocks_ok t t' ks" and eq: "on_datagram n ks dst src payload st = Ok st'"
  shows "main_ok n t' st'"
proof -
  let ?p = "the_pemi st"
  from eq obtain d s p1 p2 where
    pp: "process_packet (at_new_conn ks) (at_icmp_send ks) (take MAX_RECV_BUF payload) (at_recv ks) (from_nix_addr s) (from_nix_addr d) ?p = (Ok (), p1)"
    and rt: "run_tasks (at_retrans ks) p1 = Some p2" and ap: "after_packet n (st\<lparr>the_pemi := p2\<rparr>) = Some st'"
    by (auto simp: on_datagram_def lift_panic_def bind_eq_Some_conv split: option.splits prod.splits outcome.splits)
  have k: "t \<le> at_recv ks" "at_recv ks \<le> t'" "sane_clock (at_recv ks)" "sane_clock (fst (at_new_conn ks))"
    "sane_clock (fst (snd (at_new_conn ks)))" "sane_clock (at_icmp_send ks)" "\<forall>i j. sane_clock (at_retrans ks i j)"
    using ks by (simp_all add: clocks_ok_def)
  have p: "pemi_ok t ?p" "detector_ok (detector ?p)" using ok by (simp_all add: main_ok_def)
  have "pemi_ok (at_recv ks) p1" by (rule process_packet_pemi_ok [OF p(1) k(1,3,4,5) from_nix_addr_ok from_nix_addr_ok pp])
  note r = run_tasks_ok [OF rt this k(7)] and f = process_packet_frame [OF p(1) k(1,4,5) pp k(6) p(2)]
  have "pkts p2 = pkts ?p + 1" "retrans_rate_limit p2 = fl64 (1 / 10)"
    using r f ok by (simp_all add: same_counters_def main_ok_def)
  with after_packet_ok [of "st\<lparr>the_pemi := p2\<rparr>" "pkts ?p" n] ap ok r f show ?thesis
    by (auto simp: main_ok_def intro: pemi_ok_later [OF _ k(2)])
qed

lemma main_iter_ok:
  assumes ok: "main_ok n t st" and ks: "clocks_ok t t' ks" and eq: "main_iter n ks w st = Ok st'"
  shows "main_ok n t' st'"
proof -
  have tt: "t \<le> t'" using ks by (simp add: clocks_ok_def)
  then have later: "main_ok n t s \<Longrightarrow> main_ok n t' s" for s by (auto simp: main_ok_def intro: pemi_ok_later)
  from eq obtain timeout where to: "pemi_timeout (at_timeout ks) (the_pemi st) = Some timeout"
    by (auto simp: main_iter_def split: option.splits)
  show ?thesis
  proof (cases "timeout = Some 0")
    case True
    with eq to obtain p1 p2 where p: "process_timeout (at_process_timeout ks) (the_pemi st) = Some p1"
      "run_tasks (at_retrans ks) p1 = Some p2" "st' = st\<lparr>the_pemi := p2\<rparr>"
      by (auto simp: main_iter_def lift_panic_def bind_eq_Some_conv split: option.splits)
    have k: "t \<le> at_process_timeout ks" "at_process_timeout ks \<le> t'" "\<forall>i j. sane_clock (at_retrans ks i j)"
      using ks by (simp_all add: clocks_ok_def)
    have "pemi_ok t (the_pemi st)" using ok by (simp add: main_ok_def)
    from process_timeout_ok [OF this k(1) p(1)] have p1: "pemi_ok (at_process_timeout ks) p1" "pkts p1 = pkts (the_pemi st)"
      "retrans_rate_limit p1 = retrans_rate_limit (the_pemi st)" "detector p1 = detector (the_pemi st)" by (auto simp: pkts_def)
    from run_tasks_ok [OF p(2) p1(1) k(3)] p1 ok p(3) show ?thesis
      by (auto simp: main_ok_def same_counters_def intro: pemi_ok_later [OF _ k(2)])
  next
    case False
    with eq to later ok on_icmp_ok [OF ok ks] on_datagram_ok [OF ok ks] show ?thesis
      by (cases w) (auto simp: main_iter_def)
  qed
qed

section \<open>Runs\<close>

text \<open>
  The datagram an iteration takes from the socket, as the program sees it: cut to the buffer, and none if the
  iteration is spent on a timeout.
\<close>

fun received :: "wakeup \<Rightarrow> datagram list" where
  "received (UdpDatagram (Some src) (Some dst) payload) =
     [\<lparr>dg_src = src, dg_dst = dst, dg_payload = take MAX_RECV_BUF payload\<rparr>]"
| "received _ = []"

definition iter_input :: "main_clocks \<Rightarrow> wakeup \<Rightarrow> main_state \<Rightarrow> datagram list" where
  "iter_input ks w st = (if pemi_timeout (at_timeout ks) (the_pemi st) = Some (Some 0) then [] else received w)"

text \<open>
  \<open>main_run n t rx st\<close>: started with sane factors and print interval \<open>n\<close>, the loop is in state \<open>st\<close>
  at time \<open>t\<close> and has taken the datagrams \<open>rx\<close> so far. The clock does not run backwards.
\<close>

inductive main_run :: "nat \<Rightarrow> instant \<Rightarrow> datagram list \<Rightarrow> main_state \<Rightarrow> bool" for n :: nat where
  start: "sane_factor a \<Longrightarrow> sane_factor b \<Longrightarrow> main_run n t [] (main_init t a b proxy)"
| iter: "main_run n t rx st \<Longrightarrow> clocks_ok t t' ks \<Longrightarrow> main_iter n ks w st = Ok st' \<Longrightarrow>
    main_run n t' (rx @ iter_input ks w st) st'"

lemma main_run_main_ok: "main_run n t rx st \<Longrightarrow> 0 < n \<Longrightarrow> main_ok n t st"
  by (induction rule: main_run.induct) (auto intro: main_init_ok main_iter_ok)

section \<open>Properties\<close>

text \<open>
  C5. In every run of the event loop with a positive print interval the middlebox is sound: the table of
  connections and the heap of access times agree, every connection satisfies its invariant, no
  retransmission task is left over between two iterations, and the assertion on the print interval
  holds for the next packet, so that a packet that is processed is never followed by a panic there.
\<close>

theorem main_run_ok:
  assumes "main_run n t rx st" and "0 < n"
  shows "pemi_ok t (the_pemi st) \<and> retrans_tasks (the_pemi st) = [] \<and>
    (\<forall>p. pkts p = pkts (the_pemi st) + 1 \<longrightarrow> after_packet n (st\<lparr>the_pemi := p\<rparr>) \<noteq> None)"
proof -
  have ok: "main_ok n t st" by (rule main_run_main_ok [OF assms])
  then have "after_packet n (st\<lparr>the_pemi := p\<rparr>) \<noteq> None" if "pkts p = pkts (the_pemi st) + 1" for p
    using after_packet_ok [of "st\<lparr>the_pemi := p\<rparr>" "pkts (the_pemi st)" n] that by (auto simp: main_ok_def)
  with ok show ?thesis by (simp add: main_ok_def)
qed

theorem main_run_ok_witness: "\<exists>st. main_run 1000 0 [] st \<and> pemi_ok 0 (the_pemi st)"
proof -
  have "sane_factor (Fin 2)" by (simp add: sane_factor_def)
  then have run: "main_run 1000 0 [] (main_init 0 (Fin 2) (Fin 2) False)" by (intro main_run.start)
  with main_run_ok [OF run] show ?thesis by auto
qed

text \<open>
  A print interval of 0, which the command line accepts, makes the program panic after its first packet.
\<close>

theorem print_interval_zero_panics:
  assumes "last_print_stats st < pkts (the_pemi st)"
  shows "after_packet 0 st = None"
  using assms by (simp add: after_packet_def Let_def)

theorem print_interval_zero_panics_witness:
  "after_packet 0 \<lparr>the_pemi = (pemi_new 0)\<lparr>pemi_stats := \<lparr>st_pkts = 1, st_retrans_pkts = 0\<rparr>\<rparr>, last_print_stats = 0\<rparr> = None"
  by (rule print_interval_zero_panics) (simp add: pkts_def)

end
