(* ===== verification/Payloads.thy ===== *)
theory Payloads
  imports Conn_Frame
begin

text \<open>
  Where the bytes go: the payloads a packet queue and a connection keep. No operation of a queue makes up
  a payload, which is the contract \<open>payload_op\<close>; only \<open>add\<close> brings in a new one. A connection
  keeps the packets of its server for retransmission and the packets of its client it holds back;
  \<open>traffic\<close> is what it may still send.
\<close>

section \<open>Queues\<close>

definition payloads :: "packet_queue \<Rightarrow> bytes set" where
  "payloads q = raw_payload ` ({r. Raw r \<in> set (packets q)} \<union> set (detected_loss q))"

locale payload_op =
  fixes op :: "packet_queue \<Rightarrow> ('r \<times> packet_queue) option"
  assumes no_new: "op q = Some (r, q') \<Longrightarrow> payloads q' \<subseteq> payloads q"
begin

lemma within: "op q = Some (r, q') \<Longrightarrow> payloads q \<subseteq> A \<Longrightarrow> payloads q' \<subseteq> A"
  using no_new by blast

end

lemma payloads_mono:
  "set (packets q') \<subseteq> set (packets q) \<Longrightarrow> set (detected_loss q') \<subseteq> set (detected_loss q) \<Longrightarrow> payloads q' \<subseteq> payloads q"
  unfolding payloads_def by blast

lemma payloads_same [simp]:
  "payloads (q\<lparr>flowlets := f\<rparr>) = payloads q" "payloads (q\<lparr>reply_nums := n\<rparr>) = payloads q"
  "payloads (queue_set_factors a b q) = payloads q" "payloads (queue_new t) = {}"
  by (simp_all add: payloads_def queue_set_factors_def queue_new_def)

lemma bind_SomeE:
  assumes "Option.bind m k = Some y"
  obtains x where "m = Some x" and "k x = Some y"
  using assms by (auto simp: bind_eq_Some_conv)

lemma drain_flowlet_raws:
  "drain_flowlet lossed ns ps loss = Some (ps', loss') \<Longrightarrow>
    set ps' \<subseteq> set ps \<and> set loss' \<subseteq> set loss \<union> {r. Raw r \<in> set ps}"
  by (induction lossed ns ps loss rule: drain_flowlet.induct) (fastforce split: if_splits packet.splits)+

lemma complete_one_flowlet_payloads:
  assumes "complete_one_flowlet rtt q = Some (s, q')"
  shows "payloads q' \<subseteq> payloads q"
proof -
  from assms obtain lossed ns where
    "drain_flowlet lossed ns (packets q) (detected_loss q) = Some (packets q', detected_loss q')"
    by (cases "flowlets q") (auto simp: complete_one_flowlet_def remove_a_complete_flowlet_def bind_eq_Some_conv)
  from drain_flowlet_raws [OF this] show ?thesis unfolding payloads_def by blast
qed

lemma complete_flowlets_payloads: "complete_flowlets rtt q = Some (s, q') \<Longrightarrow> payloads q' \<subseteq> payloads q"
proof (induction rtt q arbitrary: s q' rule: complete_flowlets.induct)
  case (1 rtt q)
  show ?case
  proof (cases "flowlets q \<noteq> [] \<and> is_complete (hd (flowlets q))")
    case True
    with 1(2) obtain s1 q1 ss where q1: "complete_one_flowlet rtt q = Some (s1, q1)"
      and "complete_flowlets rtt q1 = Some (ss, q')"
      by (subst (asm) complete_flowlets.simps) (auto split: option.splits prod.splits)
    from 1(1) [OF True q1 refl this(2)] complete_one_flowlet_payloads [OF q1] show ?thesis by blast
  qed (use 1(2) in \<open>subst (asm) complete_flowlets.simps, auto\<close>)
qed

lemma timeout_flowlets_payloads: "timeout_flowlets now rtt t q = Some (s, q') \<Longrightarrow> payloads q' \<subseteq> payloads q"
proof (induction now rtt t q arbitrary: s q' rule: timeout_flowlets.induct)
  case (1 now rtt t q)
  show ?case
  proof (cases "flowlets q")
    case (Cons fl fls)
    from 1(2) Cons obtain e where e: "instant_add (fl_end_time fl) t = Some e"
      by (subst (asm) timeout_flowlets.simps) (auto split: option.splits)
    show ?thesis
    proof (cases "now > e")
      case True
      with 1(2) Cons e obtain s1 q1 ss where q1: "complete_one_flowlet rtt (q\<lparr>flowlets := set_as_complete fl # fls\<rparr>) = Some (s1, q1)"
        and "timeout_flowlets now rtt t q1 = Some (ss, q')"
        by (subst (asm) timeout_flowlets.simps) (auto split: option.splits prod.splits)
      from 1(1) [OF Cons e True q1 refl this(2)] complete_one_flowlet_payloads [OF q1] show ?thesis by simp
    qed (use 1(2) Cons e in \<open>subst (asm) timeout_flowlets.simps, auto\<close>)
  qed (use 1(2) in \<open>subst (asm) timeout_flowlets.simps, auto\<close>)
qed

text \<open>A reply is ignored, or attributed, after which the complete flowlets leave the queue.\<close>

lemma check_reply_result:
  assumes "check_reply now n rtt q = Some (r, q')"
  shows "q' = q\<lparr>reply_nums := reply_nums q + 1\<rparr> \<or>
    (\<exists>fls s. complete_flowlets rtt (q\<lparr>reply_nums := reply_nums q + 1, flowlets := fls\<rparr>) = Some (s, q'))"
  using assms unfolding check_reply_def Let_def
  by (auto elim!: bind_SomeE split: if_splits list.splits)

interpretation p_reply: payload_op "check_reply now n rtt" for now n rtt
proof
  fix q r q'
  assume "check_reply now n rtt q = Some (r, q')"
  then have "q' = q\<lparr>reply_nums := reply_nums q + 1\<rparr> \<or>
      (\<exists>fls s. complete_flowlets rtt (q\<lparr>reply_nums := reply_nums q + 1, flowlets := fls\<rparr>) = Some (s, q'))"
    by (rule check_reply_result)
  with complete_flowlets_payloads show "payloads q' \<subseteq> payloads q" by force
qed

interpretation p_timeout: payload_op "queue_on_timeout now rtt" for now rtt
  by unfold_locales (auto simp: queue_on_timeout_def bind_eq_Some_conv dest: timeout_flowlets_payloads)

lemma pop_packets_set: "pop_packets ns ps = Some ps' \<Longrightarrow> set ps' \<subseteq> set ps"
  by (induction ns ps rule: pop_packets.induct) (auto split: if_splits)

lemma reset_loop_set: "reset_loop fls ps = Some (fls', ps') \<Longrightarrow> set ps' \<subseteq> set ps"
  by (induction fls ps rule: reset_loop.induct)
    (force simp: bind_eq_Some_conv split: if_splits dest: pop_packets_set)+

interpretation p_reset: payload_op "\<lambda>q. map_option (Pair ()) (reset_due_to_rtt_deviation q)"
proof
  fix q r q'
  assume "map_option (Pair ()) (reset_due_to_rtt_deviation q) = Some (r, q')"
  then have "set (packets q') \<subseteq> set (packets q)" "detected_loss q' = detected_loss q"
    by (auto simp: reset_due_to_rtt_deviation_def bind_eq_Some_conv dest: reset_loop_set [THEN subsetD])
  then show "payloads q' \<subseteq> payloads q" by (intro payloads_mono) auto
qed

lemma queue_add_payloads:
  assumes "queue_add ts payload rtt q = Some (r, q')"
  shows "payloads q' \<subseteq> payloads q \<union> set_option payload"
proof -
  from assms obtain n where "packets q' = packets q @ [new_packet n ts payload]" "detected_loss q' = detected_loss q"
    by (auto simp: queue_add_def Let_def bind_eq_Some_conv add_to_flowlet_def record_packet_interval_def
        measure_eliciting_threshold_def split: if_splits option.splits)
  then show ?thesis by (auto simp: payloads_def new_packet_def split: option.splits)
qed

section \<open>Connections\<close>

definition from_server :: "conn \<Rightarrow> bytes \<Rightarrow> datagram" where
  "from_server c payload = \<lparr>dg_src = nix_addr (server_addr c), dg_dst = nix_addr (client_addr c), dg_payload = payload\<rparr>"

definition traffic :: "conn \<Rightarrow> datagram set" where
  "traffic c = from_server c ` payloads (to_client_queue c) \<union> set_mset (held_back c)"

text \<open>The operations that neither hold back nor release anything.\<close>

lemma traffic_mono:
  assumes "client_addr c' = client_addr c" and "server_addr c' = server_addr c"
    and "delayed_ack_queue c' = delayed_ack_queue c" and "payloads (to_client_queue c') \<subseteq> payloads (to_client_queue c) \<union> A"
  shows "traffic c' \<subseteq> traffic c \<union> from_server c ` A"
proof -
  have "held_back c' = held_back c" using ack_datagram_cong [of c' c] assms by (simp add: held_back_def)
  moreover have "from_server c' = from_server c" using assms by (simp add: from_server_def fun_eq_iff)
  ultimately show ?thesis using assms(4) by (auto simp: traffic_def)
qed

lemma update_client_rtts_queue: "update_client_rtts vs now c = Some c' \<Longrightarrow> to_client_queue c' = to_client_queue c"
  unfolding update_client_rtts_def
  by (erule foldO_invariant) (auto simp: update_client_rtt_def bind_eq_Some_conv)

lemma on_timeout_traffic: "conn_on_timeout now c = Some c' \<Longrightarrow> payloads (to_client_queue c') \<subseteq> payloads (to_client_queue c)"
  by (auto simp: conn_on_timeout_def bind_eq_Some_conv dest!: update_client_rtts_queue p_timeout.no_new)

lemma calibration_traffic:
  "conn_rtt_calibration t ks sample c = Some c' \<Longrightarrow> payloads (to_client_queue c') \<subseteq> payloads (to_client_queue c)"
  using p_reset.no_new [of "to_client_queue c" "()"]
  by (auto simp: conn_rtt_calibration_def bind_eq_Some_conv Let_def split: if_splits)

lemma record_retrans_traffic:
  "conn_record_retrans_packet t src c = Some c' \<Longrightarrow> payloads (to_client_queue c') \<subseteq> payloads (to_client_queue c)"
  by (auto simp: conn_record_retrans_packet_def bind_eq_Some_conv split: if_splits dest!: queue_add_payloads)

lemma initial_rtt_queue: "initial_rtt now src c = Some c' \<Longrightarrow> to_client_queue c' = to_client_queue c"
  by (auto simp: initial_rtt_def update_client_rtt_def update_server_rtt_def bind_eq_Some_conv split: if_splits)

lemma measure_direction_queue: "measure_dominant_direction now fc n c = Some c' \<Longrightarrow> to_client_queue c' = to_client_queue c"
  by (auto simp: measure_dominant_direction_def count_packet_def Let_def bind_eq_Some_conv)

lemma client_packet_payloads:
  "client_packet now buf c = Some c' \<Longrightarrow> payloads (to_client_queue c') \<subseteq> payloads (to_client_queue c)"
  by (auto simp: client_packet_def record_for_server_rtt_def reply_from_client_def Let_def bind_eq_Some_conv
      split: if_splits option.splits dest!: update_client_rtts_queue p_reply.no_new) blast+

lemma server_packet_payloads:
  "server_packet now buf c = Some (nf, c') \<Longrightarrow> payloads (to_client_queue c') \<subseteq> payloads (to_client_queue c) \<union> {buf}"
  by (auto simp: server_packet_def rate_check_def bind_eq_Some_conv split: if_splits dest!: queue_add_payloads)

lemma check_delayed_acks_queue:
  assumes "check_delayed_acks now w c = Some (w', c')"
  shows "to_client_queue c' = to_client_queue c" and "client_addr c' = client_addr c"
  using assms by (auto simp: check_delayed_acks_def Let_def bind_eq_Some_conv split: if_splits)

lemma process_udp_packet_payloads:
  assumes "process_udp_packet now src buf w c = Some (nf, w', c')"
  shows "payloads (to_client_queue c') \<subseteq> payloads (to_client_queue c) \<union> (if is_from_client src c then {} else {buf})"
proof -
  from assms obtain c1 c2 c3 where c1: "initial_rtt now src c = Some c1"
    and c2: "measure_dominant_direction now (is_from_client src c) (length buf) c1 = Some c2"
    and c3: "(if is_from_client src c2 then do { c' \<leftarrow> client_packet now buf c2; Some (False, c') }
              else server_packet now buf c2) = Some (nf, c3)"
    and c4: "check_delayed_acks now w c3 = Some (w', c')"
    by (auto simp: process_udp_packet_def bind_eq_Some_conv)
  have c3': "if is_from_client src c2 then client_packet now buf c2 = Some c3 else server_packet now buf c2 = Some (nf, c3)"
    using c3 by (auto simp: bind_eq_Some_conv split: if_splits)
  have "is_from_client src c2 = is_from_client src c"
    using initial_rtt_frame [OF c1] measure_dominant_direction_frame [OF c2] by (simp add: is_from_client_def same_frame_def)
  with c3' client_packet_payloads [of now buf c2 c3] server_packet_payloads [of now buf c2 nf c3]
  have "payloads (to_client_queue c3) \<subseteq> payloads (to_client_queue c2) \<union> (if is_from_client src c then {} else {buf})"
    by (simp split: if_splits)
  then show ?thesis
    by (simp only: initial_rtt_queue [OF c1] measure_direction_queue [OF c2] check_delayed_acks_queue(1) [OF c4])
qed

lemma add_delayed_ack_queue: "add_delayed_ack t payload w c = Some (w', c') \<Longrightarrow> to_client_queue c' = to_client_queue c"
  by (auto simp: add_delayed_ack_def bind_eq_Some_conv dest!: check_delayed_acks_queue(1))

end
