(* ===== verification/Integrity.thy ===== *)
theory Integrity
  imports Main_Loop Payloads
begin

text \<open>
  PEMI makes up no traffic. \<open>known\<close> collects every datagram the middlebox has sent or could still send:
  the wire, the traffic of the connections and the retransmission tasks. Each handler adds to it at most
  the datagram it received.
\<close>

section \<open>What the middlebox knows\<close>

definition task_traffic :: "task \<Rightarrow> datagram set" where
  "task_traffic t = {retrans_datagram src dst x | src dst x.
     task_src t = to_std_addr src \<and> task_dst t = to_std_addr dst \<and> x \<in> set (retrans_queue t)}"

definition known :: "pemi \<Rightarrow> datagram set" where
  "known p = set (wire p) \<union> (\<Union>(k, c) \<in> set (conns p). traffic c) \<union> (\<Union>t \<in> set (retrans_tasks p). task_traffic t)"

lemma known_wire: "set (wire p) \<subseteq> known p"
  by (auto simp: known_def)

lemma known_traffic: "map_of (conns p) k = Some c \<Longrightarrow> traffic c \<subseteq> known p"
  by (auto simp: known_def dest: map_of_SomeD)

lemma known_send: "known (p\<lparr>wire := wire p @ ds\<rparr>) = known p \<union> set ds"
  by (auto simp: known_def)

lemma known_mono:
  assumes "set (wire p') \<subseteq> A" and "\<And>k c. (k, c) \<in> set (conns p') \<Longrightarrow> traffic c \<subseteq> A"
    and "\<And>t. t \<in> set (retrans_tasks p') \<Longrightarrow> task_traffic t \<subseteq> A"
  shows "known p' \<subseteq> A"
  using assms by (fastforce simp: known_def)

lemma set_update: "set (AList.update k c cs) \<subseteq> insert (k, c) (set cs)"
  by (induction cs) auto

lemma known_put_conn: "known (put_conn k c p) \<subseteq> known p \<union> traffic c"
  using set_update [of k c "conns p"] by (auto simp: known_def put_conn_def)

section \<open>Receiving a datagram\<close>

lemma process_quic_packet_traffic:
  assumes "process_quic_packet now buf src c = (r, c')"
  shows "traffic c' \<subseteq> traffic c"
proof -
  have "to_client_queue c' = to_client_queue c"
    using assms by (auto simp: process_quic_packet_def Let_def touch_def set_handshaked_def split: if_splits prod.splits outcome.splits)
  with traffic_mono [of c' c "{}"] process_quic_packet_frame [OF assms] show ?thesis by simp
qed

lemma new_conn_known:
  assumes "conn_new ks now src dst = Some c"
  shows "known ((new_conn k c now p)\<lparr>detector := d\<rparr>) \<subseteq> known p"
proof -
  have "traffic (conn_set_factors a b c) = {}" for a b
    using assms by (auto simp: conn_new_def bind_eq_Some_conv traffic_def held_back_def conn_set_factors_def split: prod.splits)
  with known_put_conn [of k "conn_set_factors (interval_factor p) (end_factor p) c" p] show ?thesis
    by (simp add: new_conn_def Let_def known_def)
qed

lemma quic_conn_process_known: "quic_conn_process ks k now src dst rest p = (r, p') \<Longrightarrow> known p' \<subseteq> known p"
proof (induction ks k now src dst rest p arbitrary: r p' rule: quic_conn_process.induct)
  case (1 ks k now src dst rest p)
  show ?case
  proof (cases "rest = []")
    case True
    with 1(3) show ?thesis by (subst (asm) quic_conn_process.simps) auto
  next
    case ne: False
    show ?thesis
    proof (cases "map_of (conns p) k")
      case None
      show ?thesis
      proof (cases "first_quic_packet ks now src dst rest")
        case (Ok x)
        obtain c read where x: "x = (c, read)" by fastforce
        let ?p = "(new_conn k c now p)\<lparr>detector := fresh_begin_time now (detector (new_conn k c now p))\<rparr>"
        from Ok x first_quic_packet_read [of ks now src dst rest c read] have "conn_new ks now src dst = Some c" by simp
        note st = new_conn_known [OF this]
        from 1(3) ne None Ok x have "quic_conn_process ks k now src dst (drop read rest) ?p = (r, p')"
          by (subst (asm) quic_conn_process.simps) (simp add: Let_def)
        from 1(1) [OF ne None Ok x [symmetric] refl refl this] st show ?thesis by blast
      qed (use 1(3) ne None in \<open>subst (asm) quic_conn_process.simps, auto\<close>)+
    next
      case (Some c)
      obtain rr c' where q: "process_quic_packet now rest src c = (rr, c')" by fastforce
      have st: "known (put_conn k c' p) \<subseteq> known p"
        using known_put_conn [of k c' p] process_quic_packet_traffic [OF q] known_traffic [OF Some] by blast
      show ?thesis
      proof (cases rr)
        case (Ok read)
        from 1(3) ne Some q Ok have "quic_conn_process ks k now src dst (drop read rest) (put_conn k c' p) = (r, p')"
          by (subst (asm) quic_conn_process.simps) simp
        from 1(2) [OF ne Some _ Ok this] q st show ?thesis by auto
      qed (use 1(3) ne Some q st in \<open>subst (asm) quic_conn_process.simps, auto\<close>)+
    qed
  qed
qed

lemma from_server_addrs:
  assumes "conn_entry_ok now (conn_id_new (std_addr s) (std_addr d)) c" and "\<not> is_from_client (std_addr s) c"
    and "addr_ok s" and "addr_ok d"
  shows "from_server c buf = datagram_of s d buf"
proof -
  have "addr_ok (client_addr c)" "addr_ok (server_addr c)"
    using assms(1) by (simp_all add: conn_entry_ok_def conn_ok_def)
  moreover have "std_addr (client_addr c) = std_addr d" "std_addr (server_addr c) = std_addr s"
    using assms(1,2) by (auto simp: conn_entry_ok_def is_from_client_def conn_id_new_eq)
  ultimately have "nix_addr (client_addr c) = nix_addr d" "nix_addr (server_addr c) = nix_addr s"
    using addr_ok_eq assms(3,4) by blast+
  then show ?thesis by (simp add: from_server_def datagram_of_def)
qed

lemma add_delayed_ack_client: "add_delayed_ack t payload w c = Some (w', c') \<Longrightarrow> client_addr c' = client_addr c"
  by (auto simp: add_delayed_ack_def bind_eq_Some_conv dest!: check_delayed_acks_queue(2))

lemma pemi_udp_packet_queue:
  assumes "pemi_udp_packet ic buf now s d c p = Some (c1, p1)"
  shows "payloads (to_client_queue c1) \<subseteq> payloads (to_client_queue c) \<union> (if is_from_client (std_addr s) c then {} else {buf})"
    and "retrans_tasks p1 = retrans_tasks p"
proof -
  show "payloads (to_client_queue c1) \<subseteq> payloads (to_client_queue c) \<union> (if is_from_client (std_addr s) c then {} else {buf})"
  proof (cases "proxy_only p")
    case True
    with assms show ?thesis by (auto simp: pemi_udp_packet_def)
  next
    case False
    from assms False obtain w1 c2 nf w2 where
      w1: "(if need_reorder_ack (std_addr s) c then add_delayed_ack now buf (wire p) c
            else Some (send_transparently (nix_addr s) (nix_addr d) buf (wire p), c)) = Some (w1, c2)"
      and w2: "process_udp_packet now (std_addr s) buf w1 c2 = Some (nf, w2, c1)"
      unfolding pemi_udp_packet_def by (auto simp: bind_eq_Some_conv Let_def split: prod.splits if_splits)
    have "to_client_queue c2 = to_client_queue c" "is_from_client (std_addr s) c2 = is_from_client (std_addr s) c"
      using w1 add_delayed_ack_queue [of now buf "wire p" c w1 c2] add_delayed_ack_client [of now buf "wire p" c w1 c2]
      by (simp_all add: is_from_client_def split: if_splits)
    with process_udp_packet_payloads [OF w2] show ?thesis by simp
  qed
  show "retrans_tasks p1 = retrans_tasks p"
    using assms by (auto simp: pemi_udp_packet_def Let_def bind_eq_Some_conv split: prod.splits if_splits)
qed

text \<open>The datagram that came in is all that a packet can add to the wire and to its connection.\<close>

lemma pemi_udp_packet_known:
  assumes e: "conn_entry_ok now (conn_id_new (std_addr s) (std_addr d)) c" and now: "sane_clock now"
    and s: "addr_ok s" and d: "addr_ok d" and eq: "pemi_udp_packet ic buf now s d c p = Some (c1, p1)"
  shows "set (wire p1) \<union> traffic c1 \<subseteq> insert (datagram_of s d buf) (set (wire p) \<union> traffic c)"
proof -
  note u = pemi_udp_packet_ok [OF e now s d eq]
  have "set_mset (mset (wire p1) + held_back c1) = set_mset (add_mset (datagram_of s d buf) (mset (wire p) + held_back c))"
    by (simp only: u(1))
  then have w: "set (wire p1) \<union> set_mset (held_back c1) = insert (datagram_of s d buf) (set (wire p) \<union> set_mset (held_back c))"
    by simp
  have f: "from_server c1 = from_server c" using u(3,4) by (simp add: from_server_def fun_eq_iff)
  have "from_server c ` payloads (to_client_queue c1) \<subseteq> insert (datagram_of s d buf) (from_server c ` payloads (to_client_queue c))"
    using pemi_udp_packet_queue(1) [OF eq] from_server_addrs [OF e _ s d] by (cases "is_from_client (std_addr s) c") auto
  with w f show ?thesis by (auto simp: traffic_def)
qed

lemma task_known:
  assumes "to_client_retrans_task c = Some (t, c')" and "addr_ok (client_addr c)" and "addr_ok (server_addr c)"
  shows "traffic c' \<subseteq> traffic c" and "t = Some k \<Longrightarrow> task_traffic k \<subseteq> traffic c"
proof -
  have c': "c' = c\<lparr>to_client_queue := (to_client_queue c)\<lparr>detected_loss := []\<rparr>\<rparr>"
    using assms(1) by (simp add: to_client_retrans_task_eq)
  show "traffic c' \<subseteq> traffic c"
    using traffic_mono [of c' c "{}"] payloads_mono [of "to_client_queue c'" "to_client_queue c"] c' by simp
  assume "t = Some k"
  with assms(1) have k: "k = \<lparr>task_src = std_addr (server_addr c), task_dst = std_addr (client_addr c),
      retrans_queue = detected_loss (to_client_queue c)\<rparr>" by (auto simp: to_client_retrans_task_eq split: if_splits)
  have inj: "to_std_addr a = to_std_addr b \<Longrightarrow> a = b" for a b :: sockaddr_in by (cases a; cases b) (simp add: to_std_addr_def)
  have "retrans_datagram src dst x \<in> traffic c"
    if "std_addr (server_addr c) = to_std_addr src" "std_addr (client_addr c) = to_std_addr dst" "x \<in> set (detected_loss (to_client_queue c))" for src dst x
  proof -
    have "src = nix_addr (server_addr c)" "dst = nix_addr (client_addr c)"
      using that(1,2) assms(2,3) inj by (auto simp: addr_ok_def)
    then have "retrans_datagram src dst x = from_server c (raw_payload x)" by (simp add: retrans_datagram_def from_server_def)
    with that(3) show ?thesis by (auto simp: traffic_def payloads_def)
  qed
  then show "task_traffic k \<subseteq> traffic c" by (auto simp: task_traffic_def k)
qed

lemma remove_idle_known:
  assumes "pemi_ok now p" and "remove_idle_conns now p = Some p'"
  shows "known p' \<subseteq> known p"
proof -
  from remove_idle_pemi_ok [OF assms(1)] assms(2) have "set (conns p') \<subseteq> set (conns p)" "wire p' = wire p" "retrans_tasks p' = retrans_tasks p"
    by auto
  then show ?thesis by (auto simp: known_def)
qed

lemma forward_packet_known:
  assumes ok: "pemi_ok now p" and c: "map_of (conns p) (conn_id_new (std_addr s) (std_addr d)) = Some c"
    and now: "sane_clock now" and s: "addr_ok s" and d: "addr_ok d"
    and eq: "forward_packet ic buf now s d (conn_id_new (std_addr s) (std_addr d)) p = Some p'"
  shows "known p' \<subseteq> insert (datagram_of s d buf) (known p)"
proof -
  let ?k = "conn_id_new (std_addr s) (std_addr d)"
  from eq c obtain c1 p1 t c2 where c1: "pemi_udp_packet ic buf now s d c p = Some (c1, p1)"
    and c2: "to_client_retrans_task c1 = Some (t, c2)"
    and p': "remove_idle_conns now (push_task t (put_conn ?k c2 p1)) = Some p'"
    by (auto simp: forward_packet_def bind_eq_Some_conv)
  note e = pemi_ok_lookup [OF ok c]
  note u = pemi_udp_packet_ok [OF e now s d c1] and w = pemi_udp_packet_known [OF e now s d c1]
  have "addr_ok (client_addr c1)" "addr_ok (server_addr c1)" using u(2) by (simp_all add: conn_ok_def)
  note tk = task_known [OF c2 this]
  let ?p = "push_task t (put_conn ?k c2 p1)" and ?A = "insert (datagram_of s d buf) (known p)"
  have a: "set (wire p1) \<subseteq> ?A" "traffic c1 \<subseteq> ?A" using w known_traffic [OF c] known_wire [of p] by blast+
  have "known ?p \<subseteq> ?A"
  proof (rule known_mono)
    show "set (wire ?p) \<subseteq> ?A" using a by (simp add: push_task_def put_conn_def split: option.splits)
    show "traffic b \<subseteq> ?A" if "(j, b) \<in> set (conns ?p)" for j b
    proof -
      have "(j, b) \<in> insert (?k, c2) (set (conns p))"
        using that set_update [of ?k c2 "conns p1"] u(6) by (auto simp: push_task_def put_conn_def split: option.splits)
      then show ?thesis using tk(1) a(2) by (auto simp: known_def)
    qed
    show "task_traffic x \<subseteq> ?A" if "x \<in> set (retrans_tasks ?p)" for x
      using that tk(2) [of x] a(2) pemi_udp_packet_queue(2) [OF c1]
      by (auto simp: push_task_def put_conn_def known_def split: option.splits)
  qed
  moreover have "pemi_ok now p1" "map_of (conns p1) ?k = Some c" using ok u c by (simp_all add: pemi_ok_def)
  then have "pemi_ok now (put_conn ?k c2 p1)"
    using u task_frame [OF c2] e retrans_task_ok [OF u(2) c2]
    by (intro put_conn_ok) (auto simp: conn_entry_ok_def same_frame_def)
  then have "pemi_ok now ?p" by (auto simp: push_task_def pemi_ok_def split: option.splits)
  ultimately show ?thesis using remove_idle_known [OF _ p'] by blast
qed

lemma process_packet_known:
  assumes ok: "pemi_ok t p" and t: "t \<le> now" and now: "sane_clock now"
    and ks: "sane_clock (fst ks)" "sane_clock (fst (snd ks))" and s: "addr_ok s" and d: "addr_ok d"
    and eq: "process_packet ks ic buf now s d p = (Ok (), p')"
  shows "known p' \<subseteq> insert (datagram_of s d buf) (known p)"
proof -
  let ?k = "conn_id_new (std_addr s) (std_addr d)"
  let ?p = "p\<lparr>pemi_stats := new_pkt (pemi_stats p)\<rparr>"
  obtain r p1 where q: "quic_conn_process ks ?k now (std_addr s) (std_addr d) buf ?p = (r, p1)" by fastforce
  have "pemi_ok now ?p" using pemi_ok_later [OF ok t] by (simp add: pemi_ok_def)
  from quic_conn_process_ok [OF q this refl ks] have p1: "pemi_ok now p1" by blast
  have k1: "known p1 \<subseteq> known p" using quic_conn_process_known [OF q] by (simp add: known_def)
  show ?thesis
  proof (cases r)
    case (Ok u)
    with eq q have f: "forward_packet ic buf now s d ?k p1 = Some p'"
      by (auto simp: process_packet_def Let_def split: option.splits)
    then obtain c where "map_of (conns p1) ?k = Some c" by (auto simp: forward_packet_def bind_eq_Some_conv)
    from forward_packet_known [OF p1 this now s d f] k1 show ?thesis by blast
  next
    case (Err e)
    with eq q have "p' = p1\<lparr>wire := wire p1 @ [datagram_of s d buf]\<rparr>"
      by (auto simp: process_packet_def Let_def datagram_of_def split: if_splits)
    with k1 show ?thesis by (auto simp: known_send)
  qed (use eq q in \<open>simp add: process_packet_def Let_def\<close>)
qed

section \<open>Retransmission and timeouts\<close>

lemma retransmit_one_known:
  assumes "retransmit_one src dst a b (now, pkt) p = Some p'"
  shows "known p' \<subseteq> insert (retrans_datagram src dst pkt) (known p)"
proof -
  let ?p = "p\<lparr>wire := wire p @ [retrans_datagram src dst pkt], pemi_stats := new_retrans_pkt (pemi_stats p)\<rparr>"
  have "p' = p \<or> pemi_record_retrans_packet now a b ?p = Some p'"
    using assms by (auto simp: retransmit_one_def retrans_datagram_def split: if_splits)
  moreover have "known p' \<subseteq> known ?p" if "pemi_record_retrans_packet now a b ?p = Some p'"
  proof -
    from that obtain c c' where c: "map_of (conns ?p) (conn_id_new a b) = Some c"
      "conn_record_retrans_packet now a c = Some c'" "p' = put_conn (conn_id_new a b) c' ?p"
      by (auto simp: pemi_record_retrans_packet_def Let_def bind_eq_Some_conv)
    have "same_frame c c'"
      using c(2) by (auto simp: conn_record_retrans_packet_def bind_eq_Some_conv same_frame_def split: if_splits)
    then have "traffic c' \<subseteq> traffic c"
      using traffic_mono [of c' c "{}"] record_retrans_traffic [OF c(2)] by (simp add: same_frame_def)
    with known_put_conn [of "conn_id_new a b" c' ?p] known_traffic [OF c(1)] c(3) show ?thesis by blast
  qed
  moreover have "known ?p = insert (retrans_datagram src dst pkt) (known p)" by (auto simp: known_def)
  ultimately show ?thesis by auto
qed

lemma process_retrans_task_known:
  assumes "process_retrans_task clock t p = Some p'"
  shows "known p' \<subseteq> known p \<union> task_traffic t"
proof -
  from assms obtain src dst where a: "task_src t = to_std_addr src" "task_dst t = to_std_addr dst"
    and f: "foldO (retransmit_one src dst (task_src t) (task_dst t)) (map (\<lambda>(i, pkt). (clock i, pkt)) (enumerate 0 (retrans_queue t))) p = Some p'"
    unfolding process_retrans_task_def bind_eq_Some_conv to_nix_addr_eq by blast
  show ?thesis
  proof (rule foldO_invariant [OF f, of "\<lambda>q. known q \<subseteq> known p \<union> task_traffic t"])
    fix x q q'
    assume x: "x \<in> set (map (\<lambda>(i, pkt). (clock i, pkt)) (enumerate 0 (retrans_queue t)))"
      and q: "known q \<subseteq> known p \<union> task_traffic t" "retransmit_one src dst (task_src t) (task_dst t) x q = Some q'"
    from x obtain i pkt where "x = (clock i, pkt)" "pkt \<in> set (retrans_queue t)" by (auto simp: in_set_enumerate_eq)
    moreover from this have "retrans_datagram src dst pkt \<in> task_traffic t" using a by (auto simp: task_traffic_def)
    ultimately show "known q' \<subseteq> known p \<union> task_traffic t" using retransmit_one_known [of src dst _ _ "clock i" pkt q q'] q by blast
  qed simp
qed

lemma run_tasks_known: "run_tasks clock p = Some p' \<Longrightarrow> known p' \<subseteq> known p"
proof (induction clock p rule: run_tasks.induct)
  case (1 clock p)
  show ?case
  proof (cases "retrans_tasks p = []")
    case True
    with 1(2) show ?thesis by (subst (asm) run_tasks.simps) (simp add: pop_retrans_task_def)
  next
    case False
    let ?p1 = "p\<lparr>retrans_tasks := butlast (retrans_tasks p)\<rparr>" and ?t = "last (retrans_tasks p)"
    have pop: "pop_retrans_task p = (Some ?t, ?p1)" using False by (simp add: pop_retrans_task_def)
    from 1(2) pop obtain p2 where p2: "main_process_retrans_task (clock (length (retrans_tasks ?p1))) ?t ?p1 = Some p2"
      and r: "run_tasks clock p2 = Some p'"
      by (subst (asm) run_tasks.simps) (auto split: option.splits)
    have "known p2 \<subseteq> known ?p1 \<union> task_traffic ?t"
      using p2 process_retrans_task_known by (auto simp: main_process_retrans_task_def RETRANS_HELP_def)
    moreover have "known ?p1 \<subseteq> known p" by (auto simp: known_def dest: in_set_butlastD)
    moreover have "task_traffic ?t \<subseteq> known p" using last_in_set [OF False] by (auto simp: known_def)
    ultimately show ?thesis using 1(1) [OF pop [symmetric] refl p2 r] by blast
  qed
qed

lemma timeout_conn_known:
  assumes "conn_ok now c" and "timeout_conn now c = Some (t, c')"
  shows "traffic c' \<subseteq> traffic c" and "t = Some k \<Longrightarrow> task_traffic k \<subseteq> traffic c"
proof -
  from assms(2) obtain c1 where c1: "conn_on_timeout now c = Some c1 \<or> c1 = c" and c2: "to_client_retrans_task c1 = Some (t, c')"
    by (auto simp: timeout_conn_def bind_eq_Some_conv split: if_splits)
  have fr: "same_frame c c1" using c1 conn_on_timeout_frame by (auto simp: same_frame_def)
  then have "traffic c1 \<subseteq> traffic c"
    using c1 on_timeout_traffic traffic_mono [of c1 c "{}"] by (auto simp: same_frame_def)
  moreover have "addr_ok (client_addr c1)" "addr_ok (server_addr c1)"
    using fr assms(1) by (simp_all add: same_frame_def conn_ok_def)
  note task_known [OF c2 this]
  ultimately show "traffic c' \<subseteq> traffic c" and "t = Some k \<Longrightarrow> task_traffic k \<subseteq> traffic c" by blast+
qed

lemma timeout_conns_known:
  assumes "\<forall>(k, c) \<in> set cs. conn_ok now c \<and> traffic c \<subseteq> A" and "timeout_conns now cs = Some (ts, cs')"
  shows "(\<forall>(k, c) \<in> set cs'. traffic c \<subseteq> A) \<and> (\<forall>t \<in> set ts. task_traffic t \<subseteq> A)"
  using assms
proof (induction cs arbitrary: ts cs')
  case (Cons kc cs)
  obtain k c where kc: "kc = (k, c)" by fastforce
  from Cons.prems(2) obtain t c' ts1 cs1 where t: "timeout_conn now c = Some (t, c')"
    and r: "timeout_conns now cs = Some (ts1, cs1)" "ts = (case t of None \<Rightarrow> ts1 | Some t \<Rightarrow> t # ts1)" "cs' = (k, c') # cs1"
    by (auto simp: kc bind_eq_Some_conv)
  have c: "conn_ok now c" "traffic c \<subseteq> A" using Cons.prems(1) by (simp_all add: kc)
  note one = timeout_conn_known [OF c(1) t]
  have IH: "(\<forall>(k, c) \<in> set cs1. traffic c \<subseteq> A) \<and> (\<forall>t \<in> set ts1. task_traffic t \<subseteq> A)"
    using Cons.IH [OF _ r(1)] Cons.prems(1) by simp
  have "task_traffic x \<subseteq> A" if "x \<in> set ts" for x
    using that IH one(2) [of x] c(2) by (auto simp: r(2) split: option.splits)
  moreover have "traffic c' \<subseteq> A" using one(1) c(2) by blast
  ultimately show ?case using IH by (simp add: r(3))
qed simp

lemma process_timeout_known:
  assumes ok: "pemi_ok t0 p" and t0: "t0 \<le> now" and eq: "process_timeout now p = Some p'"
  shows "known p' \<subseteq> known p"
proof -
  from eq obtain p1 ts cs where p1: "remove_idle_conns now p = Some p1" and tc: "timeout_conns now (conns p1) = Some (ts, cs)"
    and p': "p' = p1\<lparr>conns := cs, retrans_tasks := retrans_tasks p1 @ ts\<rparr>"
    by (auto simp: process_timeout_def bind_eq_Some_conv)
  have ok': "pemi_ok now p" by (rule pemi_ok_later [OF ok t0])
  with remove_idle_pemi_ok [OF ok'] p1 have "pemi_ok now p1" by auto
  then have "\<forall>(k, c) \<in> set (conns p1). conn_ok now c \<and> traffic c \<subseteq> known p1"
    by (auto simp: pemi_ok_def conn_entry_ok_def known_def)
  note tk = timeout_conns_known [OF this tc]
  have "known p' \<subseteq> known p1" by (rule known_mono) (use tk known_wire [of p1] in \<open>auto simp: p' known_def\<close>)
  with remove_idle_known [OF ok' p1] show ?thesis by blast
qed

lemma pemi_rtt_calibration_known:
  assumes "pemi_rtt_calibration clock sample p = Some p'"
  shows "known p' \<subseteq> known p"
proof -
  from assms obtain cs where cs: "mapO (\<lambda>(k, c). map_option (Pair k) (conn_rtt_calibration (fst (clock k)) (snd (clock k)) sample c)) (conns p) = Some cs"
    and p': "p' = p\<lparr>conns := cs\<rparr>" by (auto simp: pemi_rtt_calibration_def bind_eq_Some_conv)
  have "traffic c' \<subseteq> known p" if kc: "(k, c') \<in> set cs" for k c'
  proof -
    from mapO_keys [OF cs] kc obtain c where c: "(k, c) \<in> set (conns p)"
      "conn_rtt_calibration (fst (clock k)) (snd (clock k)) sample c = Some c'" by blast
    have "traffic c' \<subseteq> traffic c"
      using traffic_mono [of c' c "{}"] calibration_traffic [OF c(2)] conn_rtt_calibration_frame [OF c(2)] by (simp add: same_frame_def)
    with c(1) show ?thesis by (auto simp: known_def)
  qed
  then show ?thesis by (intro known_mono) (auto simp: p' known_def)
qed

section \<open>Runs of the program\<close>

lemma on_icmp_known:
  assumes "on_icmp ks i st = Ok st'"
  shows "known (the_pemi st') \<subseteq> known (the_pemi st)"
proof -
  have d: "known (p\<lparr>detector := x\<rparr>) = known p" for p x by (simp add: known_def)
  obtain r x where rx: "recv_response (at_icmp_recv ks) i (detector (the_pemi st)) = (r, x)" by fastforce
  show ?thesis
  proof (cases r)
    case (Ok sample)
    with assms rx obtain p' where "pemi_rtt_calibration (at_calibration ks) sample ((the_pemi st)\<lparr>detector := x\<rparr>) = Some p'"
      "st' = st\<lparr>the_pemi := p'\<rparr>" by (auto simp: on_icmp_def Let_def lift_panic_def bind_eq_Some_conv split: option.splits)
    with pemi_rtt_calibration_known d show ?thesis by fastforce
  next
    case (Err e)
    with assms rx d show ?thesis by (auto simp: on_icmp_def Let_def split: io_error.splits)
  qed (use assms rx in \<open>simp add: on_icmp_def Let_def\<close>)
qed

lemma on_datagram_known:
  assumes ok: "main_ok n t st" and ks: "clocks_ok t t' ks" and eq: "on_datagram n ks dst src payload st = Ok st'"
  shows "known (the_pemi st') \<subseteq> known (the_pemi st) \<union> set (received (UdpDatagram src dst payload))"
proof -
  from eq obtain d s p1 p2 where ds: "dst = Some d" "src = Some s"
    and pp: "process_packet (at_new_conn ks) (at_icmp_send ks) (take MAX_RECV_BUF payload) (at_recv ks) (from_nix_addr s) (from_nix_addr d) (the_pemi st) = (Ok (), p1)"
    and rt: "run_tasks (at_retrans ks) p1 = Some p2" and ap: "after_packet n (st\<lparr>the_pemi := p2\<rparr>) = Some st'"
    by (auto simp: on_datagram_def lift_panic_def bind_eq_Some_conv split: option.splits prod.splits outcome.splits)
  have k: "t \<le> at_recv ks" "sane_clock (at_recv ks)" "sane_clock (fst (at_new_conn ks))" "sane_clock (fst (snd (at_new_conn ks)))"
    using ks by (simp_all add: clocks_ok_def)
  have p: "pemi_ok t (the_pemi st)" using ok by (simp add: main_ok_def)
  have "the_pemi st' = p2" using ap by (auto simp: after_packet_def Let_def bind_eq_Some_conv split: if_splits)
  moreover have "datagram_of (from_nix_addr s) (from_nix_addr d) b = \<lparr>dg_src = s, dg_dst = d, dg_payload = b\<rparr>" for b
    by (simp add: datagram_of_def from_nix_addr_def)
  ultimately show ?thesis
    using process_packet_known [OF p k from_nix_addr_ok from_nix_addr_ok pp] run_tasks_known [OF rt] ds by auto
qed

lemma main_iter_known:
  assumes ok: "main_ok n t st" and ks: "clocks_ok t t' ks" and eq: "main_iter n ks w st = Ok st'"
  shows "known (the_pemi st') \<subseteq> known (the_pemi st) \<union> set (iter_input ks w st)"
proof -
  from eq obtain timeout where to: "pemi_timeout (at_timeout ks) (the_pemi st) = Some timeout"
    by (auto simp: main_iter_def split: option.splits)
  show ?thesis
  proof (cases "timeout = Some 0")
    case True
    with eq to obtain p1 p2 where p: "process_timeout (at_process_timeout ks) (the_pemi st) = Some p1"
      "run_tasks (at_retrans ks) p1 = Some p2" "st' = st\<lparr>the_pemi := p2\<rparr>"
      by (auto simp: main_iter_def lift_panic_def bind_eq_Some_conv split: option.splits)
    have "pemi_ok t (the_pemi st)" "t \<le> at_process_timeout ks" using ok ks by (simp_all add: main_ok_def clocks_ok_def)
    from process_timeout_known [OF this p(1)] run_tasks_known [OF p(2)] p(3) show ?thesis by auto
  next
    case False
    with to have "iter_input ks w st = received w" by (simp add: iter_input_def)
    with eq to False on_icmp_known [of ks _ st st'] on_datagram_known [OF ok ks, of _ _ _ st'] show ?thesis
      by (cases w) (auto simp: main_iter_def)
  qed
qed

lemma main_run_known: "main_run n t rx st \<Longrightarrow> 0 < n \<Longrightarrow> known (the_pemi st) \<subseteq> set rx"
proof (induction rule: main_run.induct)
  case (start a b t proxy)
  show ?case by (simp add: known_def main_init_def set_proxy_only_def pemi_set_factors_def pemi_new_def)
next
  case (iter t rx st t' ks w st')
  with main_iter_known [OF main_run_main_ok [OF iter(1) iter.prems] iter(2,3)] show ?case by auto
qed

section \<open>Property\<close>

text \<open>
  C1. In every run of the program, whatever arrives, each datagram it has put on the wire, forwarded, held
  back for a while or retransmitted, is one it received: same source, same destination, same
  payload. The middlebox makes up no traffic and changes none.
\<close>

theorem wire_was_received:
  assumes "main_run n t rx st" and "0 < n"
  shows "set (wire (the_pemi st)) \<subseteq> set rx"
  using main_run_known [OF assms] known_wire by blast

text \<open>A run that forwards a datagram from an unknown address.\<close>

definition sample_clocks :: main_clocks where
  "sample_clocks = \<lparr>at_timeout = 6, at_process_timeout = 6, at_recv = 7, at_icmp_send = 5, at_icmp_recv = 5,
     at_new_conn = (0, 0, 0, 0), at_calibration = (\<lambda>_. (0, 0, 0)), at_retrans = (\<lambda>_ _. 0)\<rparr>"

definition sample_datagram :: datagram where
  "sample_datagram = \<lparr>dg_src = \<lparr>sin_addr = 1, sin_port = 2\<rparr>, dg_dst = \<lparr>sin_addr = 3, sin_port = 4\<rparr>, dg_payload = [0x40, 1]\<rparr>"

definition sample_wakeup :: wakeup where
  "sample_wakeup = UdpDatagram (Some \<lparr>sin_addr = 1, sin_port = 2\<rparr>) (Some \<lparr>sin_addr = 3, sin_port = 4\<rparr>) [0x40, 1]"

lemma sample_run:
  "\<exists>st. main_run 1000 7 [sample_datagram] st \<and>
     wire (the_pemi st) \<noteq> []"
proof -
  let ?st = "main_init 0 (Fin 2) (Fin 2) False"
  have "sane_factor (Fin 2)" by (simp add: sane_factor_def)
  then have run: "main_run 1000 0 [] ?st" by (intro main_run.start)
  have p: "the_pemi ?st = pemi_new 0" by (simp add: main_init_def set_proxy_only_def pemi_set_factors_def pemi_new_def)
  have to: "pemi_timeout 6 (pemi_new 0) = Some None" by (simp add: pemi_timeout_def pemi_new_def heap_peek_def)
  have "clocks_ok 0 7 sample_clocks" by (simp add: clocks_ok_def sample_clocks_def sane_clock_iff)
  moreover have "\<exists>st. main_iter 1000 sample_clocks sample_wakeup ?st = Ok st \<and> wire (the_pemi st) \<noteq> []"
    using stray_packet to
    by (simp add: main_iter_def p sample_clocks_def sample_wakeup_def on_datagram_def MAX_RECV_BUF_def lift_panic_def
        run_tasks.simps pop_retrans_task_def)
      (simp add: pemi_new_def after_packet_def pkts_def main_init_def)
  moreover have "iter_input sample_clocks sample_wakeup ?st =
      [sample_datagram]"
    using to by (simp add: iter_input_def p sample_clocks_def sample_wakeup_def sample_datagram_def MAX_RECV_BUF_def)
  ultimately show ?thesis using main_run.iter [OF run] by (metis append_Nil)
qed

theorem wire_was_received_witness:
  "\<exists>st. main_run 1000 7 [sample_datagram] st \<and> wire (the_pemi st) \<noteq> [] \<and> set (wire (the_pemi st)) \<subseteq> {sample_datagram}"
proof -
  obtain st where st: "main_run 1000 7 [sample_datagram] st" "wire (the_pemi st) \<noteq> []" using sample_run by blast
  have "set (wire (the_pemi st)) \<subseteq> set [sample_datagram]" by (rule wire_was_received [OF st(1)]) simp
  with st show ?thesis by auto
qed

end
