(* ===== verification/Crashes.thy ===== *)
theory Crashes
  imports Integrity
begin

text \<open>
  Datagrams that end the program. A packet the parser rejects as not QUIC is forwarded; a packet that is
  too short is an error the main loop returns, and some assertions of the source depend on what
  the peers send.
\<close>

section \<open>An empty datagram\<close>

lemma empty_datagram_process_packet:
  assumes "map_of (conns p) (conn_id_new (std_addr s) (std_addr d)) = None"
  shows "\<exists>p'. process_packet ks ic [] now s d p = (Panic, p')"
  using assms by (simp add: process_packet_def Let_def quic_conn_process.simps forward_packet_def)

text \<open>
  An empty UDP datagram between addresses without a connection makes the program panic: no QUIC packet
  is parsed, no connection is made, and the lookup that expects one fails.
\<close>

theorem empty_datagram_panics:
  assumes "map_of (conns (the_pemi st)) (conn_id_new (to_std_addr s) (to_std_addr d)) = None"
    and "pemi_timeout (at_timeout ks) (the_pemi st) = Some r" and "r \<noteq> Some 0"
  shows "main_iter n ks (UdpDatagram (Some s) (Some d) []) st = Panic"
proof -
  from empty_datagram_process_packet [of "the_pemi st" "from_nix_addr s" "from_nix_addr d" "at_new_conn ks" "at_icmp_send ks" "at_recv ks"]
    assms(1) obtain p' where
    "process_packet (at_new_conn ks) (at_icmp_send ks) [] (at_recv ks) (from_nix_addr s) (from_nix_addr d) (the_pemi st) = (Panic, p')"
    by (auto simp: from_nix_addr_def)
  with assms(2,3) show ?thesis by (simp add: main_iter_def on_datagram_def)
qed

theorem empty_datagram_panics_witness:
  "main_iter 1000 sample_clocks (UdpDatagram (Some \<lparr>sin_addr = 1, sin_port = 2\<rparr>) (Some \<lparr>sin_addr = 3, sin_port = 4\<rparr>) [])
     (main_init 0 (Fin 2) (Fin 2) False) = Panic"
  by (rule empty_datagram_panics [of _ _ _ _ None])
    (simp_all add: main_init_def set_proxy_only_def pemi_set_factors_def pemi_new_def pemi_timeout_def heap_peek_def)

section \<open>A truncated packet\<close>

text \<open>A long header that ends before its version field.\<close>

lemma truncated_long_header:
  assumes "is_long first" and "length rest < 4"
  shows "from_slice (first # rest) 0 = Err BufferTooShort"
proof -
  have g: "get_u8 (with_slice (first # rest)) = (Ok first, \<lparr>o_buf = first # rest, o_off = 1\<rparr>)"
    using reads_get_u8 [of first rest] by (simp add: reads_def with_slice_def)
  have "fst (try_octets get_u32 \<lparr>o_buf = first # rest, o_off = 1\<rparr>) = Err BufferTooShort"
    using assms(2) by (simp add: try_octets_def map_err_def get_u32_def get_u_def peek_u_def and_then_def)
  then show ?thesis
    using assms(1) g
    by (cases "try_octets get_u32 \<lparr>o_buf = first # rest, o_off = 1\<rparr>")
      (simp add: from_slice_def from_bytes_def long_header_def try_octets_def map_err_def and_then_def)
qed

lemma parse_error_process:
  assumes "from_slice buf 0 = Err e" and "buf \<noteq> []" and "\<And>c. map_of (conns p) k = Some c \<Longrightarrow> \<not> is_handshaked c"
  shows "fst (quic_conn_process ks k now src dst buf p) = Err e"
proof (cases "map_of (conns p) k")
  case None
  have "first_quic_packet ks now src dst buf = Err e"
    using assms(1) by (cases "from_bytes 0 (with_slice buf)") (simp add: from_slice_def first_quic_packet_def and_then_def)
  with None assms(2) show ?thesis by (simp add: quic_conn_process.simps)
next
  case (Some c)
  with assms(3) have "\<not> is_handshaked (touch now c)" by (simp add: is_handshaked_def touch_def)
  with assms(1) have "process_quic_packet now buf src c = (Err e, touch now c)"
    by (cases "from_bytes 0 (with_slice buf)") (simp add: from_slice_def process_quic_packet_def Let_def)
  with Some assms(2) show ?thesis by (simp add: quic_conn_process.simps)
qed

lemma handshaked_process:
  assumes "map_of (conns p) k = Some c" and "is_handshaked c"
  shows "fst (quic_conn_process ks k now src dst buf p) = Ok ()"
proof (cases "buf = []")
  case False
  from assms(2) have "process_quic_packet now buf src c = (Ok (length buf), touch now c)"
    by (simp add: process_quic_packet_def Let_def is_handshaked_def touch_def)
  with assms(1) False show ?thesis by (simp add: quic_conn_process.simps)
qed (simp add: quic_conn_process.simps)

lemma parse_error_exits:
  assumes "from_slice (take MAX_RECV_BUF payload) 0 = Err e" and "payload \<noteq> []" and "e \<noteq> InvalidState" and "e \<noteq> MayNotQUIC"
    and "\<And>c. map_of (conns (the_pemi st)) (conn_id_new (to_std_addr s) (to_std_addr d)) = Some c \<Longrightarrow> \<not> is_handshaked c"
  shows "on_datagram n ks (Some d) (Some s) payload st = Err (PacketError e)"
proof -
  let ?p = "(the_pemi st)\<lparr>pemi_stats := new_pkt (pemi_stats (the_pemi st))\<rparr>"
  have "take MAX_RECV_BUF payload \<noteq> []" using assms(2) by (simp add: MAX_RECV_BUF_def)
  with assms(1,5) have "fst (quic_conn_process (at_new_conn ks) (conn_id_new (to_std_addr s) (to_std_addr d)) (at_recv ks)
      (to_std_addr s) (to_std_addr d) (take MAX_RECV_BUF payload) ?p) = Err e"
    by (intro parse_error_process) simp_all
  with assms(3,4) have "fst (process_packet (at_new_conn ks) (at_icmp_send ks) (take MAX_RECV_BUF payload) (at_recv ks)
      (from_nix_addr s) (from_nix_addr d) (the_pemi st)) = Err e"
    by (auto simp: process_packet_def from_nix_addr_def Let_def split: prod.splits)
  then show ?thesis by (auto simp: on_datagram_def split: prod.splits)
qed

lemma handshaked_not_an_error:
  assumes "map_of (conns (the_pemi st)) (conn_id_new (to_std_addr s) (to_std_addr d)) = Some c" and "is_handshaked c"
  shows "on_datagram n ks (Some d) (Some s) payload st \<noteq> Err x"
proof -
  let ?p = "(the_pemi st)\<lparr>pemi_stats := new_pkt (pemi_stats (the_pemi st))\<rparr>"
  from assms have "fst (quic_conn_process (at_new_conn ks) (conn_id_new (to_std_addr s) (to_std_addr d)) (at_recv ks)
      (to_std_addr s) (to_std_addr d) (take MAX_RECV_BUF payload) ?p) = Ok ()"
    by (intro handshaked_process) simp_all
  then have "fst (process_packet (at_new_conn ks) (at_icmp_send ks) (take MAX_RECV_BUF payload) (at_recv ks)
      (from_nix_addr s) (from_nix_addr d) (the_pemi st)) \<noteq> Err e" (is "fst ?r \<noteq> _") for e
    by (auto simp: process_packet_def from_nix_addr_def Let_def split: prod.splits option.splits)
  then show ?thesis by (cases ?r; cases "fst ?r") (auto simp: on_datagram_def lift_panic_def split: option.splits)
qed

text \<open>
  C29. A datagram whose header the parser rejects with an error other than \<open>InvalidState\<close> and
  \<open>MayNotQUIC\<close>, in an iteration of the main loop that reads it, stops the middlebox for all its connections
  exactly when its addresses have no connection whose handshake is over: it is neither forwarded nor dropped, and
  its error is what the main loop returns. Every datagram of one to four bytes that begins a long header is
  such a datagram.
\<close>

theorem truncated_packet_exits:
  assumes "pemi_timeout (at_timeout ks) (the_pemi st) = Some r" and "r \<noteq> Some 0" and "payload \<noteq> []"
    and "(\<exists>first rest. payload = first # rest \<and> is_long first \<and> length rest < 4 \<and> e = BufferTooShort) \<or>
      (from_slice (take MAX_RECV_BUF payload) 0 = Err e \<and> e \<noteq> InvalidState \<and> e \<noteq> MayNotQUIC)"
  shows "main_iter n ks (UdpDatagram (Some s) (Some d) payload) st = Err (PacketError e) \<longleftrightarrow>
    (case map_of (conns (the_pemi st)) (conn_id_new (to_std_addr s) (to_std_addr d)) of
       None \<Rightarrow> True | Some c \<Rightarrow> \<not> is_handshaked c)"
proof -
  have "from_slice (take MAX_RECV_BUF payload) 0 = Err e" "e \<noteq> InvalidState" "e \<noteq> MayNotQUIC"
    using assms(4) by (auto simp: truncated_long_header MAX_RECV_BUF_def)
  note exits = parse_error_exits [OF this(1) assms(3) this(2,3), of st s d n ks]
  have "main_iter n ks (UdpDatagram (Some s) (Some d) payload) st = on_datagram n ks (Some d) (Some s) payload st"
    using assms(1,2) by (simp add: main_iter_def)
  with exits handshaked_not_an_error [of st s d] show ?thesis by (auto split: option.splits)
qed

theorem truncated_packet_exits_witness:
  "main_iter 1000 sample_clocks (UdpDatagram (Some \<lparr>sin_addr = 1, sin_port = 2\<rparr>) (Some \<lparr>sin_addr = 3, sin_port = 4\<rparr>) [0xC0])
     (main_init 0 (Fin 2) (Fin 2) False) = Err (PacketError BufferTooShort)"
proof -
  have "is_long 0xC0" by code_simp
  then show ?thesis
    using truncated_packet_exits [of sample_clocks "main_init 0 (Fin 2) (Fin 2) False" None "[0xC0]" BufferTooShort 1000
        "\<lparr>sin_addr = 1, sin_port = 2\<rparr>" "\<lparr>sin_addr = 3, sin_port = 4\<rparr>"]
    by (simp add: main_init_def set_proxy_only_def pemi_set_factors_def pemi_new_def pemi_timeout_def heap_peek_def)
qed

section \<open>A handshake packet of the client\<close>

lemma client_handshake_panics:
  assumes "from_bytes 0 (with_slice buf) = (Ok hdr, b)" and "h_ty hdr = Handshake" and "c_state c \<noteq> Handshaked"
    and "is_from_client src c"
  shows "fst (process_quic_packet now buf src c) = Panic"
  using assms by (simp add: process_quic_packet_def Let_def touch_def is_handshaked_def is_from_client_def)

end
