(* ===== verification/Delivery.thy ===== *)
theory Delivery
  imports Forwarding
begin

text \<open>
  What \<open>Forwarding\<close> shows of a datagram that is processed without an error, here with its premise discharged: on a connection whose
  handshake is over a packet of the server, and in proxy mode any packet, is processed, without a panic, and is on the wire;
  a packet of the client can only fail in Copa.
\<close>

section \<open>The wire grows at its end\<close>

lemma check_delayed_acks_appends:
  "check_delayed_acks now w c = Some (w', c') \<Longrightarrow> \<exists>out. w' = w @ out"
  by (auto simp: check_delayed_acks_def Let_def send_acks_eq send_ack_def bind_eq_Some_conv split: if_splits)

lemma process_udp_packet_appends:
  assumes "conn_ok now c" and "sane_clock now" and eq: "process_udp_packet now src buf w c = Some (nf, w', c')"
  shows "\<exists>out. w' = w @ out \<and> mset out + held_back c' = held_back c"
proof -
  from eq obtain c3 where "check_delayed_acks now w c3 = Some (w', c')"
    by (auto simp: process_udp_packet_def bind_eq_Some_conv)
  from check_delayed_acks_appends [OF this] obtain out where "w' = w @ out" by blast
  with process_udp_packet_held(1) [OF assms] show ?thesis by (auto simp: ac_simps)
qed

section \<open>After the handshake\<close>

lemma handshaked_packet: "is_handshaked c \<Longrightarrow> process_quic_packet now buf src c = (Ok (length buf), touch now c)"
  by (simp add: process_quic_packet_def Let_def touch_def is_handshaked_def)

lemma handshaked_tracked:
  assumes "map_of (conns p) k = Some c" and "is_handshaked c" and "buf \<noteq> []"
  shows "quic_conn_process ks k now src dst buf p = (Ok (), put_conn k (touch now c) p)"
proof -
  have "quic_conn_process ks k now src dst buf p = quic_conn_process ks k now src dst [] (put_conn k (touch now c) p)"
    using assms handshaked_packet [OF assms(2), of now buf src] by (subst quic_conn_process.simps) simp
  then show ?thesis by (simp add: quic_conn_process.simps)
qed

lemma forward_packet_total:
  assumes ok: "pemi_ok now p" and c: "map_of (conns p) (conn_id_new (std_addr s) (std_addr d)) = Some c"
    and now: "sane_clock now" and s: "addr_ok s" and d: "addr_ok d" and c1: "pemi_udp_packet ic buf now s d c p = Some (c1, p1)"
  shows "\<exists>p'. forward_packet ic buf now s d (conn_id_new (std_addr s) (std_addr d)) p = Some p' \<and> wire p' = wire p1"
proof -
  let ?k = "conn_id_new (std_addr s) (std_addr d)"
  obtain t c2 where c2: "to_client_retrans_task c1 = Some (t, c2)" using to_client_retrans_task_eq by blast
  note e = pemi_ok_lookup [OF ok c]
  note u = pemi_udp_packet_ok [OF e now s d c1]
  note f = task_frame [OF c2, unfolded same_frame_def]
  have ok1: "pemi_ok now p1" and cp1: "map_of (conns p1) ?k = Some c" using ok u c by (simp_all add: pemi_ok_def)
  have "pemi_ok now (put_conn ?k c2 p1)"
    using u f e retrans_task_ok [OF u(2) c2] by (intro put_conn_ok [OF ok1 cp1]) (auto simp: conn_entry_ok_def)
  then have "pemi_ok now (push_task t (put_conn ?k c2 p1))" by (auto simp: push_task_def pemi_ok_def split: option.splits)
  from remove_idle_pemi_ok [OF this] c c1 c2 show ?thesis
    by (auto simp: forward_packet_def push_task_def put_conn_def split: option.splits)
qed

lemma pemi_udp_packet_total:
  assumes ok: "conn_ok now c" and now: "sane_clock now"
    and cond: "proxy_only p \<or> \<not> is_from_client (std_addr s) c \<and> (server_rtt c \<noteq> 0 \<or> packets (to_server_queue c) \<noteq> []) \<and>
      length (packets (to_client_queue c)) \<le> 1000"
  shows "\<exists>c1 p1 out. pemi_udp_packet ic buf now s d c p = Some (c1, p1) \<and> wire p1 = wire p @ datagram_of s d buf # out \<and>
    mset out \<subseteq># held_back c \<and> (proxy_only p \<longrightarrow> out = [])"
proof (cases "proxy_only p")
  case True
  then show ?thesis by (simp add: pemi_udp_packet_def datagram_of_def)
next
  case False
  with cond have srv: "\<not> is_from_client (std_addr s) c" by simp
  let ?w = "wire p @ [datagram_of s d buf]"
  from process_server_packet [OF ok now srv, where buf = buf and wire = ?w] cond False obtain nf w' c' where
    u: "process_udp_packet now (std_addr s) buf ?w c = Some (nf, w', c')" by blast
  from process_udp_packet_appends [OF ok now this] obtain out where out: "w' = ?w @ out" "mset out + held_back c' = held_back c" by blast
  have "\<not> need_reorder_ack (std_addr s) c" using srv by (simp add: need_reorder_ack_def)
  then have "\<exists>p1. pemi_udp_packet ic buf now s d c p = Some (c', p1) \<and> wire p1 = w'"
    using False u by (auto simp: pemi_udp_packet_def datagram_of_def Let_def case_prod_beta)
  moreover have "mset out \<subseteq># held_back c" using out(2) by (metis mset_subset_eq_add_left)
  ultimately show ?thesis using out(1) False by auto
qed

section \<open>Packets of the client\<close>

text \<open>An RTT sample concerns the RTT of the client and Copa only.\<close>

lemma update_client_rtt_None_cong:
  assumes "client_rtt c = client_rtt d" and "conn_cc c = conn_cc d"
  shows "rel_option (\<lambda>c' d'. client_rtt c' = client_rtt d' \<and> conn_cc c' = conn_cc d') (update_client_rtt v now c) (update_client_rtt v now d)"
proof -
  let ?r = "if client_rtt d = 0 then Some v
            else do { a \<leftarrow> mul_f64 (client_rtt d) (Fin (1 - RTT_SMOOTHING_FACTOR)); b \<leftarrow> mul_f64 v (Fin RTT_SMOOTHING_FACTOR); dur_add a b }"
  have "update_client_rtt v now e = do { rtt \<leftarrow> ?r; cc' \<leftarrow> on_ack_send rtt now (conn_cc d); Some (e\<lparr>client_rtt := rtt, conn_cc := cc'\<rparr>) }"
    if "client_rtt e = client_rtt d" "conn_cc e = conn_cc d" for e
    using that by (simp add: update_client_rtt_def)
  with assms show ?thesis by (cases ?r; cases "on_ack_send (the ?r) now (conn_cc d)") simp_all
qed

lemma update_client_rtts_None_cong:
  "client_rtt c = client_rtt d \<Longrightarrow> conn_cc c = conn_cc d \<Longrightarrow> update_client_rtts vs now c = None \<longleftrightarrow> update_client_rtts vs now d = None"
proof (induction vs arbitrary: c d)
  case (Cons v vs)
  from update_client_rtt_None_cong [OF Cons.prems, of v now] show ?case
  proof (cases rule: option.rel_cases)
    case (Some c' d')
    with Cons.IH [of c' d'] show ?thesis by (simp add: update_client_rtts_def)
  qed (simp add: update_client_rtts_def)
qed (simp add: update_client_rtts_def)

lemma measure_pkt_num:
  assumes "measure_dominant_direction ts fc n c = Some c'"
  shows "to_server_pkt_num c' = to_server_pkt_num c"
proof -
  let ?c = "count_packet fc n c"
  have "to_server_pkt_num ?c = to_server_pkt_num c" by (simp add: count_packet_def)
  moreover from assms obtain r where "dur_add (client_rtt ?c) (server_rtt ?c) = Some r"
    by (cases "dur_add (client_rtt ?c) (server_rtt ?c)") (auto simp: measure_dominant_direction_def Let_def)
  ultimately show ?thesis using assms by (auto simp: measure_dominant_direction_def Let_def)
qed

text \<open>Holding an ACK back does not panic, and concerns nothing else.\<close>

lemma add_delayed_ack_total:
  assumes ok: "conn_ok now c"
  shows "\<exists>w' c'. add_delayed_ack t payload w c = Some (w', c') \<and> conn_ok now c' \<and> client_rtt c' = client_rtt c \<and> server_rtt c' = server_rtt c \<and>
    client_addr c' = client_addr c \<and> to_client_queue c' = to_client_queue c \<and> conn_cc c' = conn_cc c \<and> to_server_pkt_num c' = to_server_pkt_num c"
proof -
  have "client_rtt c + server_rtt c \<le> DURATION_MAX" using ok by (simp add: conn_ok_def SANE_eq DURATION_MAX_def)
  then obtain e where e: "dur_add (client_rtt c) (server_rtt c) = Some e" by (simp add: dur_add_def)
  let ?c = "c\<lparr>delayed_ack_queue := delayed_ack_queue c @ [\<lparr>ack_forward_ts = t, ack_payload = payload, ack_e2e_rtt = e\<rparr>]\<rparr>"
  have "e \<le> 2 * SANE" using e ok by (auto simp: dur_add_eq_Some conn_ok_def)
  with ok have "acks_ok ?c" by (auto simp: conn_ok_def acks_ok_def)
  from check_delayed_acks_cases [OF this, of t w] obtain w' c' where c': "check_delayed_acks t w ?c = Some (w', c')" "c' = ?c \<or> c' = ?c\<lparr>delayed_ack_queue := []\<rparr>"
    by blast
  then have "add_delayed_ack t payload w c = Some (w', c')" by (simp add: add_delayed_ack_def e)
  moreover from this have "conn_ok now c'" by (rule add_delayed_ack_ok [OF ok])
  ultimately show ?thesis using c'(2) by auto
qed

lemma client_packet_panics:
  assumes ok: "conn_ok now c" and now: "sane_clock now" and src: "is_from_client src c" and rtt: "server_rtt c \<noteq> 0" "client_rtt c \<noteq> 0"
  shows "process_udp_packet now src buf w c = None \<longleftrightarrow>
    (\<exists>samples q. check_reply now (to_server_pkt_num c + 1) (client_rtt c) (to_client_queue c) = Some (Some samples, q) \<and>
      update_client_rtts samples now c = None)"
proof -
  have c1: "initial_rtt now src c = Some c" using src rtt by (simp add: initial_rtt_def)
  from measure_dominant_direction_ok [OF ok, of now True "length buf"] obtain c2 where
    c2: "measure_dominant_direction now True (length buf) c = Some c2" "conn_ok now c2" "client_rtt c2 = client_rtt c"
    "server_rtt c2 = server_rtt c" "client_addr c2 = client_addr c" "to_client_queue c2 = to_client_queue c" "conn_cc c2 = conn_cc c" by blast
  have num: "to_server_pkt_num c2 = to_server_pkt_num c" using measure_pkt_num [OF c2(1)] .
  have src2: "is_from_client src c2" using src c2(5) by (simp add: is_from_client_def)
  have cp: "client_packet now buf c2 = reply_from_client now c2"
    using rtt(1) c2(4) by (simp add: client_packet_def record_for_server_rtt_def)
  have "check_delayed_acks now w c3 \<noteq> None" if "reply_from_client now c2 = Some c3" for c3
  proof -
    have "conn_ok now c3" using reply_from_client_ok [OF c2(2) now that] .
    then show ?thesis using check_delayed_acks_cases [of c3 now w] by (auto simp: conn_ok_def)
  qed
  then have "process_udp_packet now src buf w c = None \<longleftrightarrow> reply_from_client now c2 = None"
    using c1 c2(1) src src2 cp by (cases "reply_from_client now c2") (auto simp: process_udp_packet_def bind_eq_None_conv)
  moreover obtain r q where r: "check_reply now (to_server_pkt_num c + 1) (client_rtt c) (to_client_queue c) = Some (r, q)"
  proof -
    have "pq_ok (to_client_queue c)" "client_rtt c \<le> SANE" using ok by (simp_all add: conn_ok_def)
    from check_reply_ok [OF this(1) now this(2)] that show thesis by blast
  qed
  have "reply_from_client now c2 = None \<longleftrightarrow> (\<exists>samples. r = Some samples \<and> update_client_rtts samples now c = None)"
  proof (cases r)
    case None
    then show ?thesis using r num c2(3,6) by (simp add: reply_from_client_def Let_def)
  next
    case (Some samples)
    let ?c2 = "c2\<lparr>to_server_pkt_num := to_server_pkt_num c2 + 1, to_client_queue := q\<rparr>"
    have "reply_from_client now c2 = update_client_rtts samples now ?c2"
      using Some r num c2(3,6) by (simp add: reply_from_client_def Let_def)
    with Some update_client_rtts_None_cong [of ?c2 c samples now] c2(3,7) show ?thesis by simp
  qed
  ultimately show ?thesis using r by auto
qed

definition copa_panics :: "instant \<Rightarrow> conn \<Rightarrow> bool" where
  "copa_panics now c \<longleftrightarrow> (\<exists>samples q. check_reply now (to_server_pkt_num c + 1) (client_rtt c) (to_client_queue c) = Some (Some samples, q) \<and>
     update_client_rtts samples now c = None)"

lemma copa_panics_cong:
  assumes "client_rtt c = client_rtt d" and "conn_cc c = conn_cc d" and "to_client_queue c = to_client_queue d"
    and "to_server_pkt_num c = to_server_pkt_num d"
  shows "copa_panics now c \<longleftrightarrow> copa_panics now d"
  using assms update_client_rtts_None_cong [OF assms(1,2)] by (simp add: copa_panics_def)

lemma pemi_client_packet:
  assumes ok: "conn_ok now c" and now: "sane_clock now" and src: "is_from_client (std_addr s) c" and rtt: "server_rtt c \<noteq> 0" "client_rtt c \<noteq> 0"
    and pr: "\<not> proxy_only p"
  shows "pemi_udp_packet ic buf now s d c p = None \<longleftrightarrow> copa_panics now c"
proof -
  obtain w1 c1 where w1: "(if need_reorder_ack (std_addr s) c then add_delayed_ack now buf (wire p) c
      else Some (send_transparently (nix_addr s) (nix_addr d) buf (wire p), c)) = Some (w1, c1)"
    and c1: "conn_ok now c1" "client_rtt c1 = client_rtt c" "server_rtt c1 = server_rtt c" "client_addr c1 = client_addr c"
      "to_client_queue c1 = to_client_queue c" "conn_cc c1 = conn_cc c" "to_server_pkt_num c1 = to_server_pkt_num c"
    using add_delayed_ack_total [OF ok, of now buf "wire p"] ok by (cases "need_reorder_ack (std_addr s) c") auto
  have "pemi_udp_packet ic buf now s d c p = None \<longleftrightarrow> process_udp_packet now (std_addr s) buf w1 c1 = None"
    using pr w1 by (cases "process_udp_packet now (std_addr s) buf w1 c1") (auto simp: pemi_udp_packet_def Let_def)
  also have "\<dots> \<longleftrightarrow> copa_panics now c1"
    using client_packet_panics [OF c1(1) now, of "std_addr s" buf w1] src rtt c1 by (simp add: copa_panics_def is_from_client_def)
  also have "\<dots> \<longleftrightarrow> copa_panics now c" using copa_panics_cong c1 by blast
  finally show ?thesis .
qed

section \<open>Properties\<close>

text \<open>
  C3. Delivery: in a sound middlebox, a packet of the server on a connection whose handshake is over, with a first RTT or a packet
  to measure it from and room in the queue, and in proxy mode any packet of such a connection, is processed with neither an
  error nor a panic, and is put on the wire next, unchanged; only held-back ACKs of the same connection may follow it.
\<close>

theorem packet_delivered:
  assumes "pemi_ok t p" and "t \<le> now" and "sane_clock now" and "addr_ok s" and "addr_ok d" and "buf \<noteq> []"
    and "map_of (conns p) (conn_id_new (std_addr s) (std_addr d)) = Some c" and "is_handshaked c"
    and "proxy_only p \<or> \<not> is_from_client (std_addr s) c \<and> (server_rtt c \<noteq> 0 \<or> packets (to_server_queue c) \<noteq> []) \<and>
      length (packets (to_client_queue c)) \<le> 1000"
  shows "\<exists>p' out. process_packet ks ic buf now s d p = (Ok (), p') \<and> wire p' = wire p @ datagram_of s d buf # out \<and>
    mset out \<subseteq># held_back c \<and> (proxy_only p \<longrightarrow> out = [])"
proof -
  let ?k = "conn_id_new (std_addr s) (std_addr d)"
  let ?p = "p\<lparr>pemi_stats := new_pkt (pemi_stats p)\<rparr>"
  let ?p1 = "put_conn ?k (touch now c) ?p"
  have ok: "pemi_ok now ?p" using pemi_ok_later [OF assms(1,2)] by (simp add: pemi_ok_def)
  have c: "map_of (conns ?p) ?k = Some c" using assms(7) by simp
  have ok1: "pemi_ok now ?p1" using known_conn_step [OF ok c handshaked_packet [OF assms(8)]] by blast
  have c1: "map_of (conns ?p1) ?k = Some (touch now c)" by (simp add: put_conn_def update_conv')
  have "conn_ok now (touch now c)" using pemi_ok_lookup [OF ok1 c1] by (simp add: conn_entry_ok_def)
  from pemi_udp_packet_total [OF this assms(3), of ?p1 s ic buf d] assms(9) obtain c2 p2 out where
    u: "pemi_udp_packet ic buf now s d (touch now c) ?p1 = Some (c2, p2)" "wire p2 = wire p @ datagram_of s d buf # out"
    "mset out \<subseteq># held_back (touch now c)" "proxy_only p \<longrightarrow> out = []"
    by (auto simp: put_conn_def touch_def is_from_client_def)
  from forward_packet_total [OF ok1 c1 assms(3-5) u(1)] obtain p' where "forward_packet ic buf now s d ?k ?p1 = Some p'" "wire p' = wire p2" by blast
  then have "process_packet ks ic buf now s d p = (Ok (), p') \<and> wire p' = wire p @ datagram_of s d buf # out"
    using handshaked_tracked [OF c assms(8,6)] u(2) by (simp add: process_packet_def Let_def)
  moreover have "held_back (touch now c) = held_back c"
    using ack_datagram_cong [of "touch now c" c] by (simp add: held_back_def touch_def)
  ultimately show ?thesis using u(3,4) by auto
qed

text \<open>A packet of the server 3:4 to the client 1:2.\<close>

definition shaken_conn :: conn where
  "shaken_conn = sample_conn\<lparr>c_state := Handshaked, server_rtt := 1000, client_rtt := 1000\<rparr>"

definition shaken_pemi :: pemi where
  "shaken_pemi = (pemi_new 0)\<lparr>conns := [(conn_id_new (V4 1 2) (V4 3 4), shaken_conn)], access_times := [(0, conn_id_new (V4 1 2) (V4 3 4))]\<rparr>"

lemma shaken_pemi_ok: "pemi_ok 0 shaken_pemi"
proof -
  have "conn_ok 0 shaken_conn" using sample_conn_ok by (simp add: conn_ok_def acks_ok_def shaken_conn_def SANE_eq)
  moreover have "std_addr (client_addr shaken_conn) = V4 1 2" "std_addr (server_addr shaken_conn) = V4 3 4" "last_access shaken_conn = 0"
    by (simp_all add: shaken_conn_def sample_conn_def conn_new_simp from_std_addr_eq)
  ultimately show ?thesis
    by (auto simp: shaken_pemi_def pemi_new_def pemi_ok_def heap_sync_def stamps_ok_def sane_factor_def conn_entry_ok_def
        IDLE_TIMEOUT_def from_secs_def)
qed

theorem packet_delivered_witness:
  "\<exists>p' out. process_packet (0, 0, 0, 0) 0 [1, 2, 3] 9 (from_nix_addr \<lparr>sin_addr = 3, sin_port = 4\<rparr>) (from_nix_addr \<lparr>sin_addr = 1, sin_port = 2\<rparr>) shaken_pemi
     = (Ok (), p') \<and> wire p' = \<lparr>dg_src = \<lparr>sin_addr = 3, sin_port = 4\<rparr>, dg_dst = \<lparr>sin_addr = 1, sin_port = 2\<rparr>, dg_payload = [1, 2, 3]\<rparr> # out"
proof -
  let ?s = "from_nix_addr \<lparr>sin_addr = 3, sin_port = 4\<rparr>" and ?d = "from_nix_addr \<lparr>sin_addr = 1, sin_port = 2\<rparr>"
  have "map_of (conns shaken_pemi) (conn_id_new (std_addr ?s) (std_addr ?d)) = Some shaken_conn"
    by (simp add: shaken_pemi_def from_nix_addr_def to_std_addr_def conn_id_new_commute)
  moreover have "\<not> is_from_client (std_addr ?s) shaken_conn" "server_rtt shaken_conn \<noteq> 0" "length (packets (to_client_queue shaken_conn)) \<le> 1000"
    by (simp_all add: is_from_client_def from_nix_addr_def to_std_addr_def shaken_conn_def sample_conn_def conn_new_simp from_std_addr_eq
        queue_new_def)
  moreover have "is_handshaked shaken_conn" by (simp add: is_handshaked_def shaken_conn_def)
  ultimately obtain p' out where "process_packet (0, 0, 0, 0) 0 [1, 2, 3] 9 ?s ?d shaken_pemi = (Ok (), p')"
    "wire p' = wire shaken_pemi @ datagram_of ?s ?d [1, 2, 3] # out"
    using packet_delivered [OF shaken_pemi_ok, of 9 ?s ?d "[1, 2, 3]" shaken_conn "(0, 0, 0, 0)" 0]
    by (auto simp: sane_clock_iff from_nix_addr_ok)
  then show ?thesis by (auto simp: shaken_pemi_def pemi_new_def datagram_of_def from_nix_addr_def)
qed

text \<open>
  C4. A packet of the client, once the handshake is over and both RTTs are known, can go wrong in one way only: it completes
  flowlets whose RTT samples make Copa panic. Otherwise it is processed without an error, whatever it contains.
\<close>

theorem client_packet_panics_iff:
  assumes "pemi_ok t p" and "t \<le> now" and "sane_clock now" and "addr_ok s" and "addr_ok d" and "buf \<noteq> []"
    and "map_of (conns p) (conn_id_new (std_addr s) (std_addr d)) = Some c" and "is_handshaked c"
    and "\<not> proxy_only p" and "is_from_client (std_addr s) c" and "server_rtt c \<noteq> 0" and "client_rtt c \<noteq> 0"
  shows "fst (process_packet ks ic buf now s d p) =
    (if \<exists>samples q. check_reply now (to_server_pkt_num c + 1) (client_rtt c) (to_client_queue c) = Some (Some samples, q) \<and>
        update_client_rtts samples now c = None then Panic else Ok ())"
proof -
  let ?k = "conn_id_new (std_addr s) (std_addr d)"
  let ?p = "p\<lparr>pemi_stats := new_pkt (pemi_stats p)\<rparr>"
  let ?p1 = "put_conn ?k (touch now c) ?p"
  have ok: "pemi_ok now ?p" using pemi_ok_later [OF assms(1,2)] by (simp add: pemi_ok_def)
  have c: "map_of (conns ?p) ?k = Some c" using assms(7) by simp
  have ok1: "pemi_ok now ?p1" using known_conn_step [OF ok c handshaked_packet [OF assms(8)]] by blast
  have c1: "map_of (conns ?p1) ?k = Some (touch now c)" by (simp add: put_conn_def update_conv')
  have "conn_ok now (touch now c)" using pemi_ok_lookup [OF ok1 c1] by (simp add: conn_entry_ok_def)
  from pemi_client_packet [OF this assms(3), of s ?p1 ic buf d] assms(9-12)
  have u: "pemi_udp_packet ic buf now s d (touch now c) ?p1 = None \<longleftrightarrow> copa_panics now (touch now c)"
    by (simp add: put_conn_def touch_def is_from_client_def)
  have cp: "copa_panics now (touch now c) \<longleftrightarrow> copa_panics now c" by (rule copa_panics_cong) (simp_all add: touch_def)
  have f: "forward_packet ic buf now s d ?k ?p1 = None \<longleftrightarrow> copa_panics now c"
  proof (cases "pemi_udp_packet ic buf now s d (touch now c) ?p1")
    case None
    with u cp c1 show ?thesis by (simp add: forward_packet_def)
  next
    case (Some x)
    obtain c2 p2 where x: "x = (c2, p2)" by fastforce
    from forward_packet_total [OF ok1 c1 assms(3-5) Some [unfolded x]] Some u cp show ?thesis by auto
  qed
  have "fst (process_packet ks ic buf now s d p) = (if copa_panics now c then Panic else Ok ())"
    using handshaked_tracked [OF c assms(8,6)] f by (auto simp: process_packet_def Let_def split: option.splits)
  then show ?thesis by (simp only: copa_panics_def)
qed

theorem client_packet_panics_iff_witness:
  "fst (process_packet (0, 0, 0, 0) 0 [1] 9 (from_nix_addr \<lparr>sin_addr = 1, sin_port = 2\<rparr>) (from_nix_addr \<lparr>sin_addr = 3, sin_port = 4\<rparr>) shaken_pemi) = Ok ()"
proof -
  let ?s = "from_nix_addr \<lparr>sin_addr = 1, sin_port = 2\<rparr>" and ?d = "from_nix_addr \<lparr>sin_addr = 3, sin_port = 4\<rparr>"
  have f: "std_addr (client_addr shaken_conn) = V4 1 2" "to_client_queue shaken_conn = queue_new 0" "server_rtt shaken_conn \<noteq> 0"
    "client_rtt shaken_conn \<noteq> 0" "is_handshaked shaken_conn"
    by (simp_all add: shaken_conn_def sample_conn_def conn_new_simp is_handshaked_def)
  have "check_reply 9 n r (to_client_queue shaken_conn) \<noteq> Some (Some samples, q)" for n r samples q
    unfolding f(2) by (auto simp: check_reply_def Let_def bind_eq_Some_conv queue_new_def)
  moreover have "map_of (conns shaken_pemi) (conn_id_new (std_addr ?s) (std_addr ?d)) = Some shaken_conn"
    by (simp add: shaken_pemi_def from_nix_addr_def to_std_addr_def)
  moreover have "is_from_client (std_addr ?s) shaken_conn" by (simp add: is_from_client_def f(1) from_nix_addr_def to_std_addr_def)
  moreover have "\<not> proxy_only shaken_pemi" by (simp add: shaken_pemi_def pemi_new_def)
  ultimately show ?thesis
    using client_packet_panics_iff [OF shaken_pemi_ok, of 9 ?s ?d "[1]" shaken_conn "(0, 0, 0, 0)" 0] f(3-5)
    by (simp add: sane_clock_iff from_nix_addr_ok)
qed

end
