(* ===== verification/Cycles.thy ===== *)
theory Cycles
  imports Rust_Time
begin

text \<open>
  The feature \<open>cycles\<close> of the middlebox (\<open>src/lib.rs\<close>): five counters of processor cycles, filled by \<open>count_cycles\<close> around the
  parts of the event loop in \<open>bin/main.rs\<close> and \<open>pemi_io.rs\<close>, and a summary every hundred packets. A reading of
  the time stamp counter is a number. \<open>None\<close> is a panic; with overflow checks an underflow is one.
\<close>

section \<open>Model\<close>

record cycles =
  CYCLES :: "nat list"
  CYCLES_COUNT :: nat

definition WARMUP :: nat where
  "WARMUP = 10"

definition cycles_init :: cycles where
  "cycles_init = \<lparr>CYCLES = replicate 5 0, CYCLES_COUNT = 0\<rparr>"

definition count_cycles :: "nat \<Rightarrow> nat \<Rightarrow> nat \<Rightarrow> cycles \<Rightarrow> cycles option" where
  "count_cycles idx start now c = do {
     rust_assert (start \<le> now);
     v \<leftarrow> index (CYCLES c) idx;
     rust_assert (v + (now - start) < 2 ^ 64);
     Some (c\<lparr>CYCLES := (CYCLES c)[idx := v + (now - start)]\<rparr>) }"

text \<open>\<open>CYCLES[0] - CYCLES[1] - CYCLES[2] - CYCLES[3] - CYCLES[4]\<close>.\<close>

definition cycles_other :: "nat list \<Rightarrow> nat option" where
  "cycles_other cs = foldO (\<lambda>v acc. if v \<le> acc then Some (acc - v) else None) (tl cs) (hd cs)"

text \<open>The three lines that are printed: percentages, millions, and thousands per packet.\<close>

definition summary_lines :: "nat \<Rightarrow> nat list \<Rightarrow> (f64 list \<times> nat list \<times> nat list) option" where
  "summary_lines recv_pkts cs = do {
     let all_cycles = f64_of_nat (hd cs);
     let norm = map (\<lambda>v. f64_mul (f64_div (f64_of_nat v) all_cycles) (Fin 100)) cs;
     let percent = norm @ [f64_sub (hd norm) (foldl f64_add (Fin 0) (tl norm))];
     other \<leftarrow> cycles_other cs;
     let millions = map (\<lambda>v. v div 1000000) (cs @ [other]);
     rust_assert (recv_pkts \<noteq> 0);
     Some (percent, millions, map (\<lambda>v. v div recv_pkts div 1000) (cs @ [other])) }"

definition print_cycles_count_summary :: "nat \<Rightarrow> cycles \<Rightarrow> ((f64 list \<times> nat list \<times> nat list) option \<times> cycles) option" where
  "print_cycles_count_summary recv_pkts c0 = (let
       c1 = (if CYCLES_COUNT c0 = WARMUP then c0\<lparr>CYCLES := replicate 5 0\<rparr> else c0);
       c = c1\<lparr>CYCLES_COUNT := CYCLES_COUNT c1 + 1\<rparr> in
     if CYCLES_COUNT c mod 100 = 0 then do { l \<leftarrow> summary_lines recv_pkts (CYCLES c); Some (Some l, c) }
     else Some (None, c))"

text \<open>
  One packet of the event loop: receiving between \<open>t1\<close> and \<open>t1'\<close>, computing between \<open>t3\<close> and \<open>t3'\<close>, with the datagrams that are
  forwarded meanwhile, and the whole round between \<open>t0\<close> and \<open>t0'\<close>.
\<close>

record packet_readings =
  t0 :: nat
  t1 :: nat
  t1' :: nat
  t3 :: nat
  sends :: "(nat \<times> nat) list"
  t3' :: nat
  t0' :: nat

definition packet_cycles :: "nat \<Rightarrow> packet_readings \<Rightarrow> cycles \<Rightarrow> ((f64 list \<times> nat list \<times> nat list) option \<times> cycles) option" where
  "packet_cycles recv_pkts r c = do {
     c1 \<leftarrow> count_cycles 1 (t1 r) (t1' r) c;
     c2 \<leftarrow> foldO (\<lambda>(s, e). count_cycles 2 s e) (sends r) c1;
     c3 \<leftarrow> count_cycles 3 (t3 r) (t3' r) c2;
     c0 \<leftarrow> count_cycles 0 (t0 r) (t0' r) c3;
     print_cycles_count_summary recv_pkts c0 }"

text \<open>A round that only receives \<open>EAGAIN\<close>, and one that handles a timeout; the other rounds count only themselves.\<close>

definition eagain_cycles :: "nat \<Rightarrow> nat \<Rightarrow> nat \<Rightarrow> nat \<Rightarrow> cycles \<Rightarrow> cycles option" where
  "eagain_cycles s0 s4 e4 e0 c = do { c' \<leftarrow> count_cycles 4 s4 e4 c; count_cycles 0 s0 e0 c' }"

definition timeout_cycles :: "nat \<Rightarrow> nat \<Rightarrow> (nat \<times> nat) list \<Rightarrow> nat \<Rightarrow> nat \<Rightarrow> cycles \<Rightarrow> cycles option" where
  "timeout_cycles s0 s3 fw e3 e0 c = do {
     c2 \<leftarrow> foldO (\<lambda>(s, e). count_cycles 2 s e) fw c;
     c3 \<leftarrow> count_cycles 3 s3 e3 c2;
     count_cycles 0 s0 e0 c3 }"

text \<open>Intervals one after the other, between \<open>lo\<close> and \<open>hi\<close>: what the monotonic counter gives.\<close>

fun in_order :: "nat \<Rightarrow> (nat \<times> nat) list \<Rightarrow> nat \<Rightarrow> bool" where
  "in_order lo [] hi \<longleftrightarrow> lo \<le> hi"
| "in_order lo ((s, e) # is) hi \<longleftrightarrow> lo \<le> s \<and> s \<le> e \<and> in_order e is hi"

inductive cycles_run :: "cycles \<Rightarrow> bool" where
  start: "cycles_run cycles_init"
| packet: "cycles_run c \<Longrightarrow> in_order (t0 r) [(t1 r, t1' r), (t3 r, t3' r)] (t0' r) \<Longrightarrow> in_order (t3 r) (sends r) (t3' r) \<Longrightarrow>
    packet_cycles n r c = Some (l, c') \<Longrightarrow> cycles_run c'"
| eagain: "cycles_run c \<Longrightarrow> in_order s0 [(s4, e4)] e0 \<Longrightarrow> eagain_cycles s0 s4 e4 e0 c = Some c' \<Longrightarrow> cycles_run c'"
| timeout: "cycles_run c \<Longrightarrow> in_order s0 [(s3, e3)] e0 \<Longrightarrow> in_order s3 fw e3 \<Longrightarrow> timeout_cycles s0 s3 fw e3 e0 c = Some c' \<Longrightarrow> cycles_run c'"
| other: "cycles_run c \<Longrightarrow> count_cycles 0 s0 e0 c = Some c' \<Longrightarrow> cycles_run c'"

section \<open>What the counters hold\<close>

text \<open>Receiving, computing and waiting are parts of the whole, and forwarding is a part of computing.\<close>

definition nested :: "nat \<Rightarrow> nat \<Rightarrow> nat \<Rightarrow> nat \<Rightarrow> nat \<Rightarrow> bool" where
  "nested a0 a1 a2 a3 a4 \<longleftrightarrow> a1 + a3 + a4 \<le> a0 \<and> a2 \<le> a3"

lemma count_cycles_eq:
  "count_cycles i s e c = Some c' \<Longrightarrow> s \<le> e \<and> i < length (CYCLES c) \<and> c' = c\<lparr>CYCLES := (CYCLES c)[i := CYCLES c ! i + (e - s)]\<rparr>"
  by (auto simp: count_cycles_def index_def bind_eq_Some_conv split: if_splits)

lemma count_sends:
  "foldO (\<lambda>(s, e). count_cycles 2 s e) fw c = Some c' \<Longrightarrow> in_order lo fw hi \<Longrightarrow> CYCLES c = [a0, a1, a2, a3, a4] \<Longrightarrow>
    \<exists>d. d \<le> hi - lo \<and> CYCLES c' = [a0, a1, a2 + d, a3, a4] \<and> CYCLES_COUNT c' = CYCLES_COUNT c"
proof (induction fw arbitrary: c lo a2)
  case (Cons f fw)
  obtain s e where f: "f = (s, e)" by fastforce
  from Cons.prems(1) f obtain c1 where c1: "count_cycles 2 s e c = Some c1" "foldO (\<lambda>(s, e). count_cycles 2 s e) fw c1 = Some c'"
    by (auto simp: bind_eq_Some_conv)
  from count_cycles_eq [OF c1(1)] Cons.prems(3) have "CYCLES c1 = [a0, a1, a2 + (e - s), a3, a4]" "CYCLES_COUNT c1 = CYCLES_COUNT c"
    by (simp_all add: numeral_2_eq_2)
  with Cons.IH [OF c1(2), of e "a2 + (e - s)"] Cons.prems(2) f obtain d where
    "d \<le> hi - e" "CYCLES c' = [a0, a1, a2 + (e - s) + d, a3, a4]" "CYCLES_COUNT c' = CYCLES_COUNT c" by auto
  moreover have "e \<le> hi" using Cons.prems(2) f
  proof -
    have "in_order lo is hi \<Longrightarrow> lo \<le> hi" for lo "is" by (induction lo "is" hi rule: in_order.induct) auto
    then show ?thesis using Cons.prems(2) f by auto
  qed
  ultimately show ?case using Cons.prems(2) f by (intro exI [of _ "e - s + d"]) auto
qed simp

lemma count_at:
  assumes "count_cycles i s e c = Some c'" and "CYCLES c = [a0, a1, a2, a3, a4]"
  shows "i = 0 \<Longrightarrow> CYCLES c' = [a0 + (e - s), a1, a2, a3, a4]" and "i = 1 \<Longrightarrow> CYCLES c' = [a0, a1 + (e - s), a2, a3, a4]"
    and "i = 3 \<Longrightarrow> CYCLES c' = [a0, a1, a2, a3 + (e - s), a4]" and "i = 4 \<Longrightarrow> CYCLES c' = [a0, a1, a2, a3, a4 + (e - s)]"
  using count_cycles_eq [OF assms(1)] assms(2) by (simp_all add: numeral_eq_Suc)

lemma timeout_nested:
  assumes "timeout_cycles s0 s3 fw e3 e0 c = Some c'" and "CYCLES c = [a0, a1, a2, a3, a4]" and "in_order s3 fw e3"
  shows "\<exists>d. d \<le> e3 - s3 \<and> CYCLES c' = [a0 + (e0 - s0), a1, a2 + d, a3 + (e3 - s3), a4]"
proof -
  from assms(1) obtain c2 c3 where c2: "foldO (\<lambda>(s, e). count_cycles 2 s e) fw c = Some c2"
    and c3: "count_cycles 3 s3 e3 c2 = Some c3" and c': "count_cycles 0 s0 e0 c3 = Some c'"
    by (auto simp: timeout_cycles_def bind_eq_Some_conv)
  from count_sends [OF c2 assms(3,2)] obtain d where "d \<le> e3 - s3" "CYCLES c2 = [a0, a1, a2 + d, a3, a4]" by blast
  with count_at(1) [OF c' count_at(3) [OF c3]] show ?thesis by blast
qed

lemma packet_nested:
  assumes eq: "packet_cycles n r c = Some (l, c')" and c: "CYCLES c = [a0, a1, a2, a3, a4]"
    and sends: "in_order (t3 r) (sends r) (t3' r)"
  shows "CYCLES c' = replicate 5 0 \<or> (\<exists>d. d \<le> t3' r - t3 r \<and>
    CYCLES c' = [a0 + (t0' r - t0 r), a1 + (t1' r - t1 r), a2 + d, a3 + (t3' r - t3 r), a4])"
proof -
  from eq obtain c1 c2 where c1: "count_cycles 1 (t1 r) (t1' r) c = Some c1"
    and c2: "timeout_cycles (t0 r) (t3 r) (sends r) (t3' r) (t0' r) c1 = Some c2" and p: "print_cycles_count_summary n c2 = Some (l, c')"
    by (auto simp: packet_cycles_def timeout_cycles_def bind_eq_Some_conv)
  from timeout_nested [OF c2 count_at(2) [OF c1 c] sends] obtain d where
    "d \<le> t3' r - t3 r" "CYCLES c2 = [a0 + (t0' r - t0 r), a1 + (t1' r - t1 r), a2 + d, a3 + (t3' r - t3 r), a4]" by auto
  moreover from p have "CYCLES c' = CYCLES c2 \<or> CYCLES c' = replicate 5 0"
    by (auto simp: print_cycles_count_summary_def Let_def bind_eq_Some_conv split: if_splits)
  ultimately show ?thesis by metis
qed

lemma cycles_run_nested: "cycles_run c \<Longrightarrow> \<exists>a0 a1 a2 a3 a4. CYCLES c = [a0, a1, a2, a3, a4] \<and> nested a0 a1 a2 a3 a4"
proof (induction rule: cycles_run.induct)
  case start
  show ?case by (simp add: cycles_init_def nested_def numeral_eq_Suc)
next
  case (packet c r n l c')
  then obtain a0 a1 a2 a3 a4 where a: "CYCLES c = [a0, a1, a2, a3, a4]" "nested a0 a1 a2 a3 a4" by blast
  from packet_nested [OF packet.hyps(4) a(1) packet.hyps(3)] show ?case
  proof (elim disjE exE conjE)
    assume "CYCLES c' = replicate 5 0"
    then show ?thesis by (simp add: nested_def numeral_eq_Suc)
  next
    fix d assume "d \<le> t3' r - t3 r" "CYCLES c' = [a0 + (t0' r - t0 r), a1 + (t1' r - t1 r), a2 + d, a3 + (t3' r - t3 r), a4]"
    then show ?thesis using a(2) packet.hyps(2) by (auto simp: nested_def)
  qed
next
  case (eagain c s0 s4 e4 e0 c')
  then obtain a0 a1 a2 a3 a4 where a: "CYCLES c = [a0, a1, a2, a3, a4]" "nested a0 a1 a2 a3 a4" by blast
  from eagain.hyps(3) obtain c1 where c1: "count_cycles 4 s4 e4 c = Some c1" and c': "count_cycles 0 s0 e0 c1 = Some c'"
    by (auto simp: eagain_cycles_def bind_eq_Some_conv)
  have "CYCLES c' = [a0 + (e0 - s0), a1, a2, a3, a4 + (e4 - s4)]" using count_at(1) [OF c' count_at(4) [OF c1 a(1)]] by simp
  with a(2) eagain.hyps(2) show ?case by (auto simp: nested_def)
next
  case (timeout c s0 s3 e3 e0 fw c')
  then obtain a0 a1 a2 a3 a4 where a: "CYCLES c = [a0, a1, a2, a3, a4]" "nested a0 a1 a2 a3 a4" by blast
  from timeout_nested [OF timeout.hyps(4) a(1) timeout.hyps(3)] a(2) timeout.hyps(2) show ?case by (auto simp: nested_def)
next
  case (other c s0 e0 c')
  then obtain a0 a1 a2 a3 a4 where a: "CYCLES c = [a0, a1, a2, a3, a4]" "nested a0 a1 a2 a3 a4" by blast
  from count_at(1) [OF other.hyps(2) a(1)] a(2) show ?case by (auto simp: nested_def)
qed

section \<open>Property\<close>

text \<open>
  The counters are nested: in every run with a monotonic counter, receiving, computing and waiting add up to at most the
  whole, and forwarding is a part of computing. The rest that the summary prints takes forwarding off once more: it is
  too small by exactly the cycles of forwarding, and the subtraction underflows whenever there are more of these than of the rest.
\<close>

theorem cycles_other_twice:
  assumes "cycles_run c"
  shows "\<exists>a0 a1 a2 a3 a4. CYCLES c = [a0, a1, a2, a3, a4] \<and> a1 + a3 + a4 \<le> a0 \<and> a2 \<le> a3 \<and>
    cycles_other (CYCLES c) = (if a2 \<le> a0 - (a1 + a3 + a4) then Some (a0 - (a1 + a3 + a4) - a2) else None)"
proof -
  from cycles_run_nested [OF assms] obtain a0 a1 a2 a3 a4 where a: "CYCLES c = [a0, a1, a2, a3, a4]" "a1 + a3 + a4 \<le> a0" "a2 \<le> a3"
    by (auto simp: nested_def)
  then have "cycles_other (CYCLES c) = (if a2 \<le> a0 - (a1 + a3 + a4) then Some (a0 - (a1 + a3 + a4) - a2) else None)"
    by (auto simp: cycles_other_def)
  with a show ?thesis by blast
qed

text \<open>A packet that takes ten cycles to receive and a hundred to compute, eighty of which forward it.\<close>

definition busy_packet :: packet_readings where
  "busy_packet = \<lparr>t0 = 0, t1 = 1, t1' = 11, t3 = 12, sends = [(20, 100)], t3' = 112, t0' = 115\<rparr>"

definition busy_cycles :: cycles where
  "busy_cycles = \<lparr>CYCLES = [115, 10, 80, 100, 0], CYCLES_COUNT = 1\<rparr>"

lemma busy_run: "cycles_run busy_cycles"
proof (rule cycles_run.packet [OF cycles_run.start, of busy_packet 1 None])
  show "packet_cycles 1 busy_packet cycles_init = Some (None, busy_cycles)" by code_simp
qed (simp_all add: busy_packet_def)

theorem cycles_other_twice_witness: "cycles_run busy_cycles \<and> cycles_other (CYCLES busy_cycles) = None"
  using cycles_other_twice [OF busy_run] busy_run by (auto simp: busy_cycles_def)

end
