(* ===== verification/Unit_Tests.thy ===== *)
theory Unit_Tests
  imports Octets
begin

text \<open>
  The unit tests of the repository are translated as definitions too, and each is shown to pass on the model: they are
  an account of the intended behaviour that is independent of the model. A test is a sequence of
  assertions on a state; an assertion that does not hold, an \<open>unwrap\<close> of an error and a panic of the code under test all
  are a panic of the test. A test that reads the clock takes the readings as arguments and is shown to pass for every
  one of them.
\<close>

type_synonym 's test = "('s, unit, unit) meth"

definition unwrap :: "('s, 'e, 'a) meth \<Rightarrow> ('s, unit, 'a) meth" where
  "unwrap m = (\<lambda>s. case m s of (Ok x, s') \<Rightarrow> (Ok x, s') | (_, s') \<Rightarrow> (Panic, s'))"

text \<open>\<open>assert_eq!\<close> of the result of a call that may change the state, and \<open>assert!\<close> of its \<open>is_ok\<close> and \<open>is_err\<close>.\<close>

definition assert_eq :: "('s, unit, 'a) meth \<Rightarrow> 'a \<Rightarrow> 's test" where
  "assert_eq m x = and_then m (\<lambda>y. if y = x then ret () else panic)"

definition assert_is_ok :: "('s, 'e, 'a) meth \<Rightarrow> 's test" where
  "assert_is_ok m = (\<lambda>s. case m s of (Ok _, s') \<Rightarrow> (Ok (), s') | (_, s') \<Rightarrow> (Panic, s'))"

definition assert_is_err :: "('s, 'e, 'a) meth \<Rightarrow> 's test" where
  "assert_is_err m = (\<lambda>s. case m s of (Err _, s') \<Rightarrow> (Ok (), s') | (_, s') \<Rightarrow> (Panic, s'))"

text \<open>A call whose result is dropped.\<close>

definition discard :: "('s, unit, 'a) meth \<Rightarrow> 's test" where
  "discard m = and_then m (\<lambda>_. ret ())"

fun steps :: "'s test list \<Rightarrow> 's test" where
  "steps [] = ret ()"
| "steps (t # ts) = and_then t (\<lambda>_. steps ts)"

definition passes :: "'s test \<Rightarrow> 's \<Rightarrow> bool" where
  "passes t s \<longleftrightarrow> (case t s of (Ok _, _) \<Rightarrow> True | _ \<Rightarrow> False)"

text \<open>A test with the attribute \<open>should_panic\<close>.\<close>

definition should_panic :: "'s test \<Rightarrow> 's \<Rightarrow> bool" where
  "should_panic t s \<longleftrightarrow> (case t s of (Panic, _) \<Rightarrow> True | _ \<Rightarrow> False)"

lemma assert_eq_apply:
  "assert_eq m x s = (case m s of
     (Ok y, s') \<Rightarrow> (if y = x then Ok () else Panic, s') | (Err e, s') \<Rightarrow> (Err e, s') | (Panic, s') \<Rightarrow> (Panic, s'))"
  by (auto simp: assert_eq_def and_then_def ret_def panic_def split: prod.splits outcome.splits)

lemma passes_Cons: "passes (steps (t # ts)) s \<longleftrightarrow> (case t s of (Ok _, s') \<Rightarrow> passes (steps ts) s' | _ \<Rightarrow> False)"
  by (auto simp: passes_def and_then_def split: prod.splits outcome.splits)

lemma passes_Nil [simp]: "passes (steps []) s"
  by (simp add: passes_def ret_def)

end
