(* ===== verification/Octets_Mut.thy ===== *)
theory Octets_Mut
  imports Octets
begin

text \<open>
  \<open>OctetsMut\<close> of \<open>pemi/deps/octets/src/lib.rs\<close>: the mutable cursor. It has the fields of \<open>Octets\<close> and its
  own copy of the reading methods. A mutable slice or sub-cursor borrows a part of the buffer; it is
  represented by that part, a \<open>range\<close>, and what a client does with it while it holds the borrow
  is \<open>borrow\<close>: the operation runs on the part and its result is written back.
\<close>

section \<open>Model\<close>

type_synonym octets_mut = octets

definition mut_with_slice :: "bytes \<Rightarrow> octets_mut" where
  "mut_with_slice buf = \<lparr>o_buf = buf, o_off = 0\<rparr>"

definition mut_cap :: "octets_mut \<Rightarrow> nat" where
  "mut_cap b = length (o_buf b) - o_off b"

definition mut_len :: "octets_mut \<Rightarrow> nat" where
  "mut_len b = length (o_buf b)"

definition mut_is_empty :: "octets_mut \<Rightarrow> bool" where
  "mut_is_empty b \<longleftrightarrow> length (o_buf b) = 0"

definition mut_off :: "octets_mut \<Rightarrow> nat" where
  "mut_off b = o_off b"

definition mut_buf :: "octets_mut \<Rightarrow> bytes" where
  "mut_buf b = o_buf b"

definition mut_as_ref :: "octets_mut \<Rightarrow> bytes" where
  "mut_as_ref b = drop (o_off b) (o_buf b)"

definition mut_to_vec :: "octets_mut \<Rightarrow> bytes" where
  "mut_to_vec b = mut_as_ref b"

definition mut_get_u8 :: "u8 reader" where
  "mut_get_u8 = get_u 1"

definition mut_peek_u8 :: "u8 reader" where
  "mut_peek_u8 = peek_u 1"

definition mut_get_u16 :: "u16 reader" where
  "mut_get_u16 = get_u 2"

definition mut_get_u24 :: "u32 reader" where
  "mut_get_u24 = get_u 3"

definition mut_get_u32 :: "u32 reader" where
  "mut_get_u32 = get_u 4"

definition mut_get_u64 :: "u64 reader" where
  "mut_get_u64 = get_u 8"

definition mut_get_varint :: "u64 reader" where
  "mut_get_varint = and_then mut_peek_u8 (\<lambda>first.
     case varint_parse_len first of
       None \<Rightarrow> panic
     | Some len \<Rightarrow> and_then (gets mut_cap) (\<lambda>c.
         if len > c then fail BufferTooShortError
         else if len = 1 then and_then mut_get_u8 (\<lambda>x. ret (ucast x))
         else if len = 2 then and_then mut_get_u16 (\<lambda>x. ret (ucast (x AND 0x3fff)))
         else if len = 4 then and_then mut_get_u32 (\<lambda>x. ret (ucast (x AND 0x3fffffff)))
         else if len = 8 then and_then mut_get_u64 (\<lambda>x. ret (x AND 0x3fffffffffffffff))
         else panic))"

definition mut_get_bytes :: "nat \<Rightarrow> octets reader" where
  "mut_get_bytes len = (\<lambda>b.
     if mut_cap b < len then (Err BufferTooShortError, b)
     else (Ok \<lparr>o_buf = take len (drop (o_off b) (o_buf b)), o_off = 0\<rparr>, b\<lparr>o_off := o_off b + len\<rparr>))"

definition mut_get_bytes_with_u8_length :: "octets reader" where
  "mut_get_bytes_with_u8_length = and_then mut_get_u8 (\<lambda>len. mut_get_bytes (unat len))"

definition mut_get_bytes_with_u16_length :: "octets reader" where
  "mut_get_bytes_with_u16_length = and_then mut_get_u16 (\<lambda>len. mut_get_bytes (unat len))"

definition mut_get_bytes_with_varint_length :: "octets reader" where
  "mut_get_bytes_with_varint_length = and_then mut_get_varint (\<lambda>len. mut_get_bytes (unat len))"

definition mut_peek_bytes :: "nat \<Rightarrow> octets reader" where
  "mut_peek_bytes len = (\<lambda>b.
     if mut_cap b < len then (Err BufferTooShortError, b)
     else (Ok \<lparr>o_buf = take len (drop (o_off b) (o_buf b)), o_off = 0\<rparr>, b))"

definition mut_skip :: "nat \<Rightarrow> unit reader" where
  "mut_skip n = (\<lambda>b. if n > mut_cap b then (Err BufferTooShortError, b) else (Ok (), b\<lparr>o_off := o_off b + n\<rparr>))"

subsection \<open>Mutable borrows\<close>

text \<open>The bytes from \<open>lo\<close> up to \<open>hi\<close>.\<close>

record range =
  lo :: nat
  hi :: nat

definition as_mut :: "octets_mut \<Rightarrow> range" where
  "as_mut b = \<lparr>lo = o_off b, hi = length (o_buf b)\<rparr>"

definition get_bytes_mut :: "nat \<Rightarrow> range reader" where
  "get_bytes_mut len = (\<lambda>b.
     if mut_cap b < len then (Err BufferTooShortError, b)
     else (Ok \<lparr>lo = o_off b, hi = o_off b + len\<rparr>, b\<lparr>o_off := o_off b + len\<rparr>))"

definition peek_bytes_mut :: "nat \<Rightarrow> range reader" where
  "peek_bytes_mut len = (\<lambda>b.
     if mut_cap b < len then (Err BufferTooShortError, b)
     else (Ok \<lparr>lo = o_off b, hi = o_off b + len\<rparr>, b))"

definition mut_slice :: "nat \<Rightarrow> range reader" where
  "mut_slice len = (\<lambda>b.
     if len > mut_cap b then (Err BufferTooShortError, b)
     else (Ok \<lparr>lo = o_off b, hi = o_off b + len\<rparr>, b))"

definition mut_slice_last :: "nat \<Rightarrow> range reader" where
  "mut_slice_last len = (\<lambda>b.
     if len > mut_cap b then (Err BufferTooShortError, b)
     else (Ok \<lparr>lo = mut_cap b - len, hi = length (o_buf b)\<rparr>, b))"

definition split_at_mut :: "nat \<Rightarrow> (range \<times> range) reader" where
  "split_at_mut k = (\<lambda>b.
     if mut_len b < k then (Err BufferTooShortError, b)
     else (Ok (\<lparr>lo = 0, hi = k\<rparr>, \<lparr>lo = k, hi = length (o_buf b)\<rparr>), b))"

text \<open>The use of a borrowed part as a cursor of its own.\<close>

definition part :: "range \<Rightarrow> bytes \<Rightarrow> bytes" where
  "part r bs = take (hi r - lo r) (drop (lo r) bs)"

definition borrow :: "range \<Rightarrow> (octets, 'e, 'a) meth \<Rightarrow> (octets_mut, 'e, 'a) meth" where
  "borrow r m = (\<lambda>b. case m (mut_with_slice (part r (o_buf b))) of (x, b') \<Rightarrow>
     (x, b\<lparr>o_buf := take (lo r) (o_buf b) @ o_buf b' @ drop (hi r) (o_buf b)\<rparr>))"

section \<open>The readers\<close>

lemma mut_readers_eq:
  "mut_with_slice = with_slice" "mut_cap = cap" "mut_len = octets_len" "mut_is_empty = octets_is_empty" "mut_to_vec = to_vec"
  "mut_get_u8 = get_u8" "mut_peek_u8 = peek_u8" "mut_get_u16 = get_u16" "mut_get_u24 = get_u24" "mut_get_u32 = get_u32"
  "mut_get_u64 = get_u64" "mut_skip = skip" "mut_get_bytes = get_bytes" "mut_peek_bytes = peek_bytes"
  by (simp_all add: fun_eq_iff mut_with_slice_def with_slice_def mut_cap_def cap_def mut_len_def octets_len_def mut_is_empty_def
      octets_is_empty_def mut_to_vec_def mut_as_ref_def to_vec_def mut_get_u8_def get_u8_def mut_peek_u8_def peek_u8_def
      mut_get_u16_def get_u16_def mut_get_u24_def get_u24_def mut_get_u32_def get_u32_def mut_get_u64_def get_u64_def
      mut_skip_def skip_def mut_get_bytes_def get_bytes_def mut_peek_bytes_def peek_bytes_def)

lemma mut_varint_eq: "mut_get_varint = get_varint"
  by (simp only: mut_get_varint_def get_varint_def mut_readers_eq)

lemma mut_length_prefixed_eq:
  "mut_get_bytes_with_u8_length = get_bytes_with_u8_length" "mut_get_bytes_with_u16_length = get_bytes_with_u16_length"
  "mut_get_bytes_with_varint_length = get_bytes_with_varint_length"
  by (simp_all only: mut_get_bytes_with_u8_length_def get_bytes_with_u8_length_def mut_get_bytes_with_u16_length_def
      get_bytes_with_u16_length_def mut_get_bytes_with_varint_length_def get_bytes_with_varint_length_def mut_readers_eq mut_varint_eq)

section \<open>Borrowed parts\<close>

definition in_buffer :: "range \<Rightarrow> octets_mut \<Rightarrow> bool" where
  "in_buffer r b \<longleftrightarrow> lo r \<le> hi r \<and> hi r \<le> length (o_buf b)"

text \<open>Every method that hands out a part hands out one inside the buffer.\<close>

lemma borrowed_in_buffer:
  assumes "octets_inv b"
  shows "in_buffer (as_mut b) b" and "get_bytes_mut n b = (Ok r, b') \<Longrightarrow> in_buffer r b'"
    and "peek_bytes_mut n b = (Ok r, b') \<Longrightarrow> in_buffer r b'" and "mut_slice n b = (Ok r, b') \<Longrightarrow> in_buffer r b'"
    and "mut_slice_last n b = (Ok r, b') \<Longrightarrow> in_buffer r b'"
    and "split_at_mut n b = (Ok (r, s), b') \<Longrightarrow> in_buffer r b' \<and> in_buffer s b' \<and> hi r = lo s"
  using assms
  by (auto simp: in_buffer_def octets_inv_def as_mut_def get_bytes_mut_def peek_bytes_mut_def mut_slice_def mut_slice_last_def
      split_at_mut_def mut_cap_def mut_len_def split: if_splits)

lemma part_length: "in_buffer r b \<Longrightarrow> length (part r (o_buf b)) = hi r - lo r"
  by (auto simp: in_buffer_def part_def)

text \<open>
  The contract of a borrow: a method that keeps the length of its buffer changes the part and nothing
  else, neither the bytes around it nor the offset.
\<close>

lemma borrow_frame:
  assumes r: "in_buffer r b" and m: "cursor m" and eq: "borrow r m b = (x, b')"
  shows "\<exists>c. m (mut_with_slice (part r (o_buf b))) = (x, c) \<and> part r (o_buf b') = o_buf c \<and>
    take (lo r) (o_buf b') = take (lo r) (o_buf b) \<and> drop (hi r) (o_buf b') = drop (hi r) (o_buf b) \<and>
    length (o_buf b') = length (o_buf b) \<and> o_off b' = o_off b"
proof -
  let ?s = "mut_with_slice (part r (o_buf b))"
  obtain c where c: "m ?s = (x, c)" and b': "b' = b\<lparr>o_buf := take (lo r) (o_buf b) @ o_buf c @ drop (hi r) (o_buf b)\<rparr>"
    using eq by (auto simp: borrow_def split: prod.splits)
  have "length (o_buf c) = hi r - lo r"
    using cursor.step [OF m _ c] part_length [OF r] by (simp add: mut_readers_eq)
  with r c b' show ?thesis by (auto simp: in_buffer_def part_def)
qed

text \<open>Disjoint parts, as \<open>split_at\<close> hands them out, do not see each other.\<close>

lemma borrow_disjoint:
  assumes r: "in_buffer r b" and m: "cursor m" and eq: "borrow r m b = (x, b')"
    and s: "in_buffer s b" and dis: "hi r \<le> lo s \<or> hi s \<le> lo r"
  shows "part s (o_buf b') = part s (o_buf b)"
proof -
  from borrow_frame [OF r m eq] have
    f: "take (lo r) (o_buf b') = take (lo r) (o_buf b)" "drop (hi r) (o_buf b') = drop (hi r) (o_buf b)" by blast+
  from dis show ?thesis
  proof
    assume le: "hi r \<le> lo s"
    then have "drop (lo s) bs = drop (lo s - hi r) (drop (hi r) bs)" for bs :: bytes by simp
    with f(2) show ?thesis by (simp only: part_def)
  next
    assume le: "hi s \<le> lo r"
    then have "part s bs = drop (lo s) (take (hi s) (take (lo r) bs))" for bs :: bytes
      by (simp add: part_def drop_take min_absorb1)
    with f(1) show ?thesis by (simp only:)
  qed
qed

section \<open>Properties\<close>

text \<open>
  C30. Writing through a borrowed part is writing in place: taking the next bytes as a mutable sub-cursor
  and putting as many bytes into it gives the same result, the same buffer and the same offset as
  putting them directly, the error for a buffer that is too short included.
\<close>

theorem get_bytes_mut_writes_through:
  "and_then (get_bytes_mut (length v)) (\<lambda>r. borrow r (put_bytes v)) b = put_bytes v b"
proof (cases "cap b < length v")
  case True
  then show ?thesis by (simp add: get_bytes_mut_def mut_readers_eq put_bytes_def)
next
  case False
  let ?r = "\<lparr>lo = o_off b, hi = o_off b + length v\<rparr>" and ?b = "b\<lparr>o_off := o_off b + length v\<rparr>"
  have get: "get_bytes_mut (length v) b = (Ok ?r, ?b)" using False by (simp add: get_bytes_mut_def mut_readers_eq)
  have len: "length (part ?r (o_buf b)) = length v" if "v \<noteq> []"
    using False that by (simp add: part_def cap_def)
  show ?thesis
  proof (cases "v = []")
    case True
    with get show ?thesis by (simp add: put_bytes_def borrow_def part_def mut_readers_eq and_then_def)
  next
    case ne: False
    have sub: "put_bytes v (with_slice (part ?r (o_buf b))) = (Ok (), \<lparr>o_buf = v, o_off = length v\<rparr>)"
      using len [OF ne] ne by (simp add: put_bytes_def Let_def cap_def with_slice_def)
    have "borrow ?r (put_bytes v) ?b = (Ok (), ?b\<lparr>o_buf := take (o_off b) (o_buf b) @ v @ drop (o_off b + length v) (o_buf b)\<rparr>)"
      by (simp add: borrow_def mut_readers_eq sub)
    moreover have "put_bytes v b = (Ok (), ?b\<lparr>o_buf := take (o_off b) (o_buf b) @ v @ drop (o_off b + length v) (o_buf b)\<rparr>)"
      using False ne by (simp add: put_bytes_def Let_def)
    ultimately show ?thesis using get by simp
  qed
qed

text \<open>
  The two halves \<open>split_at\<close> hands out do not alias: what any method does with one of them, put methods
  included, leaves every byte of the other as it is.
\<close>

theorem split_halves_independent:
  assumes "octets_inv b" and "split_at_mut k b = (Ok (r, s), b1)" and "cursor m"
  shows "part s (o_buf (snd (borrow r m b1))) = part s (o_buf b1) \<and> part r (o_buf (snd (borrow s m b1))) = part r (o_buf b1)"
proof -
  have io: "in_buffer r b1" "in_buffer s b1" "hi r = lo s" using borrowed_in_buffer(6) [OF assms(1,2)] by blast+
  obtain x b2 y b3 where "borrow r m b1 = (x, b2)" "borrow s m b1 = (y, b3)" by fastforce
  with borrow_disjoint [OF io(1) assms(3) _ io(2)] borrow_disjoint [OF io(2) assms(3) _ io(1)] io(3) show ?thesis by simp
qed

lemma put_u_cursor: "cursor (put_u v len)"
  by unfold_locales (auto simp: put_u_def octets_inv_def split: if_splits)

text \<open>Four bytes split in the middle; the second half takes a 16-bit value.\<close>

theorem split_halves_independent_witness:
  "\<exists>r s b1. split_at_mut 2 (with_slice [1, 2, 3, 4]) = (Ok (r, s), b1) \<and>
     part r (o_buf (snd (borrow s (put_u16 0x0506) b1))) = [1, 2] \<and> part s (o_buf (snd (borrow s (put_u16 0x0506) b1))) = [5, 6]"
proof -
  let ?r = "\<lparr>lo = 0, hi = 2\<rparr>" and ?s = "\<lparr>lo = 2, hi = 4\<rparr>" and ?b = "with_slice [1, 2, 3, 4]"
  have split: "split_at_mut 2 ?b = (Ok (?r, ?s), ?b)" by (simp add: split_at_mut_def mut_len_def)
  have "cursor (put_u16 0x0506)" by (simp add: put_u16_def put_u_cursor)
  from split_halves_independent [OF with_slice_inv split this] have "part ?r (o_buf (snd (borrow ?s (put_u16 0x0506) ?b))) = [1, 2]"
    by (simp add: part_def numeral_2_eq_2)
  moreover have "part ?s (o_buf (snd (borrow ?s (put_u16 0x0506) ?b))) = [5, 6]" by code_simp
  ultimately show ?thesis using split by blast
qed

end
