(* ===== verification/Octets_Tests.thy ===== *)
theory Octets_Tests
  imports Unit_Tests Octets_Mut
begin

text \<open>
  The unit tests of \<open>pemi/deps/octets/src/lib.rs\<close>, with the prefix \<open>test_\<close>. A test of a mutable cursor that compares
  the array afterwards asserts the buffer of the cursor at its end, when the borrow is over. A borrowed part is compared
  by its bytes.
\<close>

section \<open>Tests\<close>

definition str :: "string \<Rightarrow> bytes" where
  "str s = map (\<lambda>c. of_nat (of_char c)) s"

definition applied :: "('a \<Rightarrow> 'b) \<Rightarrow> ('s, 'e, 'a) meth \<Rightarrow> ('s, 'e, 'b) meth" where
  "applied f m = and_then m (\<lambda>x. ret (f x))"

text \<open>What a mutable slice points to, and the cursors on the two parts of a split.\<close>

definition borrowed :: "(octets_mut, 'e, range) meth \<Rightarrow> (octets_mut, 'e, bytes) meth" where
  "borrowed m = and_then m (\<lambda>r. gets (\<lambda>b. part r (o_buf b)))"

definition halves :: "(octets_mut, 'e, range \<times> range) meth \<Rightarrow> (octets_mut, 'e, octets_mut \<times> octets_mut) meth" where
  "halves m = and_then m (\<lambda>(r, s). gets (\<lambda>b. (mut_with_slice (part r (o_buf b)), mut_with_slice (part s (o_buf b)))))"

definition test_get_u :: bool where
  "test_get_u = passes (steps [
     assert_eq (gets cap) 18, assert_eq (gets octets_off) 0,
     assert_eq (unwrap get_u8) 1, assert_eq (gets cap) 17, assert_eq (gets octets_off) 1,
     assert_eq (unwrap get_u16) 0x203, assert_eq (gets cap) 15, assert_eq (gets octets_off) 3,
     assert_eq (unwrap get_u24) 0x40506, assert_eq (gets cap) 12, assert_eq (gets octets_off) 6,
     assert_eq (unwrap get_u32) 0x0708090a, assert_eq (gets cap) 8, assert_eq (gets octets_off) 10,
     assert_eq (unwrap get_u64) 0x0b0c0d0e0f101112, assert_eq (gets cap) 0, assert_eq (gets octets_off) 18,
     assert_is_err get_u8, assert_is_err get_u16, assert_is_err get_u24, assert_is_err get_u32, assert_is_err get_u64])
     (with_slice [1, 2, 3, 4, 5, 6, 7, 8, 9, 10, 11, 12, 13, 14, 15, 16, 17, 18])"

definition test_get_u_mut :: bool where
  "test_get_u_mut = passes (steps [
     assert_eq (gets mut_cap) 18, assert_eq (gets mut_off) 0,
     assert_eq (unwrap mut_get_u8) 1, assert_eq (gets mut_cap) 17, assert_eq (gets mut_off) 1,
     assert_eq (unwrap mut_get_u16) 0x203, assert_eq (gets mut_cap) 15, assert_eq (gets mut_off) 3,
     assert_eq (unwrap mut_get_u24) 0x40506, assert_eq (gets mut_cap) 12, assert_eq (gets mut_off) 6,
     assert_eq (unwrap mut_get_u32) 0x0708090a, assert_eq (gets mut_cap) 8, assert_eq (gets mut_off) 10,
     assert_eq (unwrap mut_get_u64) 0x0b0c0d0e0f101112, assert_eq (gets mut_cap) 0, assert_eq (gets mut_off) 18,
     assert_is_err mut_get_u8, assert_is_err mut_get_u16, assert_is_err mut_get_u24, assert_is_err mut_get_u32, assert_is_err mut_get_u64])
     (mut_with_slice [1, 2, 3, 4, 5, 6, 7, 8, 9, 10, 11, 12, 13, 14, 15, 16, 17, 18])"

definition test_peek_u :: bool where
  "test_peek_u = passes (steps [
     assert_eq (gets cap) 2, assert_eq (gets octets_off) 0, assert_eq (unwrap peek_u8) 1, assert_eq (gets cap) 2,
     assert_eq (gets octets_off) 0, assert_eq (unwrap peek_u8) 1, assert_eq (gets cap) 2,
     assert_eq (gets octets_off) 0, discard (unwrap get_u16), assert_is_err peek_u8])
     (with_slice [1, 2])"

definition test_peek_u_mut :: bool where
  "test_peek_u_mut = passes (steps [
     assert_eq (gets mut_cap) 2, assert_eq (gets mut_off) 0, assert_eq (unwrap mut_peek_u8) 1, assert_eq (gets mut_cap) 2,
     assert_eq (gets mut_off) 0, assert_eq (unwrap mut_peek_u8) 1, assert_eq (gets mut_cap) 2,
     assert_eq (gets mut_off) 0, discard (unwrap mut_get_u16), assert_is_err mut_peek_u8])
     (mut_with_slice [1, 2])"

definition test_get_bytes :: bool where
  "test_get_bytes = passes (steps [
     assert_eq (gets cap) 10, assert_eq (gets octets_off) 0,
     assert_eq (applied as_ref (unwrap (get_bytes 5))) [1, 2, 3, 4, 5], assert_eq (gets cap) 5,
     assert_eq (gets octets_off) 5, assert_eq (applied as_ref (unwrap (get_bytes 3))) [6, 7, 8],
     assert_eq (gets cap) 2, assert_eq (gets octets_off) 8, assert_is_err (get_bytes 3), assert_eq (gets cap) 2,
     assert_eq (gets octets_off) 8, assert_eq (applied as_ref (unwrap (get_bytes 2))) [9, 10],
     assert_eq (gets cap) 0, assert_eq (gets octets_off) 10, assert_is_err (get_bytes 2)])
     (with_slice [1, 2, 3, 4, 5, 6, 7, 8, 9, 10])"

definition test_get_bytes_mut :: bool where
  "test_get_bytes_mut = passes (steps [
     assert_eq (gets mut_cap) 10, assert_eq (gets mut_off) 0,
     assert_eq (applied mut_as_ref (unwrap (mut_get_bytes 5))) [1, 2, 3, 4, 5], assert_eq (gets mut_cap) 5,
     assert_eq (gets mut_off) 5, assert_eq (applied mut_as_ref (unwrap (mut_get_bytes 3))) [6, 7, 8],
     assert_eq (gets mut_cap) 2, assert_eq (gets mut_off) 8, assert_is_err (mut_get_bytes 3), assert_eq (gets mut_cap) 2,
     assert_eq (gets mut_off) 8, assert_eq (applied mut_as_ref (unwrap (mut_get_bytes 2))) [9, 10],
     assert_eq (gets mut_cap) 0, assert_eq (gets mut_off) 10, assert_is_err (mut_get_bytes 2)])
     (mut_with_slice [1, 2, 3, 4, 5, 6, 7, 8, 9, 10])"

definition test_peek_bytes :: bool where
  "test_peek_bytes = passes (steps [
     assert_eq (gets cap) 10, assert_eq (gets octets_off) 0,
     assert_eq (applied as_ref (unwrap (peek_bytes 5))) [1, 2, 3, 4, 5], assert_eq (gets cap) 10,
     assert_eq (gets octets_off) 0, assert_eq (applied as_ref (unwrap (peek_bytes 5))) [1, 2, 3, 4, 5],
     assert_eq (gets cap) 10, assert_eq (gets octets_off) 0, discard (unwrap (get_bytes 5))])
     (with_slice [1, 2, 3, 4, 5, 6, 7, 8, 9, 10])"

definition test_peek_bytes_mut :: bool where
  "test_peek_bytes_mut = passes (steps [
     assert_eq (gets mut_cap) 10, assert_eq (gets mut_off) 0,
     assert_eq (applied mut_as_ref (unwrap (mut_peek_bytes 5))) [1, 2, 3, 4, 5], assert_eq (gets mut_cap) 10,
     assert_eq (gets mut_off) 0, assert_eq (applied mut_as_ref (unwrap (mut_peek_bytes 5))) [1, 2, 3, 4, 5],
     assert_eq (gets mut_cap) 10, assert_eq (gets mut_off) 0, discard (unwrap (mut_get_bytes 5))])
     (mut_with_slice [1, 2, 3, 4, 5, 6, 7, 8, 9, 10])"

definition test_get_varint :: bool where
  "test_get_varint \<longleftrightarrow>
     passes (steps [assert_eq (unwrap get_varint) 151288809941952652, assert_eq (gets cap) 0, assert_eq (gets octets_off) 8])
       (with_slice [0xc2, 0x19, 0x7c, 0x5e, 0xff, 0x14, 0xe8, 0x8c]) \<and>
     passes (steps [assert_eq (unwrap get_varint) 494878333, assert_eq (gets cap) 0, assert_eq (gets octets_off) 4])
       (with_slice [0x9d, 0x7f, 0x3e, 0x7d]) \<and>
     passes (steps [assert_eq (unwrap get_varint) 15293, assert_eq (gets cap) 0, assert_eq (gets octets_off) 2])
       (with_slice [0x7b, 0xbd]) \<and>
     passes (steps [assert_eq (unwrap get_varint) 37, assert_eq (gets cap) 0, assert_eq (gets octets_off) 2])
       (with_slice [0x40, 0x25]) \<and>
     passes (steps [assert_eq (unwrap get_varint) 37, assert_eq (gets cap) 0, assert_eq (gets octets_off) 1])
       (with_slice [0x25])"

definition test_get_varint_mut :: bool where
  "test_get_varint_mut \<longleftrightarrow>
     passes (steps [assert_eq (unwrap mut_get_varint) 151288809941952652, assert_eq (gets mut_cap) 0, assert_eq (gets mut_off) 8])
       (mut_with_slice [0xc2, 0x19, 0x7c, 0x5e, 0xff, 0x14, 0xe8, 0x8c]) \<and>
     passes (steps [assert_eq (unwrap mut_get_varint) 494878333, assert_eq (gets mut_cap) 0, assert_eq (gets mut_off) 4])
       (mut_with_slice [0x9d, 0x7f, 0x3e, 0x7d]) \<and>
     passes (steps [assert_eq (unwrap mut_get_varint) 15293, assert_eq (gets mut_cap) 0, assert_eq (gets mut_off) 2])
       (mut_with_slice [0x7b, 0xbd]) \<and>
     passes (steps [assert_eq (unwrap mut_get_varint) 37, assert_eq (gets mut_cap) 0, assert_eq (gets mut_off) 2])
       (mut_with_slice [0x40, 0x25]) \<and>
     passes (steps [assert_eq (unwrap mut_get_varint) 37, assert_eq (gets mut_cap) 0, assert_eq (gets mut_off) 1])
       (mut_with_slice [0x25])"

definition test_put_varint :: bool where
  "test_put_varint \<longleftrightarrow>
     passes (steps [assert_is_ok (put_varint 151288809941952652), assert_eq (gets mut_cap) 0, assert_eq (gets mut_off) 8,
       assert_eq (gets mut_buf) [0xc2, 0x19, 0x7c, 0x5e, 0xff, 0x14, 0xe8, 0x8c]]) (mut_with_slice (replicate 8 0)) \<and>
     passes (steps [assert_is_ok (put_varint 494878333), assert_eq (gets mut_cap) 0, assert_eq (gets mut_off) 4,
       assert_eq (gets mut_buf) [0x9d, 0x7f, 0x3e, 0x7d]]) (mut_with_slice (replicate 4 0)) \<and>
     passes (steps [assert_is_ok (put_varint 15293), assert_eq (gets mut_cap) 0, assert_eq (gets mut_off) 2,
       assert_eq (gets mut_buf) [0x7b, 0xbd]]) (mut_with_slice (replicate 2 0)) \<and>
     passes (steps [assert_is_ok (put_varint 37), assert_eq (gets mut_cap) 0, assert_eq (gets mut_off) 1,
       assert_eq (gets mut_buf) [0x25]]) (mut_with_slice (replicate 1 0)) \<and>
     passes (steps [assert_is_err (put_varint 151288809941952652), assert_eq (gets mut_cap) 3, assert_eq (gets mut_off) 0,
       assert_eq (gets mut_buf) (replicate 3 0)]) (mut_with_slice (replicate 3 0))"

definition test_varint_too_large :: bool where
  "test_varint_too_large = should_panic (steps [assert_is_err (put_varint (- 1))]) (mut_with_slice (replicate 3 0))"

definition test_put_u :: bool where
  "test_put_u = passes (steps [
     assert_eq (gets mut_cap) 18, assert_eq (gets mut_off) 0, assert_is_ok (put_u8 1), assert_eq (gets mut_cap) 17,
     assert_eq (gets mut_off) 1, assert_is_ok (put_u16 0x203), assert_eq (gets mut_cap) 15,
     assert_eq (gets mut_off) 3, assert_is_ok (put_u24 0x40506), assert_eq (gets mut_cap) 12,
     assert_eq (gets mut_off) 6, assert_is_ok (put_u32 0x0708090a), assert_eq (gets mut_cap) 8,
     assert_eq (gets mut_off) 10, assert_is_ok (put_u64 0x0b0c0d0e0f101112), assert_eq (gets mut_cap) 0,
     assert_eq (gets mut_off) 18, assert_is_err (put_u8 1),
     assert_eq (gets mut_buf) [1, 2, 3, 4, 5, 6, 7, 8, 9, 10, 11, 12, 13, 14, 15, 16, 17, 18]])
     (mut_with_slice (replicate 18 0))"

definition test_put_bytes :: bool where
  "test_put_bytes = passes (steps [
     assert_eq (gets mut_cap) 5, assert_eq (gets mut_off) 0, assert_is_ok (put_bytes [0x0a, 0x0b, 0x0c, 0x0d, 0x0e]),
     assert_eq (gets mut_cap) 0, assert_eq (gets mut_off) 5, assert_is_err (put_u8 1),
     assert_eq (gets mut_buf) [0xa, 0xb, 0xc, 0xd, 0xe]])
     (mut_with_slice (replicate 5 0))"

definition test_split :: bool where
  "test_split = passes (steps [
     assert_eq (gets mut_cap) 10, assert_eq (gets mut_off) 0, assert_eq (gets mut_as_ref) (str ''helloworld''),
     assert_is_ok (mut_get_bytes 5),
     assert_eq (gets mut_cap) 5, assert_eq (gets mut_off) 5, assert_eq (gets mut_as_ref) (str ''world''),
     and_then (gets mut_off) (\<lambda>off. and_then (halves (unwrap (split_at_mut off))) (\<lambda>(first, last). steps [
       assert_eq (ret (mut_cap first)) 5, assert_eq (ret (mut_off first)) 0, assert_eq (ret (mut_as_ref first)) (str ''hello''),
       assert_eq (ret (mut_cap last)) 5, assert_eq (ret (mut_off last)) 0, assert_eq (ret (mut_as_ref last)) (str ''world'')]))])
     (mut_with_slice (str ''helloworld''))"

definition test_split_at :: bool where
  "test_split_at \<longleftrightarrow> (let d = str ''helloworld'' in
     passes (and_then (halves (unwrap (split_at_mut 5))) (\<lambda>(first, second). steps [
       assert_eq (ret (mut_as_ref first)) (str ''hello''), assert_eq (ret (mut_as_ref second)) (str ''world'')])) (mut_with_slice d) \<and>
     passes (and_then (halves (unwrap (split_at_mut 10))) (\<lambda>(first, second). steps [
       assert_eq (ret (mut_as_ref first)) (str ''helloworld''), assert_eq (ret (mut_as_ref second)) (str '''')])) (mut_with_slice d) \<and>
     passes (and_then (halves (unwrap (split_at_mut 9))) (\<lambda>(first, second). steps [
       assert_eq (ret (mut_as_ref first)) (str ''helloworl''), assert_eq (ret (mut_as_ref second)) (str ''d'')])) (mut_with_slice d) \<and>
     passes (steps [assert_is_err (split_at_mut 11)]) (mut_with_slice d))"

definition test_slice :: bool where
  "test_slice \<longleftrightarrow> (let d = str ''helloworld'' in
     passes (steps [assert_eq (unwrap (slice 5)) (str ''hello'')]) (with_slice d) \<and>
     passes (steps [assert_eq (unwrap (slice 0)) (str '''')]) (with_slice d) \<and>
     passes (steps [discard (unwrap (get_bytes 5)), assert_eq (unwrap (slice 5)) (str ''world'')]) (with_slice d) \<and>
     passes (steps [assert_is_err (slice 11)]) (with_slice d))"

definition test_slice_mut :: bool where
  "test_slice_mut \<longleftrightarrow> (let d = str ''helloworld'' in
     passes (steps [assert_eq (borrowed (unwrap (mut_slice 5))) (str ''hello'')]) (mut_with_slice d) \<and>
     passes (steps [assert_eq (borrowed (unwrap (mut_slice 0))) (str '''')]) (mut_with_slice d) \<and>
     passes (steps [discard (unwrap (mut_get_bytes 5)), assert_eq (borrowed (unwrap (mut_slice 5))) (str ''world'')]) (mut_with_slice d) \<and>
     passes (steps [assert_is_err (mut_slice 11)]) (mut_with_slice d))"

definition test_slice_last :: bool where
  "test_slice_last \<longleftrightarrow> (let d = str ''helloworld'' in
     passes (steps [assert_eq (unwrap (slice_last 4)) (str ''orld'')]) (with_slice d) \<and>
     passes (steps [assert_eq (unwrap (slice_last 1)) (str ''d'')]) (with_slice d) \<and>
     passes (steps [assert_eq (unwrap (slice_last 0)) (str '''')]) (with_slice d) \<and>
     passes (steps [assert_eq (unwrap (slice_last 10)) (str ''helloworld'')]) (with_slice d) \<and>
     passes (steps [assert_is_err (slice_last 11)]) (with_slice d))"

definition test_slice_last_mut :: bool where
  "test_slice_last_mut \<longleftrightarrow> (let d = str ''helloworld'' in
     passes (steps [assert_eq (borrowed (unwrap (mut_slice_last 4))) (str ''orld'')]) (mut_with_slice d) \<and>
     passes (steps [assert_eq (borrowed (unwrap (mut_slice_last 1))) (str ''d'')]) (mut_with_slice d) \<and>
     passes (steps [assert_eq (borrowed (unwrap (mut_slice_last 0))) (str '''')]) (mut_with_slice d) \<and>
     passes (steps [assert_eq (borrowed (unwrap (mut_slice_last 10))) (str ''helloworld'')]) (mut_with_slice d) \<and>
     passes (steps [assert_is_err (mut_slice_last 11)]) (mut_with_slice d))"

section \<open>Every test passes\<close>

lemma test_get_u_passes: "test_get_u"
  by code_simp

lemma test_get_u_mut_passes: "test_get_u_mut"
  by code_simp

lemma test_peek_u_passes: "test_peek_u"
  by code_simp

lemma test_peek_u_mut_passes: "test_peek_u_mut"
  by code_simp

lemma test_get_bytes_passes: "test_get_bytes"
  by code_simp

lemma test_get_bytes_mut_passes: "test_get_bytes_mut"
  by code_simp

lemma test_peek_bytes_passes: "test_peek_bytes"
  by code_simp

lemma test_peek_bytes_mut_passes: "test_peek_bytes_mut"
  by code_simp

lemma test_get_varint_passes: "test_get_varint"
  by code_simp

lemma test_get_varint_mut_passes: "test_get_varint_mut"
  by code_simp

lemma test_put_varint_passes: "test_put_varint"
  by code_simp

lemma test_varint_too_large_passes: "test_varint_too_large"
  by code_simp

lemma test_put_u_passes: "test_put_u"
  by code_simp

lemma test_put_bytes_passes: "test_put_bytes"
  by code_simp

lemma test_split_passes: "test_split"
  by code_simp

lemma test_split_at_passes: "test_split_at"
  by code_simp

lemma test_slice_passes: "test_slice"
  by code_simp

lemma test_slice_mut_passes: "test_slice_mut"
  by code_simp

lemma test_slice_last_passes: "test_slice_last"
  by code_simp

lemma test_slice_last_mut_passes: "test_slice_last_mut"
  by code_simp

end
