(* ===== verification/Minmax_Tests.thy ===== *)
theory Minmax_Tests
  imports Unit_Tests Minmax
begin

text \<open>
  The unit tests of \<open>pemi/src/minmax.rs\<close>. The source has each test twice, for durations and for numbers, and for the minimum
  and the maximum; the copies differ in the method, the window, the steps of the clock and the measurements, which are the
  arguments of \<open>windowed_test\<close> and \<open>estimates_test\<close>. \<open>clock\<close> is the reading \<open>Minmax::new\<close> takes and \<open>now\<close> the one the
  test takes.
\<close>

section \<open>Tests\<close>

text \<open>A method that panics or returns a result, as a call of a test.\<close>

definition call :: "('s \<Rightarrow> ('a \<times> 's) option) \<Rightarrow> ('s, unit, 'a) meth" where
  "call f = (\<lambda>s. case f s of None \<Rightarrow> (Panic, s) | Some (x, s') \<Rightarrow> (Ok x, s'))"

text \<open>\<open>time += d\<close>.\<close>

definition tick :: "instant \<Rightarrow> duration \<Rightarrow> (instant \<Rightarrow> 's test) \<Rightarrow> 's test" where
  "tick time d k = (case instant_add time d of None \<Rightarrow> panic | Some t \<Rightarrow> k t)"

definition reset_test :: "instant \<Rightarrow> 'a \<Rightarrow> 'a minmax test" where
  "reset_test now x = steps [
     assert_eq (call (\<lambda>_. Some (minmax_reset now x))) x,
     assert_eq (gets (\<lambda>f. ms_time (est0 f))) now, assert_eq (gets (\<lambda>f. ms_value (est0 f))) x,
     assert_eq (gets (\<lambda>f. ms_time (est1 f))) now, assert_eq (gets (\<lambda>f. ms_value (est1 f))) x,
     assert_eq (gets (\<lambda>f. ms_time (est2 f))) now, assert_eq (gets (\<lambda>f. ms_value (est2 f))) x]"

text \<open>A measurement, and the estimates the test expects after it.\<close>

definition measure_test ::
    "('a \<Rightarrow> 'a minmax \<Rightarrow> ('a \<times> 'a minmax) option) \<Rightarrow> 'a \<Rightarrow> 'a \<Rightarrow> 'a \<Rightarrow> 'a \<Rightarrow> 'a minmax test" where
  "measure_test run meas e0 e1 e2 = steps [assert_eq (call (run meas)) e0,
     assert_eq (gets (\<lambda>f. ms_value (est1 f))) e1, assert_eq (gets (\<lambda>f. ms_value (est2 f))) e2]"

definition windowed_test ::
    "(duration \<Rightarrow> instant \<Rightarrow> 'a \<Rightarrow> 'a minmax \<Rightarrow> ('a \<times> 'a minmax) option) \<Rightarrow>
     duration \<Rightarrow> duration \<Rightarrow> duration \<Rightarrow> 'a \<Rightarrow> 'a \<Rightarrow> instant \<Rightarrow> 'a minmax test" where
  "windowed_test run win d1 d2 a b time = steps [
     assert_eq (call (\<lambda>_. Some (minmax_reset time a))) a,
     tick time d1 (\<lambda>t1. steps [
       measure_test (run win t1) b b b b,
       tick t1 d2 (\<lambda>t2. measure_test (run win t2) a a a a)])]"

definition estimates_test ::
    "(duration \<Rightarrow> instant \<Rightarrow> 'a \<Rightarrow> 'a minmax \<Rightarrow> ('a \<times> 'a minmax) option) \<Rightarrow>
     duration \<Rightarrow> duration \<Rightarrow> 'a \<Rightarrow> 'a \<Rightarrow> 'a \<Rightarrow> 'a \<Rightarrow> instant \<Rightarrow> 'a minmax test" where
  "estimates_test run win d a b c e time = steps [
     assert_eq (call (\<lambda>_. Some (minmax_reset time a))) a,
     tick time d (\<lambda>t1. steps [
       measure_test (run win t1) b a b b,
       tick t1 d (\<lambda>t2. steps [
         measure_test (run win t2) c a b c,
         tick t2 d (\<lambda>t3. measure_test (run win t3) e e e e)])])]"

definition test_reset_filter_rtt :: "instant \<Rightarrow> instant \<Rightarrow> bool" where
  "test_reset_filter_rtt clock now = passes (reset_test now (from_millis 50)) (minmax_new clock 0)"

definition test_reset_filter_bandwidth :: "instant \<Rightarrow> instant \<Rightarrow> bool" where
  "test_reset_filter_bandwidth clock now = passes (reset_test now (2000 :: int)) (minmax_new clock 0)"

definition test_get_windowed_min_rtt :: "instant \<Rightarrow> instant \<Rightarrow> bool" where
  "test_get_windowed_min_rtt clock now = passes (windowed_test running_min (from_millis 500) (from_millis 250) (from_millis 600)
     (from_millis 25) (from_millis 24) now) (minmax_new clock 0)"

definition test_get_windowed_min_bandwidth :: "instant \<Rightarrow> instant \<Rightarrow> bool" where
  "test_get_windowed_min_bandwidth clock now = passes (windowed_test running_min (from_millis 500) (from_millis 250) (from_millis 600)
     (500 :: int) 200 now) (minmax_new clock 0)"

definition test_get_windowed_max_rtt :: "instant \<Rightarrow> instant \<Rightarrow> bool" where
  "test_get_windowed_max_rtt clock now = passes (windowed_test running_max (from_millis 500) (from_millis 250) (from_millis 600)
     (from_millis 24) (from_millis 25) now) (minmax_new clock 0)"

definition test_get_windowed_max_bandwidth :: "instant \<Rightarrow> instant \<Rightarrow> bool" where
  "test_get_windowed_max_bandwidth clock now = passes (windowed_test running_max (from_millis 500) (from_millis 5000) (from_millis 600)
     (200 :: int) 500 now) (minmax_new clock 0)"

definition test_get_windowed_min_estimates_rtt :: "instant \<Rightarrow> instant \<Rightarrow> bool" where
  "test_get_windowed_min_estimates_rtt clock now = passes (estimates_test running_min (from_secs 1) (from_millis 300)
     (from_millis 23) (from_millis 24) (from_millis 25) (from_millis 22) now) (minmax_new clock 0)"

definition test_get_windowed_min_estimates_bandwidth :: "instant \<Rightarrow> instant \<Rightarrow> bool" where
  "test_get_windowed_min_estimates_bandwidth clock now = passes (estimates_test running_min (from_secs 1) (from_millis 300)
     (300 :: int) 400 500 200 now) (minmax_new clock 0)"

definition test_get_windowed_max_estimates_rtt :: "instant \<Rightarrow> instant \<Rightarrow> bool" where
  "test_get_windowed_max_estimates_rtt clock now = passes (estimates_test running_max (from_secs 1) (from_millis 300)
     (from_millis 25) (from_millis 24) (from_millis 23) (from_millis 26) now) (minmax_new clock 0)"

definition test_get_windowed_max_estimates_bandwidth :: "instant \<Rightarrow> instant \<Rightarrow> bool" where
  "test_get_windowed_max_estimates_bandwidth clock now = passes (estimates_test running_max (from_secs 1) (from_millis 300)
     (500 :: int) 400 300 600 now) (minmax_new clock 0)"

section \<open>Every test passes\<close>

lemmas test_run = passes_def assert_eq_apply and_then_def gets_def ret_def call_def tick_def measure_test_def Let_def

lemma reset_test_passes: "passes (reset_test now x) m"
  by (simp add: test_run reset_test_def minmax_reset_def)

text \<open>The estimate follows a better measurement at once, and a worse one when the old one has left the window.\<close>

lemma windowed_test_passes:
  assumes "le b a" and "win < d2" and "now + int d1 + int d2 < INSTANT_LIMIT"
  shows "passes (windowed_test (running le) win d1 d2 a b now) m"
  using assms by (simp add: test_run windowed_test_def minmax_reset_def running_def instant_add_def duration_since_def)

lemma quarter_half: "div_f32 (from_secs 1) 4 = Some (from_millis 250)" "div_f32 (from_secs 1) 2 = Some (from_millis 500)"
  by code_simp+

text \<open>
  Worse measurements become the second and third estimate once a quarter and a half of the window have passed.
\<close>

lemma estimates_test_passes:
  assumes "\<not> le b a" and "\<not> le c a" and "\<not> le c b" and "le e a" and "now + int (3 * from_millis 300) < INSTANT_LIMIT"
  shows "passes (estimates_test (running le) (from_secs 1) (from_millis 300) a b c e now) m"
proof -
  have d: "int (from_millis 300) = 300000000" "from_secs (Suc 0) = 1000000000" "from_secs 1 = 1000000000" "from_millis 250 = 250000000" "from_millis 500 = 500000000"
    by (simp_all add: from_millis_def from_secs_def)
  note q = quarter_half [unfolded d]
  from assms show ?thesis
    by (simp add: d q test_run estimates_test_def minmax_reset_def running_def subwin_update_def stale_def minmax_deref_def
        instant_add_def duration_since_def)
qed

lemma minmax_tests_pass:
  assumes "now + int (from_secs 6) < INSTANT_LIMIT"
  shows "test_reset_filter_rtt clock now" "test_reset_filter_bandwidth clock now"
    "test_get_windowed_min_rtt clock now" "test_get_windowed_min_bandwidth clock now"
    "test_get_windowed_max_rtt clock now" "test_get_windowed_max_bandwidth clock now"
    "test_get_windowed_min_estimates_rtt clock now" "test_get_windowed_min_estimates_bandwidth clock now"
    "test_get_windowed_max_estimates_rtt clock now" "test_get_windowed_max_estimates_bandwidth clock now"
proof -
  show "test_reset_filter_rtt clock now" "test_reset_filter_bandwidth clock now"
    by (simp_all add: test_reset_filter_rtt_def test_reset_filter_bandwidth_def reset_test_passes)
  have lim: "now + 6000000000 < INSTANT_LIMIT" using assms by (simp add: from_secs_def)
  then show "test_get_windowed_min_rtt clock now" "test_get_windowed_min_bandwidth clock now"
    "test_get_windowed_max_rtt clock now" "test_get_windowed_max_bandwidth clock now"
    unfolding test_get_windowed_min_rtt_def test_get_windowed_min_bandwidth_def test_get_windowed_max_rtt_def
      test_get_windowed_max_bandwidth_def running_min_running running_max_running
    by (intro windowed_test_passes; simp add: from_millis_def)+
  from lim show "test_get_windowed_min_estimates_rtt clock now" "test_get_windowed_min_estimates_bandwidth clock now"
    "test_get_windowed_max_estimates_rtt clock now" "test_get_windowed_max_estimates_bandwidth clock now"
    unfolding test_get_windowed_min_estimates_rtt_def test_get_windowed_min_estimates_bandwidth_def test_get_windowed_max_estimates_rtt_def
      test_get_windowed_max_estimates_bandwidth_def running_min_running running_max_running
    by (intro estimates_test_passes; simp add: from_millis_def)+
qed

end
