(* ===== verification/Rust_Str.thy ===== *)
theory Rust_Str
  imports Prelude
begin

text \<open>
  Strings as the applications use them: a \<open>str\<close> is its UTF-8 bytes. \<open>utf8_valid\<close> is \<open>str::from_utf8\<close>, the table of
  well-formed byte sequences; \<open>trim\<close> takes Unicode white space off both ends, by its encodings, which is the same
  on valid UTF-8; \<open>parse_u64\<close> is \<open>parse::<u64>\<close> and \<open>parse::<usize>\<close>; \<open>decimal\<close> prints a number.
\<close>

section \<open>UTF-8\<close>

text \<open>For a leading byte, how many bytes follow and the range of the first of them.\<close>

definition utf8_tail :: "u8 \<Rightarrow> (nat \<times> u8 \<times> u8) option" where
  "utf8_tail b =
     (if 0xc2 \<le> b \<and> b \<le> 0xdf then Some (1, 0x80, 0xbf)
      else if b = 0xe0 then Some (2, 0xa0, 0xbf)
      else if b = 0xed then Some (2, 0x80, 0x9f)
      else if 0xe1 \<le> b \<and> b \<le> 0xef then Some (2, 0x80, 0xbf)
      else if b = 0xf0 then Some (3, 0x90, 0xbf)
      else if 0xf1 \<le> b \<and> b \<le> 0xf3 then Some (3, 0x80, 0xbf)
      else if b = 0xf4 then Some (3, 0x80, 0x8f)
      else None)"

fun utf8_valid :: "bytes \<Rightarrow> bool" where
  "utf8_valid [] = True"
| "utf8_valid (b # bs) =
     (if b < 0x80 then utf8_valid bs
      else case utf8_tail b of
          None \<Rightarrow> False
        | Some (n, lo, hi) \<Rightarrow>
            n \<le> length bs \<and> lo \<le> hd bs \<and> hd bs \<le> hi \<and>
            list_all (\<lambda>x. 0x80 \<le> x \<and> x \<le> 0xbf) (take (n - 1) (tl bs)) \<and> utf8_valid (drop n bs))"

lemma utf8_ascii: "\<forall>b \<in> set bs. b < 0x80 \<Longrightarrow> utf8_valid (bs @ cs) = utf8_valid cs"
  by (induction bs) auto

section \<open>Trimming and numbers\<close>

definition white_space :: "bytes list" where
  "white_space = map (\<lambda>b. [b]) [0x09, 0x0a, 0x0b, 0x0c, 0x0d, 0x20] @ [[0xc2, 0x85], [0xc2, 0xa0], [0xe1, 0x9a, 0x80]] @
     map (\<lambda>b. [0xe2, 0x80, b]) [0x80, 0x81, 0x82, 0x83, 0x84, 0x85, 0x86, 0x87, 0x88, 0x89, 0x8a, 0xa8, 0xa9, 0xaf] @
     [[0xe2, 0x81, 0x9f], [0xe3, 0x80, 0x80]]"

definition is_prefix :: "bytes \<Rightarrow> bytes \<Rightarrow> bool" where
  "is_prefix p bs \<longleftrightarrow> take (length p) bs = p"

function trim_left :: "bytes list \<Rightarrow> bytes \<Rightarrow> bytes" where
  "trim_left ws bs = (case filter (\<lambda>w. w \<noteq> [] \<and> is_prefix w bs) ws of
       [] \<Rightarrow> bs
     | w # _ \<Rightarrow> trim_left ws (drop (length w) bs))"
  by pat_completeness auto
termination
proof (relation "measure (\<lambda>(_, bs). length bs)", goal_cases)
  case (2 ws bs w)
  then have "w \<in> set (filter (\<lambda>w. w \<noteq> [] \<and> is_prefix w bs) ws)" by simp
  then have "w \<noteq> [] \<and> is_prefix w bs" by simp
  then have "0 < length w" "bs \<noteq> []" by (auto simp: is_prefix_def)
  then show ?case by simp
qed simp

declare trim_left.simps [simp del]

definition trim :: "bytes \<Rightarrow> bytes" where
  "trim bs = rev (trim_left (map rev white_space) (rev (trim_left white_space bs)))"

definition is_digit :: "u8 \<Rightarrow> bool" where
  "is_digit b \<longleftrightarrow> 0x30 \<le> b \<and> b \<le> 0x39"

definition parse_u64 :: "bytes \<Rightarrow> nat option" where
  "parse_u64 bs = (let ds = (if length bs > 1 \<and> hd bs = 0x2b then tl bs else bs);
       n = foldl (\<lambda>acc b. acc * 10 + unat (b - 0x30)) 0 ds in
     if ds \<noteq> [] \<and> list_all is_digit ds \<and> n < 2 ^ 64 then Some n else None)"

fun decimal :: "nat \<Rightarrow> bytes" where
  "decimal n = (if n < 10 then [of_nat (48 + n)] else decimal (n div 10) @ [of_nat (48 + n mod 10)])"

declare decimal.simps [simp del]

section \<open>Printing and parsing\<close>

lemma decimal_digits: "list_all is_digit (decimal n) \<and> decimal n \<noteq> []"
proof (induction n rule: decimal.induct)
  case (1 n)
  have d: "is_digit (of_nat (48 + m))" if "m < 10" for m :: nat
  proof -
    have "unat (of_nat (48 + m) :: u8) = 48 + m" using that by (simp only: unat_of_nat take_bit_nat_eq_self) (simp add: take_bit_nat_eq_self)
    then show ?thesis using that by (simp only: is_digit_def word_le_nat_alt) simp
  qed
  show ?case
  proof (cases "n < 10")
    case True
    then show ?thesis using d [of n] by (subst (1 2) decimal.simps) simp
  next
    case False
    then show ?thesis using 1 d [of "n mod 10"] by (subst (1 2) decimal.simps) simp
  qed
qed

definition digits_val :: "bytes \<Rightarrow> nat" where
  "digits_val ds = foldl (\<lambda>acc b. acc * 10 + unat (b - 0x30)) 0 ds"

lemma digits_val_snoc: "digits_val (ds @ [b]) = digits_val ds * 10 + unat (b - 0x30)"
  by (simp add: digits_val_def)

lemma digits_val_decimal: "digits_val (decimal n) = n"
proof (induction n rule: decimal.induct)
  case (1 n)
  have d: "unat (of_nat (48 + m) - 0x30 :: u8) = m" if "m < 10" for m :: nat
    using that by (simp add: unat_of_nat take_bit_nat_eq_self)
  show ?case
  proof (cases "n < 10")
    case True
    then show ?thesis using d [of n] by (subst decimal.simps) (simp add: digits_val_def)
  next
    case False
    then show ?thesis using 1 d [of "n mod 10"] by (subst decimal.simps) (simp add: digits_val_snoc)
  qed
qed

lemma parse_decimal:
  assumes "n < 2 ^ 64"
  shows "parse_u64 (decimal n) = Some n"
proof -
  have ne: "decimal n \<noteq> []" and ds: "list_all is_digit (decimal n)" using decimal_digits by blast+
  then have "is_digit (hd (decimal n))" by (cases "decimal n") auto
  then have "hd (decimal n) \<noteq> 0x2b" by (auto simp: is_digit_def)
  then show ?thesis using ne ds assms digits_val_decimal [of n] by (simp add: parse_u64_def Let_def digits_val_def)
qed

text \<open>White space neither starts nor ends with a digit.\<close>

lemma white_space_no_digit:
  "\<forall>w \<in> set white_space. w \<noteq> [] \<longrightarrow> \<not> is_digit (hd w)" "\<forall>w \<in> set (map rev white_space). w \<noteq> [] \<longrightarrow> \<not> is_digit (hd w)"
  by (code_simp, code_simp)

lemma trim_left_digit:
  assumes "\<forall>w \<in> set ws. w \<noteq> [] \<longrightarrow> \<not> is_digit (hd w)" and "is_digit b"
  shows "trim_left ws (b # bs) = b # bs"
proof -
  have "\<not> (w \<noteq> [] \<and> is_prefix w (b # bs))" if "w \<in> set ws" for w
    using assms that by (cases w) (auto simp: is_prefix_def)
  then have "filter (\<lambda>w. w \<noteq> [] \<and> is_prefix w (b # bs)) ws = []" by simp
  then show ?thesis by (subst trim_left.simps) simp
qed

lemma trim_left_step:
  assumes "filter (\<lambda>w. w \<noteq> [] \<and> is_prefix w bs) ws = [[b]]" and "bs = b # rest"
  shows "trim_left ws bs = trim_left ws rest"
  using assms by (subst trim_left.simps) simp

lemma trim_decimal: "trim (decimal n @ [0x0d, 0x0a]) = decimal n"
proof -
  let ?ws = "map rev white_space"
  have ne: "decimal n \<noteq> []" and ds: "list_all is_digit (decimal n)" using decimal_digits by blast+
  then have "is_digit (hd (decimal n))" by (cases "decimal n") auto
  with ne have l: "trim_left white_space (decimal n @ [0x0d, 0x0a]) = decimal n @ [0x0d, 0x0a]"
    using trim_left_digit [OF white_space_no_digit(1), of "hd (decimal n)" "tl (decimal n) @ [0x0d, 0x0a]"]
    by (cases "decimal n") simp_all
  have a: "trim_left ?ws (0x0a # rest) = trim_left ?ws rest" for rest
    by (rule trim_left_step [where b = "0x0a"]) (simp_all add: white_space_def is_prefix_def)
  have d: "trim_left ?ws (0x0d # rest) = trim_left ?ws rest" for rest
    by (rule trim_left_step [where b = "0x0d"]) (simp_all add: white_space_def is_prefix_def)
  have "is_digit (last (decimal n))" using ne ds by (auto simp: list_all_iff)
  moreover have "rev (decimal n) = last (decimal n) # rev (butlast (decimal n))"
    using ne by (metis append_butlast_last_id rev.simps(2) rev_rev_ident rev_append)
  ultimately have "trim_left ?ws (rev (decimal n)) = rev (decimal n)"
    using trim_left_digit [OF white_space_no_digit(2)] by metis
  then show ?thesis unfolding trim_def l by (simp add: a d)
qed

lemma decimal_ascii: "b \<in> set (decimal n) \<Longrightarrow> b < 0x80"
proof -
  assume "b \<in> set (decimal n)"
  with decimal_digits [of n] have "b \<le> 0x39" by (auto simp: list_all_iff is_digit_def)
  then show ?thesis by (rule order_le_less_trans) simp
qed

lemma decimal_utf8: "utf8_valid (decimal n @ cs) = utf8_valid cs"
  by (rule utf8_ascii) (use decimal_ascii in blast)

text \<open>Without anything around it the number is itself.\<close>

lemma trim_decimal_only: "trim (decimal n) = decimal n"
proof -
  have ne: "decimal n \<noteq> []" and ds: "list_all is_digit (decimal n)" using decimal_digits by blast+
  have h: "is_digit (hd (decimal n))" using ne ds by (cases "decimal n") auto
  have l: "is_digit (last (decimal n))" using ne ds by (auto simp: list_all_iff)
  have "trim_left white_space (decimal n) = decimal n"
    using trim_left_digit [OF white_space_no_digit(1) h, of "tl (decimal n)"] ne by (cases "decimal n") simp_all
  moreover have r: "rev (decimal n) = last (decimal n) # rev (butlast (decimal n))"
    using ne by (metis append_butlast_last_id rev.simps(2) rev_rev_ident rev_append)
  then have "trim_left (map rev white_space) (rev (decimal n)) = rev (decimal n)"
    using trim_left_digit [OF white_space_no_digit(2) l] by metis
  ultimately show ?thesis by (simp add: trim_def)
qed

end
