(* ===== verification/Text_Output.thy ===== *)
theory Text_Output
  imports Conn Rust_Str
begin

text \<open>
  What the middlebox prints: the \<open>Debug\<close> and \<open>Display\<close> implementations of its types and the log lines that look into
  packets. The standard formats they build on are those of the standard library: decimal and
  hexadecimal numbers, lists, socket addresses. A log line is formatted only when its level is enabled; formatting one may
  panic, which is \<open>None\<close>.
\<close>

section \<open>Formats of the standard library\<close>

definition show_nat :: "nat \<Rightarrow> string" where
  "show_nat n = map (\<lambda>b. char_of (unat b)) (decimal n)"

fun lower_hex :: "nat \<Rightarrow> string" where
  "lower_hex n = (if n < 16 then [hex_digit n] else lower_hex (n div 16) @ [hex_digit (n mod 16)])"

declare lower_hex.simps [simp del]

text \<open>\<open>{:02x}\<close> of each byte.\<close>

definition hex_string :: "bytes \<Rightarrow> string" where
  "hex_string bs = concat (map hex_byte bs)"

fun join :: "string \<Rightarrow> string list \<Rightarrow> string" where
  "join sep [] = []"
| "join sep [x] = x"
| "join sep (x # y # xs) = x @ sep @ join sep (y # xs)"

text \<open>\<open>{:?}\<close> of a sequence.\<close>

definition debug_list :: "('a \<Rightarrow> string) \<Rightarrow> 'a list \<Rightarrow> string" where
  "debug_list f xs = ''['' @ join '', '' (map f xs) @ '']''"

definition v4_octets :: "u32 \<Rightarrow> nat list" where
  "v4_octets ip = map (\<lambda>k. unat (drop_bit (8 * k) ip) mod 256) [3, 2, 1, 0]"

definition v4_display :: "u32 \<Rightarrow> string" where
  "v4_display ip = join ''.'' (map show_nat (v4_octets ip))"

definition v6_segments :: "128 word \<Rightarrow> nat list" where
  "v6_segments ip = map (\<lambda>k. unat (drop_bit (16 * k) ip) mod 65536) [7, 6, 5, 4, 3, 2, 1, 0]"

text \<open>
  An IPv6 address leaves out its longest run of at least two zero segments, the first of them on a tie. \<open>zero_run\<close>
  is the length of the run that starts at a position.
\<close>

fun leading_zeros :: "nat list \<Rightarrow> nat" where
  "leading_zeros [] = 0"
| "leading_zeros (s # ss) = (if s = 0 then Suc (leading_zeros ss) else 0)"

definition longest_zeros :: "nat list \<Rightarrow> nat \<times> nat" where
  "longest_zeros ss = foldl (\<lambda>(start, len) i. let n = leading_zeros (drop i ss) in if n > len then (i, n) else (start, len))
     (0, 0) [0..<length ss]"

definition v6_display :: "128 word \<Rightarrow> string" where
  "v6_display ip = (let ss = v6_segments ip; (start, len) = longest_zeros ss in
     if take 6 ss = [0, 0, 0, 0, 0, 0xffff] then ''::ffff:'' @ v4_display (ucast ip)
     else if len > 1 then
       join '':'' (map lower_hex (take start ss)) @ ''::'' @ join '':'' (map lower_hex (drop (start + len) ss))
     else join '':'' (map lower_hex ss))"

fun socket_addr_display :: "socket_addr \<Rightarrow> string" where
  "socket_addr_display (V4 ip port) = v4_display ip @ '':'' @ show_nat (unat port)"
| "socket_addr_display (V6 ip port flowinfo scope_id) =
     ''['' @ v6_display ip @ (if scope_id = 0 then '''' else ''%'' @ show_nat (unat scope_id)) @ '']:'' @ show_nat (unat port)"

lemma addr_display_examples:
  "socket_addr_display (V4 0xc0000201 443) = ''192.0.2.1:443''"
  "socket_addr_display (V6 1 4433 0 0) = ''[::1]:4433''"
  "socket_addr_display (V6 0 0 0 0) = ''[::]:0''"
  "socket_addr_display (V6 0x20010db80000000000080800200c417a 80 0 2) = ''[2001:db8::8:800:200c:417a%2]:80''"
  by code_simp+

section \<open>Connection IDs, headers, errors\<close>

definition cid_debug :: "connection_id \<Rightarrow> string" where
  "cid_debug c = hex_string (cid_as_ref c)"

fun pkt_type_debug :: "pkt_type \<Rightarrow> string" where
  "pkt_type_debug Initial = ''Initial''"
| "pkt_type_debug Retry = ''Retry''"
| "pkt_type_debug Handshake = ''Handshake''"
| "pkt_type_debug ZeroRTT = ''ZeroRTT''"
| "pkt_type_debug VersionNegotiation = ''VersionNegotiation''"
| "pkt_type_debug Short = ''Short''"

definition header_debug :: "header \<Rightarrow> string" where
  "header_debug h = pkt_type_debug (h_ty h) @
     (if h_ty h \<noteq> Short then '' version='' @ lower_hex (unat (h_version h)) else '''') @
     '' dcid='' @ cid_debug (h_dcid h) @
     (if h_ty h \<noteq> Short then '' scid='' @ cid_debug (h_scid h) else '''')"

definition octets_error_display :: "octets_error \<Rightarrow> string" where
  "octets_error_display e = ''BufferTooShortError''"

text \<open>
  \<open>Display\<close> of an error is its derived \<open>Debug\<close>; the text of \<open>Other\<close>, which the program never makes, is printed in quotes
  by \<open>quoted\<close>.
\<close>

fun error_display :: "(string \<Rightarrow> string) \<Rightarrow> error \<Rightarrow> string" where
  "error_display quoted BufferTooShort = ''BufferTooShort''"
| "error_display quoted MayNotQUIC = ''MayNotQUIC''"
| "error_display quoted InvalidState = ''InvalidState''"
| "error_display quoted (Other s) = ''Other('' @ quoted s @ '')''"

definition string_of_error :: "(string \<Rightarrow> string) \<Rightarrow> error \<Rightarrow> string" where
  "string_of_error quoted e = error_display quoted e"

section \<open>Queues and tasks\<close>

definition flowlet_debug :: "flowlet \<Rightarrow> string" where
  "flowlet_debug fl = (case pkt_nums fl of
       [] \<Rightarrow> ''Flowlet [empty]''
     | [n] \<Rightarrow> ''Flowlet: len 1, ['' @ show_nat n @ ''], reply num: '' @ show_nat (length (reply_pkt_times fl)) @
         '', reply_pkts: '' @ debug_list show_nat (reply_pkt_nums fl)
     | ns \<Rightarrow> ''Flowlet: len '' @ show_nat (length ns) @ '', ['' @ show_nat (hd ns) @ ''~'' @ show_nat (last ns) @
         ''], reply num: '' @ show_nat (length (reply_pkt_times fl)) @
         '', reply_pkts: '' @ debug_list show_nat (reply_pkt_nums fl))"

definition raw_udp_packet_display :: "raw_udp_packet \<Rightarrow> string" where
  "raw_udp_packet_display p = show_nat (raw_number p)"

definition packet_queue_display :: "packet_queue \<Rightarrow> string" where
  "packet_queue_display q = ''PacketQueue { packets: '' @ show_nat (length (packets q)) @
     '', flowlets: '' @ show_nat (length (flowlets q)) @ '', processed: '' @ show_nat (processed q) @
     '' }, flowlets: '' @ debug_list flowlet_debug (flowlets q)"

definition task_display :: "task \<Rightarrow> string" where
  "task_display t = (let q = concat (map (\<lambda>p. raw_udp_packet_display p @ '', '') (retrans_queue t)) in
     ''Task: { src: '' @ socket_addr_display (task_src t) @ '' -> dst: '' @ socket_addr_display (task_dst t) @
     '', pkts: ['' @ q @ '']}'')"

definition conn_id_display :: "conn_id \<Rightarrow> string" where
  "conn_id_display k = socket_addr_display (id_addr1 k) @ '' <-> '' @ socket_addr_display (id_addr2 k)"

definition print_addr :: "sockaddr_in \<Rightarrow> string" where
  "print_addr a = v4_display (sin_addr a) @ '':'' @ show_nat (unat (sin_port a))"

section \<open>Log lines with packets\<close>

text \<open>The lines of \<open>print_lossed_pkts\<close>; the lost packets come in ascending order.\<close>

definition print_lossed_pkts :: "nat set \<Rightarrow> packet_queue \<Rightarrow> string list option" where
  "print_lossed_pkts lossed q = mapO (\<lambda>n. do {
     p \<leftarrow> get_packet n q;
     (case p of
        Raw r \<Rightarrow> do { i \<leftarrow> packet_id (raw_payload r); Some (''lossed pkt: '' @ i) }
      | Retrans _ \<Rightarrow> Some ''loss a retransmit pkt'') }) (sorted_list_of_set lossed)"

text \<open>The identifiers of the packets of a flowlet that is complete.\<close>

definition flowlet_pkt_ids :: "flowlet \<Rightarrow> packet_queue \<Rightarrow> string option" where
  "flowlet_pkt_ids fl q = map_option concat (mapO (\<lambda>n. do {
     p \<leftarrow> get_packet n q;
     (case p of
        Raw r \<Rightarrow> do { i \<leftarrow> packet_id (raw_payload r); Some (i @ '', '') }
      | Retrans _ \<Rightarrow> Some ''retransmit, '') }) (pkt_nums fl))"

text \<open>
  The log line of the proxy mode, with the elapsed time that \<open>duration_debug\<close> prints. Its level is \<open>Info\<close>.
\<close>

definition process_udp_packet_no_pemi ::
    "(duration \<Rightarrow> string) \<Rightarrow> bool \<Rightarrow> instant \<Rightarrow> addr \<Rightarrow> bytes \<Rightarrow> conn \<Rightarrow> string option option" where
  "process_udp_packet_no_pemi duration_debug info_enabled recv_ts src buf c =
     (let from = (if is_from_client (std_addr src) c then ''client'' else ''server'') in
      if info_enabled then do {
        i \<leftarrow> packet_id buf;
        Some (Some (''process pkt('' @ from @ '') '' @ duration_debug (duration_since recv_ts (begin_time c)) @ '' '' @ i @ '' '' @
          show_nat (length buf) @ ''B'')) }
      else Some None)"

section \<open>What the text tells\<close>

lemma hex_digit_inj: "m < 16 \<Longrightarrow> n < 16 \<Longrightarrow> hex_digit m = hex_digit n \<longleftrightarrow> m = n"
proof -
  have d: "distinct ''0123456789abcdef''" by code_simp
  assume "m < 16" "n < 16"
  with d show ?thesis by (simp add: hex_digit_def nth_eq_iff_index_eq del: distinct.simps)
qed

lemma hex_byte_inj: "hex_byte a = hex_byte b \<longleftrightarrow> a = b"
proof -
  have lt: "unat c div 16 < 16" for c :: u8 using unsigned_less [of c, where 'a = nat] by simp
  have "hex_byte a = hex_byte b \<longleftrightarrow> unat a div 16 = unat b div 16 \<and> unat a mod 16 = unat b mod 16"
    by (simp add: hex_byte_def hex_digit_inj lt)
  also have "\<dots> \<longleftrightarrow> unat a = unat b" by (metis div_mult_mod_eq)
  finally show ?thesis by (simp add: word_unat_eq_iff)
qed

lemma hex_string_length: "length (hex_string bs) = 2 * length bs"
  by (induction bs) (simp_all add: hex_string_def hex_byte_def)

text \<open>Bytes in hexadecimal tell the bytes.\<close>

lemma hex_string_inj: "hex_string as = hex_string bs \<longleftrightarrow> as = bs"
proof (induction as arbitrary: bs)
  case Nil
  then show ?case using hex_string_length [of bs] by (cases bs) (auto simp: hex_string_def hex_byte_def)
next
  case (Cons a as)
  show ?case
  proof (cases bs)
    case (Cons b bs')
    have "hex_string (a # as) = hex_string bs \<longleftrightarrow> hex_byte a = hex_byte b \<and> hex_string as = hex_string bs'"
      by (auto simp: Cons hex_string_def hex_byte_def)
    then show ?thesis by (simp add: Cons.IH hex_byte_inj Cons)
  qed (simp add: hex_string_def hex_byte_def)
qed

text \<open>Connection IDs with the same text are equal, however they are held.\<close>

lemma cid_debug_eq_iff: "cid_debug a = cid_debug b \<longleftrightarrow> cid_eq a b"
  by (simp add: cid_debug_def cid_eq_def hex_string_inj)

lemma mapO_index_range:
  assumes "k + n \<le> length xs"
  shows "mapO (\<lambda>i. index xs (k + i)) [0..<n] = Some (take n (drop k xs))"
proof -
  have "mapO (\<lambda>i. index xs (k + i)) [0..<n] = Some (map (\<lambda>i. xs ! (k + i)) [0..<n])"
    using assms by (intro mapO_Some_map) simp
  also have "map (\<lambda>i. xs ! (k + i)) [0..<n] = take n (drop k xs)"
    using assms by (intro nth_equalityI) auto
  finally show ?thesis .
qed

lemma mapO_index_short: "length xs < n \<Longrightarrow> mapO (index xs) [0..<n] = None"
proof -
  assume "length xs < n"
  then have "[0..<n] = [0..<length xs] @ length xs # [Suc (length xs)..<n]"
    using upt_add_eq_append [of 0 "length xs" "n - length xs"] by (simp add: upt_conv_Cons)
  moreover have "mapO f (ys @ y # zs) = None" if "f y = None" for f :: "nat \<Rightarrow> 'a option" and ys y zs
    using that by (induction ys) (auto split: Option.bind_splits)
  ultimately show ?thesis by (simp add: index_def)
qed

lemma packet_id_eq:
  "packet_id pkt = (if length pkt < 8 then None else Some (hex_string (take 8 pkt @ drop (length pkt - 8) pkt)))"
proof (cases "length pkt < 8")
  case True
  then show ?thesis by (simp add: packet_id_def mapO_index_short)
next
  case False
  then have "mapO (index pkt) [0..<8] = Some (take 8 pkt)"
    and "mapO (\<lambda>i. index pkt (length pkt - 8 + i)) [0..<8] = Some (drop (length pkt - 8) pkt)"
    using mapO_index_range [of 0 8 pkt] mapO_index_range [of "length pkt - 8" 8 pkt] by simp_all
  with False show ?thesis by (simp add: packet_id_def hex_string_def)
qed

text \<open>The identifier of a packet tells its first and its last eight bytes, and no more.\<close>

lemma packet_id_same_iff:
  assumes "8 \<le> length a" and "8 \<le> length b"
  shows "packet_id a = packet_id b \<longleftrightarrow> take 8 a = take 8 b \<and> drop (length a - 8) a = drop (length b - 8) b"
  using assms by (simp add: packet_id_eq hex_string_inj)

text \<open>
  Logging has no effect but a panic, exactly on packets of fewer than eight bytes.
\<close>

lemma no_pemi_panics_iff:
  "process_udp_packet_no_pemi dd info recv_ts src buf c = None \<longleftrightarrow> info \<and> length buf < 8"
  by (simp add: process_udp_packet_no_pemi_def packet_id_eq Let_def)

end
