(* ===== verification/Quic_Tests.thy ===== *)
theory Quic_Tests
  imports Unit_Tests Text_Output
begin

text \<open>
  The unit tests of \<open>pemi/src/quic_parse.rs\<close>: the headers of two packets of a trace. \<open>hex::decode\<close>, a library
  function, is the parameter \<open>hex_decode\<close>; what the tests rely on is that it reads bytes printed in hexadecimal.
\<close>

section \<open>Tests\<close>

text \<open>The literal of the first test is a packet padded with zeros.\<close>

definition initial_hex :: string where
  "initial_hex = ''c40000000110f44df81582d3b6f067b182f6b3c5caa8141ab213fc50df36f8791d09d293df6e43b41f72be004113cf59'' @
     ''6b00603ff64b70db409bf89fa57050c6462a223003c9d49492e62b86ddf32ed05d1e85903725d1f7827c562dfad04ca2'' @
     ''229190d970c235907a9363d7f15e026ffaa1180efe89347fbb8cc6ffdd188517f98b22016805d0104de5b6f1e20ebc7b'' @
     ''64e5cf3a88fff831fb0a4b8daab1e721ed1bfc16f5fcfa42eb8e9c596b107b7386052a8b070506133a9f7bed479d9603'' @
     ''45992620355aa2adea1e9f355cd8d8018ec3406ad7976b94f4f837b13f67e19e65709e4afdf0a8db954c29154870d24d'' @
     ''31ad75391d752d1650a63a6909edcf8fae1a11f86ad22b6d1ac9f10eea107c445e7a6d45bdc4d092aecd37b46d919718'' @
     ''f5180846b93e401a72ec4155462a64340ba7bc26b923fae55ba2f13462dd70d5b8''"

definition initial_pkt :: string where
  "initial_pkt = initial_hex @ replicate 1758 CHR ''0''"

definition handshake_pkt :: string where
  "handshake_pkt = ''ee00000001141ab213fc50df36f8791d09d293df6e43b41f72be14a0e5ef94e277a0e9f0cfbf1e16ae5dd6ecf6913d41'' @
     ''0687bf40e2c344eb8f308f336523565793a585601768fb119011dc31cd441f4b0a1a418f5af1f8d24eb864d171c1a19a'' @
     ''60a89a0c4975f9c44abf2daf45314f0b56f59670b09ed6f4ada6db70410f0baf490bd19d08e1e147e9526c4beaeea7cc'' @
     ''75f93425ac5e1c86456b0ecaaa445b40df791590ba15fcef7376b8ee61a4bb202c9efc319190a1e816b6b743d764d9f0'' @
     ''69e43c65706743faed9c547232e16c45284c18186443f43ce11930595c4ec5a0475c83d3cd1dab3768bf3428e6683a64'' @
     ''46c44b0e5c02424acb3cc879f5a24ef7564c3b675b77d5a50bfd3e031b924829a8fd777f1a0a4b5768fb49cc745d96c9'' @
     ''25c451e4c0d3fa56aed51e2142163ec787d093c22ede9c''"

text \<open>The assertions both tests make about a header.\<close>

definition header_test ::
    "(string \<Rightarrow> bytes option) \<Rightarrow> string \<Rightarrow> pkt_type \<Rightarrow> string \<Rightarrow> string \<Rightarrow> unit option" where
  "header_test hex_decode pkt ty dcid_hex scid_hex = do {
     bytes \<leftarrow> hex_decode pkt;
     hdr \<leftarrow> (case fst (from_bytes 0 (with_slice bytes)) of Ok h \<Rightarrow> Some h | _ \<Rightarrow> None);
     rust_assert (h_ty hdr = ty);
     rust_assert (h_spin hdr = False);
     rust_assert (h_version hdr = 1);
     dcid \<leftarrow> hex_decode dcid_hex;
     rust_assert (cid_as_ref (h_dcid hdr) = dcid);
     scid \<leftarrow> hex_decode scid_hex;
     rust_assert (cid_as_ref (h_scid hdr) = scid) }"

definition test_initial :: "(string \<Rightarrow> bytes option) \<Rightarrow> unit option" where
  "test_initial hex_decode = header_test hex_decode initial_pkt Initial
     ''f44df81582d3b6f067b182f6b3c5caa8'' ''1ab213fc50df36f8791d09d293df6e43b41f72be''"

definition test_handshake :: "(string \<Rightarrow> bytes option) \<Rightarrow> unit option" where
  "test_handshake hex_decode = header_test hex_decode handshake_pkt Handshake
     ''1ab213fc50df36f8791d09d293df6e43b41f72be'' ''a0e5ef94e277a0e9f0cfbf1e16ae5dd6ecf6913d''"

section \<open>Every test passes\<close>

definition decodes_hex :: "(string \<Rightarrow> bytes option) \<Rightarrow> bool" where
  "decodes_hex hex_decode \<longleftrightarrow> (\<forall>bs. hex_decode (hex_string bs) = Some bs)"

text \<open>A function that does.\<close>

definition unhex_digit :: "char \<Rightarrow> nat option" where
  "unhex_digit c = map_of (zip ''0123456789abcdef'' [0..<16]) c"

fun unhex :: "string \<Rightarrow> bytes option" where
  "unhex [] = Some []"
| "unhex [c] = None"
| "unhex (a # b # s) = do { x \<leftarrow> unhex_digit a; y \<leftarrow> unhex_digit b; bs \<leftarrow> unhex s; Some (of_nat (16 * x + y) # bs) }"

lemma unhex_digit_hex: "n < 16 \<Longrightarrow> unhex_digit (hex_digit n) = Some n"
proof -
  assume n: "n < 16"
  have d: "distinct ''0123456789abcdef''" by code_simp
  have l: "length ''0123456789abcdef'' = 16" by simp
  have "map_of (zip ''0123456789abcdef'' [0..<16]) (''0123456789abcdef'' ! n) = Some ([0..<16] ! n)"
    by (rule map_of_zip_nth) (use n d l in \<open>simp_all del: distinct.simps\<close>)
  with n show ?thesis by (simp only: unhex_digit_def hex_digit_def nth_upt) simp
qed

lemma decodes_hex_unhex: "decodes_hex unhex"
proof -
  have "unhex (hex_string bs) = Some bs" for bs
  proof (induction bs)
    case (Cons b bs)
    have "unat b div 16 < 16" using unsigned_less [of b, where 'a = nat] by simp
    moreover have "(of_nat (16 * (unat b div 16) + unat b mod 16) :: u8) = b" by (simp only: mult_div_mod_eq) simp
    ultimately show ?case using Cons by (simp add: hex_string_def hex_byte_def unhex_digit_hex del: of_nat_add of_nat_mult)
  qed (simp add: hex_string_def)
  then show ?thesis by (simp add: decodes_hex_def)
qed

lemma hex_string_append: "hex_string (as @ bs) = hex_string as @ hex_string bs"
  by (simp add: hex_string_def)

lemma hex_string_zeros: "hex_string (replicate n 0) = replicate (2 * n) CHR ''0''"
  by (induction n) (simp_all add: hex_string_def hex_byte_def hex_digit_def)

definition initial_bytes :: bytes where
  "initial_bytes = [0xc4, 0x00, 0x00, 0x00, 0x01, 0x10, 0xf4, 0x4d, 0xf8, 0x15, 0x82, 0xd3, 0xb6, 0xf0, 0x67, 0xb1,
     0x82, 0xf6, 0xb3, 0xc5, 0xca, 0xa8, 0x14, 0x1a, 0xb2, 0x13, 0xfc, 0x50, 0xdf, 0x36, 0xf8, 0x79,
     0x1d, 0x09, 0xd2, 0x93, 0xdf, 0x6e, 0x43, 0xb4, 0x1f, 0x72, 0xbe, 0x00, 0x41, 0x13, 0xcf, 0x59,
     0x6b, 0x00, 0x60, 0x3f, 0xf6, 0x4b, 0x70, 0xdb, 0x40, 0x9b, 0xf8, 0x9f, 0xa5, 0x70, 0x50, 0xc6,
     0x46, 0x2a, 0x22, 0x30, 0x03, 0xc9, 0xd4, 0x94, 0x92, 0xe6, 0x2b, 0x86, 0xdd, 0xf3, 0x2e, 0xd0,
     0x5d, 0x1e, 0x85, 0x90, 0x37, 0x25, 0xd1, 0xf7, 0x82, 0x7c, 0x56, 0x2d, 0xfa, 0xd0, 0x4c, 0xa2,
     0x22, 0x91, 0x90, 0xd9, 0x70, 0xc2, 0x35, 0x90, 0x7a, 0x93, 0x63, 0xd7, 0xf1, 0x5e, 0x02, 0x6f,
     0xfa, 0xa1, 0x18, 0x0e, 0xfe, 0x89, 0x34, 0x7f, 0xbb, 0x8c, 0xc6, 0xff, 0xdd, 0x18, 0x85, 0x17,
     0xf9, 0x8b, 0x22, 0x01, 0x68, 0x05, 0xd0, 0x10, 0x4d, 0xe5, 0xb6, 0xf1, 0xe2, 0x0e, 0xbc, 0x7b,
     0x64, 0xe5, 0xcf, 0x3a, 0x88, 0xff, 0xf8, 0x31, 0xfb, 0x0a, 0x4b, 0x8d, 0xaa, 0xb1, 0xe7, 0x21,
     0xed, 0x1b, 0xfc, 0x16, 0xf5, 0xfc, 0xfa, 0x42, 0xeb, 0x8e, 0x9c, 0x59, 0x6b, 0x10, 0x7b, 0x73,
     0x86, 0x05, 0x2a, 0x8b, 0x07, 0x05, 0x06, 0x13, 0x3a, 0x9f, 0x7b, 0xed, 0x47, 0x9d, 0x96, 0x03,
     0x45, 0x99, 0x26, 0x20, 0x35, 0x5a, 0xa2, 0xad, 0xea, 0x1e, 0x9f, 0x35, 0x5c, 0xd8, 0xd8, 0x01,
     0x8e, 0xc3, 0x40, 0x6a, 0xd7, 0x97, 0x6b, 0x94, 0xf4, 0xf8, 0x37, 0xb1, 0x3f, 0x67, 0xe1, 0x9e,
     0x65, 0x70, 0x9e, 0x4a, 0xfd, 0xf0, 0xa8, 0xdb, 0x95, 0x4c, 0x29, 0x15, 0x48, 0x70, 0xd2, 0x4d,
     0x31, 0xad, 0x75, 0x39, 0x1d, 0x75, 0x2d, 0x16, 0x50, 0xa6, 0x3a, 0x69, 0x09, 0xed, 0xcf, 0x8f,
     0xae, 0x1a, 0x11, 0xf8, 0x6a, 0xd2, 0x2b, 0x6d, 0x1a, 0xc9, 0xf1, 0x0e, 0xea, 0x10, 0x7c, 0x44,
     0x5e, 0x7a, 0x6d, 0x45, 0xbd, 0xc4, 0xd0, 0x92, 0xae, 0xcd, 0x37, 0xb4, 0x6d, 0x91, 0x97, 0x18,
     0xf5, 0x18, 0x08, 0x46, 0xb9, 0x3e, 0x40, 0x1a, 0x72, 0xec, 0x41, 0x55, 0x46, 0x2a, 0x64, 0x34,
     0x0b, 0xa7, 0xbc, 0x26, 0xb9, 0x23, 0xfa, 0xe5, 0x5b, 0xa2, 0xf1, 0x34, 0x62, 0xdd, 0x70, 0xd5,
     0xb8]"

definition handshake_bytes :: bytes where
  "handshake_bytes = [0xee, 0x00, 0x00, 0x00, 0x01, 0x14, 0x1a, 0xb2, 0x13, 0xfc, 0x50, 0xdf, 0x36, 0xf8, 0x79, 0x1d,
     0x09, 0xd2, 0x93, 0xdf, 0x6e, 0x43, 0xb4, 0x1f, 0x72, 0xbe, 0x14, 0xa0, 0xe5, 0xef, 0x94, 0xe2,
     0x77, 0xa0, 0xe9, 0xf0, 0xcf, 0xbf, 0x1e, 0x16, 0xae, 0x5d, 0xd6, 0xec, 0xf6, 0x91, 0x3d, 0x41,
     0x06, 0x87, 0xbf, 0x40, 0xe2, 0xc3, 0x44, 0xeb, 0x8f, 0x30, 0x8f, 0x33, 0x65, 0x23, 0x56, 0x57,
     0x93, 0xa5, 0x85, 0x60, 0x17, 0x68, 0xfb, 0x11, 0x90, 0x11, 0xdc, 0x31, 0xcd, 0x44, 0x1f, 0x4b,
     0x0a, 0x1a, 0x41, 0x8f, 0x5a, 0xf1, 0xf8, 0xd2, 0x4e, 0xb8, 0x64, 0xd1, 0x71, 0xc1, 0xa1, 0x9a,
     0x60, 0xa8, 0x9a, 0x0c, 0x49, 0x75, 0xf9, 0xc4, 0x4a, 0xbf, 0x2d, 0xaf, 0x45, 0x31, 0x4f, 0x0b,
     0x56, 0xf5, 0x96, 0x70, 0xb0, 0x9e, 0xd6, 0xf4, 0xad, 0xa6, 0xdb, 0x70, 0x41, 0x0f, 0x0b, 0xaf,
     0x49, 0x0b, 0xd1, 0x9d, 0x08, 0xe1, 0xe1, 0x47, 0xe9, 0x52, 0x6c, 0x4b, 0xea, 0xee, 0xa7, 0xcc,
     0x75, 0xf9, 0x34, 0x25, 0xac, 0x5e, 0x1c, 0x86, 0x45, 0x6b, 0x0e, 0xca, 0xaa, 0x44, 0x5b, 0x40,
     0xdf, 0x79, 0x15, 0x90, 0xba, 0x15, 0xfc, 0xef, 0x73, 0x76, 0xb8, 0xee, 0x61, 0xa4, 0xbb, 0x20,
     0x2c, 0x9e, 0xfc, 0x31, 0x91, 0x90, 0xa1, 0xe8, 0x16, 0xb6, 0xb7, 0x43, 0xd7, 0x64, 0xd9, 0xf0,
     0x69, 0xe4, 0x3c, 0x65, 0x70, 0x67, 0x43, 0xfa, 0xed, 0x9c, 0x54, 0x72, 0x32, 0xe1, 0x6c, 0x45,
     0x28, 0x4c, 0x18, 0x18, 0x64, 0x43, 0xf4, 0x3c, 0xe1, 0x19, 0x30, 0x59, 0x5c, 0x4e, 0xc5, 0xa0,
     0x47, 0x5c, 0x83, 0xd3, 0xcd, 0x1d, 0xab, 0x37, 0x68, 0xbf, 0x34, 0x28, 0xe6, 0x68, 0x3a, 0x64,
     0x46, 0xc4, 0x4b, 0x0e, 0x5c, 0x02, 0x42, 0x4a, 0xcb, 0x3c, 0xc8, 0x79, 0xf5, 0xa2, 0x4e, 0xf7,
     0x56, 0x4c, 0x3b, 0x67, 0x5b, 0x77, 0xd5, 0xa5, 0x0b, 0xfd, 0x3e, 0x03, 0x1b, 0x92, 0x48, 0x29,
     0xa8, 0xfd, 0x77, 0x7f, 0x1a, 0x0a, 0x4b, 0x57, 0x68, 0xfb, 0x49, 0xcc, 0x74, 0x5d, 0x96, 0xc9,
     0x25, 0xc4, 0x51, 0xe4, 0xc0, 0xd3, 0xfa, 0x56, 0xae, 0xd5, 0x1e, 0x21, 0x42, 0x16, 0x3e, 0xc7,
     0x87, 0xd0, 0x93, 0xc2, 0x2e, 0xde, 0x9c]"

lemma initial_bytes_hex: "initial_pkt = hex_string (initial_bytes @ replicate 879 0)"
proof -
  have "initial_hex = hex_string initial_bytes" by code_simp
  then show ?thesis by (simp add: initial_pkt_def hex_string_append hex_string_zeros)
qed

lemma handshake_bytes_hex: "handshake_pkt = hex_string handshake_bytes"
  by code_simp

text \<open>A header of a trace, by its fields as the dissector shows them.\<close>

lemma header_test_passes:
  assumes dec: "decodes_hex hex_decode" and pkt: "pkt = hex_string (long_header_bytes first 1 ty dcid scid token len @ rest)"
    and ty: "is_long first" "long_type first 1 = Some ty" and cids: "length dcid \<le> 20" "length scid \<le> 20"
    and len: "length token < 2 ^ 62" "len < 2 ^ 62"
  shows "header_test hex_decode pkt ty (hex_string dcid) (hex_string scid) = Some ()"
  using reads_from_bytes_long [OF ty cids len, of 0 rest] dec
  by (simp add: header_test_def pkt decodes_hex_def reads_def with_slice_def)

definition dcid_bytes :: bytes where
  "dcid_bytes = [0xf4, 0x4d, 0xf8, 0x15, 0x82, 0xd3, 0xb6, 0xf0, 0x67, 0xb1, 0x82, 0xf6, 0xb3, 0xc5, 0xca, 0xa8]"

definition scid_bytes :: bytes where
  "scid_bytes = [0x1a, 0xb2, 0x13, 0xfc, 0x50, 0xdf, 0x36, 0xf8, 0x79, 0x1d, 0x09, 0xd2, 0x93, 0xdf, 0x6e, 0x43, 0xb4, 0x1f, 0x72, 0xbe]"

definition server_scid_bytes :: bytes where
  "server_scid_bytes =
     [0xa0, 0xe5, 0xef, 0x94, 0xe2, 0x77, 0xa0, 0xe9, 0xf0, 0xcf, 0xbf, 0x1e, 0x16, 0xae, 0x5d, 0xd6, 0xec, 0xf6, 0x91, 0x3d]"

lemma cids_hex:
  "hex_string dcid_bytes = ''f44df81582d3b6f067b182f6b3c5caa8''" "hex_string scid_bytes = ''1ab213fc50df36f8791d09d293df6e43b41f72be''"
  "hex_string server_scid_bytes = ''a0e5ef94e277a0e9f0cfbf1e16ae5dd6ecf6913d''"
  by code_simp+

lemma initial_bytes_header: "initial_bytes = long_header_bytes 0xc4 1 Initial dcid_bytes scid_bytes [] 275 @ drop 46 initial_bytes"
  by code_simp

lemma handshake_bytes_header:
  "handshake_bytes = long_header_bytes 0xee 1 Handshake scid_bytes server_scid_bytes [] 262 @ drop 49 handshake_bytes"
  by code_simp

lemma test_initial_passes:
  assumes "decodes_hex hex_decode"
  shows "test_initial hex_decode = Some ()"
proof -
  have pkt: "initial_pkt = hex_string (long_header_bytes 0xc4 1 Initial dcid_bytes scid_bytes [] 275 @ drop 46 initial_bytes @ replicate 879 0)"
    by (subst initial_bytes_hex, subst initial_bytes_header) (simp only: append_assoc)
  have ty: "is_long 0xc4" "long_type 0xc4 1 = Some Initial" by code_simp+
  have len: "length dcid_bytes = 16" "length scid_bytes = 20" by (simp_all add: dcid_bytes_def scid_bytes_def)
  show ?thesis
    unfolding test_initial_def cids_hex [symmetric] by (rule header_test_passes [OF assms pkt ty]) (simp_all add: len)
qed

lemma test_handshake_passes:
  assumes "decodes_hex hex_decode"
  shows "test_handshake hex_decode = Some ()"
proof -
  have pkt: "handshake_pkt = hex_string (long_header_bytes 0xee 1 Handshake scid_bytes server_scid_bytes [] 262 @ drop 49 handshake_bytes)"
    by (subst handshake_bytes_hex, subst handshake_bytes_header) (rule refl)
  have ty: "is_long 0xee" "long_type 0xee 1 = Some Handshake" by code_simp+
  have len: "length server_scid_bytes = 20" "length scid_bytes = 20" by (simp_all add: server_scid_bytes_def scid_bytes_def)
  show ?thesis
    unfolding test_handshake_def cids_hex [symmetric] by (rule header_test_passes [OF assms pkt ty]) (simp_all add: len)
qed

end
