(* ===== verification/Float_Error.thy ===== *)
theory Float_Error
  imports Rust_Time
begin

text \<open>
  How far the floating-point arithmetic of the program is from the exact one: the error of rounding to a double,
  of \<open>as_secs_f64\<close> and of \<open>mul_f64\<close>. For durations up to a thousand seconds the product with a small factor is within one
  nanosecond of the exact product.
\<close>

lemma rne_error: "\<bar>of_int (rne x) - x\<bar> \<le> 1 / 2"
proof -
  have "0 \<le> x - of_int \<lfloor>x\<rfloor>" "x - of_int \<lfloor>x\<rfloor> < 1" using floor_correct [of x] by linarith+
  then show ?thesis by (auto simp: rne_def rne_at_def abs_le_iff)
qed

lemma rnd_error:
  assumes "\<bar>x\<bar> < 2 ^ k"
  shows "\<bar>rnd 53 (- 1074) x - x\<bar> \<le> 2 ^ k / 2 ^ 54"
proof (cases "x = 0")
  case False
  let ?u = "2 powi max (- 1074) (ilog2 \<bar>x\<bar> + 1 - 53) :: rat"
  have "2 powi ilog2 \<bar>x\<bar> \<le> \<bar>x\<bar>" using ilog2_bounds [of "\<bar>x\<bar>"] False by simp
  with assms have "(2::rat) powi ilog2 \<bar>x\<bar> < 2 powi int k" by (simp add: power_int_of_nat)
  then have "ilog2 \<bar>x\<bar> < int k" by (simp only: powi_less_iff)
  then have "?u \<le> 2 powi (int k - 53)" by (simp only: powi_le_iff)
  also have "\<dots> = 2 ^ k / 2 ^ 53" by (simp add: power_int_diff)
  finally have u: "?u \<le> 2 ^ k / 2 ^ 53" .
  have pos: "0 < ?u" by simp
  have "\<bar>rnd 53 (- 1074) x - x\<bar> = \<bar>of_int (rne (x / ?u)) - x / ?u\<bar> * ?u"
  proof -
    have "x = x / ?u * ?u" using pos by simp
    then have "rnd 53 (- 1074) x - x = (of_int (rne (x / ?u)) - x / ?u) * ?u"
      using False by (simp add: rnd_def rnd_at_def left_diff_distrib)
    then show ?thesis using pos by (simp add: abs_mult)
  qed
  also have "\<dots> \<le> 1 / 2 * ?u" using rne_error [of "x / ?u"] pos by (intro mult_right_mono) simp_all
  also have "\<dots> \<le> 1 / 2 * (2 ^ k / 2 ^ 53)" using u by (intro mult_left_mono) simp_all
  finally show ?thesis by simp
qed simp

lemma fl64_error:
  assumes "\<bar>x\<bar> < 2 ^ k" and "k \<le> 1000"
  shows "\<exists>y. fl64 x = Fin y \<and> \<bar>y - x\<bar> \<le> 2 ^ k / 2 ^ 54"
proof -
  obtain y where y: "fl64 x = Fin y" using fl64_abs_bounded [of x k] assms by auto
  then have "y = rnd 53 (- 1074) x" by (auto simp: fl64_def f64_of_rounded_def split: if_splits)
  with y rnd_error [OF assms(1)] show ?thesis by simp
qed

text \<open>Errors of \<open>as_secs_f64\<close> and \<open>mul_f64\<close>, in seconds and in nanoseconds.\<close>

lemma as_secs_f64_error:
  assumes "d \<le> from_secs 1000"
  shows "\<exists>s. as_secs_f64 d = Fin s \<and> \<bar>s - of_nat d / 1000000000\<bar> \<le> 1 / 2 ^ 42 \<and> 0 \<le> s \<and> s \<le> 1024"
proof -
  let ?q = "d div NANOS_PER_SEC" and ?n = "d mod NANOS_PER_SEC"
  have q: "?q \<le> 1000" using div_le_mono [OF assms, of NANOS_PER_SEC] by (simp add: time_consts)
  have n: "?n < 1000000000" by (simp add: time_consts)
  have fq: "f64_of_nat ?q = Fin (of_nat ?q)" and fn: "f64_of_nat ?n = Fin (of_nat ?n)"
    and fs: "f64_of_nat NANOS_PER_SEC = Fin 1000000000"
    using q n by (simp_all add: f64_of_nat_exact NANOS_PER_SEC_def)
  have "(of_nat ?n :: rat) < of_nat 1000000000" using n by (simp only: of_nat_less_iff)
  then have r: "0 \<le> (of_nat ?n / 1000000000 :: rat)" "(of_nat ?n / 1000000000 :: rat) < 2 ^ 0" by simp_all
  then obtain f where f: "fl64 (of_nat ?n / 1000000000) = Fin f" "\<bar>f - of_nat ?n / 1000000000\<bar> \<le> 1 / 2 ^ 54"
    using fl64_error [of "of_nat ?n / 1000000000" 0] by auto
  have f01: "0 \<le> f" "f \<le> 1" using fl64_bounded [of "of_nat ?n / 1000000000" 0] f(1) r by auto
  have "(of_nat ?q :: rat) \<le> of_nat 1000" using q by (simp only: of_nat_le_iff)
  then have s0: "0 \<le> of_nat ?q + f" "of_nat ?q + f < 2 ^ 10" using f01 by simp_all
  then obtain s where s: "fl64 (of_nat ?q + f) = Fin s" "\<bar>s - (of_nat ?q + f)\<bar> \<le> 2 ^ 10 / 2 ^ 54"
    using fl64_error [of "of_nat ?q + f" 10] by auto
  have d: "(of_nat d :: rat) / 1000000000 = of_nat ?q + of_nat ?n / 1000000000"
  proof -
    have "(of_nat d :: rat) = of_nat (?q * NANOS_PER_SEC + ?n)" by (simp only: div_mult_mod_eq)
    also have "\<dots> = of_nat ?q * 1000000000 + of_nat ?n" unfolding of_nat_add of_nat_mult by (simp add: NANOS_PER_SEC_def)
    finally show ?thesis by simp
  qed
  have "as_secs_f64 d = Fin s" using f(1) s(1) r by (simp add: as_secs_f64_def fq fn fs)
  moreover have "\<bar>s - of_nat d / 1000000000\<bar> \<le> 1 / 2 ^ 42"
  proof -
    have "\<bar>s - of_nat d / 1000000000\<bar> \<le> \<bar>s - (of_nat ?q + f)\<bar> + \<bar>f - of_nat ?n / 1000000000\<bar>" unfolding d by simp
    also have "\<dots> \<le> 2 ^ 10 / 2 ^ 54 + 1 / 2 ^ 54" by (rule add_mono [OF s(2) f(2)])
    finally show ?thesis by simp
  qed
  moreover have "0 \<le> s \<and> s \<le> 1024" using fl64_bounded [of "of_nat ?q + f" 10] s(1) s0 by simp
  ultimately show ?thesis by blast
qed

lemma mul_f64_error:
  assumes d: "d \<le> from_secs 1000" and x: "0 \<le> x" "x \<le> 4"
  shows "\<exists>r. mul_f64 d (Fin x) = Some r \<and> \<bar>of_nat r - of_nat d * x\<bar> < 1"
proof -
  obtain s where s: "as_secs_f64 d = Fin s" "\<bar>s - of_nat d / 1000000000\<bar> \<le> 1 / 2 ^ 42" "0 \<le> s" "s \<le> 1024"
    using as_secs_f64_error [OF d] by blast
  have xs: "0 \<le> x * s" "x * s \<le> 4 * 1024" using x s(3,4) by (simp, intro mult_mono) simp_all
  then obtain p where p: "fl64 (x * s) = Fin p" "\<bar>p - x * s\<bar> \<le> 2 ^ 13 / 2 ^ 54"
    using fl64_error [of "x * s" 13] by auto
  have p0: "0 \<le> p" "p \<le> 2 ^ 13" using fl64_bounded [of "x * s" 13] xs p(1) by auto
  let ?r = "rne (p * 1000000000)"
  have r0: "0 \<le> ?r" using p0 by (intro rne_nonneg) simp
  have "?r \<le> rne (of_int (2 ^ 13 * 1000000000))" using p0(2) by (intro rne_mono) simp
  then have small: "nat ?r \<le> DURATION_MAX" by (simp only: rne_of_int) (simp add: DURATION_MAX_def)
  have "\<bar>x * s - of_nat d * x / 1000000000\<bar> = x * \<bar>s - of_nat d / 1000000000\<bar>"
  proof -
    have "x * s - of_nat d * x / 1000000000 = x * (s - of_nat d / 1000000000)" by (simp add: algebra_simps)
    then show ?thesis using x(1) by (simp add: abs_mult)
  qed
  also have "\<dots> \<le> 4 * (1 / 2 ^ 42)" using x s(2) by (intro mult_mono) simp_all
  finally have xd: "\<bar>x * s - of_nat d * x / 1000000000\<bar> \<le> 4 * (1 / 2 ^ 42)" .
  have "\<bar>p - of_nat d * x / 1000000000\<bar> \<le> \<bar>p - x * s\<bar> + \<bar>x * s - of_nat d * x / 1000000000\<bar>" by simp
  also have "\<dots> \<le> 2 ^ 13 / 2 ^ 54 + 4 * (1 / 2 ^ 42)" by (rule add_mono [OF p(2) xd])
  finally have "\<bar>p - of_nat d * x / 1000000000\<bar> \<le> 1 / 2 ^ 39" by simp
  then have "\<bar>p - of_nat d * x / 1000000000\<bar> * 1000000000 \<le> 1 / 2 ^ 39 * 1000000000" by (intro mult_right_mono) simp_all
  moreover have "\<bar>p * 1000000000 - of_nat d * x\<bar> = \<bar>p - of_nat d * x / 1000000000\<bar> * 1000000000"
  proof -
    have "p * 1000000000 - of_nat d * x = (p - of_nat d * x / 1000000000) * 1000000000" by (simp add: left_diff_distrib)
    then show ?thesis by (simp only: abs_mult abs_numeral)
  qed
  ultimately have "\<bar>p * 1000000000 - of_nat d * x\<bar> \<le> 1 / 2 ^ 39 * 1000000000" by simp
  note pd = this
  have "\<bar>of_int ?r - of_nat d * x\<bar> \<le> \<bar>of_int ?r - p * 1000000000\<bar> + \<bar>p * 1000000000 - of_nat d * x\<bar>" by simp
  also have "\<dots> \<le> 1 / 2 + 1 / 2 ^ 39 * 1000000000" by (rule add_mono [OF rne_error pd])
  also have "\<dots> < 1" by simp
  finally have "\<bar>of_int ?r - of_nat d * x\<bar> < 1" .
  moreover have "mul_f64 d (Fin x) = Some (nat ?r)" using s(1) p p0 small by (simp add: mul_f64_def Let_def)
  moreover have "(of_nat (nat ?r) :: rat) = of_int ?r" using r0 by simp
  ultimately show ?thesis by auto
qed

text \<open>A literal with nine decimal places is read exactly.\<close>

lemma from_secs_f64_near:
  assumes "of_nat n / 1000000000 < (2 ^ 10 :: rat)"
  shows "from_secs_f64 (fl64 (of_nat n / 1000000000)) = Some n"
proof -
  obtain y where y: "fl64 (of_nat n / 1000000000) = Fin y" "\<bar>y - of_nat n / 1000000000\<bar> \<le> 2 ^ 10 / 2 ^ 54"
    using fl64_error [of "of_nat n / 1000000000" 10] assms by auto
  have y0: "0 \<le> y" using fl64_nonneg [of "of_nat n / 1000000000"] y(1) by simp
  have "\<bar>y - of_nat n / 1000000000\<bar> * 1000000000 \<le> 2 ^ 10 / 2 ^ 54 * 1000000000" using y(2) by (rule mult_right_mono) simp
  moreover have "y * 1000000000 - of_nat n = (y - of_nat n / 1000000000) * 1000000000" by (simp add: left_diff_distrib)
  ultimately have close: "\<bar>y * 1000000000 - of_nat n\<bar> \<le> 2 ^ 10 / 2 ^ 54 * 1000000000" by (simp only: abs_mult abs_numeral)
  have "\<bar>of_int (rne (y * 1000000000)) - of_nat n\<bar> \<le>
      \<bar>of_int (rne (y * 1000000000)) - y * 1000000000\<bar> + \<bar>y * 1000000000 - (of_nat n :: rat)\<bar>" by simp
  also have "\<dots> \<le> 1 / 2 + 2 ^ 10 / 2 ^ 54 * 1000000000" by (rule add_mono [OF rne_error close])
  also have "\<dots> < 1" by simp
  finally have "\<bar>rne (y * 1000000000) - int n\<bar> < 1" by linarith
  then have "rne (y * 1000000000) = int n" by simp
  moreover have "n \<le> DURATION_MAX"
  proof -
    have "(of_nat n :: rat) < of_nat (1024 * 1000000000)" using assms by simp
    then have "n < 1024 * 1000000000" by (simp only: of_nat_less_iff)
    then show ?thesis by (simp add: DURATION_MAX_def)
  qed
  ultimately show ?thesis using y(1) y0 by (simp add: Let_def)
qed

text \<open>The product with a factor, bounded in nanoseconds.\<close>

lemma mul_f64_within:
  assumes "d \<le> from_secs 1000" and "x = of_nat a / of_nat b" and "a \<le> 4 * b" and "0 < b"
  shows "\<exists>r. mul_f64 d (Fin x) = Some r \<and> d * a < (r + 1) * b \<and> r * b < d * a + b"
proof -
  have "(of_nat a :: rat) \<le> of_nat (4 * b)" using assms(3) by (simp only: of_nat_le_iff)
  then have x: "0 \<le> x" "x \<le> 4" unfolding assms(2) using assms(4) by (simp_all add: field_simps)
  from mul_f64_error [OF assms(1) x] obtain r where r: "mul_f64 d (Fin x) = Some r" "\<bar>of_nat r - of_nat d * x\<bar> < 1" by blast
  from r(2) have "of_nat d * x < of_nat r + 1" "of_nat r < of_nat d * x + (1 :: rat)" by linarith+
  then have "(of_nat (d * a) :: rat) < of_nat ((r + 1) * b)" "(of_nat (r * b) :: rat) < of_nat (d * a + b)"
    using assms(4) by (simp_all add: assms(2) field_simps)
  then have "d * a < (r + 1) * b" "r * b < d * a + b" by (simp_all only: of_nat_less_iff)
  with r(1) show ?thesis by blast
qed

end
