(* ===== verification/Flowlet_Split.thy ===== *)
theory Flowlet_Split
  imports Packet_Queue Float_Error
begin

text \<open>
  Where the queue splits the packets into flowlets: a packet belongs to the last flowlet unless it comes later than a
  multiple of the smoothed interval of the packets. The interval and its multiple are computed in doubles and rounded to
  nanoseconds; these lemmas say how far that is from the exact values.
\<close>

section \<open>Smoothing\<close>

text \<open>The smoothed interval is within two nanoseconds of seven eighths of the old one and an eighth of the new interval.\<close>

lemma record_interval_within:
  assumes "smoothed_interval q \<le> from_secs 1000" and "duration_since ts (last_packet_time q) \<le> from_secs 1000"
  shows "\<exists>s. record_packet_interval ts q = Some (q\<lparr>last_packet_time := ts, smoothed_interval := s\<rparr>) \<and>
    7 * smoothed_interval q + duration_since ts (last_packet_time q) < 8 * (s + 2) \<and>
    8 * s < 7 * smoothed_interval q + duration_since ts (last_packet_time q) + 16"
proof -
  let ?i = "duration_since ts (last_packet_time q)"
  obtain a where a: "mul_f64 (smoothed_interval q) (Fin (7 / 8)) = Some a" "smoothed_interval q * 7 < (a + 1) * 8" "a * 8 < smoothed_interval q * 7 + 8"
    using mul_f64_within [OF assms(1), of "7 / 8" 7 8] by auto
  obtain b where b: "mul_f64 ?i (Fin (1 / 8)) = Some b" "?i * 1 < (b + 1) * 8" "b * 8 < ?i * 1 + 8"
    using mul_f64_within [OF assms(2), of "1 / 8" 1 8] by auto
  have "a + b \<le> DURATION_MAX" using a(3) b(3) assms by (simp add: DURATION_MAX_def from_secs_def)
  then have eq: "record_packet_interval ts q = Some (q\<lparr>last_packet_time := ts, smoothed_interval := a + b\<rparr>)"
    using a(1) b(1) by (simp add: record_packet_interval_def dur_add_def)
  show ?thesis by (rule exI [of _ "a + b"]) (use eq a(2,3) b(2,3) in simp)
qed

lemma interval_error:
  assumes "smoothed_interval q \<le> from_secs 900" and "duration_since ts (last_packet_time q) \<le> from_secs 900"
  shows "\<exists>s. record_packet_interval ts q = Some (q\<lparr>last_packet_time := ts, smoothed_interval := s\<rparr>) \<and> s \<le> from_secs 1000 \<and>
    \<bar>of_nat s - (7 / 8 * of_nat (smoothed_interval q) + 1 / 8 * of_nat (duration_since ts (last_packet_time q)))\<bar> < (2 :: rat)"
proof -
  let ?i = "duration_since ts (last_packet_time q)" and ?s = "smoothed_interval q"
  obtain s where s: "record_packet_interval ts q = Some (q\<lparr>last_packet_time := ts, smoothed_interval := s\<rparr>)"
    "7 * ?s + ?i < 8 * (s + 2)" "8 * s < 7 * ?s + ?i + 16"
    using record_interval_within [of q ts] assms by (auto simp: from_secs_def)
  from s(2,3) have "(of_nat (7 * ?s + ?i) :: rat) < of_nat (8 * (s + 2))" "(of_nat (8 * s) :: rat) < of_nat (7 * ?s + ?i + 16)"
    by (simp_all only: of_nat_less_iff)
  then have "\<bar>of_nat s - (7 / 8 * of_nat ?s + 1 / 8 * of_nat ?i)\<bar> < (2 :: rat)" by (simp add: abs_less_iff)
  moreover have "s \<le> from_secs 1000" using s(3) assms by (simp add: from_secs_def)
  ultimately show ?thesis using s(1) by blast
qed

lemma add_to_flowlet_gap:
  assumes "packets q \<noteq> []" and "flowlets q \<noteq> []" and "flowlet_timeout q = Some t"
  shows "\<exists>q'. add_to_flowlet ts q = Some (duration_since ts (pkt_timestamp (last (packets q))) > t, q')"
  using assms by (auto simp: add_to_flowlet_def newest_ts_def)

section \<open>Properties\<close>

text \<open>
  C11. A packet that is added to a queue with packets in it begins a new flowlet if and only if its distance to the newest packet is
  more than the interval factor times the smoothed interval, which is seven eighths of the old one and an eighth of the distance to
  the last packet with a payload. The computation in doubles decides rightly whenever the distance is off the limit by
  more than twice the factor plus one nanoseconds.
\<close>

theorem flowlet_split_by_gap:
  assumes "packets q \<noteq> []" and "flowlets q \<noteq> []" and "length (packets q) \<le> 1000"
    and "smoothed_interval q \<le> from_secs 900" and "duration_since ts (last_packet_time q) \<le> from_secs 900"
    and "flowlet_interval_factor q = Fin x" and "0 \<le> x" and "x \<le> 4"
  defines "gap \<equiv> of_nat (duration_since ts (pkt_timestamp (last (packets q)))) :: rat"
    and "limit \<equiv> x * (7 / 8 * of_nat (smoothed_interval q) + 1 / 8 * of_nat (duration_since ts (last_packet_time q)))"
  shows "\<exists>n new q'. queue_add ts (Some payload) rtt q = Some ((n, new), q') \<and>
    (limit + 2 * x + 1 \<le> gap \<longrightarrow> new) \<and> (gap \<le> limit - 2 * x - 1 \<longrightarrow> \<not> new)"
proof -
  let ?ideal = "7 / 8 * of_nat (smoothed_interval q) + 1 / 8 * of_nat (duration_since ts (last_packet_time q)) :: rat"
  obtain s where s: "record_packet_interval ts q = Some (q\<lparr>last_packet_time := ts, smoothed_interval := s\<rparr>)" "s \<le> from_secs 1000"
    "\<bar>of_nat s - ?ideal\<bar> < 2" using interval_error [OF assms(4,5)] by blast
  from mul_f64_error [OF s(2) assms(7,8)] obtain t where t: "mul_f64 s (Fin x) = Some t" "\<bar>of_nat t - of_nat s * x\<bar> < 1" by blast
  have "\<bar>of_nat s * x - limit\<bar> = x * \<bar>of_nat s - ?ideal\<bar>"
  proof -
    have "of_nat s * x - limit = x * (of_nat s - ?ideal)" unfolding limit_def by (simp only: right_diff_distrib mult.commute)
    then show ?thesis using assms(7) by (simp add: abs_mult)
  qed
  also have "\<dots> \<le> x * 2" using s(3) assms(7) by (intro mult_left_mono) simp_all
  finally have "\<bar>of_nat t - limit\<bar> < 2 * x + 1" using t(2) by (simp add: abs_le_iff abs_less_iff)
  then have near: "limit - 2 * x - 1 < of_nat t" "of_nat t < limit + 2 * x + 1" by (simp_all add: abs_less_iff)
  let ?q = "q\<lparr>last_packet_time := ts, smoothed_interval := s, processed := processed q + 1\<rparr>"
  let ?m = "if (processed q + 1) mod WHEN_MEASURE_ELICITING_THRESHOLD = 0 then measure_eliciting_threshold ?q else ?q"
  have m: "packets ?m = packets q" "flowlets ?m = flowlets q" "flowlet_timeout ?m = Some t"
    using t(1) assms(6) by (simp_all add: measure_eliciting_threshold_def flowlet_timeout_def)
  from add_to_flowlet_gap [of ?m t ts] m assms(1,2) obtain q' where
    q': "add_to_flowlet ts ?m = Some (duration_since ts (pkt_timestamp (last (packets q))) > t, q')" by auto
  let ?new = "duration_since ts (pkt_timestamp (last (packets q))) > t"
  have "\<exists>n q'. queue_add ts (Some payload) rtt q = Some ((n, ?new), q')"
    using s(1) q' m(1) assms(3) by (simp add: queue_add_def Let_def cong: if_cong)
  moreover have "limit + 2 * x + 1 \<le> gap \<Longrightarrow> ?new"
  proof -
    assume "limit + 2 * x + 1 \<le> gap"
    with near(2) have "(of_nat t :: rat) < gap" by simp
    then show ?new unfolding gap_def by (simp only: of_nat_less_iff)
  qed
  moreover have "gap \<le> limit - 2 * x - 1 \<Longrightarrow> \<not> ?new"
  proof -
    assume "gap \<le> limit - 2 * x - 1"
    with near(1) have "gap < (of_nat t :: rat)" by simp
    then show "\<not> ?new" unfolding gap_def by simp
  qed
  ultimately show ?thesis by blast
qed

theorem flowlet_split_by_gap_witness:
  "\<exists>n q'. queue_add 1000000000 (Some [1]) 0 ((queue_new 0)\<lparr>packets := [new_packet 1 0 (Some [2])],
     flowlets := [flowlet_new 1 0], processed := 1\<rparr>) = Some ((n, True), q')"
proof -
  let ?q = "(queue_new 0)\<lparr>packets := [new_packet 1 0 (Some [2])], flowlets := [flowlet_new 1 0], processed := 1\<rparr>"
  have "\<exists>n new q'. queue_add 1000000000 (Some [1]) 0 ?q = Some ((n, new), q') \<and> new"
    using flowlet_split_by_gap [of ?q 1000000000 2 "[1]" 0]
    by (auto simp: queue_new_def new_packet_def from_secs_def from_millis_def duration_since_def)
  then show ?thesis by auto
qed

end
