(* ===== verification/Middlebox_Tests.thy ===== *)
theory Middlebox_Tests
  imports Quic_Tests Pemi Flowlet_Split
begin

text \<open>
  The unit tests of \<open>pemi/src/queue.rs\<close>, \<open>conn.rs\<close> and \<open>lib.rs\<close>. A reading of the clock is an argument; \<open>clock\<close> is the one
  that a constructor takes. \<open>None\<close> is a failing test.
\<close>

section \<open>Tests of the queue\<close>

definition test_flowlet :: "instant \<Rightarrow> unit option" where
  "test_flowlet now = do {
     let fl = flowlet_new 1 now;
     rust_assert (length (pkt_nums fl) = 1);
     n \<leftarrow> index (pkt_nums fl) 0;
     rust_assert (n = 1);
     rust_assert (length (reply_pkt_times fl) = 0);
     rust_assert (fl_begin_time fl = now);
     rust_assert (fl_end_time fl = now);
     rust_assert (is_complete fl = False);
     let fl = flowlet_add 2 now fl;
     rust_assert (length (pkt_nums fl) = 2);
     n \<leftarrow> index (pkt_nums fl) 1;
     rust_assert (n = 2);
     rust_assert (length (reply_pkt_times fl) = 0);
     rust_assert (fl_begin_time fl = now);
     rust_assert (fl_end_time fl = now);
     let fl = add_reply now 1 fl;
     rust_assert (length (reply_pkt_times fl) = 1);
     rust_assert (exactly_replyed fl = False);
     let fl = add_reply now 2 fl;
     rust_assert (length (reply_pkt_times fl) = 2);
     rust_assert (exactly_replyed fl = True) }"

text \<open>\<open>start_time + Duration::from_secs_f64(x)\<close>.\<close>

definition after_secs :: "instant \<Rightarrow> rat \<Rightarrow> instant option" where
  "after_secs start_time x = do { d \<leftarrow> from_secs_f64 (fl64 x); instant_add start_time d }"

definition test_reply_to_right_flowlet :: "(string \<Rightarrow> bytes option) \<Rightarrow> instant \<Rightarrow> instant \<Rightarrow> unit option" where
  "test_reply_to_right_flowlet hex_decode clock start_time = do {
     let pq = queue_new clock;
     let rtt = from_micros 949856;
     pkt1_time \<leftarrow> after_secs start_time (50246223 / 1000000000);
     reply1_time \<leftarrow> after_secs start_time (1000101724 / 1000000000);
     pkt2_time \<leftarrow> after_secs start_time (1050441748 / 1000000000);
     reply2_time \<leftarrow> after_secs start_time (1052968357 / 1000000000);
     pkt1_payload \<leftarrow> hex_decode ''f00000000114fb6d58d157197c287b00'';
     pkt2_payload \<leftarrow> hex_decode ''f00000000114fb6d58d157197c287b00'';
     (_, pq) \<leftarrow> queue_add pkt1_time (Some pkt1_payload) rtt pq;
     rust_assert (length (flowlets pq) = 1);
     fl \<leftarrow> index (flowlets pq) 0;
     rust_assert (pkt_nums fl = [1]);
     (_, pq) \<leftarrow> check_reply reply1_time 1 rtt pq;
     rust_assert (length (flowlets pq) = 1);
     fl \<leftarrow> index (flowlets pq) 0;
     rust_assert (length (reply_pkt_times fl) = 1);
     rust_assert (is_complete fl = False);
     (_, pq) \<leftarrow> queue_add pkt2_time (Some pkt2_payload) rtt pq;
     rust_assert (length (flowlets pq) = 2);
     fl \<leftarrow> index (flowlets pq) 1;
     rust_assert (pkt_nums fl = [2]);
     (_, pq) \<leftarrow> check_reply reply2_time 2 rtt pq;
     Some () }"

definition test_match_sent_reply_dp_all_examples :: "unit option" where
  "test_match_sent_reply_dp_all_examples = do {
     map1 \<leftarrow> match_sent_reply_dp (map Fin [0, 50, 100, 150, 200, 250]) (map Fin [30, 98, 200, 298, 352]) (Fin 100);
     rust_assert (map1 = [Some 0, Some 1, Some 2, None, Some 3, Some 4]);
     map2 \<leftarrow> match_sent_reply_dp (map Fin [0, 40, 80, 120, 160, 200, 240]) (map Fin [18, 121, 205, 330, 400]) (Fin 120);
     rust_assert (map2 = [Some 0, Some 1, Some 2, None, None, Some 3, Some 4]);
     map3 \<leftarrow> match_sent_reply_dp (map Fin [0, 10, 20, 30, 40, 50, 60]) (map Fin [20, 30, 51, 71]) (Fin 20);
     rust_assert (map3 = [Some 0, Some 1, None, Some 2, None, Some 3, None]);
     map4 \<leftarrow> match_sent_reply_dp (map Fin [1, 2, 3, 4]) (map Fin [2, 4]) (Fin 0);
     rust_assert (map4 = [None, Some 0, None, Some 1]) }"

section \<open>Tests of connections\<close>

definition test_conn_id :: "unit option" where
  "test_conn_id = (let addr1 = V4 0xc0a80101 443; addr2 = V4 0xc0a80102 443;
     c_id1 = conn_id_new addr1 addr2; c_id2 = conn_id_new addr2 addr1 in rust_assert (c_id1 = c_id2))"

definition test_conn :: "new_clocks \<Rightarrow> instant \<Rightarrow> instant \<Rightarrow> unit option" where
  "test_conn ks now new_now = do {
     c \<leftarrow> conn_new ks now (V4 0x7f000001 1111) (V4 0x7f000001 443);
     rust_assert (is_handshaked c = False);
     let c = set_handshaked c;
     rust_assert (is_handshaked c = True);
     let c = touch new_now c;
     rust_assert (is_idle new_now c = False) }"

section \<open>Tests of the middlebox\<close>

definition genarate_addrs :: "u16 \<Rightarrow> socket_addr \<times> socket_addr" where
  "genarate_addrs seed = (V4 0xc0000201 (443 + seed), V4 0xc0000202 (443 + seed))"

text \<open>A new connection between the addresses of \<open>seed\<close> is added at \<open>now\<close>.\<close>

definition add_test_conn :: "new_clocks \<Rightarrow> u16 \<Rightarrow> instant \<Rightarrow> pemi \<Rightarrow> pemi option" where
  "add_test_conn ks seed now p = (let (addr1, addr2) = genarate_addrs seed in do {
     c \<leftarrow> conn_new ks now addr1 addr2;
     Some (new_conn (conn_id_new addr1 addr2) c now p) })"

definition assert_conns :: "nat \<Rightarrow> pemi \<Rightarrow> unit option" where
  "assert_conns n p = do { rust_assert (length (conns p) = n); rust_assert (length (access_times p) = n) }"

text \<open>\<open>t1\<close> and \<open>t2\<close> are the readings of the two calls of \<open>timeout\<close>.\<close>

definition test_timeout :: "new_clocks \<Rightarrow> instant \<Rightarrow> instant \<Rightarrow> instant \<Rightarrow> instant \<Rightarrow> unit option" where
  "test_timeout ks clock t1 now t2 = do {
     let p = pemi_new clock;
     timeout \<leftarrow> pemi_timeout t1 p;
     rust_assert (timeout = None);
     p \<leftarrow> add_test_conn ks 0 now p;
     timeout \<leftarrow> pemi_timeout t2 p;
     t \<leftarrow> timeout;
     time_passed \<leftarrow> dur_sub IDLE_TIMEOUT t;
     rust_assert (0 < time_passed \<and> time_passed < from_micros 100) }"

definition test_new_conn :: "new_clocks \<Rightarrow> instant \<Rightarrow> instant \<Rightarrow> unit option" where
  "test_new_conn ks clock now = do {
     let p = pemi_new clock;
     assert_conns 0 p;
     p \<leftarrow> add_test_conn ks 0 now p;
     assert_conns 1 p }"

definition test_remove_idle_conns :: "new_clocks \<Rightarrow> new_clocks \<Rightarrow> instant \<Rightarrow> instant \<Rightarrow> unit option" where
  "test_remove_idle_conns ks ks' clock start = do {
     let p = pemi_new clock;
     p \<leftarrow> add_test_conn ks 0 start p;
     assert_conns 1 p;
     p \<leftarrow> remove_idle_conns start p;
     assert_conns 1 p;
     conn_time \<leftarrow> instant_add start (from_secs 60);
     p \<leftarrow> add_test_conn ks' 1 conn_time p;
     assert_conns 2 p;
     now \<leftarrow> instant_add start IDLE_TIMEOUT;
     p \<leftarrow> remove_idle_conns now p;
     assert_conns 1 p }"

section \<open>Every test passes\<close>

lemma test_flowlet_passes: "test_flowlet now = Some ()"
  by (simp add: test_flowlet_def flowlet_new_def flowlet_add_def add_reply_def exactly_replyed_def is_complete_def Let_def)

text \<open>
  The examples of the dynamic program, row by row; sums of small integers are exact in doubles.
\<close>

lemma dp_backtrack_step:
  assumes "i \<noteq> 0" and "i < length prev" and "j < length (prev ! i)" and "prev ! i ! j = Some (i1, j1, matched)"
  shows "dp_backtrack prev i j mapping =
    dp_backtrack prev i1 j1 (if matched \<noteq> - 1 then mapping[i - 1 := Some (nat matched)] else mapping)"
  using assms by (subst dp_backtrack.simps) simp

lemma dp_backtrack_end: "dp_backtrack prev 0 j mapping = Some mapping"
  by (subst dp_backtrack.simps) simp

lemma fl64_small_numeral:
  "numeral k < (2 ^ 53 :: int) \<Longrightarrow> fl64 (numeral k) = Fin (numeral k)"
  "numeral k < (2 ^ 53 :: int) \<Longrightarrow> fl64 (- numeral k) = Fin (- numeral k)"
  "fl64 1 = Fin 1" "fl64 (- 1) = Fin (- 1)"
  using fl64_of_int [of "numeral k"] fl64_of_int [of "- numeral k"] fl64_of_int [of 1] fl64_of_int [of "- 1"] by simp_all

lemmas dp_eval = dp_row_def dp_cell_def match_cost_def f64_sub_def fl64_small_numeral upt_rec

lemma dp_example1:
  "match_sent_reply_dp (map Fin [0, 50, 100, 150, 200, 250]) (map Fin [30, 98, 200, 298, 352]) (Fin 100) =
    Some [Some 0, Some 1, Some 2, None, Some 3, Some 4]"
proof -
  let ?r = "map Fin [30, 98, 200, 298, 352]"
  have r1: "dp_row (Fin 0) ?r (Fin 100) (Suc 0) [Fin 0, PInf, PInf, PInf, PInf, PInf] =
      [(Fin 0, Some (0, 0, - 1)), (Fin 70, Some (0, 0, 0)), (PInf, None), (PInf, None), (PInf, None), (PInf, None)]"
    by (simp add: dp_eval)
  have r2: "dp_row (Fin 50) ?r (Fin 100) (Suc (Suc 0)) [Fin 0, Fin 70, PInf, PInf, PInf, PInf] =
      [(Fin 0, Some (1, 0, - 1)), (Fin 70, Some (1, 1, - 1)), (Fin 122, Some (1, 1, 1)), (PInf, None), (PInf, None), (PInf, None)]"
    by (simp add: dp_eval)
  have r3: "dp_row (Fin 100) ?r (Fin 100) (Suc (Suc (Suc 0))) [Fin 0, Fin 70, Fin 122, PInf, PInf, PInf] =
      [(Fin 0, Some (2, 0, - 1)), (Fin 70, Some (2, 1, - 1)), (Fin 122, Some (2, 2, - 1)), (Fin 122, Some (2, 2, 2)), (PInf, None), (PInf, None)]"
    by (simp add: dp_eval)
  have r4: "dp_row (Fin 150) ?r (Fin 100) (Suc (Suc (Suc (Suc 0)))) [Fin 0, Fin 70, Fin 122, Fin 122, PInf, PInf] =
      [(Fin 0, Some (3, 0, - 1)), (Fin 70, Some (3, 1, - 1)), (Fin 122, Some (3, 2, - 1)), (Fin 122, Some (3, 3, - 1)), (Fin 170, Some (3, 3, 3)), (PInf, None)]"
    by (simp add: dp_eval)
  have r5: "dp_row (Fin 200) ?r (Fin 100) (Suc (Suc (Suc (Suc (Suc 0))))) [Fin 0, Fin 70, Fin 122, Fin 122, Fin 170, PInf] =
      [(Fin 0, Some (4, 0, - 1)), (Fin 70, Some (4, 1, - 1)), (Fin 122, Some (4, 2, - 1)), (Fin 122, Some (4, 3, - 1)), (Fin 124, Some (4, 3, 3)), (Fin 222, Some (4, 4, 4))]"
    by (simp add: dp_eval)
  have r6: "dp_row (Fin 250) ?r (Fin 100) (Suc (Suc (Suc (Suc (Suc (Suc 0)))))) [Fin 0, Fin 70, Fin 122, Fin 122, Fin 124, Fin 222] =
      [(Fin 0, Some (5, 0, - 1)), (Fin 70, Some (5, 1, - 1)), (Fin 122, Some (5, 2, - 1)), (Fin 122, Some (5, 3, - 1)), (Fin 124, Some (5, 4, - 1)), (Fin 126, Some (5, 4, 4))]"
    by (simp add: dp_eval)
  show ?thesis
    using r1 r2 r3 r4 r5 r6
    by (simp add: match_sent_reply_dp_def dp_table_def dp_row0_def Let_def dp_backtrack_step dp_backtrack_end)
qed

lemma dp_example2:
  "match_sent_reply_dp (map Fin [0, 40, 80, 120, 160, 200, 240]) (map Fin [18, 121, 205, 330, 400]) (Fin 120) =
    Some [Some 0, Some 1, Some 2, None, None, Some 3, Some 4]"
proof -
  let ?r = "map Fin [18, 121, 205, 330, 400]"
  have r1: "dp_row (Fin 0) ?r (Fin 120) (Suc 0) [Fin 0, PInf, PInf, PInf, PInf, PInf] =
      [(Fin 0, Some (0, 0, - 1)), (Fin 102, Some (0, 0, 0)), (PInf, None), (PInf, None), (PInf, None), (PInf, None)]"
    by (simp add: dp_eval)
  have r2: "dp_row (Fin 40) ?r (Fin 120) (Suc (Suc 0)) [Fin 0, Fin 102, PInf, PInf, PInf, PInf] =
      [(Fin 0, Some (1, 0, - 1)), (Fin 102, Some (1, 1, - 1)), (Fin 141, Some (1, 1, 1)), (PInf, None), (PInf, None), (PInf, None)]"
    by (simp add: dp_eval)
  have r3: "dp_row (Fin 80) ?r (Fin 120) (Suc (Suc (Suc 0))) [Fin 0, Fin 102, Fin 141, PInf, PInf, PInf] =
      [(Fin 0, Some (2, 0, - 1)), (Fin 102, Some (2, 1, - 1)), (Fin 141, Some (2, 2, - 1)), (Fin 146, Some (2, 2, 2)), (PInf, None), (PInf, None)]"
    by (simp add: dp_eval)
  have r4: "dp_row (Fin 120) ?r (Fin 120) (Suc (Suc (Suc (Suc 0)))) [Fin 0, Fin 102, Fin 141, Fin 146, PInf, PInf] =
      [(Fin 0, Some (3, 0, - 1)), (Fin 102, Some (3, 1, - 1)), (Fin 141, Some (3, 2, - 1)), (Fin 146, Some (3, 3, - 1)), (Fin 236, Some (3, 3, 3)), (PInf, None)]"
    by (simp add: dp_eval)
  have r5: "dp_row (Fin 160) ?r (Fin 120) (Suc (Suc (Suc (Suc (Suc 0))))) [Fin 0, Fin 102, Fin 141, Fin 146, Fin 236, PInf] =
      [(Fin 0, Some (4, 0, - 1)), (Fin 102, Some (4, 1, - 1)), (Fin 141, Some (4, 2, - 1)), (Fin 146, Some (4, 3, - 1)), (Fin 196, Some (4, 3, 3)), (Fin 356, Some (4, 4, 4))]"
    by (simp add: dp_eval)
  have r6: "dp_row (Fin 200) ?r (Fin 120) (Suc (Suc (Suc (Suc (Suc (Suc 0)))))) [Fin 0, Fin 102, Fin 141, Fin 146, Fin 196, Fin 356] =
      [(Fin 0, Some (5, 0, - 1)), (Fin 102, Some (5, 1, - 1)), (Fin 141, Some (5, 2, - 1)), (Fin 146, Some (5, 3, - 1)), (Fin 156, Some (5, 3, 3)), (Fin 276, Some (5, 4, 4))]"
    by (simp add: dp_eval)
  have r7: "dp_row (Fin 240) ?r (Fin 120) (Suc (Suc (Suc (Suc (Suc (Suc (Suc 0))))))) [Fin 0, Fin 102, Fin 141, Fin 146, Fin 156, Fin 276] =
      [(Fin 0, Some (6, 0, - 1)), (Fin 102, Some (6, 1, - 1)), (Fin 141, Some (6, 2, - 1)), (Fin 146, Some (6, 3, - 1)), (Fin 156, Some (6, 4, - 1)), (Fin 196, Some (6, 4, 4))]"
    by (simp add: dp_eval)
  show ?thesis
    using r1 r2 r3 r4 r5 r6 r7
    by (simp add: match_sent_reply_dp_def dp_table_def dp_row0_def Let_def dp_backtrack_step dp_backtrack_end)
qed

lemma dp_example3:
  "match_sent_reply_dp (map Fin [0, 10, 20, 30, 40, 50, 60]) (map Fin [20, 30, 51, 71]) (Fin 20) =
    Some [Some 0, Some 1, None, Some 2, None, Some 3, None]"
proof -
  let ?r = "map Fin [20, 30, 51, 71]"
  have r1: "dp_row (Fin 0) ?r (Fin 20) (Suc 0) [Fin 0, PInf, PInf, PInf, PInf] =
      [(Fin 0, Some (0, 0, - 1)), (Fin 0, Some (0, 0, 0)), (PInf, None), (PInf, None), (PInf, None)]"
    by (simp add: dp_eval)
  have r2: "dp_row (Fin 10) ?r (Fin 20) (Suc (Suc 0)) [Fin 0, Fin 0, PInf, PInf, PInf] =
      [(Fin 0, Some (1, 0, - 1)), (Fin 0, Some (1, 1, - 1)), (Fin 0, Some (1, 1, 1)), (PInf, None), (PInf, None)]"
    by (simp add: dp_eval)
  have r3: "dp_row (Fin 20) ?r (Fin 20) (Suc (Suc (Suc 0))) [Fin 0, Fin 0, Fin 0, PInf, PInf] =
      [(Fin 0, Some (2, 0, - 1)), (Fin 0, Some (2, 1, - 1)), (Fin 0, Some (2, 2, - 1)), (Fin 11, Some (2, 2, 2)), (PInf, None)]"
    by (simp add: dp_eval)
  have r4: "dp_row (Fin 30) ?r (Fin 20) (Suc (Suc (Suc (Suc 0)))) [Fin 0, Fin 0, Fin 0, Fin 11, PInf] =
      [(Fin 0, Some (3, 0, - 1)), (Fin 0, Some (3, 1, - 1)), (Fin 0, Some (3, 2, - 1)), (Fin 1, Some (3, 2, 2)), (Fin 32, Some (3, 3, 3))]"
    by (simp add: dp_eval)
  have r5: "dp_row (Fin 40) ?r (Fin 20) (Suc (Suc (Suc (Suc (Suc 0))))) [Fin 0, Fin 0, Fin 0, Fin 1, Fin 32] =
      [(Fin 0, Some (4, 0, - 1)), (Fin 0, Some (4, 1, - 1)), (Fin 0, Some (4, 2, - 1)), (Fin 1, Some (4, 3, - 1)), (Fin 12, Some (4, 3, 3))]"
    by (simp add: dp_eval)
  have r6: "dp_row (Fin 50) ?r (Fin 20) (Suc (Suc (Suc (Suc (Suc (Suc 0)))))) [Fin 0, Fin 0, Fin 0, Fin 1, Fin 12] =
      [(Fin 0, Some (5, 0, - 1)), (Fin 0, Some (5, 1, - 1)), (Fin 0, Some (5, 2, - 1)), (Fin 1, Some (5, 3, - 1)), (Fin 2, Some (5, 3, 3))]"
    by (simp add: dp_eval)
  have r7: "dp_row (Fin 60) ?r (Fin 20) (Suc (Suc (Suc (Suc (Suc (Suc (Suc 0))))))) [Fin 0, Fin 0, Fin 0, Fin 1, Fin 2] =
      [(Fin 0, Some (6, 0, - 1)), (Fin 0, Some (6, 1, - 1)), (Fin 0, Some (6, 2, - 1)), (Fin 1, Some (6, 3, - 1)), (Fin 2, Some (6, 4, - 1))]"
    by (simp add: dp_eval)
  show ?thesis
    using r1 r2 r3 r4 r5 r6 r7
    by (simp add: match_sent_reply_dp_def dp_table_def dp_row0_def Let_def dp_backtrack_step dp_backtrack_end)
qed

lemma dp_example4:
  "match_sent_reply_dp (map Fin [1, 2, 3, 4]) (map Fin [2, 4]) (Fin 0) =
    Some [None, Some 0, None, Some 1]"
proof -
  let ?r = "map Fin [2, 4]"
  have r1: "dp_row (Fin 1) ?r (Fin 0) (Suc 0) [Fin 0, PInf, PInf] =
      [(Fin 0, Some (0, 0, - 1)), (Fin 1, Some (0, 0, 0)), (PInf, None)]"
    by (simp add: dp_eval)
  have r2: "dp_row (Fin 2) ?r (Fin 0) (Suc (Suc 0)) [Fin 0, Fin 1, PInf] =
      [(Fin 0, Some (1, 0, - 1)), (Fin 0, Some (1, 0, 0)), (Fin 3, Some (1, 1, 1))]"
    by (simp add: dp_eval)
  have r3: "dp_row (Fin 3) ?r (Fin 0) (Suc (Suc (Suc 0))) [Fin 0, Fin 0, Fin 3] =
      [(Fin 0, Some (2, 0, - 1)), (Fin 0, Some (2, 1, - 1)), (Fin 1, Some (2, 1, 1))]"
    by (simp add: dp_eval)
  have r4: "dp_row (Fin 4) ?r (Fin 0) (Suc (Suc (Suc (Suc 0)))) [Fin 0, Fin 0, Fin 1] =
      [(Fin 0, Some (3, 0, - 1)), (Fin 0, Some (3, 1, - 1)), (Fin 0, Some (3, 1, 1))]"
    by (simp add: dp_eval)
  show ?thesis
    using r1 r2 r3 r4
    by (simp add: match_sent_reply_dp_def dp_table_def dp_row0_def Let_def dp_backtrack_step dp_backtrack_end)
qed

lemma test_dp_passes: "test_match_sent_reply_dp_all_examples = Some ()"
  unfolding test_match_sent_reply_dp_all_examples_def dp_example1 dp_example2 dp_example3 dp_example4 by simp

lemma test_conn_id_passes: "test_conn_id = Some ()"
  by code_simp

lemma test_conn_passes: "test_conn ks now new_now = Some ()"
  by (cases ks) (simp add: test_conn_def conn_new_def from_std_addr_def to_nix_addr_def is_handshaked_def set_handshaked_def
      touch_def is_idle_def IDLE_TIMEOUT_def from_secs_def)

lemma after_secs_eq:
  assumes "n < 1000000000000" and "start_time + int n < INSTANT_LIMIT"
  shows "after_secs start_time (of_nat n / 1000000000) = Some (start_time + int n)"
proof -
  have "(of_nat n :: rat) < of_nat 1000000000000" using assms(1) by (simp only: of_nat_less_iff)
  then have "of_nat n / 1000000000 < (2 ^ 10 :: rat)" by simp
  from from_secs_f64_near [OF this] assms(2) show ?thesis by (simp add: after_secs_def instant_add_def)
qed

lemma timeouts_within:
  assumes "smoothed_interval q = s" and "870000 \<le> s" and "s \<le> 300000000" and "flowlet_interval_factor q = Fin 2" and "flowlet_end_factor q = Fin 2"
  shows "\<exists>t. flowlet_timeout q = Some t \<and> t \<le> 600000001"
    and "\<exists>e. flowlet_end_timeout 949856000 q = Some (949856000 + e) \<and> 1000 \<le> e \<and> e \<le> 1200000010"
proof -
  obtain t where t: "mul_f64 s (Fin 2) = Some t" "s * 2 < (t + 1) * 1" "t * 1 < s * 2 + 1"
    using mul_f64_within [of s 2 2 1] assms by (auto simp: from_secs_def)
  obtain e where e: "mul_f64 t (Fin 2) = Some e" "t * 2 < (e + 1) * 1" "e * 1 < t * 2 + 1"
    using mul_f64_within [of t 2 2 1] t assms by (auto simp: from_secs_def)
  show "\<exists>t. flowlet_timeout q = Some t \<and> t \<le> 600000001" using t assms by (simp add: flowlet_timeout_def)
  show "\<exists>e. flowlet_end_timeout 949856000 q = Some (949856000 + e) \<and> 1000 \<le> e \<and> e \<le> 1200000010"
    using t e assms by (intro exI [of _ e]) (simp add: flowlet_end_timeout_def flowlet_timeout_def dur_add_def DURATION_MAX_def)
qed

text \<open>The queue of the test after the first packet and its reply.\<close>

definition replied_queue :: "instant \<Rightarrow> instant \<Rightarrow> bytes \<Rightarrow> duration \<Rightarrow> packet_queue" where
  "replied_queue clock start_time pl s1 = (queue_new clock)\<lparr>last_packet_time := start_time + 50246223, smoothed_interval := s1, processed := 1,
     flowlets := [add_reply (start_time + 1000101724) 1 (flowlet_new 1 (start_time + 50246223))],
     packets := [new_packet 1 (start_time + 50246223) (Some pl)], reply_nums := 1\<rparr>"

lemma first_exchange:
  assumes t: "clock \<le> start_time" "start_time \<le> clock + 1000000000" "0 \<le> clock" and lim: "start_time + 10000000000 < INSTANT_LIMIT"
  shows "\<exists>s1 q1. 870000 \<le> s1 \<and> s1 \<le> 133000000 \<and>
    queue_add (start_time + 50246223) (Some pl) 949856000 (queue_new clock) = Some ((1, True), q1) \<and>
    flowlets q1 = [flowlet_new 1 (start_time + 50246223)] \<and>
    check_reply (start_time + 1000101724) 1 949856000 q1 = Some (Some [], replied_queue clock start_time pl s1)"
proof -
  let ?q0 = "queue_new clock" and ?t1 = "start_time + 50246223" and ?r1 = "start_time + 1000101724"
  have "duration_since ?t1 (last_packet_time ?q0) \<le> 1050246223" "smoothed_interval ?q0 = 1000000"
    using t by (simp_all add: queue_new_def duration_since_def from_millis_def)
  then obtain s1 where s1: "record_packet_interval ?t1 ?q0 = Some (?q0\<lparr>last_packet_time := ?t1, smoothed_interval := s1\<rparr>)"
    "870000 \<le> s1" "s1 \<le> 133000000"
    using record_interval_within [of ?q0 ?t1] by (auto simp: from_secs_def)
  let ?fl1 = "flowlet_new 1 ?t1"
  let ?q1 = "?q0\<lparr>last_packet_time := ?t1, smoothed_interval := s1, processed := 1, flowlets := [?fl1], packets := [new_packet 1 ?t1 (Some pl)]\<rparr>"
  have add1: "queue_add ?t1 (Some pl) 949856000 ?q0 = Some ((1, True), ?q1)"
    by (simp add: queue_add_def s1(1) add_to_flowlet_def newest_ts_def WHEN_MEASURE_ELICITING_THRESHOLD_def Let_def) (simp add: queue_new_def)
  obtain e1 where e1: "flowlet_end_timeout 949856000 (?q1\<lparr>reply_nums := 1\<rparr>) = Some (949856000 + e1)" "1000 \<le> e1" "e1 \<le> 1200000010"
    using timeouts_within(2) [of "?q1\<lparr>reply_nums := 1\<rparr>" s1] s1 by (auto simp: queue_new_def)
  have "check_reply ?r1 1 949856000 ?q1 = Some (Some [], ?q1\<lparr>reply_nums := 1, flowlets := [add_reply ?r1 1 ?fl1]\<rparr>)"
    using e1 lim t
    by (simp add: check_reply_def Let_def instant_add_def instant_sub_def dur_sub_def flowlet_new_def queue_new_def add_reply_def
        FLOWLET_MAX_PKTS_def complete_flowlets.simps is_complete_def INSTANT_LIMIT_def)
  then have "check_reply ?r1 1 949856000 ?q1 = Some (Some [], replied_queue clock start_time pl s1)"
    by (simp add: replied_queue_def)
  moreover have "flowlets ?q1 = [?fl1]" by simp
  ultimately show ?thesis using add1 s1(2,3) by blast
qed

text \<open>The second packet begins a flowlet, and the second reply is attributed without a panic.\<close>

lemma second_exchange:
  assumes s1: "870000 \<le> s1" "s1 \<le> 133000000" and t: "0 \<le> start_time" and lim: "start_time + 10000000000 < INSTANT_LIMIT"
  shows "\<exists>q3. queue_add (start_time + 1050441748) (Some pl) 949856000 (replied_queue clock start_time pl s1) = Some ((2, True), q3) \<and>
    flowlets q3 = [add_reply (start_time + 1000101724) 1 (flowlet_new 1 (start_time + 50246223)), flowlet_new 2 (start_time + 1050441748)] \<and>
    check_reply (start_time + 1052968357) 2 949856000 q3 \<noteq> None"
proof -
  let ?t1 = "start_time + 50246223" and ?t2 = "start_time + 1050441748" and ?r2 = "start_time + 1052968357"
    and ?q2 = "replied_queue clock start_time pl s1"
  let ?fl1 = "add_reply (start_time + 1000101724) 1 (flowlet_new 1 ?t1)" and ?fl2 = "flowlet_new 2 ?t2"
  have "duration_since ?t2 (last_packet_time ?q2) = 1000195525" "smoothed_interval ?q2 = s1"
    by (simp_all add: duration_since_def replied_queue_def)
  then obtain s2 where s2: "record_packet_interval ?t2 ?q2 = Some (?q2\<lparr>last_packet_time := ?t2, smoothed_interval := s2\<rparr>)"
    "870000 \<le> s2" "s2 \<le> 300000000"
    using record_interval_within [of ?q2 ?t2] s1 by (auto simp: from_secs_def)
  let ?q2' = "?q2\<lparr>last_packet_time := ?t2, smoothed_interval := s2, processed := 2\<rparr>"
  let ?q3 = "?q2'\<lparr>flowlets := [?fl1, ?fl2], packets := [new_packet 1 ?t1 (Some pl), new_packet 2 ?t2 (Some pl)]\<rparr>"
  obtain t2 where t2: "flowlet_timeout ?q2' = Some t2" "t2 \<le> 600000001"
    using timeouts_within(1) [of ?q2' s2] s2 by (auto simp: queue_new_def replied_queue_def)
  have add2: "queue_add ?t2 (Some pl) 949856000 ?q2 = Some ((2, True), ?q3)"
    using s2(1) t2
    by (simp add: queue_add_def add_to_flowlet_def newest_ts_def WHEN_MEASURE_ELICITING_THRESHOLD_def new_packet_def duration_since_def Let_def
        replied_queue_def queue_new_def numeral_2_eq_2)
  obtain e2 where e2: "flowlet_end_timeout 949856000 (?q3\<lparr>reply_nums := 2\<rparr>) = Some (949856000 + e2)" "1000 \<le> e2" "e2 \<le> 1200000010"
    using timeouts_within(2) [of "?q3\<lparr>reply_nums := 2\<rparr>" s2] s2 by (auto simp: queue_new_def replied_queue_def)
  have rep2: "check_reply ?r2 2 949856000 ?q3 \<noteq> None"
    using e2 lim t
    by (simp add: check_reply_def Let_def instant_add_def instant_sub_def dur_sub_def flowlet_new_def queue_new_def replied_queue_def add_reply_def
        duration_since_def DURATION_MAX_def INSTANT_LIMIT_def insert_reply_def complete_flowlets.simps is_complete_def numeral_2_eq_2)
  show ?thesis by (rule exI [of _ ?q3], intro conjI, rule add2, simp, rule rep2)
qed

lemma test_reply_to_right_flowlet_passes:
  assumes dec: "decodes_hex hex_decode" and t: "clock \<le> start_time" "start_time \<le> clock + 1000000000" "0 \<le> clock"
    and lim: "start_time + int (from_secs 10) < INSTANT_LIMIT"
  shows "test_reply_to_right_flowlet hex_decode clock start_time = Some ()"
proof -
  have lim': "start_time + 10000000000 < INSTANT_LIMIT" using lim by (simp add: from_secs_def)
  then have times: "after_secs start_time (50246223 / 1000000000) = Some (start_time + 50246223)"
    "after_secs start_time (1000101724 / 1000000000) = Some (start_time + 1000101724)"
    "after_secs start_time (1050441748 / 1000000000) = Some (start_time + 1050441748)"
    "after_secs start_time (1052968357 / 1000000000) = Some (start_time + 1052968357)"
    using after_secs_eq [of 50246223 start_time] after_secs_eq [of 1000101724 start_time]
      after_secs_eq [of 1050441748 start_time] after_secs_eq [of 1052968357 start_time] by simp_all
  have "hex_string [0xf0, 0, 0, 0, 1, 0x14, 0xfb, 0x6d, 0x58, 0xd1, 0x57, 0x19, 0x7c, 0x28, 0x7b, 0] = ''f00000000114fb6d58d157197c287b00''"
    by code_simp
  with dec obtain pl where pl: "hex_decode ''f00000000114fb6d58d157197c287b00'' = Some pl" by (metis decodes_hex_def)
  from first_exchange [OF t lim', of pl] obtain s1 q1 where s1: "870000 \<le> s1" "s1 \<le> 133000000"
    and e1: "queue_add (start_time + 50246223) (Some pl) 949856000 (queue_new clock) = Some ((1, True), q1)"
      "flowlets q1 = [flowlet_new 1 (start_time + 50246223)]"
      "check_reply (start_time + 1000101724) 1 949856000 q1 = Some (Some [], replied_queue clock start_time pl s1)" by blast
  from t have "0 \<le> start_time" by simp
  note e2 = second_exchange [OF s1 this lim', of pl clock]
  have fl: "flowlets (replied_queue clock start_time pl s1) = [add_reply (start_time + 1000101724) 1 (flowlet_new 1 (start_time + 50246223))]"
    "pkt_nums (flowlet_new n x) = [n]" "length (reply_pkt_times (add_reply y 1 (flowlet_new n x))) = 1" "\<not> is_complete (add_reply y 1 (flowlet_new n x))"
    for n x y by (simp_all add: replied_queue_def flowlet_new_def add_reply_def is_complete_def)
  have rtt: "from_micros 949856 = 949856000" by (simp add: from_micros_def)
  show ?thesis
    using e2 unfolding test_reply_to_right_flowlet_def Let_def rtt times pl Option.bind.bind_lunit
    by (auto simp: e1 fl simp del: One_nat_def)
qed

text \<open>
  The test of \<open>timeout\<close> depends on the time it takes itself: it passes if and only if the second reading of the clock is later than
  the first, by less than a hundred microseconds.
\<close>

lemma add_test_conn_eq:
  "\<exists>c. conn_new ks now (fst (genarate_addrs seed)) (snd (genarate_addrs seed)) = Some c \<and> last_access c = now \<and> client_rtt c = 0 \<and>
    add_test_conn ks seed now p =
      Some (new_conn (conn_id_new (fst (genarate_addrs seed)) (snd (genarate_addrs seed))) c now p)"
  by (cases ks) (simp add: conn_new_def genarate_addrs_def from_std_addr_def to_nix_addr_def add_test_conn_def from_secs_def)

lemma test_timeout_passes_iff: "test_timeout ks clock t1 now t2 = Some () \<longleftrightarrow> now < t2 \<and> t2 < now + 100000"
proof -
  obtain c where c: "client_rtt c = 0"
    "add_test_conn ks 0 now (pemi_new clock) = Some (new_conn (conn_id_new (fst (genarate_addrs 0)) (snd (genarate_addrs 0))) c now (pemi_new clock))"
    using add_test_conn_eq [of ks now 0 "pemi_new clock"] by blast
  have "pemi_timeout t1 (pemi_new clock) = Some None" by (simp add: pemi_timeout_def pemi_new_def heap_peek_def)
  moreover have "pemi_timeout t2 (new_conn k c now (pemi_new clock)) = Some (Some (120000000000 - duration_since t2 now))" for k
    using c(1)
    by (simp add: pemi_timeout_def pemi_new_def new_conn_def put_conn_def heap_peek_def heap_push_def conn_timeout_def conn_set_factors_def
        min_duration_def List.map_filter_def IDLE_TIMEOUT_def from_secs_def DURATION_MAX_def Let_def min_def)
  ultimately show ?thesis
    by (auto simp: test_timeout_def c(2) IDLE_TIMEOUT_def from_secs_def from_micros_def dur_sub_def duration_since_def Let_def)
qed

lemma test_new_conn_passes: "test_new_conn ks clock now = Some ()"
  using add_test_conn_eq [of ks now 0 "pemi_new clock"]
  by (auto simp: test_new_conn_def assert_conns_def pemi_new_def new_conn_def put_conn_def heap_push_def Let_def)

lemma test_remove_idle_conns_passes:
  assumes "start + int IDLE_TIMEOUT < INSTANT_LIMIT"
  shows "test_remove_idle_conns ks ks' clock start = Some ()"
proof -
  let ?k = "conn_id_new (fst (genarate_addrs 0)) (snd (genarate_addrs 0))"
    and ?k' = "conn_id_new (fst (genarate_addrs 1)) (snd (genarate_addrs 1))" and ?t = "start + 60000000000"
  have k: "?k \<noteq> ?k'" by code_simp
  obtain c where c: "last_access c = start" "add_test_conn ks 0 start (pemi_new clock) = Some (new_conn ?k c start (pemi_new clock))"
    using add_test_conn_eq [of ks start 0 "pemi_new clock"] by blast
  let ?p = "new_conn ?k c start (pemi_new clock)"
  have keep: "remove_idle_conns start ?p = Some ?p"
    by (simp add: remove_idle_conns_def remove_idle_loop.simps pemi_new_def new_conn_def put_conn_def heap_peek_def heap_push_def
        may_be_idle_def IDLE_TIMEOUT_def from_secs_def Let_def)
  obtain c' where c': "last_access c' = ?t" "add_test_conn ks' 1 ?t ?p = Some (new_conn ?k' c' ?t ?p)"
    using add_test_conn_eq [of ks' ?t 1 ?p] by blast
  have gone: "\<exists>q. remove_idle_conns (start + 120000000000) (new_conn ?k' c' ?t ?p) = Some q \<and> assert_conns 1 q = Some ()"
    using k c(1)
    by (simp add: assert_conns_def remove_idle_conns_def remove_idle_loop.simps pemi_new_def new_conn_def put_conn_def heap_peek_def heap_push_def heap_pop_def
        may_be_idle_def is_idle_def conn_set_factors_def IDLE_TIMEOUT_def from_secs_def duration_since_def Let_def)
  have times: "instant_add start (from_secs 60) = Some ?t" "instant_add start IDLE_TIMEOUT = Some (start + 120000000000)"
    using assms by (simp_all add: instant_add_def from_secs_def IDLE_TIMEOUT_def)
  have n: "assert_conns 1 ?p = Some ()" "assert_conns 2 (new_conn ?k' c' ?t ?p) = Some ()"
    using k by (simp_all add: assert_conns_def pemi_new_def new_conn_def put_conn_def heap_push_def Let_def)
  show ?thesis
    unfolding test_remove_idle_conns_def Let_def
    using gone by (auto simp: c(2) n keep times c'(2) simp del: One_nat_def)
qed

end
