(* ===== verification/Test_Suite.thy ===== *)
theory Test_Suite
  imports Octets_Tests Minmax_Tests Middlebox_Tests
begin

text \<open>
  The unit tests of the repository, all of them, run on the model.
\<close>

definition octets_tests :: "bool list" where
  "octets_tests = [test_get_u, test_get_u_mut, test_peek_u, test_peek_u_mut, test_get_bytes, test_get_bytes_mut, test_peek_bytes,
     test_peek_bytes_mut, test_get_varint, test_get_varint_mut, test_put_varint, test_varint_too_large, test_put_u, test_put_bytes,
     test_split, test_split_at, test_slice, test_slice_mut, test_slice_last, test_slice_last_mut]"

definition minmax_tests :: "instant \<Rightarrow> instant \<Rightarrow> bool list" where
  "minmax_tests clock now = map (\<lambda>t. t clock now)
     [test_reset_filter_rtt, test_reset_filter_bandwidth, test_get_windowed_min_rtt, test_get_windowed_min_bandwidth,
      test_get_windowed_max_rtt, test_get_windowed_max_bandwidth, test_get_windowed_min_estimates_rtt,
      test_get_windowed_min_estimates_bandwidth, test_get_windowed_max_estimates_rtt, test_get_windowed_max_estimates_bandwidth]"

text \<open>All tests of \<open>quic_parse.rs\<close>, \<open>queue.rs\<close>, \<open>conn.rs\<close> and \<open>lib.rs\<close> but \<open>test_timeout\<close>.\<close>

definition pemi_tests :: "(string \<Rightarrow> bytes option) \<Rightarrow> new_clocks \<Rightarrow> new_clocks \<Rightarrow> instant \<Rightarrow> instant \<Rightarrow> unit option list" where
  "pemi_tests hex_decode ks ks' clock now =
     [test_initial hex_decode, test_handshake hex_decode, test_flowlet now, test_reply_to_right_flowlet hex_decode clock now,
      test_match_sent_reply_dp_all_examples, test_conn_id, test_conn ks clock now, test_new_conn ks clock now,
      test_remove_idle_conns ks ks' clock now]"

lemma octets_tests_pass: "b \<in> set octets_tests \<Longrightarrow> b"
  by (auto simp: octets_tests_def test_get_u_passes test_get_u_mut_passes test_peek_u_passes test_peek_u_mut_passes test_get_bytes_passes
      test_get_bytes_mut_passes test_peek_bytes_passes test_peek_bytes_mut_passes test_get_varint_passes test_get_varint_mut_passes
      test_put_varint_passes test_varint_too_large_passes test_put_u_passes test_put_bytes_passes test_split_passes test_split_at_passes
      test_slice_passes test_slice_mut_passes test_slice_last_passes test_slice_last_mut_passes)

section \<open>Properties\<close>

text \<open>
  Every unit test of the repository passes on the model when its two readings of the clock are at most a second
  apart and not within 1000 seconds of the end of time; the test of \<open>timeout\<close> is the exception: it
  passes if and only if its own run takes some time, and less than a hundred microseconds of it.
\<close>

theorem test_suite_passes:
  assumes "decodes_hex hex_decode" and "0 \<le> clock" and "clock \<le> now" and "now \<le> clock + int (from_secs 1)"
    and "now + int (from_secs 1000) < INSTANT_LIMIT"
  shows "(\<forall>b \<in> set octets_tests. b) \<and> (\<forall>b \<in> set (minmax_tests clock now). b) \<and>
    (\<forall>r \<in> set (pemi_tests hex_decode ks ks' clock now). r = Some ()) \<and>
    (test_timeout ks clock clock now t = Some () \<longleftrightarrow> now < t \<and> t < now + 100000)"
proof -
  have lim: "now + int (from_secs 6) < INSTANT_LIMIT" "now + int (from_secs 10) < INSTANT_LIMIT" "now + int IDLE_TIMEOUT < INSTANT_LIMIT"
    and near: "now \<le> clock + 1000000000" using assms(4,5) by (simp_all add: from_secs_def IDLE_TIMEOUT_def)
  have "\<forall>b \<in> set (minmax_tests clock now). b" using minmax_tests_pass [OF lim(1), of clock] by (simp add: minmax_tests_def)
  moreover have "\<forall>r \<in> set (pemi_tests hex_decode ks ks' clock now). r = Some ()"
    using test_initial_passes [OF assms(1)] test_handshake_passes [OF assms(1)] test_flowlet_passes
      test_reply_to_right_flowlet_passes [OF assms(1,3) near assms(2) lim(2)] test_dp_passes test_conn_id_passes test_conn_passes
      test_new_conn_passes test_remove_idle_conns_passes [OF lim(3)]
    by (simp add: pemi_tests_def)
  ultimately show ?thesis using octets_tests_pass test_timeout_passes_iff by blast
qed

theorem test_suite_passes_witness:
  "pemi_tests unhex (0, 0, 0, 0) (1, 1, 1, 1) 0 1 = replicate 9 (Some ())"
proof (rule replicate_eqI)
  show "length (pemi_tests unhex (0, 0, 0, 0) (1, 1, 1, 1) 0 1) = 9" by (simp add: pemi_tests_def)
  show "r = Some ()" if "r \<in> set (pemi_tests unhex (0, 0, 0, 0) (1, 1, 1, 1) 0 1)" for r
    using test_suite_passes [OF decodes_hex_unhex, of 0 1 "(0, 0, 0, 0)" "(1, 1, 1, 1)"] that by (simp add: INSTANT_LIMIT_def from_secs_def)
qed

end
