(* ===== verification/Icmp.thy ===== *)
theory Icmp
  imports Rtt_Det Octets
begin

text \<open>
  The ICMP socket of \<open>pemi/src/rtt_det.rs\<close>: setting it up, the bytes of a request and of a reply in their buffers of 64
  bytes. The codec of the library \<open>pnet\<close> is a parameter: \<open>icmp_type\<close> is \<open>IcmpPacket::new\<close> with \<open>get_icmp_type\<close>, \<open>echo_reply\<close> is
  \<open>EchoReplyPacket::new\<close> with the identifier and the sequence number, \<open>put_echo\<close> is \<open>MutableEchoRequestPacket::new\<close> with
  the five setters. \<open>recv_raw\<close> is shown to be \<open>recv_response\<close> on what the codec finds in the buffer, which is the
  input the event loop is modelled with.
\<close>

section \<open>Model\<close>

record icmp_codec =
  icmp_type :: "bytes \<Rightarrow> u8 option"
  echo_reply :: "bytes \<Rightarrow> (u16 \<times> u16) option"
  put_echo :: "u16 \<Rightarrow> u16 \<Rightarrow> bytes \<Rightarrow> bytes option"

definition ICMP_ECHO_REPLY :: u8 where
  "ICMP_ECHO_REPLY = 0"

text \<open>The results of the calls that set up the socket and the copy of its descriptor for \<open>tokio\<close>.\<close>

record icmp_setup =
  socket_created :: bool
  bound :: bool
  ttl_set :: bool
  nonblocking_set :: bool
  fd_duplicated :: bool
  tokio_socket_made :: bool

record icmp_detector =
  det :: rtt_detector
  send_buf :: bytes
  recv_buf :: bytes

definition init_icmp_socket :: "icmp_setup \<Rightarrow> unit option" where
  "init_icmp_socket io = do {
     rust_assert (socket_created io);
     rust_assert (bound io);
     rust_assert (ttl_set io);
     rust_assert (nonblocking_set io) }"

definition icmp_detector_new :: "icmp_setup \<Rightarrow> instant \<Rightarrow> icmp_detector option" where
  "icmp_detector_new io clock = do {
     init_icmp_socket io;
     rust_assert (fd_duplicated io);
     rust_assert (tokio_socket_made io);
     Some \<lparr>det = detector_new clock, send_buf = replicate 64 0, recv_buf = replicate 64 0\<rparr> }"

text \<open>A failing \<open>send_to\<close> panics, after the request was noted. The result are the bytes that are sent.\<close>

definition send_raw :: "icmp_codec \<Rightarrow> bool \<Rightarrow> instant \<Rightarrow> socket_addr \<Rightarrow> icmp_detector \<Rightarrow> (bytes \<times> icmp_detector) option" where
  "send_raw codec sent now dest d = (let (echo, d') = send_request now dest (det d) in do {
     buf \<leftarrow> put_echo codec (echo_id echo) (echo_seq echo) (send_buf d);
     rust_assert sent;
     Some (buf, d\<lparr>det := d', send_buf := buf\<rparr>) })"

text \<open>
  What \<open>recv_from\<close> returns: an error, or the bytes of a packet and its source, which may be no socket address. The packet is
  cut off at the size of the buffer; the rest of the buffer keeps what was there.
\<close>

datatype icmp_recv = RecvWouldBlock | RecvError | Received bytes "socket_addr option"

definition fill_buf :: "bytes \<Rightarrow> bytes \<Rightarrow> nat \<times> bytes" where
  "fill_buf data buf = (let size = min (length data) (length buf) in (size, take size data @ drop size buf))"

text \<open>
  \<open>ttl\<close> is the result of \<open>socket.ttl()\<close> when the log line that asks for it is enabled; its error is returned.
\<close>

fun recv_raw :: "icmp_codec \<Rightarrow> bool \<Rightarrow> instant \<Rightarrow> icmp_recv \<Rightarrow> (icmp_detector, io_error, duration) meth" where
  "recv_raw codec ttl now RecvWouldBlock d = (Err WouldBlock, d)"
| "recv_raw codec ttl now RecvError d = (Err RecvFailed, d)"
| "recv_raw codec ttl now (Received data src) d =
     (let (size, buf) = fill_buf data (recv_buf d); d1 = d\<lparr>recv_buf := buf\<rparr> in
      case src of
        None \<Rightarrow> (Panic, d1)
      | Some server_addr \<Rightarrow> (case icmp_type codec (take size buf) of
          None \<Rightarrow> (Err InvalidData, d1)
        | Some ty \<Rightarrow>
            if ty \<noteq> ICMP_ECHO_REPLY then (Err InvalidData, d1)
            else (case echo_reply codec buf of
                None \<Rightarrow> (Err InvalidData, d1)
              | Some (_, seq) \<Rightarrow> (case sent_requests (det d1) (socket_ip server_addr) of
                  None \<Rightarrow> (Panic, d1)
                | Some r \<Rightarrow> (case ip_recv_response seq r of (sent, r') \<Rightarrow>
                    let d2 = d1\<lparr>det := (det d1)\<lparr>sent_requests := (sent_requests (det d1))(socket_ip server_addr \<mapsto> r')\<rparr>\<rparr> in
                    case sent of
                      None \<Rightarrow> (Panic, d2)
                    | Some t \<Rightarrow> (if ttl then Ok (duration_since now t) else Err RecvFailed, d2))))))"

definition wait_readable :: "bool \<Rightarrow> (io_error, unit) outcome" where
  "wait_readable readable = (if readable then Ok () else Err RecvFailed)"

section \<open>The socket refines the input of the event loop\<close>

text \<open>What the codec makes of a packet in the buffer.\<close>

fun icmp_input_of :: "icmp_codec \<Rightarrow> icmp_recv \<Rightarrow> bytes \<Rightarrow> icmp_input" where
  "icmp_input_of codec RecvWouldBlock buf = SocketWouldBlock"
| "icmp_input_of codec RecvError buf = SocketError"
| "icmp_input_of codec (Received data src) buf0 = (let (size, buf) = fill_buf data buf0 in
     case icmp_type codec (take size buf) of
       None \<Rightarrow> NotIcmp
     | Some ty \<Rightarrow> if ty \<noteq> ICMP_ECHO_REPLY then OtherIcmp
         else (case echo_reply codec buf of None \<Rightarrow> NotIcmp | Some (_, seq) \<Rightarrow> EchoReply (the src) seq))"

lemma recv_raw_refines:
  assumes "\<And>data. r \<noteq> Received data None"
  shows "(case recv_raw codec True now r d of (x, d') \<Rightarrow> (x, det d')) = recv_response now (icmp_input_of codec r (recv_buf d)) (det d)"
proof (cases r)
  case (Received data src)
  with assms obtain a where "src = Some a" by (cases src) auto
  with Received show ?thesis
    by (auto simp: Let_def split: prod.splits option.splits)
qed simp_all

section \<open>Requests and replies in bytes\<close>

text \<open>
  The layout of the messages that \<open>pnet\<close> documents: an ICMP header of four bytes that begins with the type, and behind it two
  bytes each for the identifier and the sequence number of an echo message.
\<close>

definition pnet_layout :: "icmp_codec \<Rightarrow> bool" where
  "pnet_layout codec \<longleftrightarrow>
     (\<forall>b. icmp_type codec b = (if length b < 4 then None else Some (b ! 0))) \<and>
     (\<forall>b. echo_reply codec b = (if length b < 8 then None else
        Some (of_nat (be_val (take 2 (drop 4 b))), of_nat (be_val (take 2 (drop 6 b)))))) \<and>
     (\<forall>i s b. length b < 8 \<longrightarrow> put_echo codec i s b = None) \<and>
     (\<forall>i s b. 8 \<le> length b \<longrightarrow> (\<exists>sum. length sum = 2 \<and>
        put_echo codec i s b = Some ([8, 0] @ sum @ be_bytes 2 (unat i) @ be_bytes 2 (unat s) @ drop 8 b)))"

text \<open>A host answers a request with a packet of type 0 that keeps the rest.\<close>

definition echoes :: "bytes \<Rightarrow> bytes \<Rightarrow> bool" where
  "echoes req reply \<longleftrightarrow> length reply = length req \<and> reply ! 0 = ICMP_ECHO_REPLY \<and> drop 4 reply = drop 4 req"

lemma echo_of_request:
  assumes layout: "pnet_layout codec" and put: "put_echo codec i s b = Some req" and echo: "echoes req reply"
  shows "icmp_type codec reply = Some ICMP_ECHO_REPLY \<and> echo_reply codec reply = Some (i, s) \<and> length reply = length b"
proof -
  from layout have laws: "length b < 8 \<Longrightarrow> put_echo codec i s b = None"
    "8 \<le> length b \<Longrightarrow> \<exists>sum. length sum = 2 \<and>
      put_echo codec i s b = Some ([8, 0] @ sum @ be_bytes 2 (unat i) @ be_bytes 2 (unat s) @ drop 8 b)"
    unfolding pnet_layout_def by blast+
  from laws(1) put have len: "8 \<le> length b" by (cases "length b < 8") simp_all
  from laws(2) [OF this] put obtain sum where sum: "length sum = 2"
    and req: "req = [8, 0] @ sum @ be_bytes 2 (unat i) @ be_bytes 2 (unat s) @ drop 8 b" by auto
  have "drop 4 req = be_bytes 2 (unat i) @ be_bytes 2 (unat s) @ drop 8 b" using sum by (simp add: req del: be_bytes.simps)
  then have d4: "drop 4 reply = be_bytes 2 (unat i) @ be_bytes 2 (unat s) @ drop 8 b" using echo by (simp add: echoes_def)
  have "drop 6 reply = drop 2 (drop 4 reply)" by simp
  then have d6: "drop 6 reply = be_bytes 2 (unat s) @ drop 8 b" unfolding d4 by simp
  have lr: "length reply = length b" using echo sum len by (simp add: echoes_def req)
  have val: "(of_nat (be_val (be_bytes 2 (unat w))) :: u16) = w" for w :: u16
    using unsigned_less [of w, where 'a = nat] by (simp add: be_val_be_bytes)
  from layout have ty: "icmp_type codec reply = (if length reply < 4 then None else Some (reply ! 0))"
    and er: "echo_reply codec reply = (if length reply < 8 then None else
      Some (of_nat (be_val (take 2 (drop 4 reply))), of_nat (be_val (take 2 (drop 6 reply)))))"
    unfolding pnet_layout_def by blast+
  have "reply ! 0 = ICMP_ECHO_REPLY" using echo by (simp add: echoes_def)
  then show ?thesis unfolding ty er d4 d6 using len lr by (simp add: val del: be_bytes.simps)
qed

text \<open>The buffers keep their size, so the \<open>expect\<close> on the request never fails.\<close>

definition bufs_ok :: "icmp_detector \<Rightarrow> bool" where
  "bufs_ok d \<longleftrightarrow> length (send_buf d) = 64 \<and> length (recv_buf d) = 64"

lemma icmp_detector_new_ok: "icmp_detector_new io clock = Some d \<Longrightarrow> bufs_ok d \<and> det d = detector_new clock"
  by (auto simp: icmp_detector_new_def bind_eq_Some_conv bufs_ok_def)

lemma recv_raw_bufs: "bufs_ok d \<Longrightarrow> bufs_ok (snd (recv_raw codec ttl now r d))"
  by (cases r) (auto simp: bufs_ok_def fill_buf_def Let_def split: option.splits prod.splits)

lemma send_raw_total:
  assumes "pnet_layout codec" and "bufs_ok d"
  shows "\<exists>req d'. send_raw codec True now dest d = Some (req, d') \<and> bufs_ok d' \<and> length req = 64 \<and>
    det d' = snd (send_request now dest (det d)) \<and> recv_buf d' = recv_buf d \<and>
    put_echo codec (echo_id (fst (send_request now dest (det d)))) (echo_seq (fst (send_request now dest (det d)))) (send_buf d) = Some req"
proof -
  obtain e d' where e: "send_request now dest (det d) = (e, d')" by fastforce
  from assms obtain sum where "length sum = 2" "put_echo codec (echo_id e) (echo_seq e) (send_buf d) =
      Some ([8, 0] @ sum @ be_bytes 2 (unat (echo_id e)) @ be_bytes 2 (unat (echo_seq e)) @ drop 8 (send_buf d))"
    unfolding pnet_layout_def bufs_ok_def by (metis (no_types, lifting) numeral_le_iff semiring_norm(68,71))
  with assms(2) e show ?thesis by (simp add: send_raw_def bufs_ok_def del: be_bytes.simps)
qed

section \<open>Properties\<close>

text \<open>
  C28. The detector measures round trips through the bytes on the network: a request is always formed, and when the host it went
  to, or any socket of that host, echoes these bytes, the answer is the time between sending the request and
  receiving the reply, and the request is no longer outstanding. The library's codec enters with its documented layout.
\<close>

theorem icmp_echo_roundtrip:
  assumes "pnet_layout codec" and "bufs_ok d" and "socket_ip src = socket_ip dest"
  shows "\<exists>req d1. send_raw codec True now dest d = Some (req, d1) \<and> bufs_ok d1 \<and>
    (\<forall>reply. echoes req reply \<longrightarrow> (\<exists>d2 r. recv_raw codec True later (Received reply (Some src)) d1 = (Ok (duration_since later now), d2) \<and>
      bufs_ok d2 \<and> sent_requests (det d2) (socket_ip dest) = Some r \<and>
      requests r (echo_seq (fst (send_request now dest (det d)))) = None))"
proof -
  let ?e = "fst (send_request now dest (det d))"
  obtain req d1 where s: "send_raw codec True now dest d = Some (req, d1)" "bufs_ok d1" "length req = 64"
    "det d1 = snd (send_request now dest (det d))"
    "put_echo codec (echo_id ?e) (echo_seq ?e) (send_buf d) = Some req" using send_raw_total [OF assms(1,2)] by blast
  have "\<exists>d2 r. recv_raw codec True later (Received reply (Some src)) d1 = (Ok (duration_since later now), d2) \<and> bufs_ok d2 \<and>
      sent_requests (det d2) (socket_ip dest) = Some r \<and> requests r (echo_seq ?e) = None" if "echoes req reply" for reply
  proof -
    note r = echo_of_request [OF assms(1) s(5) that]
    have fill: "fill_buf reply (recv_buf d1) = (64, reply)" using s(2,3) that by (simp add: fill_buf_def bufs_ok_def echoes_def)
    have len: "take 64 reply = reply" "length reply = 64" using s(3) that by (simp_all add: echoes_def)
    show ?thesis
      using r s(2,4) assms(3) len
      by (auto simp: fill Let_def send_request_def ip_send_request_def ip_recv_response_def bufs_ok_def split: option.splits)
  qed
  with s(1,2) show ?thesis by blast
qed

text \<open>A codec with that layout.\<close>

definition plain_codec :: icmp_codec where
  "plain_codec = \<lparr>icmp_type = (\<lambda>b. if length b < 4 then None else Some (b ! 0)),
     echo_reply = (\<lambda>b. if length b < 8 then None else Some (of_nat (be_val (take 2 (drop 4 b))), of_nat (be_val (take 2 (drop 6 b))))),
     put_echo = (\<lambda>i s b. if length b < 8 then None
       else Some ([8, 0, 0, 0] @ be_bytes 2 (unat i) @ be_bytes 2 (unat s) @ drop 8 b))\<rparr>"

lemma plain_codec_layout: "pnet_layout plain_codec"
  by (auto simp: pnet_layout_def plain_codec_def intro!: exI [of _ "[0, 0]"])

theorem icmp_echo_roundtrip_witness:
  "\<exists>req d1 d2. send_raw plain_codec True 5 (V4 1 443) \<lparr>det = detector_new 0, send_buf = replicate 64 0, recv_buf = replicate 64 0\<rparr> = Some (req, d1) \<and>
    recv_raw plain_codec True 25 (Received (0 # tl req) (Some (V4 1 0))) d1 = (Ok 20, d2)"
proof -
  let ?d = "\<lparr>det = detector_new 0, send_buf = replicate 64 0, recv_buf = replicate 64 0\<rparr>"
  have "bufs_ok ?d" by (simp add: bufs_ok_def)
  moreover have "socket_ip (V4 1 0) = socket_ip (V4 1 443)" by simp
  moreover have "duration_since 25 5 = 20" by (simp add: duration_since_def)
  ultimately obtain req d1 where r: "send_raw plain_codec True 5 (V4 1 443) ?d = Some (req, d1)"
    "\<And>reply. echoes req reply \<Longrightarrow> \<exists>d2. recv_raw plain_codec True 25 (Received reply (Some (V4 1 0))) d1 = (Ok 20, d2)"
    using icmp_echo_roundtrip [OF plain_codec_layout, of ?d "V4 1 0" "V4 1 443" 5 25] by metis
  from r(1) have "req \<noteq> []" by (auto simp: send_raw_def send_request_def plain_codec_def Let_def)
  then have "echoes req (0 # tl req)" by (cases req) (simp_all add: echoes_def ICMP_ECHO_REPLY_def)
  with r show ?thesis by blast
qed

text \<open>
  The sequence number is read from the whole buffer, not from the part that was received: a reply that is cut off behind
  the type is taken for the reply before it, whose request is answered already, and the program panics.
\<close>

lemma truncated_reply_panics:
  assumes layout: "pnet_layout codec" and ok: "bufs_ok d" and ty: "recv_buf d ! 0 = ICMP_ECHO_REPLY"
    and short: "data = take 4 (recv_buf d)"
    and answered: "echo_reply codec (recv_buf d) = Some (i, s)" "sent_requests (det d) (socket_ip a) = Some r" "requests r s = None"
  shows "fst (recv_raw codec True now (Received data (Some a)) d) = Panic"
proof -
  have len: "length (recv_buf d) = 64" using ok by (simp add: bufs_ok_def)
  then have fill: "fill_buf data (recv_buf d) = (4, recv_buf d)" by (simp add: fill_buf_def short)
  have "icmp_type codec (take 4 (recv_buf d)) = Some ICMP_ECHO_REPLY" using layout ty len by (simp add: pnet_layout_def)
  then show ?thesis using answered by (simp add: fill Let_def ip_recv_response_def)
qed

end
