(* ===== verification/Pemi_Main.thy ===== *)
theory Pemi_Main
  imports Integrity Icmp Text_Output
begin

text \<open>
  The program of \<open>pemi/src/bin/main.rs\<close> from its command line: the arguments and their defaults, setting up the sockets, the
  state the loop starts with, and the loop until it ends. The result of \<open>main\<close> is an error text; \<open>Ok\<close> is the
  state of a program that is still running after the given events. What the system calls return is an argument, with the text of
  their errors.
\<close>

section \<open>Model\<close>

record args =
  arg_port :: u16
  arg_fl_inv_factor :: f64
  arg_fl_end_factor :: f64
  arg_print_interval :: nat
  arg_proxy_only :: bool

definition default_args :: args where
  "default_args = \<lparr>arg_port = 5000, arg_fl_inv_factor = Fin 2, arg_fl_end_factor = Fin (1 / 2), arg_print_interval = 1000,
     arg_proxy_only = False\<rparr>"

text \<open>The options, each with \<open>short, long\<close>: the short one is the first letter of the name.\<close>

definition option_names :: "string list" where
  "option_names = [''port'', ''fl_inv_factor'', ''fl_end_factor'', ''print_interval'', ''proxy_only'']"

definition short_options :: string where
  "short_options = map hd option_names"

text \<open>The errors of the calls, if any, in the order of the calls.\<close>

record start_io =
  bind_error :: "string option"
  reuse_addr_error :: "string option"
  transparent_error :: "string option"
  orig_dst_error :: "string option"
  nonblocking_error :: "string option"
  tokio_error :: "string option"

fun first_error :: "(string \<times> string option) list \<Rightarrow> string option" where
  "first_error [] = None"
| "first_error ((msg, None) # rs) = first_error rs"
| "first_error ((msg, Some e) # rs) = Some (msg @ '': '' @ e)"

definition listen :: "start_io \<Rightarrow> string option" where
  "listen io = first_error [
     (''error creating listening socket'', bind_error io),
     (''error setting SO_REUSEADDR'', reuse_addr_error io),
     (''error setting IP_TRANSPARENT'', transparent_error io),
     (''error setting IP_RECVORIGDSTADDR'', orig_dst_error io),
     (''error setting non-blocking mode'', nonblocking_error io),
     (''error converting to tokio socket'', tokio_error io)]"

definition main_start :: "args \<Rightarrow> start_io \<Rightarrow> icmp_setup \<Rightarrow> instant \<Rightarrow> (string, main_state) outcome" where
  "main_start a io sk clock = (case listen io of
       Some e \<Rightarrow> Err e
     | None \<Rightarrow> (case icmp_detector_new sk clock of
         None \<Rightarrow> Panic
       | Some _ \<Rightarrow> Ok (main_init clock (arg_fl_inv_factor a) (arg_fl_end_factor a) (arg_proxy_only a))))"

text \<open>The events of the loop, each with its readings of the clock and the time it is over.\<close>

type_synonym events = "(instant \<times> main_clocks \<times> wakeup) list"

fun main_loop :: "nat \<Rightarrow> events \<Rightarrow> main_state \<Rightarrow> (exit_reason, main_state) outcome" where
  "main_loop n [] st = Ok st"
| "main_loop n ((t, ks, w) # es) st = (case main_iter n ks w st of
       Ok st' \<Rightarrow> main_loop n es st'
     | Err e \<Rightarrow> Err e
     | Panic \<Rightarrow> Panic)"

text \<open>The texts of the errors that end the loop; \<open>recv_error\<close> is the text of the system's error.\<close>

fun exit_text :: "(string \<Rightarrow> string) \<Rightarrow> string \<Rightarrow> exit_reason \<Rightarrow> string" where
  "exit_text quoted recv_error ReceiveError = ''error receiving message: '' @ recv_error"
| "exit_text quoted recv_error ControlMessages = ''error getting control messages: '' @ recv_error"
| "exit_text quoted recv_error NoOriginalDst = ''no original destination address in message''"
| "exit_text quoted recv_error NoSource = ''no source address in message''"
| "exit_text quoted recv_error (PacketError e) = string_of_error quoted e"

definition main_program ::
    "(string \<Rightarrow> string) \<Rightarrow> string \<Rightarrow> args \<Rightarrow> start_io \<Rightarrow> icmp_setup \<Rightarrow> instant \<Rightarrow> events \<Rightarrow> (string, main_state) outcome" where
  "main_program quoted recv_error a io sk clock es = (case main_start a io sk clock of
       Err e \<Rightarrow> Err e
     | Panic \<Rightarrow> Panic
     | Ok st \<Rightarrow> (case main_loop (arg_print_interval a) es st of
         Ok st' \<Rightarrow> Ok st'
       | Err e \<Rightarrow> Err (exit_text quoted recv_error e)
       | Panic \<Rightarrow> Panic))"

section \<open>The loop is a run\<close>

text \<open>The clock of the events runs on from \<open>t\<close>; the time after the last one.\<close>

fun in_order :: "instant \<Rightarrow> events \<Rightarrow> bool" where
  "in_order t [] = True"
| "in_order t ((t', ks, w) # es) = (clocks_ok t t' ks \<and> in_order t' es)"

fun end_time :: "instant \<Rightarrow> events \<Rightarrow> instant" where
  "end_time t [] = t"
| "end_time t ((t', ks, w) # es) = end_time t' es"

definition arrivals :: "events \<Rightarrow> datagram list" where
  "arrivals es = concat (map (\<lambda>(t, ks, w). received w) es)"

lemma main_loop_run:
  assumes "main_run n t rx st" and "in_order t es" and "main_loop n es st = Ok st'"
  shows "\<exists>rx'. main_run n (end_time t es) (rx @ rx') st' \<and> set rx' \<subseteq> set (arrivals es)"
  using assms
proof (induction es arbitrary: t rx st)
  case Nil
  then show ?case by (intro exI [of _ "[]"]) simp
next
  case (Cons e es)
  obtain t' ks w where e: "e = (t', ks, w)" by (cases e)
  from Cons.prems e obtain st1 where st1: "main_iter n ks w st = Ok st1" "main_loop n es st1 = Ok st'" by (auto split: outcome.splits)
  have "main_run n t' (rx @ iter_input ks w st) st1" using Cons.prems e st1 by (auto intro: main_run.iter)
  from Cons.IH [OF this _ st1(2)] Cons.prems(2) e obtain rx' where
    rx': "main_run n (end_time t' es) ((rx @ iter_input ks w st) @ rx') st'" "set rx' \<subseteq> set (arrivals es)" by auto
  have "set (iter_input ks w st) \<subseteq> set (received w)" by (simp add: iter_input_def)
  with rx' e show ?case by (intro exI [of _ "iter_input ks w st @ rx'"]) (auto simp: arrivals_def)
qed

lemma main_program_run:
  assumes "main_program quoted re a io sk clock es = Ok st" and "sane_factor (arg_fl_inv_factor a)" and "sane_factor (arg_fl_end_factor a)"
    and "in_order clock es"
  shows "\<exists>rx. main_run (arg_print_interval a) (end_time clock es) rx st \<and> set rx \<subseteq> set (arrivals es)"
proof -
  let ?st = "main_init clock (arg_fl_inv_factor a) (arg_fl_end_factor a) (arg_proxy_only a)"
  have "main_loop (arg_print_interval a) es ?st = Ok st"
    using assms(1) by (auto simp: main_program_def main_start_def split: option.splits outcome.splits)
  from main_loop_run [OF main_run.start [OF assms(2,3)] assms(4) this] show ?thesis by simp
qed

text \<open>An error of the loop is the error of one of its iterations.\<close>

lemma main_loop_stops:
  "main_loop n es st = Err e \<Longrightarrow>
    \<exists>es1 t ks w es2 st1. es = es1 @ (t, ks, w) # es2 \<and> main_loop n es1 st = Ok st1 \<and> main_iter n ks w st1 = Err e"
proof (induction es arbitrary: st)
  case (Cons x es)
  obtain t ks w where x: "x = (t, ks, w)" by (cases x)
  show ?case
  proof (cases "main_iter n ks w st")
    case (Ok st')
    with Cons.prems x have "main_loop n es st' = Err e" by simp
    from Cons.IH [OF this] obtain es1 t' ks' w' es2 st1 where
      "es = es1 @ (t', ks', w') # es2" "main_loop n es1 st' = Ok st1" "main_iter n ks' w' st1 = Err e" by blast
    then have "x # es = (x # es1) @ (t', ks', w') # es2" "main_loop n (x # es1) st = Ok st1" "main_iter n ks' w' st1 = Err e"
      using Ok x by simp_all
    then show ?thesis by blast
  next
    case (Err e')
    with Cons.prems x have "x # es = [] @ (t, ks, w) # es" "main_loop n [] st = Ok st" "main_iter n ks w st = Err e" by simp_all
    then show ?thesis by blast
  qed (use Cons.prems x in simp)
qed simp

lemma default_args_sane:
  "sane_factor (arg_fl_inv_factor default_args)" "sane_factor (arg_fl_end_factor default_args)" "0 < arg_print_interval default_args"
  unfolding default_args_def sane_factor_def by (simp, intro exI [of _ "1 / 2"], simp_all)

text \<open>
  The short options are not unique: three options are called \<open>-p\<close> and two \<open>-f\<close>.
\<close>

lemma short_options_clash: "short_options = ''pffpp'' \<and> \<not> distinct short_options"
  by code_simp

section \<open>Properties\<close>

text \<open>
  The whole program from its command line: with factors between 0 and 1024 and a print interval above 0, the defaults are
  such, whatever arrives and however long it runs, its state is sound, no retransmission task is left over, and each datagram it
  has sent is one that arrived. It returns an error only at the start, if a socket cannot be set up, or with the error of
  the event that ended the loop. (The panics that can end it are the subject of other theorems.)
\<close>

theorem main_program_sound:
  assumes "sane_factor (arg_fl_inv_factor a)" and "sane_factor (arg_fl_end_factor a)" and "0 < arg_print_interval a"
    and "in_order clock es"
  shows "case main_program quoted re a io sk clock es of
      Ok st \<Rightarrow> pemi_ok (end_time clock es) (the_pemi st) \<and> retrans_tasks (the_pemi st) = [] \<and> set (wire (the_pemi st)) \<subseteq> set (arrivals es)
    | Err s \<Rightarrow> listen io = Some s \<or> (\<exists>es1 t ks w es2 st e. es = es1 @ (t, ks, w) # es2 \<and>
        main_program quoted re a io sk clock es1 = Ok st \<and> main_iter (arg_print_interval a) ks w st = Err e \<and> s = exit_text quoted re e)
    | Panic \<Rightarrow> True"
proof (cases "main_program quoted re a io sk clock es")
  case (Ok st)
  from main_program_run [OF Ok assms(1,2,4)] obtain rx where rx: "main_run (arg_print_interval a) (end_time clock es) rx st"
    "set rx \<subseteq> set (arrivals es)" by blast
  with main_run_main_ok [OF rx(1) assms(3)] main_run_known [OF rx(1) assms(3)] known_wire show ?thesis
    by (auto simp: Ok main_ok_def)
next
  case (Err s)
  show ?thesis
  proof (cases "listen io")
    case None
    then obtain d where d: "icmp_detector_new sk clock = Some d" using Err
      by (auto simp: main_program_def main_start_def split: option.splits)
    let ?st = "main_init clock (arg_fl_inv_factor a) (arg_fl_end_factor a) (arg_proxy_only a)"
    from Err None d obtain e where e: "main_loop (arg_print_interval a) es ?st = Err e" "s = exit_text quoted re e"
      by (auto simp: main_program_def main_start_def split: outcome.splits)
    from main_loop_stops [OF e(1)] e(2) None d Err show ?thesis by (fastforce simp: main_program_def main_start_def)
  qed (use Err in \<open>auto simp: main_program_def main_start_def\<close>)
qed simp

theorem main_program_sound_witness:
  "\<exists>st. main_program id '''' default_args \<lparr>bind_error = None, reuse_addr_error = None, transparent_error = None, orig_dst_error = None,
       nonblocking_error = None, tokio_error = None\<rparr> \<lparr>socket_created = True, bound = True, ttl_set = True, nonblocking_set = True,
       fd_duplicated = True, tokio_socket_made = True\<rparr> 0 [(7, sample_clocks, TimerExpired)] = Ok st \<and> pemi_ok 7 (the_pemi st)"
    (is "\<exists>st. main_program id '''' default_args ?io ?sk 0 ?es = Ok st \<and> _")
proof -
  have order: "in_order 0 ?es" by (simp add: clocks_ok_def sample_clocks_def sane_clock_iff)
  have "\<exists>st. main_program id '''' default_args ?io ?sk 0 ?es = Ok st"
    by (simp add: main_program_def main_start_def listen_def icmp_detector_new_def init_icmp_socket_def main_iter_def main_init_def
        pemi_timeout_def pemi_new_def set_proxy_only_def pemi_set_factors_def heap_peek_def)
  with main_program_sound [OF default_args_sane order, where quoted = id and re = "''''" and io = ?io and sk = ?sk] show ?thesis by auto
qed

end
