(* ===== verification/App_Stats.thy ===== *)
theory App_Stats
  imports Rust_Time
begin

text \<open>
  \<open>apps/rtc/src/lib.rs\<close>, the counters and clocks of the applications; \<open>apps/quinn-apps/src/bin/common/mod.rs\<close> is a
  copy of it. \<open>None\<close> is a panic, and for \<open>print_bytes\<close> also a loop that does not end; the lemmas show that neither
  happens for the size of anything.
\<close>

section \<open>Statistics and clocks\<close>

record client_stats =
  cs_bytes_recv :: nat
  cs_start_time :: "instant option"
  cs_print_interval :: duration
  cs_interval_recv :: nat
  cs_past_sec :: nat
  cs_last_print_time :: instant

definition client_stats_new :: "instant \<Rightarrow> client_stats" where
  "client_stats_new now = \<lparr>cs_bytes_recv = 0, cs_start_time = None, cs_print_interval = from_secs 1, cs_interval_recv = 0,
     cs_past_sec = 0, cs_last_print_time = now\<rparr>"

definition request_start :: "instant \<Rightarrow> client_stats \<Rightarrow> client_stats" where
  "request_start now s = s\<lparr>cs_start_time := Some now\<rparr>"

text \<open>The two readings are those of \<open>elapsed\<close> and of \<open>Instant::now\<close>.\<close>

definition bytes_recv :: "instant \<Rightarrow> instant \<Rightarrow> nat \<Rightarrow> client_stats \<Rightarrow> client_stats" where
  "bytes_recv t now n s0 = (let s = s0\<lparr>cs_bytes_recv := cs_bytes_recv s0 + n, cs_interval_recv := cs_interval_recv s0 + n\<rparr> in
     if duration_since t (cs_last_print_time s) \<ge> cs_print_interval s
     then s\<lparr>cs_past_sec := cs_past_sec s + 1, cs_last_print_time := now, cs_interval_recv := 0\<rparr>
     else s)"

record server_stats =
  ss_bytes_sent :: nat
  ss_start_time :: "instant option"

definition server_stats_new :: server_stats where
  "server_stats_new = \<lparr>ss_bytes_sent = 0, ss_start_time = None\<rparr>"

definition request_recved :: "instant \<Rightarrow> server_stats \<Rightarrow> server_stats" where
  "request_recved now s = s\<lparr>ss_start_time := Some now\<rparr>"

definition bytes_sent :: "nat \<Rightarrow> server_stats \<Rightarrow> server_stats" where
  "bytes_sent n s = s\<lparr>ss_bytes_sent := ss_bytes_sent s + n\<rparr>"

text \<open>
  \<open>print_bytes\<close>: the loop that divides by 1024 would not end on an infinity. The result is the number that is printed
  and its unit; a unit beyond the table is an index out of range.
\<close>

partial_function (option) scale_bytes :: "f64 \<Rightarrow> nat \<Rightarrow> (f64 \<times> nat) option" where
  "scale_bytes b unit = (if f64_le (Fin 1024) b then scale_bytes (f64_div b (Fin 1024)) (unit + 1) else Some (b, unit))"

definition byte_units :: "string list" where
  "byte_units = [''B'', ''KB'', ''MB'', ''GB'', ''TB'', ''PB'', ''EB'', ''ZB'', ''YB'']"

definition print_bytes :: "nat \<Rightarrow> (f64 \<times> string) option" where
  "print_bytes n = do { (b, unit) \<leftarrow> scale_bytes (f64_of_nat n) 0; u \<leftarrow> index byte_units unit; Some (b, u) }"

text \<open>
  \<open>print_stats\<close> of either side prints the amount, the seconds since the request and the goodput in megabits per
  second. The start time is unwrapped.
\<close>

definition goodput :: "nat \<Rightarrow> f64 \<Rightarrow> f64" where
  "goodput n elapsed = f64_mul (f64_div (f64_div (f64_div (f64_of_nat n) elapsed) (Fin 1000)) (Fin 1000)) (Fin 8)"

definition client_print_stats :: "instant \<Rightarrow> client_stats \<Rightarrow> ((f64 \<times> string) \<times> f64 \<times> f64) option" where
  "client_print_stats now s = do {
     start \<leftarrow> cs_start_time s;
     let elapsed = as_secs_f64 (duration_since now start);
     p \<leftarrow> print_bytes (cs_bytes_recv s);
     Some (p, elapsed, goodput (cs_bytes_recv s) elapsed) }"

definition server_print_stats :: "instant \<Rightarrow> server_stats \<Rightarrow> ((f64 \<times> string) \<times> f64 \<times> f64) option" where
  "server_print_stats now s = do {
     start \<leftarrow> ss_start_time s;
     let elapsed = as_secs_f64 (duration_since now start);
     p \<leftarrow> print_bytes (ss_bytes_sent s);
     Some (p, elapsed, goodput (ss_bytes_sent s) elapsed) }"

text \<open>\<open>PeerTime\<close>: nanoseconds since the epoch; a clock before the start panics.\<close>

definition peer_time_new :: "f64 \<Rightarrow> instant option" where
  "peer_time_new start_time = do { d \<leftarrow> from_secs_f64 start_time; instant_add 0 d }"

definition peer_elapsed :: "instant \<Rightarrow> instant \<Rightarrow> duration option" where
  "peer_elapsed now start = (if start \<le> now then Some (nat (now - start)) else None)"

section \<open>Printing ends\<close>

lemma scale_bytes_bounded:
  assumes "0 \<le> x" and "x \<le> 2 ^ (10 * k + 9)" and "10 * k + 9 \<le> 1023"
  shows "\<exists>y j. scale_bytes (Fin x) unit = Some (Fin y, unit + j) \<and> 0 \<le> y \<and> y < 1024 \<and> j \<le> k"
  using assms
proof (induction k arbitrary: x unit)
  case 0
  then have "\<not> 1024 \<le> x" by simp
  with 0 show ?case by (subst scale_bytes.simps) (simp add: not_le)
next
  case (Suc k)
  show ?case
  proof (cases "1024 \<le> x")
    case True
    have "x / 1024 \<le> 2 ^ (10 * k + 9)" using Suc.prems by (simp add: power_add)
    with Suc.prems obtain y where y: "fl64 (x / 1024) = Fin y" "0 \<le> y" "y \<le> 2 ^ (10 * k + 9)"
      using fl64_bounded [of "x / 1024" "10 * k + 9"] by auto
    with Suc.IH [of y "unit + 1"] Suc.prems obtain z j where
      "scale_bytes (Fin y) (unit + 1) = Some (Fin z, unit + 1 + j)" "0 \<le> z" "z < 1024" "j \<le> k" by auto
    with True y show ?thesis by (subst scale_bytes.simps) (auto intro!: exI [of _ z] exI [of _ "Suc j"])
  next
    case False
    with Suc.prems show ?thesis by (subst scale_bytes.simps) (simp add: not_le)
  qed
qed

lemma print_bytes_total:
  assumes "n < 2 ^ 64"
  shows "\<exists>y u. print_bytes n = Some (Fin y, u) \<and> 0 \<le> y \<and> y < 1024 \<and> u \<in> set (take 7 byte_units)"
proof -
  have "(of_nat n :: rat) \<le> of_nat (2 ^ 64)" using assms by (simp only: of_nat_le_iff)
  then obtain x where x: "f64_of_nat n = Fin x" "0 \<le> x" "x \<le> 2 ^ 64"
    using fl64_bounded [of "of_nat n" 64] by (auto simp: f64_of_nat_def)
  then have "x \<le> 2 ^ (10 * 6 + 9)" by simp
  with scale_bytes_bounded [of x 6 0] x obtain y j where
    "scale_bytes (Fin x) 0 = Some (Fin y, j)" "0 \<le> y" "y < 1024" "j \<le> 6" by auto
  moreover from this have "index byte_units j = Some (byte_units ! j)" by (simp add: byte_units_def)
  moreover have "byte_units ! j \<in> set (take 7 byte_units)"
  proof -
    have "length (take 7 byte_units) = 7" by (simp add: byte_units_def)
    with \<open>j \<le> 6\<close> nth_mem [of j "take 7 byte_units"] show ?thesis by simp
  qed
  ultimately show ?thesis using x(1) by (simp add: print_bytes_def)
qed

lemma server_print_stats_total:
  "ss_bytes_sent s < 2 ^ 64 \<Longrightarrow> ss_start_time s \<noteq> None \<Longrightarrow> \<exists>r. server_print_stats now s = Some r"
  using print_bytes_total [of "ss_bytes_sent s"] by (auto simp: server_print_stats_def Let_def)

lemma client_print_stats_total:
  "cs_bytes_recv s < 2 ^ 64 \<Longrightarrow> cs_start_time s \<noteq> None \<Longrightarrow> \<exists>r. client_print_stats now s = Some r"
  using print_bytes_total [of "cs_bytes_recv s"] by (auto simp: client_print_stats_def Let_def)

end
