(* ===== verification/Rtc.thy ===== *)
theory Rtc
  imports Pemi_Io App_Stats Rust_Str
begin

text \<open>
  \<open>apps/rtc\<close>: the media server and client the middlebox is measured with. The QUIC library \<open>quiche\<close> is a
  parameter, the record \<open>quiche\<close> of the functions the server calls, over a type of
  connections. \<open>None\<close> is a panic; a subtraction of the source that would underflow is one too. This theory holds
  the frames and the requests of \<open>rtc_server.rs\<close>, its retry tokens, and the request
  \<open>rtc_client.rs\<close> sends.
\<close>

section \<open>Media clients\<close>

definition HTTP_REQ_STREAM_ID :: nat where
  "HTTP_REQ_STREAM_ID = 0"

datatype quiche_error = Done | OtherError

record 'c quiche =
  q_stream_send :: "nat \<Rightarrow> bytes \<Rightarrow> bool \<Rightarrow> 'c \<Rightarrow> (quiche_error + nat) \<times> 'c"
  q_timeout :: "'c \<Rightarrow> duration option"
  q_on_timeout :: "'c \<Rightarrow> 'c"

definition FRAME_INTERVAL :: duration where
  "FRAME_INTERVAL = from_millis 33"

record 'c media_client =
  mc_conn :: 'c
  request_frames :: nat
  frame_count :: nat
  last_frame_time :: instant
  mc_stats :: server_stats
  server_time :: instant
  partial_sent :: "nat \<rightharpoonup> nat"
  frame_size :: nat

definition media_client_new :: "'c \<Rightarrow> instant \<Rightarrow> instant \<Rightarrow> nat \<Rightarrow> 'c media_client" where
  "media_client_new conn clock start fsize = \<lparr>mc_conn = conn, request_frames = 0, frame_count = 0, last_frame_time = clock,
     mc_stats = server_stats_new, server_time = start, partial_sent = Map.empty, frame_size = fsize\<rparr>"

definition set_request_frames :: "nat \<Rightarrow> 'c media_client \<Rightarrow> 'c media_client" where
  "set_request_frames n c = c\<lparr>request_frames := n\<rparr>"

definition all_frames_sent :: "'c media_client \<Rightarrow> bool option" where
  "all_frames_sent c = do { rust_assert (frame_count c \<le> request_frames c); Some (frame_count c = request_frames c) }"

text \<open>\<open>wall\<close> is the reading of the system clock for the log line, \<open>now\<close> that of the monotonic clock.\<close>

definition send_next_frame :: "'c quiche \<Rightarrow> instant \<Rightarrow> instant \<Rightarrow> 'c media_client \<Rightarrow> 'c media_client option" where
  "send_next_frame q wall now c0 = do {
     done \<leftarrow> all_frames_sent c0;
     if done then Some c0
     else do {
       let body = replicate (frame_size c0) 0;
       let c = c0\<lparr>frame_count := frame_count c0 + 1\<rparr>;
       _ \<leftarrow> peer_elapsed wall (server_time c);
       let stream_id = frame_count c * 4 + 1;
       (case q_stream_send q stream_id body True (mc_conn c) of
          (Inl OtherError, conn) \<Rightarrow> Some (c\<lparr>mc_conn := conn\<rparr>)
        | (r, conn) \<Rightarrow>
            let written = (case r of Inr v \<Rightarrow> v | Inl _ \<Rightarrow> 0);
                c1 = c\<lparr>mc_conn := conn, partial_sent := (if written < length body
                       then (partial_sent c)(stream_id \<mapsto> length body - written) else partial_sent c)\<rparr> in
            Some (c1\<lparr>last_frame_time := now, mc_stats := bytes_sent written (mc_stats c1)\<rparr>)) } }"

definition media_timeout :: "'c quiche \<Rightarrow> instant \<Rightarrow> 'c media_client \<Rightarrow> duration option option" where
  "media_timeout q now c = do {
     done \<leftarrow> all_frames_sent c;
     let time_to_next_frame = (if done then None
       else Some (case dur_sub FRAME_INTERVAL (duration_since now (last_frame_time c)) of Some v \<Rightarrow> v | None \<Rightarrow> 0));
     Some (case (time_to_next_frame, q_timeout q (mc_conn c)) of
         (Some a, Some b) \<Rightarrow> Some (min a b)
       | (Some a, None) \<Rightarrow> Some a
       | (None, t) \<Rightarrow> t) }"

definition media_on_timeout :: "'c quiche \<Rightarrow> instant \<Rightarrow> instant \<Rightarrow> instant \<Rightarrow> 'c media_client \<Rightarrow> 'c media_client option" where
  "media_on_timeout q t wall now c0 = (let c = c0\<lparr>mc_conn := q_on_timeout q (mc_conn c0)\<rparr> in do {
     done \<leftarrow> all_frames_sent c;
     if \<not> done \<and> dur_sub FRAME_INTERVAL (duration_since t (last_frame_time c)) = None
     then send_next_frame q wall now c
     else Some c })"

text \<open>A stream with bytes left over has become writable.\<close>

definition handle_writable :: "'c quiche \<Rightarrow> nat \<Rightarrow> 'c media_client \<Rightarrow> 'c media_client option" where
  "handle_writable q stream_id c = (case partial_sent c stream_id of
       None \<Rightarrow> Some c
     | Some remain_size \<Rightarrow> (case q_stream_send q stream_id (replicate remain_size 0) True (mc_conn c) of
         (Inl OtherError, conn) \<Rightarrow> None
       | (r, conn) \<Rightarrow> do {
           let written = (case r of Inr v \<Rightarrow> v | Inl _ \<Rightarrow> 0);
           rust_assert (written \<le> remain_size);
           let left = remain_size - written;
           Some (c\<lparr>mc_conn := conn, partial_sent := (partial_sent c)(stream_id := (if left = 0 then None else Some left)),
             mc_stats := bytes_sent written (mc_stats c)\<rparr>) }))"

section \<open>Requests\<close>

definition GetN :: bytes where
  "GetN = [0x47, 0x65, 0x74, 0x4e, 0x20]"

definition not_found :: bytes where
  "not_found = map (\<lambda>c. of_nat (of_char c)) ''HTTP/1.1 404 Not Found'' @ [0x0d, 0x0a, 0x0d, 0x0a]"

text \<open>\<open>String::from_utf8(..).unwrap()\<close> and \<open>trim().parse::<u64>().unwrap()\<close> panic on what is not a number.\<close>

definition handle_new_request ::
    "'c quiche \<Rightarrow> instant \<Rightarrow> instant \<Rightarrow> instant \<Rightarrow> nat \<Rightarrow> bytes \<Rightarrow> 'c media_client \<Rightarrow> 'c media_client option" where
  "handle_new_request q t wall now stream_id buf c0 = (let c = c0\<lparr>mc_stats := request_recved t (mc_stats c0)\<rparr> in
     if length buf > 5 \<and> take 5 buf = GetN then do {
       rust_assert (utf8_valid (drop 5 buf));
       n \<leftarrow> parse_u64 (trim (drop 5 buf));
       send_next_frame q wall now (set_request_frames n c) }
     else (case q_stream_send q stream_id not_found True (mc_conn c) of
         (Inl OtherError, conn) \<Rightarrow> Some (c\<lparr>mc_conn := conn\<rparr>)
       | (r, conn) \<Rightarrow> do {
           let written = (case r of Inr v \<Rightarrow> v | Inl _ \<Rightarrow> 0);
           rust_assert (\<not> written < length not_found);
           let c1 = c\<lparr>mc_conn := conn, mc_stats := bytes_sent written (mc_stats c)\<rparr>;
           server_print_stats now (mc_stats c1);
           Some c1 }))"

text \<open>\<open>format!("GetN {}\r\n", request_frames)\<close> of the client.\<close>

definition get_n_request :: "nat \<Rightarrow> bytes" where
  "get_n_request n = GetN @ decimal n @ [0x0d, 0x0a]"

section \<open>Retry tokens\<close>

fun ip_octets :: "socket_addr \<Rightarrow> bytes" where
  "ip_octets (V4 ip _) = map (\<lambda>i. ucast (drop_bit (8 * (3 - i)) ip)) [0..<4]"
| "ip_octets (V6 ip _ _ _) = map (\<lambda>i. ucast (drop_bit (8 * (15 - i)) ip)) [0..<16]"

definition quiche_tag :: bytes where
  "quiche_tag = [0x71, 0x75, 0x69, 0x63, 0x68, 0x65]"

definition mint_token :: "bytes \<Rightarrow> socket_addr \<Rightarrow> bytes" where
  "mint_token dcid src = quiche_tag @ ip_octets src @ dcid"

definition validate_token :: "socket_addr \<Rightarrow> bytes \<Rightarrow> bytes option" where
  "validate_token src token0 =
     (if length token0 < 6 then None
      else if take 6 token0 \<noteq> quiche_tag then None
      else let token = drop 6 token0; addr = ip_octets src in
        if length token < length addr \<or> take (length addr) token \<noteq> addr then None
        else Some (drop (length addr) token))"

end
