(* ===== verification/Rtc_Server.thy ===== *)
theory Rtc_Server
  imports Rtc
begin

text \<open>
  What the media server promises: it takes back exactly the tokens it minted for an address, understands the
  request of its client, and accounts for every byte of every frame.
\<close>

section \<open>The calls of the library\<close>

text \<open>
  To speak of what the server wrote, its library is run with a record of the calls of \<open>stream_send\<close>: the stream, what
  was offered and the answer. The server does not see the record (\<open>recorded_run_complete\<close>).
\<close>

record send_call =
  sc_stream :: nat
  sc_body :: bytes
  sc_answer :: "quiche_error + nat"

type_synonym 'c recorded = "'c \<times> send_call list"

definition recording :: "'c quiche \<Rightarrow> 'c recorded quiche" where
  "recording q = \<lparr>q_stream_send = (\<lambda>s body fin (conn, calls). case q_stream_send q s body fin conn of
        (r, conn') \<Rightarrow> (r, conn', calls @ [\<lparr>sc_stream = s, sc_body = body, sc_answer = r\<rparr>])),
     q_timeout = (\<lambda>(conn, calls). q_timeout q conn), q_on_timeout = (\<lambda>(conn, calls). (q_on_timeout q conn, calls))\<rparr>"

definition calls_of :: "'c recorded media_client \<Rightarrow> send_call list" where
  "calls_of c = snd (mc_conn c)"

definition erase_calls :: "'c recorded media_client \<Rightarrow> 'c media_client" where
  "erase_calls c = \<lparr>mc_conn = fst (mc_conn c), request_frames = request_frames c, frame_count = frame_count c,
     last_frame_time = last_frame_time c, mc_stats = mc_stats c, server_time = server_time c,
     partial_sent = partial_sent c, frame_size = frame_size c\<rparr>"

text \<open>
  The life of a client: it makes requests of any kind, possibly more than once, time passes, streams become writable, and
  the library does with the connection what it likes in between.
\<close>

inductive media_run :: "'c quiche \<Rightarrow> 'c media_client \<Rightarrow> bool" for q :: "'c quiche" where
  start: "media_run q (media_client_new conn clock since fsize)"
| request: "media_run q c \<Longrightarrow> handle_new_request q t wall now s buf c = Some c' \<Longrightarrow> media_run q c'"
| timeout: "media_run q c \<Longrightarrow> media_on_timeout q t wall now c = Some c' \<Longrightarrow> media_run q c'"
| writable: "media_run q c \<Longrightarrow> handle_writable q s c = Some c' \<Longrightarrow> media_run q c'"
| library: "media_run q c \<Longrightarrow> media_run q (c\<lparr>mc_conn := conn\<rparr>)"

text \<open>The same life with the record, which is empty at first and which only \<open>stream_send\<close> extends.\<close>

inductive recorded_run :: "'c quiche \<Rightarrow> 'c recorded media_client \<Rightarrow> bool" for q :: "'c quiche" where
  start: "recorded_run q (media_client_new (conn, []) clock since fsize)"
| request: "recorded_run q c \<Longrightarrow> handle_new_request (recording q) t wall now s buf c = Some c' \<Longrightarrow> recorded_run q c'"
| timeout: "recorded_run q c \<Longrightarrow> media_on_timeout (recording q) t wall now c = Some c' \<Longrightarrow> recorded_run q c'"
| writable: "recorded_run q c \<Longrightarrow> handle_writable (recording q) s c = Some c' \<Longrightarrow> recorded_run q c'"
| library: "recorded_run q c \<Longrightarrow> recorded_run q (c\<lparr>mc_conn := (conn, calls_of c)\<rparr>)"

lemma recording_send:
  "q_stream_send (recording q) s body fin (conn, calls) = (case q_stream_send q s body fin conn of
     (r, conn') \<Rightarrow> (r, conn', calls @ [\<lparr>sc_stream = s, sc_body = body, sc_answer = r\<rparr>]))"
  by (simp add: recording_def)

lemma erase_calls_simps [simp]:
  "mc_conn (erase_calls c) = fst (mc_conn c)" "request_frames (erase_calls c) = request_frames c" "frame_count (erase_calls c) = frame_count c"
  "last_frame_time (erase_calls c) = last_frame_time c" "mc_stats (erase_calls c) = mc_stats c" "server_time (erase_calls c) = server_time c"
  "partial_sent (erase_calls c) = partial_sent c" "frame_size (erase_calls c) = frame_size c"
  by (simp_all add: erase_calls_def)

lemma send_next_frame_erase_calls:
  "send_next_frame q wall now (erase_calls c) = map_option erase_calls (send_next_frame (recording q) wall now c)"
  by (cases "mc_conn c")
    (auto simp: send_next_frame_def all_frames_sent_def recording_send erase_calls_def rust_assert_def Let_def
      split: option.splits sum.splits quiche_error.splits prod.splits Option.bind_splits)

lemma media_on_timeout_erase_calls:
  "media_on_timeout q t wall now (erase_calls c) = map_option erase_calls (media_on_timeout (recording q) t wall now c)"
proof -
  have "(erase_calls c)\<lparr>mc_conn := q_on_timeout q (mc_conn (erase_calls c))\<rparr> = erase_calls (c\<lparr>mc_conn := q_on_timeout (recording q) (mc_conn c)\<rparr>)"
    by (cases "mc_conn c") (simp add: erase_calls_def recording_def)
  then show ?thesis
    by (auto simp: media_on_timeout_def all_frames_sent_def send_next_frame_erase_calls rust_assert_def Let_def
        split: Option.bind_splits)
qed

lemma handle_writable_erase_calls:
  "handle_writable q s (erase_calls c) = map_option erase_calls (handle_writable (recording q) s c)"
  by (cases "mc_conn c")
    (auto simp: handle_writable_def recording_send erase_calls_def rust_assert_def Let_def
      split: option.splits sum.splits quiche_error.splits prod.splits)

lemma handle_new_request_erase_calls:
  "handle_new_request q t wall now s buf (erase_calls c) = map_option erase_calls (handle_new_request (recording q) t wall now s buf c)"
proof -
  let ?c = "c\<lparr>mc_stats := request_recved t (mc_stats c)\<rparr>"
  have e: "(erase_calls c)\<lparr>mc_stats := request_recved t (mc_stats (erase_calls c))\<rparr> = erase_calls ?c"
    "set_request_frames n (erase_calls ?c) = erase_calls (set_request_frames n ?c)" for n
    by (simp_all add: erase_calls_def set_request_frames_def)
  show ?thesis
  proof (cases "length buf > 5 \<and> take 5 buf = GetN")
    case True
    then show ?thesis unfolding handle_new_request_def Let_def e
      by (cases "parse_u64 (trim (drop 5 buf))") (simp_all add: e send_next_frame_erase_calls rust_assert_def)
  next
    case False
    then show ?thesis
      by (cases "mc_conn c")
        (auto simp: handle_new_request_def recording_send erase_calls_def rust_assert_def Let_def
          split: sum.splits quiche_error.splits prod.splits Option.bind_splits)
  qed
qed

text \<open>Every life of a client is one with a record.\<close>

lemma recorded_run_complete: "media_run q c \<Longrightarrow> \<exists>c'. recorded_run q c' \<and> erase_calls c' = c"
proof (induction rule: media_run.induct)
  case (start conn clock since fsize)
  have "erase_calls (media_client_new (conn, []) clock since fsize) = media_client_new conn clock since fsize"
    by (simp add: erase_calls_def media_client_new_def)
  with recorded_run.start [of q conn clock since fsize] show ?case by (intro exI conjI)
next
  case (request c t wall now s buf c')
  then obtain d where d: "recorded_run q d" "erase_calls d = c" by blast
  with request(2) handle_new_request_erase_calls [of q t wall now s buf d] obtain d' where
    "handle_new_request (recording q) t wall now s buf d = Some d'" "erase_calls d' = c'"
    by (cases "handle_new_request (recording q) t wall now s buf d") auto
  with recorded_run.request [OF d(1)] show ?case by blast
next
  case (timeout c t wall now c')
  then obtain d where d: "recorded_run q d" "erase_calls d = c" by blast
  with timeout(2) media_on_timeout_erase_calls [of q t wall now d] obtain d' where
    "media_on_timeout (recording q) t wall now d = Some d'" "erase_calls d' = c'"
    by (cases "media_on_timeout (recording q) t wall now d") auto
  with recorded_run.timeout [OF d(1)] show ?case by blast
next
  case (writable c s c')
  then obtain d where d: "recorded_run q d" "erase_calls d = c" by blast
  with writable(2) handle_writable_erase_calls [of q s d] obtain d' where
    "handle_writable (recording q) s d = Some d'" "erase_calls d' = c'"
    by (cases "handle_writable (recording q) s d") auto
  with recorded_run.writable [OF d(1)] show ?case by blast
next
  case (library c conn)
  then obtain d where d: "recorded_run q d" "erase_calls d = c" by blast
  then have "erase_calls (d\<lparr>mc_conn := (conn, calls_of d)\<rparr>) = c\<lparr>mc_conn := conn\<rparr>" by (auto simp: erase_calls_def)
  with recorded_run.library [OF d(1), of conn] show ?case by blast
qed

section \<open>Frames\<close>

text \<open>What is documented of \<open>stream_send\<close>: the number it returns is that of the bytes it took of those it was given.\<close>

definition takes_within :: "'c quiche \<Rightarrow> bool" where
  "takes_within q \<longleftrightarrow> (\<forall>s body fin conn n conn'. q_stream_send q s body fin conn = (Inr n, conn') \<longrightarrow> n \<le> length body)"

definition call_accepts :: "send_call \<Rightarrow> nat" where
  "call_accepts x = (case sc_answer x of Inr n \<Rightarrow> n | Inl _ \<Rightarrow> 0)"

definition bytes_taken :: "send_call list \<Rightarrow> nat" where
  "bytes_taken xs = sum_list (map call_accepts xs)"

text \<open>The calls that wrote the frame \<open>k\<close>. An answer 404 may go to the same stream, if the client wrote on it.\<close>

definition frame_calls :: "nat \<Rightarrow> send_call list \<Rightarrow> send_call list" where
  "frame_calls k xs = filter (\<lambda>x. sc_stream x = k * 4 + 1 \<and> sc_body x \<noteq> not_found) xs"

text \<open>
  Each call offers what the calls before it left over of \<open>n\<close> bytes, and none fails; the result is what
  is left at the end.
\<close>

fun left_after :: "nat \<Rightarrow> send_call list \<Rightarrow> nat option" where
  "left_after n [] = Some n"
| "left_after n (x # xs) =
     (if sc_body x = replicate n 0 \<and> sc_answer x \<noteq> Inl OtherError \<and> call_accepts x \<le> n then left_after (n - call_accepts x) xs else None)"

definition left_of :: "'c media_client \<Rightarrow> nat \<Rightarrow> nat" where
  "left_of c s = (case partial_sent c s of Some r \<Rightarrow> r | None \<Rightarrow> 0)"

definition frame_given_up :: "'c recorded media_client \<Rightarrow> nat \<Rightarrow> bool" where
  "frame_given_up c k \<longleftrightarrow> partial_sent c (k * 4 + 1) = None \<and>
     frame_calls k (calls_of c) = [\<lparr>sc_stream = k * 4 + 1, sc_body = replicate (frame_size c) 0, sc_answer = Inl OtherError\<rparr>]"

definition frame_under_way :: "'c recorded media_client \<Rightarrow> nat \<Rightarrow> bool" where
  "frame_under_way c k \<longleftrightarrow> frame_calls k (calls_of c) \<noteq> [] \<and>
     left_after (frame_size c) (frame_calls k (calls_of c)) = Some (left_of c (k * 4 + 1))"

definition accounted :: "'c recorded media_client \<Rightarrow> bool" where
  "accounted c \<longleftrightarrow> ss_bytes_sent (mc_stats c) = bytes_taken (calls_of c) \<and>
     (\<forall>k. if 1 \<le> k \<and> k \<le> frame_count c then frame_given_up c k \<or> frame_under_way c k
          else frame_calls k (calls_of c) = [] \<and> partial_sent c (k * 4 + 1) = None) \<and>
     (\<forall>s r. partial_sent c s = Some r \<longrightarrow> 0 < r \<and> (\<exists>k. s = k * 4 + 1))"

lemma bytes_taken_append [simp]: "bytes_taken (xs @ ys) = bytes_taken xs + bytes_taken ys" "bytes_taken [x] = call_accepts x" "bytes_taken [] = 0"
  by (simp_all add: bytes_taken_def)

lemma left_after_append: "left_after n (xs @ ys) = Option.bind (left_after n xs) (\<lambda>m. left_after m ys)"
  by (induction xs arbitrary: n) auto

lemma left_after_taken: "left_after n xs = Some m \<Longrightarrow> bytes_taken xs + m = n"
  by (induction xs arbitrary: n) (fastforce simp: bytes_taken_def split: if_splits)+

lemma zeros_not_found: "replicate n 0 \<noteq> not_found"
  by (cases n) (simp_all add: not_found_def)

lemma frame_calls_append: "frame_calls k (xs @ ys) = frame_calls k xs @ frame_calls k ys"
  by (simp add: frame_calls_def)

lemma frame_calls_single:
  "frame_calls k [\<lparr>sc_stream = j * 4 + 1, sc_body = replicate n 0, sc_answer = r\<rparr>] =
     (if j = k then [\<lparr>sc_stream = j * 4 + 1, sc_body = replicate n 0, sc_answer = r\<rparr>] else [])"
  by (simp add: frame_calls_def zeros_not_found)

lemma frame_calls_not_found: "frame_calls k [\<lparr>sc_stream = s, sc_body = not_found, sc_answer = r\<rparr>] = []"
  by (simp add: frame_calls_def)

lemmas frame_call_simps = frame_calls_append frame_calls_single frame_calls_single [simplified] frame_calls_not_found

lemma recorded_call:
  assumes "takes_within q" and "q_stream_send (recording q) s body fin conn = (r, conn')"
  shows "snd conn' = snd conn @ [\<lparr>sc_stream = s, sc_body = body, sc_answer = r\<rparr>] \<and> (\<forall>n. r = Inr n \<longrightarrow> n \<le> length body)"
  using assms unfolding takes_within_def by (cases conn) (auto simp: recording_send split: prod.splits, blast)

text \<open>A step that leaves the frames and the calls as they are.\<close>

lemma accounted_same:
  assumes "accounted c" and "calls_of c' = calls_of c" and "frame_count c' = frame_count c" and "frame_size c' = frame_size c"
    and "partial_sent c' = partial_sent c" and "ss_bytes_sent (mc_stats c') = ss_bytes_sent (mc_stats c)"
  shows "accounted c'"
  using assms(1) unfolding accounted_def frame_given_up_def frame_under_way_def left_of_def assms(2-) .

lemma accounted_frame:
  assumes "accounted c" and "1 \<le> k" and "k \<le> frame_count c"
  shows "frame_given_up c k \<or> frame_under_way c k"
  using assms unfolding accounted_def by meson

lemma accounted_outside:
  assumes "accounted c" and "\<not> (1 \<le> k \<and> k \<le> frame_count c)"
  shows "frame_calls k (calls_of c) = []" "partial_sent c (k * 4 + 1) = None"
  using assms unfolding accounted_def by meson+

lemma accountedI:
  assumes "ss_bytes_sent (mc_stats c) = bytes_taken (calls_of c)"
    and "\<And>k. 1 \<le> k \<Longrightarrow> k \<le> frame_count c \<Longrightarrow> frame_given_up c k \<or> frame_under_way c k"
    and "\<And>k. \<not> (1 \<le> k \<and> k \<le> frame_count c) \<Longrightarrow> frame_calls k (calls_of c) = [] \<and> partial_sent c (k * 4 + 1) = None"
    and "\<And>s r. partial_sent c s = Some r \<Longrightarrow> 0 < r \<and> (\<exists>k. s = k * 4 + 1)"
  shows "accounted c"
  unfolding accounted_def using assms by simp

lemma accounted_stream:
  assumes "accounted c" and "partial_sent c s = Some r"
  shows "0 < r \<and> r \<le> frame_size c \<and> (\<exists>k. s = k * 4 + 1 \<and> 1 \<le> k \<and> k \<le> frame_count c \<and> frame_under_way c k)"
proof -
  from assms obtain k where k: "0 < r" "s = k * 4 + 1" unfolding accounted_def by blast
  with assms have n: "1 \<le> k \<and> k \<le> frame_count c" unfolding accounted_def by (metis option.distinct(1))
  with accounted_frame [OF assms(1), of k] assms(2) k have u: "frame_under_way c k" by (auto simp: frame_given_up_def)
  with left_after_taken [of "frame_size c" "frame_calls k (calls_of c)" r] assms(2) k have "r \<le> frame_size c"
    by (simp add: frame_under_way_def left_of_def)
  with k n u show ?thesis by blast
qed

text \<open>The three kinds of calls: the first of a frame, a later one of a frame, and an answer 404.\<close>

lemma accounted_first_call:
  assumes ok: "accounted c" and k: "k = frame_count c + 1"
    and calls: "calls_of c' = calls_of c @ [\<lparr>sc_stream = k * 4 + 1, sc_body = replicate (frame_size c) 0, sc_answer = r\<rparr>]"
    and v: "v = (case r of Inr n \<Rightarrow> n | Inl _ \<Rightarrow> 0)" "v \<le> frame_size c"
    and c': "frame_count c' = k" "frame_size c' = frame_size c" "ss_bytes_sent (mc_stats c') = ss_bytes_sent (mc_stats c) + v"
      "partial_sent c' = (if r = Inl OtherError \<or> v = frame_size c then partial_sent c
         else (partial_sent c)(k * 4 + 1 \<mapsto> frame_size c - v))"
  shows "accounted c'"
proof (rule accountedI)
  have "\<not> (1 \<le> k \<and> k \<le> frame_count c)" using k by simp
  note fresh = accounted_outside [OF ok this]
  have other: "frame_calls j (calls_of c') = frame_calls j (calls_of c)" "partial_sent c' (j * 4 + 1) = partial_sent c (j * 4 + 1)" if "j \<noteq> k" for j
    using that by (simp_all add: calls frame_call_simps c'(4))
  show "ss_bytes_sent (mc_stats c') = bytes_taken (calls_of c')"
    using ok by (simp add: accounted_def c'(3) calls call_accepts_def v(1))
  show "frame_given_up c' j \<or> frame_under_way c' j" if j: "1 \<le> j" "j \<le> frame_count c'" for j
  proof (cases "j = k")
    case True
    have "frame_under_way c' k" if "r \<noteq> Inl OtherError"
      using that fresh(2) v by (auto simp: frame_under_way_def calls frame_call_simps fresh(1) c' call_accepts_def left_of_def)
    moreover have "frame_given_up c' k" if "r = Inl OtherError"
      using that fresh(2) by (simp add: frame_given_up_def calls frame_call_simps fresh(1) c')
    ultimately show ?thesis using True by blast
  next
    case False
    with j k c'(1) have "j \<le> frame_count c" by simp
    from accounted_frame [OF ok j(1) this] other [OF False] c'(2) show ?thesis
      by (simp add: frame_given_up_def frame_under_way_def left_of_def)
  qed
  show "frame_calls j (calls_of c') = [] \<and> partial_sent c' (j * 4 + 1) = None" if "\<not> (1 \<le> j \<and> j \<le> frame_count c')" for j
    using that accounted_outside [OF ok, of j] other [of j] k c'(1) by auto
  show "0 < m \<and> (\<exists>j. s = j * 4 + 1)" if "partial_sent c' s = Some m" for s m
    using that accounted_stream [OF ok, of s m] v(2) by (cases "s = k * 4 + 1") (auto simp: c'(4) split: if_splits)
qed

lemma accounted_later_call:
  assumes ok: "accounted c" and rest: "partial_sent c s = Some n"
    and calls: "calls_of c' = calls_of c @ [\<lparr>sc_stream = s, sc_body = replicate n 0, sc_answer = r\<rparr>]"
    and v: "v = (case r of Inr n \<Rightarrow> n | Inl _ \<Rightarrow> 0)" "v \<le> n" "r \<noteq> Inl OtherError"
    and c': "frame_count c' = frame_count c" "frame_size c' = frame_size c"
      "ss_bytes_sent (mc_stats c') = ss_bytes_sent (mc_stats c) + v"
      "partial_sent c' = (partial_sent c)(s := (if n - v = 0 then None else Some (n - v)))"
  shows "accounted c'"
proof (rule accountedI)
  from accounted_stream [OF ok rest] obtain k where k: "s = k * 4 + 1" "1 \<le> k" "k \<le> frame_count c" "frame_under_way c k" by blast
  have other: "frame_calls j (calls_of c') = frame_calls j (calls_of c)" "partial_sent c' (j * 4 + 1) = partial_sent c (j * 4 + 1)" if "j \<noteq> k" for j
    using that by (simp_all add: calls frame_call_simps c'(4) k(1))
  show "ss_bytes_sent (mc_stats c') = bytes_taken (calls_of c')"
    using ok by (simp add: accounted_def c'(3) calls call_accepts_def v(1))
  show "frame_given_up c' j \<or> frame_under_way c' j" if j: "1 \<le> j" "j \<le> frame_count c'" for j
  proof (cases "j = k")
    case True
    have "left_after (frame_size c) (frame_calls k (calls_of c)) = Some n"
      using k(1,4) rest by (simp add: frame_under_way_def left_of_def)
    then have "frame_under_way c' k"
      using v by (simp add: frame_under_way_def calls k(1) frame_call_simps left_after_append c' call_accepts_def left_of_def)
    with True show ?thesis by blast
  next
    case False
    from accounted_frame [OF ok j(1)] j(2) other [OF False] c'(1,2) show ?thesis
      by (simp add: frame_given_up_def frame_under_way_def left_of_def)
  qed
  show "frame_calls j (calls_of c') = [] \<and> partial_sent c' (j * 4 + 1) = None" if "\<not> (1 \<le> j \<and> j \<le> frame_count c')" for j
    using that accounted_outside [OF ok, of j] other [of j] k c'(1) by auto
  show "0 < m \<and> (\<exists>j. i = j * 4 + 1)" if "partial_sent c' i = Some m" for i m
    using that accounted_stream [OF ok, of i m] k(1) by (cases "i = s") (auto simp: c'(4) split: if_splits)
qed

lemma accounted_answer_call:
  assumes ok: "accounted c"
    and calls: "calls_of c' = calls_of c @ [\<lparr>sc_stream = s, sc_body = not_found, sc_answer = r\<rparr>]"
    and c': "frame_count c' = frame_count c" "frame_size c' = frame_size c" "partial_sent c' = partial_sent c"
      "ss_bytes_sent (mc_stats c') = ss_bytes_sent (mc_stats c) + (case r of Inr n \<Rightarrow> n | Inl _ \<Rightarrow> 0)"
  shows "accounted c'"
proof -
  have same: "frame_calls j (calls_of c') = frame_calls j (calls_of c)" for j by (simp add: calls frame_call_simps)
  have "ss_bytes_sent (mc_stats c') = bytes_taken (calls_of c')"
    using ok by (simp add: accounted_def c'(4) calls call_accepts_def)
  with ok show ?thesis
    unfolding accounted_def frame_given_up_def frame_under_way_def left_of_def c'(1-3) same by blast
qed

lemma send_next_frame_accounted:
  assumes q: "takes_within q" and ok: "accounted c" and eq: "send_next_frame (recording q) wall now c = Some c'"
  shows "accounted c' \<and> frame_count c' \<le> request_frames c'"
proof (cases "frame_count c = request_frames c")
  case True
  with eq ok show ?thesis by (simp add: send_next_frame_def all_frames_sent_def)
next
  case False
  with eq have lt: "frame_count c < request_frames c"
    by (auto simp: send_next_frame_def all_frames_sent_def bind_eq_Some_conv)
  let ?k = "frame_count c + 1"
  obtain r conn where r: "q_stream_send (recording q) (?k * 4 + 1) (replicate (frame_size c) 0) True (mc_conn c) = (r, conn)" by (meson surj_pair)
  define v where "v = (case r of Inr n \<Rightarrow> n | Inl _ \<Rightarrow> 0)"
  from recorded_call [OF q r] have calls: "snd conn = calls_of c @ [\<lparr>sc_stream = ?k * 4 + 1, sc_body = replicate (frame_size c) 0, sc_answer = r\<rparr>]"
    and v: "v \<le> frame_size c" by (auto simp: calls_of_def v_def split: sum.splits)
  have c': "mc_conn c' = conn" "frame_count c' = ?k" "frame_size c' = frame_size c" "request_frames c' = request_frames c"
    "ss_bytes_sent (mc_stats c') = ss_bytes_sent (mc_stats c) + v"
    "partial_sent c' = (if r = Inl OtherError \<or> v = frame_size c then partial_sent c
       else (partial_sent c)(?k * 4 + 1 \<mapsto> frame_size c - v))"
    using eq lt r v
    by (auto simp: send_next_frame_def all_frames_sent_def bind_eq_Some_conv bytes_sent_def v_def Let_def
        split: sum.splits quiche_error.splits)
  have "accounted c'"
    by (rule accounted_first_call [OF ok refl _ v_def v c'(2,3,5,6)]) (use calls c'(1) in \<open>simp add: calls_of_def\<close>)
  with c'(2,4) lt show ?thesis by simp
qed

lemma handle_writable_accounted:
  assumes q: "takes_within q" and ok: "accounted c" and eq: "handle_writable (recording q) s c = Some c'"
  shows "accounted c' \<and> frame_count c' = frame_count c \<and> request_frames c' = request_frames c"
proof (cases "partial_sent c s")
  case None
  with eq ok show ?thesis by (simp add: handle_writable_def)
next
  case (Some n)
  obtain r conn where r: "q_stream_send (recording q) s (replicate n 0) True (mc_conn c) = (r, conn)" by (meson surj_pair)
  define v where "v = (case r of Inr n \<Rightarrow> n | Inl _ \<Rightarrow> 0)"
  from recorded_call [OF q r] have calls: "snd conn = calls_of c @ [\<lparr>sc_stream = s, sc_body = replicate n 0, sc_answer = r\<rparr>]"
    and v: "v \<le> n" by (auto simp: calls_of_def v_def split: sum.splits)
  have c': "r \<noteq> Inl OtherError" "c' = c\<lparr>mc_conn := conn, partial_sent := (partial_sent c)(s := (if n - v = 0 then None else Some (n - v))),
      mc_stats := bytes_sent v (mc_stats c)\<rparr>"
    using eq Some r
    by (auto simp: handle_writable_def v_def bind_eq_Some_conv Let_def split: sum.splits quiche_error.splits)
  have "accounted c'"
    by (rule accounted_later_call [OF ok Some _ v_def v c'(1)])
      (use calls in \<open>simp_all add: c'(2) calls_of_def bytes_sent_def\<close>)
  with c'(2) show ?thesis by simp
qed

lemma handle_new_request_accounted:
  assumes q: "takes_within q" and ok: "accounted c" and le: "frame_count c \<le> request_frames c"
    and eq: "handle_new_request (recording q) t wall now s buf c = Some c'"
  shows "accounted c' \<and> frame_count c' \<le> request_frames c'"
proof (cases "length buf > 5 \<and> take 5 buf = GetN")
  case True
  with eq obtain n where
    "send_next_frame (recording q) wall now (set_request_frames n (c\<lparr>mc_stats := request_recved t (mc_stats c)\<rparr>)) = Some c'"
    by (auto simp: handle_new_request_def Let_def bind_eq_Some_conv)
  moreover have "accounted (set_request_frames n (c\<lparr>mc_stats := request_recved t (mc_stats c)\<rparr>))"
    by (rule accounted_same [OF ok]) (simp_all add: set_request_frames_def request_recved_def calls_of_def)
  ultimately show ?thesis using send_next_frame_accounted [OF q] by blast
next
  case False
  obtain r conn where r: "q_stream_send (recording q) s not_found True (mc_conn c) = (r, conn)" by (meson surj_pair)
  from recorded_call [OF q r] have calls: "snd conn = calls_of c @ [\<lparr>sc_stream = s, sc_body = not_found, sc_answer = r\<rparr>]"
    by (simp add: calls_of_def)
  have c': "mc_conn c' = conn" "frame_count c' = frame_count c" "frame_size c' = frame_size c" "partial_sent c' = partial_sent c"
    "ss_bytes_sent (mc_stats c') = ss_bytes_sent (mc_stats c) + (case r of Inr n \<Rightarrow> n | Inl _ \<Rightarrow> 0)" "request_frames c' = request_frames c"
    using eq r False
    by (auto simp: handle_new_request_def Let_def bind_eq_Some_conv bytes_sent_def request_recved_def split: sum.splits quiche_error.splits)
  have "accounted c'"
    by (rule accounted_answer_call [OF ok _ c'(2-5)]) (use calls c'(1) in \<open>simp add: calls_of_def\<close>)
  with c'(2,6) le show ?thesis by simp
qed

lemma recorded_run_ok:
  assumes "recorded_run q c" and q: "takes_within q"
  shows "accounted c \<and> frame_count c \<le> request_frames c"
  using assms(1)
proof (induction rule: recorded_run.induct)
  case (start conn clock since fsize)
  show ?case by (simp add: media_client_new_def accounted_def server_stats_new_def calls_of_def frame_calls_def)
next
  case (request c t wall now s buf c')
  then show ?case using handle_new_request_accounted [OF q] by blast
next
  case (timeout c t wall now c')
  define d where "d = c\<lparr>mc_conn := q_on_timeout (recording q) (mc_conn c)\<rparr>"
  have "calls_of d = calls_of c" by (cases "mc_conn c") (simp add: d_def calls_of_def recording_def)
  then have d: "accounted d"
    by (rule accounted_same [of c, rotated]) (use timeout.IH in \<open>simp_all add: d_def\<close>)
  from timeout(2) have "send_next_frame (recording q) wall now d = Some c' \<or> c' = d"
    unfolding media_on_timeout_def Let_def d_def by (auto simp: bind_eq_Some_conv split: if_splits)
  with d send_next_frame_accounted [OF q d] timeout.IH show ?case by (auto simp: d_def)
next
  case (writable c s c')
  with handle_writable_accounted [OF q _ writable(2)] show ?case by simp
next
  case (library c conn)
  have "accounted (c\<lparr>mc_conn := (conn, calls_of c)\<rparr>)"
    by (rule accounted_same [of c]) (use library.IH in \<open>simp_all add: calls_of_def\<close>)
  with library.IH show ?case by simp
qed

section \<open>The request of the client\<close>

lemma get_n_request_roundtrip_eq:
  assumes "n < 2 ^ 64"
  shows "handle_new_request q t wall now s (get_n_request n) c =
    send_next_frame q wall now (set_request_frames n (c\<lparr>mc_stats := request_recved t (mc_stats c)\<rparr>))"
proof -
  have "length (get_n_request n) > 5" "take 5 (get_n_request n) = GetN" "drop 5 (get_n_request n) = decimal n @ [0x0d, 0x0a]"
    by (simp_all add: get_n_request_def GetN_def)
  moreover have "utf8_valid (decimal n @ [0x0d, 0x0a])" by (simp add: decimal_utf8)
  ultimately show ?thesis using trim_decimal [of n] parse_decimal [OF assms] by (simp add: handle_new_request_def Let_def)
qed

section \<open>Properties\<close>

text \<open>
  C39. The media server accounts for every byte, whatever the client asks for, in whatever order, and whatever the library
  answers, as long as the number it returns for a write is at most that of the bytes it was given. The statistics count
  exactly the bytes that were taken, answers 404 included. Never more frames are begun than were asked for, and for each frame begun
  there is one of two cases. Either its first write failed: then this was the only write for the frame, which is given up. Or
  every write succeeded or found no capacity: then the first offered the whole frame, every later one exactly what the
  writes before it left over, and the bytes taken and those left over in \<open>partial_sent\<close> add up to the frame size. Nothing is
  written for other frames, and what is left over belongs to the stream of a frame begun.
\<close>

theorem media_frames_conserved:
  assumes "recorded_run q c" and "takes_within q"
  shows "ss_bytes_sent (mc_stats c) = bytes_taken (calls_of c) \<and> frame_count c \<le> request_frames c \<and>
    (\<forall>k. 1 \<le> k \<and> k \<le> frame_count c \<longrightarrow> frame_given_up c k \<or>
       (frame_under_way c k \<and> bytes_taken (frame_calls k (calls_of c)) + left_of c (k * 4 + 1) = frame_size c)) \<and>
    (\<forall>k. k = 0 \<or> frame_count c < k \<longrightarrow> frame_calls k (calls_of c) = []) \<and>
    (\<forall>s r. partial_sent c s = Some r \<longrightarrow> 0 < r \<and> r \<le> frame_size c \<and> (\<exists>k. s = k * 4 + 1 \<and> 1 \<le> k \<and> k \<le> frame_count c))"
proof -
  have ok: "accounted c" and le: "frame_count c \<le> request_frames c" using recorded_run_ok [OF assms] by auto
  have "bytes_taken (frame_calls k (calls_of c)) + left_of c (k * 4 + 1) = frame_size c" if "frame_under_way c k" for k
    using that left_after_taken by (simp add: frame_under_way_def)
  with accounted_frame [OF ok] have "frame_given_up c k \<or>
      (frame_under_way c k \<and> bytes_taken (frame_calls k (calls_of c)) + left_of c (k * 4 + 1) = frame_size c)"
    if "1 \<le> k" "k \<le> frame_count c" for k using that by blast
  moreover have "frame_calls k (calls_of c) = []" if "k = 0 \<or> frame_count c < k" for k
    using accounted_outside(1) [OF ok, of k] that by auto
  moreover have "ss_bytes_sent (mc_stats c) = bytes_taken (calls_of c)" using ok by (simp add: accounted_def)
  ultimately show ?thesis using le accounted_stream [OF ok] by blast
qed

text \<open>A connection that takes three bytes of each call; the client asks for two frames of five bytes.\<close>

definition slow_quiche :: "unit quiche" where
  "slow_quiche = \<lparr>q_stream_send = (\<lambda>s body fin c. (Inr (min 3 (length body)), c)), q_timeout = (\<lambda>c. None), q_on_timeout = id\<rparr>"

lemma slow_quiche_run:
  "\<exists>c. recorded_run slow_quiche c \<and> frame_count c = 1 \<and> frame_size c = 5 \<and> partial_sent c 5 = Some 2"
proof -
  let ?c = "media_client_new ((), []) 0 0 5"
  have "\<exists>c'. handle_new_request (recording slow_quiche) 1 1 1 0 (get_n_request 2) ?c = Some c' \<and> frame_count c' = 1 \<and>
      frame_size c' = 5 \<and> partial_sent c' 5 = Some 2"
    unfolding get_n_request_roundtrip_eq [of 2, simplified]
    by (simp add: send_next_frame_def all_frames_sent_def media_client_new_def set_request_frames_def
        request_recved_def peer_elapsed_def recording_def slow_quiche_def Let_def)
  then obtain c' where c': "handle_new_request (recording slow_quiche) 1 1 1 0 (get_n_request 2) ?c = Some c'"
    "frame_count c' = 1" "frame_size c' = 5" "partial_sent c' 5 = Some 2" by blast
  from recorded_run.request [OF recorded_run.start c'(1)] c'(2-) show ?thesis by blast
qed

theorem media_frames_conserved_witness:
  "\<exists>c. recorded_run slow_quiche c \<and> ss_bytes_sent (mc_stats c) = bytes_taken (calls_of c) \<and> frame_under_way c 1 \<and>
    bytes_taken (frame_calls 1 (calls_of c)) + 2 = 5"
proof -
  obtain c where c: "recorded_run slow_quiche c" "frame_count c = 1" "frame_size c = 5" "partial_sent c 5 = Some 2"
    using slow_quiche_run by blast
  have "takes_within slow_quiche" by (simp add: takes_within_def slow_quiche_def)
  from media_frames_conserved [OF c(1) this] c(2) have p: "ss_bytes_sent (mc_stats c) = bytes_taken (calls_of c)"
    "frame_given_up c 1 \<or> frame_under_way c 1 \<and> bytes_taken (frame_calls 1 (calls_of c)) + left_of c (1 * 4 + 1) = frame_size c"
    by (blast, metis le_refl)
  have "\<not> frame_given_up c 1" "left_of c (1 * 4 + 1) = 2" using c(4) by (simp_all add: frame_given_up_def left_of_def)
  with p c show ?thesis by auto
qed

text \<open>
  The server understands its client: the request the client prints for \<open>n\<close> frames is parsed to \<open>n\<close>,
  whatever \<open>n\<close> of 64 bits, and starts the first of \<open>n\<close> frames.
\<close>

theorem get_n_request_roundtrip:
  assumes "n < 2 ^ 64"
  shows "handle_new_request q t wall now s (get_n_request n) c =
    send_next_frame q wall now (set_request_frames n (c\<lparr>mc_stats := request_recved t (mc_stats c)\<rparr>))"
  by (rule get_n_request_roundtrip_eq [OF assms])

theorem get_n_request_roundtrip_witness:
  "handle_new_request slow_quiche 1 1 1 0 (get_n_request 300) (media_client_new () 0 0 5) =
    send_next_frame slow_quiche 1 1 (set_request_frames 300 ((media_client_new () 0 0 5)\<lparr>mc_stats := request_recved 1 server_stats_new\<rparr>))"
  using get_n_request_roundtrip [of 300 slow_quiche 1 1 1 0 "media_client_new () 0 0 5"] by (simp add: media_client_new_def)

lemma validate_token_eq: "validate_token src token = Some dcid \<longleftrightarrow> token = mint_token dcid src"
proof
  assume v: "validate_token src token = Some dcid"
  then have "take 6 token = quiche_tag" "take (length (ip_octets src)) (drop 6 token) = ip_octets src"
    "dcid = drop (length (ip_octets src)) (drop 6 token)"
    by (auto simp: validate_token_def Let_def split: if_splits)
  then show "token = mint_token dcid src" unfolding mint_token_def by (metis append_take_drop_id)
next
  assume "token = mint_token dcid src"
  then show "validate_token src token = Some dcid" by (simp add: mint_token_def validate_token_def quiche_tag_def Let_def)
qed

text \<open>
  A retry token is accepted from an address exactly if it is the token minted for that address, and the
  original connection ID is read back from it.
\<close>

theorem validate_token_iff: "validate_token src token = Some dcid \<longleftrightarrow> token = mint_token dcid src"
  by (rule validate_token_eq)

text \<open>A second request for fewer frames than were sent already stops the server.\<close>

lemma smaller_request_panics:
  assumes "n < 2 ^ 64" and "n < frame_count c"
  shows "handle_new_request q t wall now s (get_n_request n) c = None"
  unfolding get_n_request_roundtrip_eq [OF assms(1)] using assms(2)
  by (simp add: send_next_frame_def all_frames_sent_def set_request_frames_def)

end
