(* ===== verification/Rtc_Accept.thy ===== *)
theory Rtc_Accept
  imports Rtc_Server
begin

text \<open>
  \<open>apps/rtc/src/bin/rtc_server.rs\<close>, one datagram: which clients the server admits and what it does with a packet of one of
  them. The library is a parameter again, \<open>quiche_server\<close>; its connection identifiers are keyed by an HMAC, a
  function here. The result of \<open>send_to\<close> is an argument.
\<close>

section \<open>Model\<close>

definition MAX_CONN_ID_LEN :: nat where
  "MAX_CONN_ID_LEN = 20"

record quiche_header =
  qh_initial :: bool
  qh_version :: u32
  qh_dcid :: bytes
  qh_scid :: bytes
  qh_token :: "bytes option"

record 'c quiche_server =
  qs_from_slice :: "bytes \<Rightarrow> quiche_header option"
  qs_version_is_supported :: "u32 \<Rightarrow> bool"
  qs_sign :: "bytes \<Rightarrow> bytes"
  qs_negotiate_version :: "bytes \<Rightarrow> bytes \<Rightarrow> bytes option"
  qs_retry :: "bytes \<Rightarrow> bytes \<Rightarrow> bytes \<Rightarrow> bytes \<Rightarrow> u32 \<Rightarrow> bytes option"
  qs_accept :: "bytes \<Rightarrow> bytes option \<Rightarrow> socket_addr \<Rightarrow> 'c option"
  qs_recv :: "bytes \<Rightarrow> socket_addr \<Rightarrow> 'c \<Rightarrow> (unit option) \<times> 'c"
  qs_is_in_early_data :: "'c \<Rightarrow> bool"
  qs_is_established :: "'c \<Rightarrow> bool"
  qs_writable :: "'c \<Rightarrow> nat list"
  qs_readable :: "'c \<Rightarrow> nat list"
  qs_stream_recv :: "nat \<Rightarrow> 'c \<Rightarrow> bytes option \<times> 'c"
  qs_is_closed :: "'c \<Rightarrow> bool"
  qs_send :: "'c \<Rightarrow> (quiche_error + bytes \<times> socket_addr) \<times> 'c"
  qs_close :: "'c \<Rightarrow> 'c"

type_synonym 'c client_map = "bytes \<rightharpoonup> 'c media_client"

text \<open>What becomes of a packet: dropped, answered with a datagram, or handed to a client, old or new.\<close>

datatype 'c admission = Dropped | Answered bytes | Known bytes | Admitted bytes 'c

definition admit :: "'c quiche_server \<Rightarrow> quiche_header \<Rightarrow> socket_addr \<Rightarrow> 'c client_map \<Rightarrow> 'c admission option" where
  "admit qs hdr from_addr clients = do {
     let conn_id = take MAX_CONN_ID_LEN (qs_sign qs (qh_dcid hdr));
     rust_assert (length (qs_sign qs (qh_dcid hdr)) \<ge> MAX_CONN_ID_LEN);
     if clients (qh_dcid hdr) = None \<and> clients conn_id = None then
       (if \<not> qh_initial hdr then Some Dropped
        else if \<not> qs_version_is_supported qs (qh_version hdr) then
          map_option Answered (qs_negotiate_version qs (qh_scid hdr) (qh_dcid hdr))
        else do {
          token \<leftarrow> qh_token hdr;
          if token = [] then
            map_option Answered (qs_retry qs (qh_scid hdr) (qh_dcid hdr) conn_id (mint_token (qh_dcid hdr) from_addr) (qh_version hdr))
          else (case validate_token from_addr token of
              None \<Rightarrow> Some Dropped
            | Some odcid \<Rightarrow>
                if length conn_id \<noteq> length (qh_dcid hdr) then Some Dropped
                else map_option (Admitted (qh_dcid hdr)) (qs_accept qs (qh_dcid hdr) (Some odcid) from_addr)) })
     else Some (Known (if clients (qh_dcid hdr) \<noteq> None then qh_dcid hdr else conn_id)) }"

text \<open>
  \<open>while let Ok((read, fin)) = stream_recv(s) { handle_new_request }\<close>; a loop that does not end is \<open>None\<close>.
  \<open>clk i\<close> are the readings of the clocks in round \<open>i\<close>.
\<close>

partial_function (option) read_stream ::
    "'c quiche_server \<Rightarrow> 'c quiche \<Rightarrow> (nat \<Rightarrow> instant \<times> instant \<times> instant) \<Rightarrow> nat \<Rightarrow> nat \<Rightarrow> 'c media_client \<Rightarrow> 'c media_client option" where
  "read_stream qs q clk i s c = (case qs_stream_recv qs s (mc_conn c) of
       (None, conn) \<Rightarrow> Some (c\<lparr>mc_conn := conn\<rparr>)
     | (Some buf, conn) \<Rightarrow> do {
         c' \<leftarrow> handle_new_request q (fst (clk i)) (fst (snd (clk i))) (snd (snd (clk i))) s buf (c\<lparr>mc_conn := conn\<rparr>);
         read_stream qs q clk (i + 1) s c' })"

declare read_stream.simps [code]

definition serve ::
    "'c quiche_server \<Rightarrow> 'c quiche \<Rightarrow> (nat \<Rightarrow> instant \<times> instant \<times> instant) \<Rightarrow> bytes \<Rightarrow> socket_addr \<Rightarrow> 'c media_client \<Rightarrow> 'c media_client option" where
  "serve qs q clk buf from_addr c0 = (case qs_recv qs buf from_addr (mc_conn c0) of
       (None, conn) \<Rightarrow> Some (c0\<lparr>mc_conn := conn\<rparr>)
     | (Some _, conn) \<Rightarrow> (let c = c0\<lparr>mc_conn := conn\<rparr> in
         if qs_is_in_early_data qs conn \<or> qs_is_established qs conn then do {
           c1 \<leftarrow> foldO (handle_writable q) (qs_writable qs conn) c;
           foldO (\<lambda>s d. do { rust_assert (s = HTTP_REQ_STREAM_ID); read_stream qs q clk 0 s d }) (qs_readable qs (mc_conn c1)) c1 }
         else Some c))"

text \<open>
  One datagram of the read loop. The flag is \<open>False\<close> when the loop is left because the answer would block; the datagrams
  are those sent.
\<close>

datatype send_outcome = Sent | SendWouldBlock | SendFailed

definition rtc_packet ::
    "'c quiche_server \<Rightarrow> 'c quiche \<Rightarrow> send_outcome \<Rightarrow> instant \<Rightarrow> instant \<Rightarrow> nat \<Rightarrow> (nat \<Rightarrow> instant \<times> instant \<times> instant) \<Rightarrow> bytes \<Rightarrow> socket_addr \<Rightarrow>
     'c client_map \<Rightarrow> (bool \<times> (bytes \<times> socket_addr) list \<times> 'c client_map) option" where
  "rtc_packet qs q outcome clock since fsize clk buf from_addr clients = (case qs_from_slice qs buf of
       None \<Rightarrow> Some (True, [], clients)
     | Some hdr \<Rightarrow> do {
         a \<leftarrow> admit qs hdr from_addr clients;
         (case a of
            Dropped \<Rightarrow> Some (True, [], clients)
          | Answered out \<Rightarrow> (case outcome of
                Sent \<Rightarrow> Some (True, [(out, from_addr)], clients)
              | SendWouldBlock \<Rightarrow> Some (False, [], clients)
              | SendFailed \<Rightarrow> None)
          | Known k \<Rightarrow> do {
              c \<leftarrow> clients k;
              c' \<leftarrow> serve qs q clk buf from_addr c;
              Some (True, [], clients(k \<mapsto> c')) }
          | Admitted k conn \<Rightarrow> do {
              c' \<leftarrow> serve qs q clk buf from_addr (media_client_new conn clock since fsize);
              Some (True, [], clients(k \<mapsto> c')) }) })"

section \<open>Property\<close>

lemma admitted_token:
  assumes "admit qs hdr from_addr clients = Some (Admitted k conn)"
  shows "k = qh_dcid hdr \<and> qh_initial hdr \<and> qs_version_is_supported qs (qh_version hdr) \<and> length k = MAX_CONN_ID_LEN \<and>
    (\<exists>odcid. qh_token hdr = Some (mint_token odcid from_addr))"
proof -
  from assms obtain token odcid where t: "qh_token hdr = Some token" "validate_token from_addr token = Some odcid"
    and r: "k = qh_dcid hdr" "qh_initial hdr" "qs_version_is_supported qs (qh_version hdr)" "length k = MAX_CONN_ID_LEN"
    by (auto simp: admit_def Let_def bind_eq_Some_conv split: if_splits option.splits)
  then show ?thesis using validate_token_eq [of from_addr token odcid] by auto
qed

text \<open>
  C40. The server keeps no state for an address it has not validated: a client is added only for an Initial packet of a
  supported version that carries a token minted for the address it comes from, under a connection ID of
  full length, and at most one per packet. A packet that is answered, with a version negotiation or a
  retry, is answered with one datagram to its source and changes no client.
\<close>

theorem rtc_packet_admits_validated:
  assumes "rtc_packet qs q outcome clock since fsize clk buf from_addr clients = Some (go, out, clients')"
  shows "(\<forall>k. clients k = None \<and> clients' k \<noteq> None \<longrightarrow> (\<exists>hdr odcid. qs_from_slice qs buf = Some hdr \<and> qh_initial hdr \<and>
      qs_version_is_supported qs (qh_version hdr) \<and> qh_token hdr = Some (mint_token odcid from_addr) \<and> k = qh_dcid hdr \<and>
      length k = MAX_CONN_ID_LEN)) \<and>
    (out \<noteq> [] \<longrightarrow> clients' = clients \<and> (\<exists>d. out = [(d, from_addr)]))"
proof (cases "qs_from_slice qs buf")
  case None
  with assms show ?thesis by (auto simp: rtc_packet_def)
next
  case (Some hdr)
  with assms obtain a where a: "admit qs hdr from_addr clients = Some a" by (auto simp: rtc_packet_def bind_eq_Some_conv)
  show ?thesis
  proof (cases a)
    case (Admitted k conn)
    with assms Some a have out: "out = []" "\<exists>c'. clients' = clients(k \<mapsto> c')"
      by (auto simp: rtc_packet_def bind_eq_Some_conv)
    from a Admitted admitted_token [of qs hdr from_addr clients k conn] have "k = qh_dcid hdr" "qh_initial hdr"
      "qs_version_is_supported qs (qh_version hdr)" "length k = MAX_CONN_ID_LEN" "\<exists>odcid. qh_token hdr = Some (mint_token odcid from_addr)"
      by auto
    with out Some show ?thesis by (auto split: if_splits)
  next
    case (Known k)
    with assms Some a obtain c c' where "clients k = Some c" "clients' = clients(k \<mapsto> c')" "out = []"
      by (auto simp: rtc_packet_def bind_eq_Some_conv)
    then show ?thesis by (auto split: if_splits)
  qed (use assms Some a in \<open>auto simp: rtc_packet_def split: send_outcome.splits\<close>)
qed

text \<open>A library that sees in every packet an Initial packet with a token for the address 1.2.3.4.\<close>

definition sample_header :: quiche_header where
  "sample_header = \<lparr>qh_initial = True, qh_version = 1, qh_dcid = replicate 20 7, qh_scid = [], qh_token = Some (mint_token [9] (V4 0x01020304 443))\<rparr>"

definition sample_server :: "unit quiche_server" where
  "sample_server = \<lparr>qs_from_slice = (\<lambda>_. Some sample_header), qs_version_is_supported = (\<lambda>v. v = 1), qs_sign = (\<lambda>_. replicate 32 0),
     qs_negotiate_version = (\<lambda>_ _. Some []), qs_retry = (\<lambda>_ _ _ _ _. Some []), qs_accept = (\<lambda>_ _ _. Some ()),
     qs_recv = (\<lambda>_ _ _. (None, ())), qs_is_in_early_data = (\<lambda>_. False), qs_is_established = (\<lambda>_. False),
     qs_writable = (\<lambda>_. []), qs_readable = (\<lambda>_. []), qs_stream_recv = (\<lambda>_ _. (None, ())), qs_is_closed = (\<lambda>_. False),
     qs_send = (\<lambda>_. (Inl Done, ())), qs_close = id\<rparr>"

lemma sample_server_admits:
  "\<exists>clients'. rtc_packet sample_server slow_quiche Sent 0 0 5 (\<lambda>_. (0, 0, 0)) [] (V4 0x01020304 443) Map.empty = Some (True, [], clients') \<and>
     clients' (replicate 20 7) \<noteq> None"
proof -
  have "admit sample_server sample_header (V4 0x01020304 443) Map.empty = Some (Admitted (replicate 20 7) ())"
    using validate_token_eq [of "V4 0x01020304 443" "mint_token [9] (V4 0x01020304 443)" "[9]"]
    by (simp add: admit_def Let_def sample_server_def sample_header_def MAX_CONN_ID_LEN_def) (simp add: mint_token_def quiche_tag_def)
  then show ?thesis by (simp add: rtc_packet_def sample_server_def serve_def)
qed

theorem rtc_packet_admits_validated_witness:
  "\<exists>clients'. rtc_packet sample_server slow_quiche Sent 0 0 5 (\<lambda>_. (0, 0, 0)) [] (V4 0x01020304 443) Map.empty = Some (True, [], clients') \<and>
     (\<exists>odcid. qh_token sample_header = Some (mint_token odcid (V4 0x01020304 443)))"
proof -
  obtain clients' where c: "rtc_packet sample_server slow_quiche Sent 0 0 5 (\<lambda>_. (0, 0, 0)) [] (V4 0x01020304 443) Map.empty = Some (True, [], clients')"
    "clients' (replicate 20 7) \<noteq> None" using sample_server_admits by blast
  from rtc_packet_admits_validated [OF c(1)] c(2) have "\<exists>hdr odcid. qs_from_slice sample_server [] = Some hdr \<and> qh_token hdr = Some (mint_token odcid (V4 0x01020304 443))"
    by (metis (no_types, lifting))
  then have "\<exists>odcid. qh_token sample_header = Some (mint_token odcid (V4 0x01020304 443))" by (simp add: sample_server_def)
  with c(1) show ?thesis by blast
qed

end
