(* ===== verification/Rtc_Loop.thy ===== *)
theory Rtc_Loop
  imports Rtc_Accept
begin

text \<open>
  The event loop of \<open>apps/rtc/src/bin/rtc_server.rs\<close>: a round waits for the earliest timeout, handles the timeouts or reads
  every datagram, flushes the packets of every client to the socket and collects the closed connections. A \<open>HashMap\<close>
  is iterated in an order of its own, an argument here; what the operating system answers is one too. \<open>None\<close> is a
  panic, which ends the server for all clients.
\<close>

section \<open>Model\<close>

definition for_each ::
    "bytes list \<Rightarrow> (bytes \<Rightarrow> 'c media_client \<Rightarrow> 'c media_client option) \<Rightarrow> 'c client_map \<Rightarrow> 'c client_map option" where
  "for_each order f = foldO (\<lambda>k m. case m k of None \<Rightarrow> Some m | Some c \<Rightarrow> map_option (\<lambda>c'. m(k \<mapsto> c')) (f k c)) order"

definition rtc_poll_timeout :: "'c quiche \<Rightarrow> (bytes \<Rightarrow> instant) \<Rightarrow> bytes list \<Rightarrow> 'c client_map \<Rightarrow> duration option option" where
  "rtc_poll_timeout q clk order clients = do {
     ts \<leftarrow> mapO (\<lambda>k. case clients k of None \<Rightarrow> Some None | Some c \<Rightarrow> media_timeout q (clk k) c) order;
     let ds = List.map_filter id ts;
     Some (if ds = [] then None else Some (Min (set ds))) }"

definition rtc_timeout ::
    "'c quiche \<Rightarrow> (bytes \<Rightarrow> instant \<times> instant \<times> instant) \<Rightarrow> bytes list \<Rightarrow> 'c client_map \<Rightarrow> 'c client_map option" where
  "rtc_timeout q clk order =
     for_each order (\<lambda>k. media_on_timeout q (fst (clk k)) (fst (snd (clk k))) (snd (snd (clk k))))"

text \<open>A datagram read from the socket, what becomes of an answer to it, and the readings of the clocks.\<close>

record rtc_datagram =
  rd_buf :: bytes
  rd_from :: socket_addr
  rd_outcome :: send_outcome
  rd_clock :: instant
  rd_clk :: "nat \<Rightarrow> instant \<times> instant \<times> instant"

text \<open>The list ends when \<open>recv_from\<close> would block; any other error of it panics.\<close>

fun rtc_read_loop ::
    "'c quiche_server \<Rightarrow> 'c quiche \<Rightarrow> instant \<Rightarrow> nat \<Rightarrow> bool \<Rightarrow> rtc_datagram list \<Rightarrow> 'c client_map \<Rightarrow> ((bytes \<times> socket_addr) list \<times> 'c client_map) option" where
  "rtc_read_loop qs q since fsize recv_fails [] clients = (if recv_fails then None else Some ([], clients))"
| "rtc_read_loop qs q since fsize recv_fails (d # ds) clients = do {
     (go, out, clients') \<leftarrow> rtc_packet qs q (rd_outcome d) (rd_clock d) since fsize (rd_clk d) (rd_buf d) (rd_from d) clients;
     if go then do { (out', clients'') \<leftarrow> rtc_read_loop qs q since fsize recv_fails ds clients'; Some (out @ out', clients'') }
     else Some (out, clients') }"

text \<open>The packets of one connection, until the library has none or the socket would block.\<close>

partial_function (option) flush_conn ::
    "'c quiche_server \<Rightarrow> (nat \<Rightarrow> send_outcome) \<Rightarrow> nat \<Rightarrow> (bytes \<times> socket_addr) list \<Rightarrow> 'c \<Rightarrow> ((bytes \<times> socket_addr) list \<times> 'c) option" where
  "flush_conn qs outcome i sent c = (case qs_send qs c of
       (Inl e, c') \<Rightarrow> Some (sent, if e = Done then c' else qs_close qs c')
     | (Inr d, c') \<Rightarrow> (case outcome i of
           Sent \<Rightarrow> flush_conn qs outcome (i + 1) (sent @ [d]) c'
         | SendWouldBlock \<Rightarrow> Some (sent, c')
         | SendFailed \<Rightarrow> None))"

declare flush_conn.simps [code]

definition rtc_flush ::
    "'c quiche_server \<Rightarrow> (bytes \<Rightarrow> nat \<Rightarrow> send_outcome) \<Rightarrow> bytes list \<Rightarrow> 'c client_map \<Rightarrow> ((bytes \<times> socket_addr) list \<times> 'c client_map) option" where
  "rtc_flush qs outcome order clients = foldO (\<lambda>k (sent, m). case m k of
       None \<Rightarrow> Some (sent, m)
     | Some c \<Rightarrow> do { (sent', conn) \<leftarrow> flush_conn qs (outcome k) 0 sent (mc_conn c); Some (sent', m(k \<mapsto> c\<lparr>mc_conn := conn\<rparr>)) }) order ([], clients)"

text \<open>Closed connections are collected; their statistics are printed, which unwraps the time of their request.\<close>

definition rtc_collect :: "'c quiche_server \<Rightarrow> instant \<Rightarrow> bytes list \<Rightarrow> 'c client_map \<Rightarrow> 'c client_map option" where
  "rtc_collect qs now order = foldO (\<lambda>k m. case m k of
       None \<Rightarrow> Some m
     | Some c \<Rightarrow> if qs_is_closed qs (mc_conn c) then do { _ \<leftarrow> server_print_stats now (mc_stats c); Some (m(k := None)) } else Some m) order"

text \<open>What one round is given: whether the poll timed out, and what it reads.\<close>

record rtc_input =
  ri_timed_out :: bool
  ri_clk :: "bytes \<Rightarrow> instant \<times> instant \<times> instant"
  ri_datagrams :: "rtc_datagram list"
  ri_recv_fails :: bool

definition rtc_read ::
    "'c quiche_server \<Rightarrow> 'c quiche \<Rightarrow> instant \<Rightarrow> nat \<Rightarrow> rtc_input \<Rightarrow> bytes list \<Rightarrow> 'c client_map \<Rightarrow> ((bytes \<times> socket_addr) list \<times> 'c client_map) option" where
  "rtc_read qs q since fsize inp order clients = do {
     _ \<leftarrow> rtc_poll_timeout q (\<lambda>k. fst (ri_clk inp k)) order clients;
     if ri_timed_out inp then map_option (Pair []) (rtc_timeout q (ri_clk inp) order clients)
     else rtc_read_loop qs q since fsize (ri_recv_fails inp) (ri_datagrams inp) clients }"

definition rtc_write ::
    "'c quiche_server \<Rightarrow> (bytes \<Rightarrow> nat \<Rightarrow> send_outcome) \<Rightarrow> instant \<Rightarrow> bytes list \<Rightarrow> 'c client_map \<Rightarrow> ((bytes \<times> socket_addr) list \<times> 'c client_map) option" where
  "rtc_write qs outcome now order clients = do {
     (sent, clients') \<leftarrow> rtc_flush qs outcome order clients;
     clients'' \<leftarrow> rtc_collect qs now order clients';
     Some (sent, clients'') }"

inductive rtc_run :: "'c quiche_server \<Rightarrow> 'c quiche \<Rightarrow> instant \<Rightarrow> nat \<Rightarrow> 'c client_map \<Rightarrow> bool"
  for qs :: "'c quiche_server" and q :: "'c quiche" and since :: instant and fsize :: nat where
  start: "rtc_run qs q since fsize Map.empty"
| round: "rtc_run qs q since fsize m \<Longrightarrow> set before = dom m \<Longrightarrow> rtc_read qs q since fsize inp before m = Some (out, m1) \<Longrightarrow>
    set after = dom m1 \<Longrightarrow> rtc_write qs outcome now after m1 = Some (out', m2) \<Longrightarrow> rtc_run qs q since fsize m2"

section \<open>Invariants of the clients\<close>

text \<open>A datagram changes no client, one that is known, or adds the one it is admitted for.\<close>

lemma packet_cases:
  assumes "rtc_packet qs q outcome clock since fsize clk buf a m = Some (go, out, m')"
  obtains "m' = m"
  | k c c' where "m k = Some c" "serve qs q clk buf a c = Some c'" "m' = m(k \<mapsto> c')"
  | hdr k conn c' where "admit qs hdr a m = Some (Admitted k conn)"
      "serve qs q clk buf a (media_client_new conn clock since fsize) = Some c'" "m' = m(k \<mapsto> c')"
proof (cases "qs_from_slice qs buf")
  case (Some hdr)
  with assms obtain ad where ad: "admit qs hdr a m = Some ad" by (auto simp: rtc_packet_def bind_eq_Some_conv)
  show ?thesis
  proof (cases ad)
    case (Known k)
    with assms Some ad obtain c c' where "m k = Some c" "serve qs q clk buf a c = Some c'" "m' = m(k \<mapsto> c')"
      by (auto simp: rtc_packet_def bind_eq_Some_conv)
    then show ?thesis by (rule that(2))
  next
    case (Admitted k conn)
    with assms Some ad obtain c' where "serve qs q clk buf a (media_client_new conn clock since fsize) = Some c'" "m' = m(k \<mapsto> c')"
      by (auto simp: rtc_packet_def bind_eq_Some_conv)
    with ad Admitted show ?thesis using that(3) by blast
  next
    case Dropped
    with assms Some ad have "m' = m" by (simp add: rtc_packet_def)
    then show ?thesis by (rule that(1))
  next
    case (Answered d)
    with assms Some ad have "m' = m" by (auto simp: rtc_packet_def split: send_outcome.splits)
    then show ?thesis by (rule that(1))
  qed
next
  case None
  with assms have "m' = m" by (simp add: rtc_packet_def)
  then show ?thesis by (rule that(1))
qed

definition all_clients :: "('c media_client \<Rightarrow> bool) \<Rightarrow> 'c client_map \<Rightarrow> bool" where
  "all_clients ok m \<longleftrightarrow> (\<forall>k c. m k = Some c \<longrightarrow> ok c)"

lemma all_clientsD: "all_clients ok m \<Longrightarrow> m k = Some c \<Longrightarrow> ok c"
  by (simp add: all_clients_def)

lemma all_clients_upd: "all_clients ok m \<Longrightarrow> ok c \<Longrightarrow> all_clients ok (m(k \<mapsto> c))"
  by (simp add: all_clients_def)

lemma all_clients_del: "all_clients ok m \<Longrightarrow> all_clients ok (m(k := None))"
  by (simp add: all_clients_def)

text \<open>What all operations on a client keep, a run of the server keeps for all its clients.\<close>

locale media_invariant =
  fixes q :: "'c quiche" and since :: instant and fsize :: nat and ok :: "'c media_client \<Rightarrow> bool"
  assumes fresh: "ok (media_client_new conn clock since fsize)"
    and conn: "ok c \<Longrightarrow> ok (c\<lparr>mc_conn := conn\<rparr>)"
    and request: "ok c \<Longrightarrow> handle_new_request q t wall now s buf c = Some c' \<Longrightarrow> ok c'"
    and timeout: "ok c \<Longrightarrow> media_on_timeout q t wall now c = Some c' \<Longrightarrow> ok c'"
    and writable: "ok c \<Longrightarrow> handle_writable q s c = Some c' \<Longrightarrow> ok c'"
begin

lemma read_stream_keeps:
  assumes "read_stream qs q clk i s c = Some c'" and "ok c"
  shows "ok c'"
proof -
  let ?P = "\<lambda>qs q' clk i s c c'. q' = q \<longrightarrow> ok c \<longrightarrow> ok c'"
  have "?P qs q clk i s c c'"
  proof (rule read_stream.raw_induct [where P = ?P, OF _ assms(1)], intro impI)
    fix rs and qs :: "'c quiche_server" and q' clk i s c c'
    assume IH: "\<And>qs q' clk i s c c'. rs qs q' clk i s c = Some c' \<Longrightarrow> ?P qs q' clk i s c c'" and q: "q' = q" and ok: "ok c"
      and body: "(case qs_stream_recv qs s (mc_conn c) of
          (None, conn) \<Rightarrow> Some (c\<lparr>mc_conn := conn\<rparr>)
        | (Some buf, conn) \<Rightarrow> do {
            c' \<leftarrow> handle_new_request q' (fst (clk i)) (fst (snd (clk i))) (snd (snd (clk i))) s buf (c\<lparr>mc_conn := conn\<rparr>);
            rs qs q' clk (i + 1) s c' }) = Some c'"
    obtain r d where r: "qs_stream_recv qs s (mc_conn c) = (r, d)" by fastforce
    show "ok c'"
    proof (cases r)
      case None
      with body r conn [OF ok, of d] show ?thesis by simp
    next
      case (Some buf)
      with body r q obtain e where "handle_new_request q (fst (clk i)) (fst (snd (clk i))) (snd (snd (clk i))) s buf (c\<lparr>mc_conn := d\<rparr>) = Some e"
        and "rs qs q clk (i + 1) s e = Some c'" by (auto simp: bind_eq_Some_conv)
      with IH request [OF conn [OF ok]] show ?thesis by blast
    qed
  qed
  with assms(2) show ?thesis by blast
qed

lemma serve_keeps:
  assumes "serve qs q clk buf a c = Some c'" and "ok c"
  shows "ok c'"
proof -
  have w: "ok d'" if "foldO (handle_writable q) ss d = Some d'" "ok d" for ss d d'
    using foldO_invariant [OF that(1), of ok] that(2) writable by blast
  have r: "ok d'" if "foldO (\<lambda>s d. do { rust_assert (s = HTTP_REQ_STREAM_ID); read_stream qs q clk 0 s d }) ss d = Some d'" "ok d" for ss d d'
    using foldO_invariant [OF that(1), of ok] that(2) read_stream_keeps by (fastforce simp: bind_eq_Some_conv)
  from assms show ?thesis
    by (auto simp: serve_def Let_def bind_eq_Some_conv split: prod.splits option.splits if_splits intro: conn dest!: w r)
qed

lemma packet_keeps:
  assumes eq: "rtc_packet qs q outcome clock since fsize clk buf a m = Some (go, out, m')" and m: "all_clients ok m"
  shows "all_clients ok m'"
  using eq
proof (cases rule: packet_cases)
  case (2 k c c')
  with all_clients_upd [OF m serve_keeps [OF 2(2) all_clientsD [OF m 2(1)]]] show ?thesis by simp
next
  case (3 hdr k conn c')
  with all_clients_upd [OF m serve_keeps [OF 3(2) fresh]] show ?thesis by simp
qed (simp add: m)

lemma read_loop_keeps:
  "rtc_read_loop qs q since fsize f ds m = Some (out, m') \<Longrightarrow> all_clients ok m \<Longrightarrow> all_clients ok m'"
proof (induction ds arbitrary: m out)
  case (Cons d ds)
  from Cons.prems(1) obtain go o' m1 where p:
    "rtc_packet qs q (rd_outcome d) (rd_clock d) since fsize (rd_clk d) (rd_buf d) (rd_from d) m = Some (go, o', m1)"
    and rest: "m' = m1 \<or> (\<exists>o2. rtc_read_loop qs q since fsize f ds m1 = Some (o2, m'))"
    by (auto simp: bind_eq_Some_conv split: if_splits)
  from packet_keeps [OF p Cons.prems(2)] rest Cons.IH show ?case by blast
qed (simp split: if_splits)

lemma timeout_keeps:
  assumes "rtc_timeout q clk order m = Some m'" and "all_clients ok m"
  shows "all_clients ok m'"
  using assms unfolding rtc_timeout_def for_each_def
  by (elim foldO_invariant) (auto split: option.splits intro!: all_clients_upd elim!: timeout [rotated] dest: all_clientsD)

lemma flush_keeps:
  assumes "rtc_flush qs outcome order m = Some (out, m')" and "all_clients ok m"
  shows "all_clients ok m'"
proof -
  from assms(1) have "(\<lambda>(_, m). all_clients ok m) (out, m')"
    unfolding rtc_flush_def
    by (rule foldO_invariant) (use assms(2) in \<open>auto simp: bind_eq_Some_conv split: option.splits intro!: all_clients_upd conn dest: all_clientsD\<close>)
  then show ?thesis by simp
qed

lemma collect_keeps:
  assumes "rtc_collect qs now order m = Some m'" and "all_clients ok m"
  shows "all_clients ok m'"
  using assms unfolding rtc_collect_def
  by (elim foldO_invariant) (auto simp: bind_eq_Some_conv split: option.splits if_splits intro!: all_clients_del)

lemma run_keeps: "rtc_run qs q since fsize m \<Longrightarrow> all_clients ok m"
proof (induction rule: rtc_run.induct)
  case start
  show ?case by (simp add: all_clients_def)
next
  case (round m before inp out m1 after outcome now out' m2)
  have "all_clients ok m1"
    using round.hyps(3) round.IH
    by (auto simp: rtc_read_def bind_eq_Some_conv split: if_splits dest: read_loop_keeps timeout_keeps)
  with round.hyps(5) show ?case by (auto simp: rtc_write_def bind_eq_Some_conv dest: flush_keeps collect_keeps)
qed

end

section \<open>Frames\<close>

text \<open>
  Never more frames than were asked for, and what is left over of a frame belongs to its stream. This holds whatever the
  library does.
\<close>

definition frames_ok :: "nat \<Rightarrow> 'c media_client \<Rightarrow> bool" where
  "frames_ok fsize c \<longleftrightarrow> frame_size c = fsize \<and> frame_count c \<le> request_frames c \<and>
     (\<forall>s r. partial_sent c s = Some r \<longrightarrow> 0 < r \<and> r \<le> fsize \<and> (\<exists>k. s = k * 4 + 1 \<and> 1 \<le> k \<and> k \<le> frame_count c))"

lemma frames_ok_send:
  assumes eq: "send_next_frame q wall now c = Some c'" and size: "frame_size c = fsize"
    and left: "\<forall>s r. partial_sent c s = Some r \<longrightarrow> 0 < r \<and> r \<le> fsize \<and> (\<exists>k. s = k * 4 + 1 \<and> 1 \<le> k \<and> k \<le> frame_count c)"
  shows "frames_ok fsize c'"
proof -
  have old: "0 < r \<and> r \<le> fsize \<and> (\<exists>k. s = k * 4 + 1 \<and> 1 \<le> k \<and> k \<le> Suc (frame_count c))" if "partial_sent c s = Some r" for s r
    using left that le_SucI by blast
  from eq have le: "frame_count c \<le> request_frames c" by (auto simp: send_next_frame_def all_frames_sent_def bind_eq_Some_conv)
  show ?thesis
  proof (cases "frame_count c = request_frames c")
    case True
    with eq size left show ?thesis by (simp add: send_next_frame_def all_frames_sent_def frames_ok_def)
  next
    case False
    let ?s = "(frame_count c + 1) * 4 + 1"
    from eq False have "frame_count c' = frame_count c + 1 \<and> request_frames c' = request_frames c \<and> frame_size c' = fsize \<and>
        (partial_sent c' = partial_sent c \<or> (\<exists>v. v < fsize \<and> partial_sent c' = (partial_sent c)(?s \<mapsto> fsize - v)))"
      using size by (fastforce simp: send_next_frame_def all_frames_sent_def bind_eq_Some_conv Let_def
          split: prod.splits sum.splits quiche_error.splits if_splits)
    moreover have "\<exists>k. ?s = k * 4 + 1 \<and> 1 \<le> k \<and> k \<le> Suc (frame_count c)" by (rule exI [of _ "frame_count c + 1"]) simp
    ultimately show ?thesis using le False old by (auto simp: frames_ok_def split: if_splits)
  qed
qed

lemma frames_ok_writable:
  assumes ok: "frames_ok fsize c" and eq: "handle_writable q s c = Some c'"
  shows "frames_ok fsize c'"
proof (cases "partial_sent c s")
  case None
  with assms show ?thesis by (simp add: handle_writable_def)
next
  case (Some n)
  obtain r conn where r: "q_stream_send q s (replicate n 0) True (mc_conn c) = (r, conn)" by fastforce
  define v where "v = (case r of Inr v \<Rightarrow> v | Inl _ \<Rightarrow> 0)"
  from eq Some r have c': "c' = c\<lparr>mc_conn := conn, partial_sent := (partial_sent c)(s := (if n - v = 0 then None else Some (n - v))),
      mc_stats := bytes_sent v (mc_stats c)\<rparr>"
    by (auto simp: handle_writable_def Let_def bind_eq_Some_conv v_def split: sum.splits quiche_error.splits)
  from ok Some have n: "0 < n \<and> n \<le> fsize \<and> (\<exists>k. s = k * 4 + 1 \<and> 1 \<le> k \<and> k \<le> frame_count c)" by (simp add: frames_ok_def)
  with ok show ?thesis by (auto simp: frames_ok_def c' split: if_splits)
qed

lemma frames_ok_request:
  assumes ok: "frames_ok fsize c" and eq: "handle_new_request q t wall now s buf c = Some c'"
  shows "frames_ok fsize c'"
proof (cases "length buf > 5 \<and> take 5 buf = GetN")
  case True
  with eq obtain n where "send_next_frame q wall now (set_request_frames n (c\<lparr>mc_stats := request_recved t (mc_stats c)\<rparr>)) = Some c'"
    by (auto simp: handle_new_request_def Let_def bind_eq_Some_conv)
  then show ?thesis by (rule frames_ok_send) (use ok in \<open>auto simp: frames_ok_def set_request_frames_def\<close>)
next
  case False
  with eq have "frame_count c' = frame_count c \<and> request_frames c' = request_frames c \<and> frame_size c' = frame_size c \<and> partial_sent c' = partial_sent c"
    by (auto simp: handle_new_request_def Let_def bind_eq_Some_conv split: prod.splits sum.splits quiche_error.splits if_splits)
  with ok show ?thesis by (simp add: frames_ok_def)
qed

lemma frames_ok_timeout:
  assumes ok: "frames_ok fsize c" and eq: "media_on_timeout q t wall now c = Some c'"
  shows "frames_ok fsize c'"
proof -
  let ?c = "c\<lparr>mc_conn := q_on_timeout q (mc_conn c)\<rparr>"
  have "frames_ok fsize ?c" using ok by (simp add: frames_ok_def)
  moreover from eq have "send_next_frame q wall now ?c = Some c' \<or> c' = ?c"
    by (auto simp: media_on_timeout_def Let_def bind_eq_Some_conv split: if_splits)
  ultimately show ?thesis using frames_ok_send [of q wall now ?c c' fsize] by (auto simp: frames_ok_def)
qed

interpretation media_frames: media_invariant q since fsize "frames_ok fsize" for q :: "'c quiche" and since fsize
proof unfold_locales
  show "frames_ok fsize (media_client_new conn clock since fsize)" for conn :: 'c and clock
    by (simp add: frames_ok_def media_client_new_def)
  show "frames_ok fsize c \<Longrightarrow> frames_ok fsize (c\<lparr>mc_conn := conn\<rparr>)" for c and conn :: 'c
    by (simp add: frames_ok_def)
qed (fact frames_ok_request frames_ok_timeout frames_ok_writable)+

section \<open>The table of clients\<close>

text \<open>New keys are connection IDs of full length, and only reading a packet adds one.\<close>

lemma packet_keys:
  assumes "rtc_packet qs q outcome clock since fsize clk buf a m = Some (go, out, m')"
  shows "dom m' \<subseteq> dom m \<union> {k. length k = MAX_CONN_ID_LEN}" and "finite (dom m) \<Longrightarrow> finite (dom m')"
  using assms by (cases rule: packet_cases; auto dest: admitted_token split: if_splits)+

lemma read_loop_keys:
  "rtc_read_loop qs q since fsize f ds m = Some (out, m') \<Longrightarrow> dom m' \<subseteq> dom m \<union> {k. length k = MAX_CONN_ID_LEN}"
proof (induction ds arbitrary: m out)
  case (Cons d ds)
  from Cons.prems(1) obtain go o' m1 where p:
    "rtc_packet qs q (rd_outcome d) (rd_clock d) since fsize (rd_clk d) (rd_buf d) (rd_from d) m = Some (go, o', m1)"
    and rest: "m' = m1 \<or> (\<exists>o2. rtc_read_loop qs q since fsize f ds m1 = Some (o2, m'))"
    by (auto simp: bind_eq_Some_conv split: if_splits)
  from packet_keys(1) [OF p] rest Cons.IH [of m1] show ?case by blast
qed (simp split: if_splits)

lemma timeout_keys: "rtc_timeout q clk order m = Some m' \<Longrightarrow> m k = None \<Longrightarrow> m' k = None"
  unfolding rtc_timeout_def for_each_def
  by (erule foldO_invariant [where P = "\<lambda>m. m k = None"]) (auto split: option.splits)

lemma flush_keys:
  assumes "rtc_flush qs outcome order m = Some (out, m')" and "m k = None"
  shows "m' k = None"
proof -
  from assms(1) have "(\<lambda>(_, m). m k = None) (out, m')"
    unfolding rtc_flush_def
    by (rule foldO_invariant) (use assms(2) in \<open>auto simp: bind_eq_Some_conv split: option.splits\<close>)
  then show ?thesis by simp
qed

lemma collect_drops_closed:
  "rtc_collect qs now order m = Some m' \<Longrightarrow> m' k = Some c \<Longrightarrow>
    m k = Some c \<and> (k \<in> set order \<longrightarrow> \<not> qs_is_closed qs (mc_conn c))"
proof (induction order arbitrary: m)
  case (Cons j order)
  from Cons.prems(1) obtain m1 where m1: "rtc_collect qs now order m1 = Some m'"
    and step: "m1 = m \<and> (\<forall>d. m j = Some d \<longrightarrow> \<not> qs_is_closed qs (mc_conn d)) \<or> m1 = m(j := None)"
    by (auto simp: rtc_collect_def bind_eq_Some_conv split: option.splits if_splits)
  from Cons.IH [OF m1 Cons.prems(2)] step show ?case by (auto split: if_splits)
qed (simp add: rtc_collect_def)

lemma write_table:
  assumes "rtc_write qs outcome now order m = Some (out, m')" and "m' k = Some c"
  shows "k \<in> dom m \<and> (k \<in> set order \<longrightarrow> \<not> qs_is_closed qs (mc_conn c))"
proof -
  from assms(1) obtain m1 where "rtc_flush qs outcome order m = Some (out, m1)" "rtc_collect qs now order m1 = Some m'"
    by (auto simp: rtc_write_def bind_eq_Some_conv)
  moreover from this have "m1 k = Some c \<and> (k \<in> set order \<longrightarrow> \<not> qs_is_closed qs (mc_conn c))"
    using collect_drops_closed assms(2) by blast
  ultimately show ?thesis using flush_keys [of qs outcome order m out m1 k] by (cases "m k") auto
qed

lemma rtc_run_table:
  "rtc_run qs q since fsize m \<Longrightarrow> m k = Some c \<Longrightarrow> length k = MAX_CONN_ID_LEN \<and> \<not> qs_is_closed qs (mc_conn c)"
proof (induction arbitrary: k c rule: rtc_run.induct)
  case (round m before inp out m1 after outcome now out' m2)
  have "dom m1 \<subseteq> dom m \<union> {k. length k = MAX_CONN_ID_LEN}"
  proof (cases "ri_timed_out inp")
    case True
    with round.hyps(3) have "rtc_timeout q (ri_clk inp) before m = Some m1" by (auto simp: rtc_read_def bind_eq_Some_conv)
    then show ?thesis using timeout_keys [of q "ri_clk inp" before m m1] by (metis domIff subsetI Un_iff)
  next
    case False
    with round.hyps(3) show ?thesis using read_loop_keys by (fastforce simp: rtc_read_def bind_eq_Some_conv)
  qed
  moreover have "k \<in> dom m1" "\<not> qs_is_closed qs (mc_conn c)"
    using write_table [OF round.hyps(5) round.prems] round.hyps(4) by auto
  ultimately show ?case using round.IH by (auto simp: dom_def)
qed simp

lemma poll_timeout_total:
  assumes "all_clients (frames_ok fsize) m"
  shows "\<exists>t. rtc_poll_timeout q clk order m = Some t \<and>
    (\<forall>k \<in> set order. \<forall>c d. m k = Some c \<longrightarrow> media_timeout q (clk k) c = Some (Some d) \<longrightarrow> (\<exists>e. t = Some e \<and> e \<le> d)) \<and>
    (\<forall>e. t = Some e \<longrightarrow> (\<exists>k \<in> set order. \<exists>c. m k = Some c \<and> media_timeout q (clk k) c = Some (Some e)))"
proof -
  let ?f = "\<lambda>k. case m k of None \<Rightarrow> Some None | Some c \<Rightarrow> media_timeout q (clk k) c"
  have f: "\<exists>y. ?f k = Some y \<and> True" for k
    using assms by (cases "m k") (auto simp: all_clients_def frames_ok_def media_timeout_def all_frames_sent_def Let_def)
  with mapO_total [of order ?f "\<lambda>_. True"] obtain ts where ts: "mapO ?f order = Some ts" by blast
  let ?ds = "List.map_filter id ts"
  have mem: "d \<in> set ?ds" if "k \<in> set order" "m k = Some c" "media_timeout q (clk k) c = Some (Some d)" for k c d
  proof -
    have "Some d \<in> set ts" using mapO_set [OF ts] that by (auto intro!: bexI [of _ k])
    then show ?thesis by (force simp: List.map_filter_def)
  qed
  have attained: "\<exists>k \<in> set order. \<exists>c. m k = Some c \<and> media_timeout q (clk k) c = Some (Some d)" if "d \<in> set ?ds" for d
  proof -
    have "Some d \<in> set ts" using that by (auto simp: List.map_filter_def)
    then obtain k where "k \<in> set order" "?f k = Some (Some d)" using mapO_set [OF ts] by auto
    then show ?thesis by (cases "m k") auto
  qed
  have "rtc_poll_timeout q clk order m = Some (if ?ds = [] then None else Some (Min (set ?ds)))"
    by (simp add: rtc_poll_timeout_def ts Let_def)
  moreover have "\<exists>e. (if ?ds = [] then None else Some (Min (set ?ds))) = Some e \<and> e \<le> d" if "d \<in> set ?ds" for d
    using that by (cases ?ds) auto
  moreover have "e \<in> set ?ds" if "(if ?ds = [] then None else Some (Min (set ?ds))) = Some e" for e
    using that Min_in [of "set ?ds"] by (auto split: if_splits)
  ultimately show ?thesis using mem attained by (intro exI [of _ "if ?ds = [] then None else Some (Min (set ?ds))"]) blast
qed

section \<open>Properties\<close>

text \<open>
  C31. Whatever the network and the QUIC library do, as long as the media server has not panicked: every connection in its
  table has an identifier of full length and was open when the round ended; no client was sent more frames than it
  asked for, and what is left over of a frame belongs to the stream of a frame begun. In such a state the
  computation of the poll timeout does not panic, and its result is the earliest deadline of the clients: not later than
  what any of them waits for, and one of their deadlines, so that the server sleeps without a limit exactly when no
  client waits for a time.
\<close>

theorem rtc_run_sound:
  assumes "rtc_run qs q since fsize m"
  shows "(\<forall>k c. m k = Some c \<longrightarrow> length k = MAX_CONN_ID_LEN \<and> \<not> qs_is_closed qs (mc_conn c) \<and> frame_count c \<le> request_frames c \<and>
      (\<forall>s r. partial_sent c s = Some r \<longrightarrow> 0 < r \<and> r \<le> fsize \<and> (\<exists>j. s = j * 4 + 1 \<and> 1 \<le> j \<and> j \<le> frame_count c))) \<and>
    (\<forall>clk order. \<exists>t. rtc_poll_timeout q clk order m = Some t \<and>
      (\<forall>k \<in> set order. \<forall>c d. m k = Some c \<longrightarrow> media_timeout q (clk k) c = Some (Some d) \<longrightarrow> (\<exists>e. t = Some e \<and> e \<le> d)) \<and>
      (\<forall>e. t = Some e \<longrightarrow> (\<exists>k \<in> set order. \<exists>c. m k = Some c \<and> media_timeout q (clk k) c = Some (Some e))))"
proof -
  have all: "all_clients (frames_ok fsize) m" using media_frames.run_keeps [OF assms] .
  then have "frames_ok fsize c" if "m k = Some c" for k c using all_clientsD that by blast
  with rtc_run_table [OF assms] poll_timeout_total [OF all] show ?thesis unfolding frames_ok_def by blast
qed

text \<open>A round in which a validated client is admitted.\<close>

lemma sample_server_run: "\<exists>m. rtc_run sample_server slow_quiche 0 5 m \<and> m (replicate 20 7) \<noteq> None"
proof -
  let ?d = "\<lparr>rd_buf = [], rd_from = V4 0x01020304 443, rd_outcome = Sent, rd_clock = 0, rd_clk = (\<lambda>_. (0, 0, 0))\<rparr>"
  let ?in = "\<lparr>ri_timed_out = False, ri_clk = (\<lambda>_. (0, 0, 0)), ri_datagrams = [?d], ri_recv_fails = False\<rparr>"
  obtain m1 where m1: "rtc_packet sample_server slow_quiche Sent 0 0 5 (\<lambda>_. (0, 0, 0)) [] (V4 0x01020304 443) Map.empty = Some (True, [], m1)"
    "m1 (replicate 20 7) \<noteq> None" using sample_server_admits by blast
  have rd: "rtc_read sample_server slow_quiche 0 5 ?in [] Map.empty = Some ([], m1)"
    by (simp add: rtc_read_def rtc_poll_timeout_def m1(1) Let_def)
  have "finite (dom m1)" by (rule packet_keys(2) [OF m1(1)]) simp
  from finite_list [OF this] obtain ks where ks: "set ks = dom m1" ..
  have f: "flush_conn sample_server outcome i sent c = Some (sent, c)" for outcome i sent c
    by (subst flush_conn.simps) (simp add: sample_server_def)
  have "foldO (\<lambda>k (sent, m). case m k of None \<Rightarrow> Some (sent, m) | Some c \<Rightarrow> do {
      (sent', conn) \<leftarrow> flush_conn sample_server (outcome k) 0 sent (mc_conn c); Some (sent', m(k \<mapsto> c\<lparr>mc_conn := conn\<rparr>)) }) js (sent, m)
    = Some (sent, m)" for outcome js sent and m :: "unit client_map"
    by (induction js) (auto simp: f map_upd_triv split: option.splits)
  then have "rtc_flush sample_server (\<lambda>_ _. Sent) ks m1 = Some ([], m1)" by (simp add: rtc_flush_def)
  moreover have "rtc_collect sample_server 0 js m = Some m" for js m
    by (induction js) (auto simp: rtc_collect_def sample_server_def split: option.splits)
  ultimately have "rtc_write sample_server (\<lambda>_ _. Sent) 0 ks m1 = Some ([], m1)" by (simp add: rtc_write_def)
  from rtc_run.round [OF rtc_run.start _ rd ks this] m1(2) show ?thesis by auto
qed

theorem rtc_run_sound_witness:
  "\<exists>m. rtc_run sample_server slow_quiche 0 5 m \<and> m (replicate 20 7) \<noteq> None \<and> (\<exists>t. rtc_poll_timeout slow_quiche (\<lambda>_. 0) [replicate 20 7] m = Some t)"
  using sample_server_run rtc_run_sound [of sample_server slow_quiche 0 5] by blast

text \<open>A connection that is closed before it made a request stops the server when it is collected.\<close>

lemma collect_without_request_panics:
  assumes "k \<in> set order" and "m k = Some c" and "qs_is_closed qs (mc_conn c)" and "ss_start_time (mc_stats c) = None"
  shows "rtc_collect qs now order m = None"
  using assms
proof (induction order arbitrary: m)
  case (Cons j order)
  show ?case
  proof (cases "j = k")
    case True
    with Cons.prems show ?thesis by (simp add: rtc_collect_def server_print_stats_def)
  next
    case False
    have "rtc_collect qs now order m' = None" if "m' k = Some c" for m' using Cons.IH [of m'] Cons.prems False that by simp
    moreover have "rtc_collect qs now (j # order) m = rtc_collect qs now order m \<or>
        rtc_collect qs now (j # order) m = rtc_collect qs now order (m(j := None)) \<or> rtc_collect qs now (j # order) m = None"
      by (cases "m j"; cases "server_print_stats now (mc_stats (the (m j)))") (simp_all add: rtc_collect_def)
    ultimately show ?thesis using Cons.prems(2) False by auto
  qed
qed simp

end
