(* ===== verification/Rtc_Client.thy ===== *)
theory Rtc_Client
  imports Rtc
begin

text \<open>
  The event loop of \<open>apps/rtc/src/bin/rtc_client.rs\<close>. The QUIC library is a parameter, \<open>quiche_client\<close>, over a type of
  connections; what the socket answers is an argument, and so are the readings of the clocks. \<open>None\<close> is a panic, or a
  loop that does not end because the library always has more. What the client prints is its log.
\<close>

section \<open>Model\<close>

record 'c quiche_client =
  qk_on_timeout :: "'c \<Rightarrow> 'c"
  qk_recv :: "bytes \<Rightarrow> socket_addr \<Rightarrow> 'c \<Rightarrow> 'c"
  qk_is_closed :: "'c \<Rightarrow> bool"
  qk_is_established :: "'c \<Rightarrow> bool"
  qk_stream_send :: "nat \<Rightarrow> bytes \<Rightarrow> bool \<Rightarrow> 'c \<Rightarrow> (quiche_error + nat) \<times> 'c"
  qk_readable :: "'c \<Rightarrow> nat list"
  qk_stream_recv :: "nat \<Rightarrow> 'c \<Rightarrow> (bytes \<times> bool) option \<times> 'c"
  qk_send :: "'c \<Rightarrow> (quiche_error + bytes \<times> socket_addr) \<times> 'c"
  qk_close :: "bool \<Rightarrow> nat \<Rightarrow> 'c \<Rightarrow> (quiche_error + unit) \<times> 'c"

text \<open>The lines the client prints: the request, a finished frame, the statistics at the end of the request.\<close>

datatype client_line = RequestLine bytes | FrameLine nat | StatsLine

record 'c rtc_client =
  rc_conn :: 'c
  rc_stats :: client_stats
  rc_recved_frames :: nat
  rc_req_sent :: bool
  rc_log :: "client_line list"

text \<open>What the operating system answers to \<open>send_to\<close>.\<close>

datatype send_answer = SendOk | SendBlocked | SendError

text \<open>The first packet is sent again as long as the socket would block.\<close>

fun initial_send :: "send_answer list \<Rightarrow> bool option" where
  "initial_send [] = Some False"
| "initial_send (SendOk # _) = Some True"
| "initial_send (SendBlocked # as) = initial_send as"
| "initial_send (SendError # _) = None"

text \<open>\<open>'read\<close>: a timeout, or datagrams until \<open>recv_from\<close> would block. An error of \<open>conn.recv\<close> is only logged.\<close>

definition client_read :: "'c quiche_client \<Rightarrow> bool \<Rightarrow> bool \<Rightarrow> (bytes \<times> socket_addr) list \<Rightarrow> 'c \<Rightarrow> 'c option" where
  "client_read q timed_out recv_fails ds conn =
     (if timed_out then Some (qk_on_timeout q conn)
      else if recv_fails then None
      else Some (fold (\<lambda>(buf, from_addr). qk_recv q buf from_addr) ds conn))"

definition client_request :: "'c quiche_client \<Rightarrow> nat \<Rightarrow> instant \<Rightarrow> 'c rtc_client \<Rightarrow> 'c rtc_client option" where
  "client_request q requested now c =
     (if qk_is_established q (rc_conn c) \<and> \<not> rc_req_sent c then
        (let req = get_n_request requested in
         case qk_stream_send q HTTP_REQ_STREAM_ID req True (rc_conn c) of
           (Inl _, _) \<Rightarrow> None
         | (Inr _, conn) \<Rightarrow> Some (c\<lparr>rc_conn := conn, rc_req_sent := True, rc_stats := request_start now (rc_stats c),
             rc_log := rc_log c @ [RequestLine req]\<rparr>))
      else Some c)"

text \<open>A stream is finished: \<open>(s - 1) / 4\<close> underflows on stream 0.\<close>

definition frame_finished :: "'c quiche_client \<Rightarrow> nat \<Rightarrow> instant \<Rightarrow> instant \<Rightarrow> instant \<Rightarrow> nat \<Rightarrow> 'c rtc_client \<Rightarrow> 'c rtc_client option" where
  "frame_finished q requested client_time wall now s c0 = do {
     rust_assert (1 \<le> s);
     _ \<leftarrow> peer_elapsed wall client_time;
     let c = c0\<lparr>rc_recved_frames := rc_recved_frames c0 + 1, rc_log := rc_log c0 @ [FrameLine ((s - 1) div 4)]\<rparr>;
     if rc_recved_frames c = requested then do {
       _ \<leftarrow> client_print_stats now (rc_stats c);
       (case qk_close q True 0 (rc_conn c) of
          (Inl _, _) \<Rightarrow> None
        | (Inr _, conn) \<Rightarrow> Some (c\<lparr>rc_conn := conn, rc_log := rc_log c @ [StatsLine]\<rparr>)) }
     else Some c }"

text \<open>\<open>while let Ok((read, fin)) = conn.stream_recv(s)\<close>; \<open>clk i\<close> are the readings of the clocks in round \<open>i\<close>.\<close>

partial_function (option) client_stream ::
    "'c quiche_client \<Rightarrow> nat \<Rightarrow> instant \<Rightarrow> (nat \<Rightarrow> instant \<times> instant \<times> instant) \<Rightarrow> nat \<Rightarrow> nat \<Rightarrow> 'c rtc_client \<Rightarrow> 'c rtc_client option" where
  "client_stream q requested client_time clk i s c = (case qk_stream_recv q s (rc_conn c) of
       (None, conn) \<Rightarrow> Some (c\<lparr>rc_conn := conn\<rparr>)
     | (Some (buf, fin), conn) \<Rightarrow> do {
         let c1 = c\<lparr>rc_conn := conn, rc_stats := bytes_recv (fst (clk i)) (fst (snd (clk i))) (length buf) (rc_stats c)\<rparr>;
         c2 \<leftarrow> (if fin then frame_finished q requested client_time (snd (snd (clk i))) (fst (snd (clk i))) s c1 else Some c1);
         client_stream q requested client_time clk (i + 1) s c2 })"

declare client_stream.simps [code]

definition client_streams ::
    "'c quiche_client \<Rightarrow> nat \<Rightarrow> instant \<Rightarrow> (nat \<Rightarrow> nat \<Rightarrow> instant \<times> instant \<times> instant) \<Rightarrow> 'c rtc_client \<Rightarrow> 'c rtc_client option" where
  "client_streams q requested client_time clk c =
     foldO (\<lambda>s. client_stream q requested client_time (clk s) 0 s) (qk_readable q (rc_conn c)) c"

partial_function (option) client_flush ::
    "'c quiche_client \<Rightarrow> (nat \<Rightarrow> send_answer) \<Rightarrow> nat \<Rightarrow> (bytes \<times> socket_addr) list \<Rightarrow> 'c \<Rightarrow> ((bytes \<times> socket_addr) list \<times> 'c) option" where
  "client_flush q answer i sent c = (case qk_send q c of
       (Inl e, c') \<Rightarrow> Some (sent, if e = Done then c' else snd (qk_close q False 1 c'))
     | (Inr d, c') \<Rightarrow> (case answer i of
           SendOk \<Rightarrow> client_flush q answer (i + 1) (sent @ [d]) c'
         | SendBlocked \<Rightarrow> Some (sent, c')
         | SendError \<Rightarrow> None))"

declare client_flush.simps [code]

text \<open>What one round is given.\<close>

record client_input =
  in_timed_out :: bool
  in_recv_fails :: bool
  in_datagrams :: "(bytes \<times> socket_addr) list"
  in_now :: instant
  in_clk :: "nat \<Rightarrow> nat \<Rightarrow> instant \<times> instant \<times> instant"
  in_answer :: "nat \<Rightarrow> send_answer"

text \<open>One round of the loop; the flag says whether it goes on.\<close>

definition client_round ::
    "'c quiche_client \<Rightarrow> nat \<Rightarrow> instant \<Rightarrow> client_input \<Rightarrow> 'c rtc_client \<Rightarrow> (bool \<times> (bytes \<times> socket_addr) list \<times> 'c rtc_client) option" where
  "client_round q requested client_time inp c0 = do {
     conn \<leftarrow> client_read q (in_timed_out inp) (in_recv_fails inp) (in_datagrams inp) (rc_conn c0);
     let c = c0\<lparr>rc_conn := conn\<rparr>;
     if qk_is_closed q conn then Some (False, [], c)
     else do {
       c1 \<leftarrow> client_request q requested (in_now inp) c;
       c2 \<leftarrow> client_streams q requested client_time (in_clk inp) c1;
       (sent, conn') \<leftarrow> client_flush q (in_answer inp) 0 [] (rc_conn c2);
       Some (\<not> qk_is_closed q conn', sent, c2\<lparr>rc_conn := conn'\<rparr>) } }"

definition rtc_client_new :: "instant \<Rightarrow> 'c \<Rightarrow> 'c rtc_client" where
  "rtc_client_new clock conn = \<lparr>rc_conn = conn, rc_stats = client_stats_new clock, rc_recved_frames = 0, rc_req_sent = False, rc_log = []\<rparr>"

inductive client_run :: "'c quiche_client \<Rightarrow> nat \<Rightarrow> instant \<Rightarrow> bool \<Rightarrow> 'c rtc_client \<Rightarrow> bool"
  for q :: "'c quiche_client" and requested :: nat and client_time :: instant where
  start: "initial_send as = Some True \<Longrightarrow> client_run q requested client_time True (rtc_client_new clock conn)"
| round: "client_run q requested client_time True c \<Longrightarrow> client_round q requested client_time inp c = Some (go, sent, c') \<Longrightarrow>
    client_run q requested client_time go c'"

section \<open>What the client prints\<close>

text \<open>
  The log tells the state: one line per frame counted, one request and only once it was sent, and the statistics once, when
  the count reaches what was asked for.
\<close>

definition logged :: "nat \<Rightarrow> 'c rtc_client \<Rightarrow> bool" where
  "logged requested c \<longleftrightarrow>
     length (filter (\<lambda>l. \<exists>i. l = FrameLine i) (rc_log c)) = rc_recved_frames c \<and>
     filter (\<lambda>l. \<exists>r. l = RequestLine r) (rc_log c) = (if rc_req_sent c then [RequestLine (get_n_request requested)] else []) \<and>
     filter (\<lambda>l. l = StatsLine) (rc_log c) = (if 0 < requested \<and> requested \<le> rc_recved_frames c then [StatsLine] else []) \<and>
     (rc_req_sent c \<longleftrightarrow> cs_start_time (rc_stats c) \<noteq> None)"

lemma logged_conn: "logged requested c \<Longrightarrow> logged requested (c\<lparr>rc_conn := conn\<rparr>)"
  by (simp add: logged_def)

lemma logged_bytes: "logged requested c \<Longrightarrow> logged requested (c\<lparr>rc_conn := conn, rc_stats := bytes_recv t now n (rc_stats c)\<rparr>)"
  by (simp add: logged_def bytes_recv_def Let_def)

lemma logged_request:
  assumes "logged requested c" and "client_request q requested now c = Some c'"
  shows "logged requested c'"
  using assms by (auto simp: client_request_def logged_def request_start_def Let_def split: if_splits prod.splits sum.splits)

lemma logged_finished:
  assumes "logged requested c" and "frame_finished q requested client_time wall now s c = Some c'"
  shows "logged requested c'"
proof (cases "rc_recved_frames c + 1 = requested")
  case True
  with assms(2) obtain conn where "c' = c\<lparr>rc_recved_frames := requested, rc_conn := conn,
      rc_log := rc_log c @ [FrameLine ((s - 1) div 4), StatsLine]\<rparr>"
    by (auto simp: frame_finished_def bind_eq_Some_conv Let_def split: prod.splits sum.splits)
  with assms(1) True show ?thesis by (simp add: logged_def)
next
  case False
  with assms(2) have "c' = c\<lparr>rc_recved_frames := rc_recved_frames c + 1, rc_log := rc_log c @ [FrameLine ((s - 1) div 4)]\<rparr>"
    by (auto simp: frame_finished_def bind_eq_Some_conv Let_def)
  moreover have "requested \<le> rc_recved_frames c + 1 \<longleftrightarrow> requested \<le> rc_recved_frames c" using False by linarith
  ultimately show ?thesis using assms(1) by (simp add: logged_def)
qed

lemma logged_stream:
  assumes "client_stream q requested client_time clk i s c = Some c'" and "logged requested c"
  shows "logged requested c'"
proof -
  let ?P = "\<lambda>q requested client_time clk i s c c'. logged requested c \<longrightarrow> logged requested c'"
  have "?P q requested client_time clk i s c c'"
  proof (rule client_stream.raw_induct [where P = ?P, OF _ assms(1)], intro impI)
    fix cs and q :: "'a quiche_client" and requested client_time clk i s c c'
    assume IH: "\<And>q requested client_time clk i s c c'. cs q requested client_time clk i s c = Some c' \<Longrightarrow> ?P q requested client_time clk i s c c'"
      and body: "(case qk_stream_recv q s (rc_conn c) of
          (None, conn) \<Rightarrow> Some (c\<lparr>rc_conn := conn\<rparr>)
        | (Some (buf, fin), conn) \<Rightarrow> do {
            let c1 = c\<lparr>rc_conn := conn, rc_stats := bytes_recv (fst (clk i)) (fst (snd (clk i))) (length buf) (rc_stats c)\<rparr>;
            c2 \<leftarrow> (if fin then frame_finished q requested client_time (snd (snd (clk i))) (fst (snd (clk i))) s c1 else Some c1);
            cs q requested client_time clk (i + 1) s c2 }) = Some c'" and ok: "logged requested c"
    obtain r conn where r: "qk_stream_recv q s (rc_conn c) = (r, conn)" by fastforce
    show "logged requested c'"
    proof (cases r)
      case None
      with body r logged_conn [OF ok, of conn] show ?thesis by simp
    next
      case (Some d)
      obtain buf fin where d: "d = (buf, fin)" by fastforce
      let ?c1 = "c\<lparr>rc_conn := conn, rc_stats := bytes_recv (fst (clk i)) (fst (snd (clk i))) (length buf) (rc_stats c)\<rparr>"
      from body r Some d obtain c2 where
        c2: "(if fin then frame_finished q requested client_time (snd (snd (clk i))) (fst (snd (clk i))) s ?c1 else Some ?c1) = Some c2"
        and rest: "cs q requested client_time clk (i + 1) s c2 = Some c'" by (auto simp: bind_eq_Some_conv Let_def)
      have ok1: "logged requested ?c1" using logged_bytes [OF ok] .
      have "logged requested c2"
      proof (cases fin)
        case True
        with c2 logged_finished [OF ok1] show ?thesis by simp
      next
        case False
        with c2 ok1 show ?thesis by simp
      qed
      with IH rest show ?thesis by blast
    qed
  qed
  with assms(2) show ?thesis by blast
qed

lemma logged_streams:
  assumes "client_streams q requested client_time clk c = Some c'" and "logged requested c"
  shows "logged requested c'"
  using assms unfolding client_streams_def by (elim foldO_invariant) (auto dest: logged_stream)

lemma logged_round:
  assumes "client_round q requested client_time inp c = Some (go, sent, c')" and "logged requested c"
  shows "logged requested c'"
proof -
  from assms(1) obtain conn where conn: "client_read q (in_timed_out inp) (in_recv_fails inp) (in_datagrams inp) (rc_conn c) = Some conn"
    by (auto simp: client_round_def bind_eq_Some_conv)
  let ?c = "c\<lparr>rc_conn := conn\<rparr>"
  have ok: "logged requested ?c" using logged_conn [OF assms(2)] .
  show ?thesis
  proof (cases "qk_is_closed q conn")
    case True
    with assms(1) conn ok show ?thesis by (simp add: client_round_def Let_def)
  next
    case False
    with assms(1) conn obtain c1 c2 conn' where "client_request q requested (in_now inp) ?c = Some c1"
      "client_streams q requested client_time (in_clk inp) c1 = Some c2" "c' = c2\<lparr>rc_conn := conn'\<rparr>"
      by (auto simp: client_round_def bind_eq_Some_conv Let_def)
    with ok show ?thesis by (auto intro: logged_conn logged_streams logged_request)
  qed
qed

lemma logged_run: "client_run q requested client_time go c \<Longrightarrow> logged requested c"
proof (induction rule: client_run.induct)
  case (start as clock conn)
  show ?case by (auto simp: logged_def rtc_client_new_def client_stats_new_def)
qed (rule logged_round)

section \<open>Properties\<close>

text \<open>
  C34. In every run of the media client, whatever the network and the QUIC library do: it sends its request at most once, and it is the
  request for the number of frames given on the command line; it prints one line for each frame that it counts, and
  the statistics exactly once, as soon as that number of frames has arrived, and never before.
\<close>

theorem rtc_client_log:
  assumes "client_run q requested client_time go c"
  shows "filter (\<lambda>l. \<exists>r. l = RequestLine r) (rc_log c) = (if rc_req_sent c then [RequestLine (get_n_request requested)] else []) \<and>
    length (filter (\<lambda>l. \<exists>i. l = FrameLine i) (rc_log c)) = rc_recved_frames c \<and>
    filter (\<lambda>l. l = StatsLine) (rc_log c) = (if 0 < requested \<and> requested \<le> rc_recved_frames c then [StatsLine] else [])"
  using logged_run [OF assms] by (simp add: logged_def)

text \<open>A connection that is established at once, has one frame on stream 5 after the request, and closes when asked to.\<close>

definition one_frame_lib :: "nat quiche_client" where
  "one_frame_lib = \<lparr>qk_on_timeout = id, qk_recv = (\<lambda>_ _ c. c), qk_is_closed = (\<lambda>c. c = 3), qk_is_established = (\<lambda>c. True),
     qk_stream_send = (\<lambda>s d fin c. (Inr (length d), 1)), qk_readable = (\<lambda>c. if c = 1 then [5] else []),
     qk_stream_recv = (\<lambda>s c. if c = 1 then (Some ([0, 0], True), 2) else (None, c)), qk_send = (\<lambda>c. (Inl Done, c)),
     qk_close = (\<lambda>_ _ c. (Inr (), 3))\<rparr>"

definition quiet_input :: client_input where
  "quiet_input = \<lparr>in_timed_out = False, in_recv_fails = False, in_datagrams = [], in_now = 0, in_clk = (\<lambda>_ _. (0, 0, 0)), in_answer = (\<lambda>_. SendOk)\<rparr>"

lemma one_frame_run: "\<exists>c. client_run one_frame_lib 1 0 False c \<and> rc_recved_frames c = 1 \<and> rc_req_sent c"
proof -
  let ?c0 = "rtc_client_new 0 (0 :: nat)"
  let ?s1 = "request_start 0 (client_stats_new 0)"
  let ?c1 = "\<lparr>rc_conn = 1 :: nat, rc_stats = ?s1, rc_recved_frames = 0, rc_req_sent = True, rc_log = [RequestLine (get_n_request 1)]\<rparr>"
  let ?s = "bytes_recv 0 0 2 ?s1"
  have req: "client_request one_frame_lib 1 0 (?c0\<lparr>rc_conn := 0\<rparr>) = Some ?c1"
    by (simp add: client_request_def one_frame_lib_def rtc_client_new_def Let_def)
  have stop: "client_stream one_frame_lib 1 0 clk i 5 c = Some c" if "rc_conn c = 3" for clk i c
    using that by (subst client_stream.simps) (cases c, simp add: one_frame_lib_def)
  have "\<exists>r. client_print_stats 0 ?s = Some r"
    by (rule client_print_stats_total) (simp_all add: bytes_recv_def request_start_def rtc_client_new_def client_stats_new_def Let_def)
  then obtain r where pr: "client_print_stats 0 ?s = Some r" by blast
  let ?c2 = "\<lparr>rc_conn = 3 :: nat, rc_stats = ?s, rc_recved_frames = 1, rc_req_sent = True,
    rc_log = [RequestLine (get_n_request 1), FrameLine 1, StatsLine]\<rparr>"
  have "frame_finished one_frame_lib 1 0 0 0 5 (?c1\<lparr>rc_conn := 2, rc_stats := ?s\<rparr>) = Some ?c2"
    using pr by (simp add: frame_finished_def peer_elapsed_def Let_def) (simp add: one_frame_lib_def rtc_client_new_def)
  moreover have "qk_stream_recv one_frame_lib 5 1 = (Some ([0, 0], True), 2)" by (simp add: one_frame_lib_def)
  ultimately have c2: "client_stream one_frame_lib 1 0 (\<lambda>_. (0, 0, 0)) 0 5 ?c1 = Some ?c2"
    using stop [of ?c2 "\<lambda>_. (0, 0, 0)" 1] by (subst client_stream.simps) (simp add: Let_def numeral_2_eq_2)
  have streams: "client_streams one_frame_lib 1 0 (\<lambda>_ _. (0, 0, 0)) ?c1 = Some ?c2"
  proof -
    have "qk_readable one_frame_lib 1 = [5]" by (simp add: one_frame_lib_def)
    with c2 show ?thesis by (simp add: client_streams_def)
  qed
  have flush: "client_flush one_frame_lib a i sent c = Some (sent, c)" for a i sent c
    by (subst client_flush.simps) (simp add: one_frame_lib_def)
  have "rc_conn ?c0 = 0" "qk_is_closed one_frame_lib 3" "\<not> qk_is_closed one_frame_lib 0"
    by (simp_all add: rtc_client_new_def one_frame_lib_def)
  then have "client_round one_frame_lib 1 0 quiet_input ?c0 = Some (False, [], ?c2)"
    using req streams flush [of _ _ _ "3"] by (simp add: client_round_def client_read_def quiet_input_def Let_def)
  from client_run.round [OF client_run.start [of "[SendBlocked, SendOk]"] this] show ?thesis by (intro exI [of _ ?c2] conjI) simp_all
qed

theorem rtc_client_log_witness:
  "\<exists>c. client_run one_frame_lib 1 0 False c \<and> filter (\<lambda>l. l = StatsLine) (rc_log c) = [StatsLine]"
  using one_frame_run rtc_client_log by fastforce

text \<open>The answer to a request the server does not know comes on stream 0, and ends the client with an underflow.\<close>

lemma stream_zero_panics:
  assumes "qk_stream_recv q 0 (rc_conn c) = (Some (buf, True), conn)"
  shows "client_stream q requested client_time clk i 0 c = None"
  using assms by (subst client_stream.simps) (simp add: frame_finished_def Let_def)

end
