(* ===== verification/Rtc_Setup.thy ===== *)
theory Rtc_Setup
  imports Rtc_Loop Rtc_Client Text_Output
begin

text \<open>
  How the programs of \<open>apps/rtc\<close> start: the command line, the configuration of the library \<open>quiche\<close>, the socket and the first
  packet, up to the state their loops begin with. What the system and the library answer is an argument. The result \<open>None\<close>
  is a panic. The text of an argument is its bytes; the value of a decimal fraction is given (\<open>parse::<f64>\<close>), like the address of a URL.
\<close>

section \<open>Configuration\<close>

definition MAX_DATAGRAM_SIZE :: nat where
  "MAX_DATAGRAM_SIZE = 1350"

record quiche_config =
  cf_verify_peer :: bool
  cf_application_protos :: "string list"
  cf_max_idle_timeout :: nat
  cf_max_recv_udp_payload_size :: nat
  cf_max_send_udp_payload_size :: nat
  cf_initial_max_data :: nat
  cf_max_stream_data_bidi_local :: nat
  cf_max_stream_data_bidi_remote :: nat
  cf_max_stream_data_uni :: nat
  cf_max_streams_bidi :: nat
  cf_max_streams_uni :: nat
  cf_disable_active_migration :: bool
  cf_early_data :: bool

definition application_protos :: "string list" where
  "application_protos = [''hq-interop'', ''hq-29'', ''hq-28'', ''hq-27'', ''http/0.9'']"

text \<open>\<open>new\<close> is what \<open>Config::new\<close> returns. The client does not verify the server.\<close>

definition client_quiche_config :: "quiche_config \<Rightarrow> quiche_config" where
  "client_quiche_config new = new\<lparr>
     cf_verify_peer := False,
     cf_application_protos := application_protos,
     cf_max_idle_timeout := 5000,
     cf_max_recv_udp_payload_size := MAX_DATAGRAM_SIZE,
     cf_max_send_udp_payload_size := MAX_DATAGRAM_SIZE,
     cf_initial_max_data := 10000000,
     cf_max_stream_data_bidi_local := 1000000,
     cf_max_stream_data_bidi_remote := 1000000,
     cf_max_streams_bidi := 30 * 300,
     cf_max_streams_uni := 30 * 300,
     cf_disable_active_migration := True\<rparr>"

definition server_quiche_config :: "quiche_config \<Rightarrow> quiche_config" where
  "server_quiche_config new = new\<lparr>
     cf_application_protos := application_protos,
     cf_max_idle_timeout := 5000,
     cf_max_recv_udp_payload_size := MAX_DATAGRAM_SIZE,
     cf_max_send_udp_payload_size := MAX_DATAGRAM_SIZE,
     cf_initial_max_data := 10000000,
     cf_max_stream_data_bidi_local := 1000000,
     cf_max_stream_data_bidi_remote := 1000000,
     cf_max_stream_data_uni := 1000000,
     cf_max_streams_bidi := 30 * 300,
     cf_max_streams_uni := 30 * 300,
     cf_disable_active_migration := True,
     cf_early_data := True\<rparr>"

section \<open>The server\<close>

record rtc_server_args =
  path_arg :: socket_addr
  start_time_arg :: f64
  frame_size_arg :: nat

definition default_rtc_args :: rtc_server_args where
  "default_rtc_args = \<lparr>path_arg = V4 0x7f000001 4433, start_time_arg = Fin 0, frame_size_arg = 12500\<rparr>"

text \<open>The calls of the set-up, in their order, each of which is unwrapped.\<close>

record rtc_server_calls =
  sv_poll_new :: bool
  sv_bind :: bool
  sv_register :: bool
  sv_config_new :: "quiche_config option"
  sv_load_cert_chain :: bool
  sv_load_priv_key :: bool
  sv_set_protos :: bool
  sv_conn_id_seed :: bool
  sv_local_addr :: bool

text \<open>The time base, the size of a frame, the configuration and the table of clients the loop starts with.\<close>

definition rtc_server_start ::
    "rtc_server_args \<Rightarrow> rtc_server_calls \<Rightarrow> (instant \<times> nat \<times> quiche_config \<times> 'c client_map) option" where
  "rtc_server_start a io = do {
     server_time \<leftarrow> peer_time_new (start_time_arg a);
     rust_assert (sv_poll_new io);
     rust_assert (sv_bind io);
     rust_assert (sv_register io);
     config \<leftarrow> sv_config_new io;
     rust_assert (sv_load_cert_chain io);
     rust_assert (sv_load_priv_key io);
     rust_assert (sv_set_protos io);
     rust_assert (sv_conn_id_seed io);
     rust_assert (sv_local_addr io);
     Some (server_time, frame_size_arg a, server_quiche_config config, Map.empty) }"

section \<open>The client\<close>

text \<open>
  The arguments after the command: their texts, the value of a start time (\<open>None\<close>: it is no number), whether a text is a URL,
  and the addresses of its host (\<open>None\<close>: the resolver fails).
\<close>

record rtc_client_args =
  cl_cmd :: string
  cl_args :: "bytes list"
  cl_start_value :: "bytes \<Rightarrow> f64 option"
  cl_url_parses :: "bytes \<Rightarrow> bool"
  cl_url_addrs :: "bytes \<Rightarrow> socket_addr list option"

datatype 'a client_start = Usage string | Started 'a

definition usage_text :: "string \<Rightarrow> string" where
  "usage_text cmd = ''Usage: '' @ cmd @ '' START_TIME URL REQUEST_FRAMES''"

definition usage_frames_text :: "string \<Rightarrow> string" where
  "usage_frames_text cmd = ''Usage: '' @ cmd @ '' URL REQUEST_FRAMES''"

text \<open>The time base, the URL, and the number of frames, 10 by default.\<close>

definition parse_client_args :: "rtc_client_args \<Rightarrow> (instant \<times> bytes \<times> nat) client_start option" where
  "parse_client_args a = (case cl_args a of
       start # url # paras \<Rightarrow> do {
         start_time \<leftarrow> cl_start_value a start;
         client_time \<leftarrow> peer_time_new start_time;
         rust_assert (cl_url_parses a url);
         (case paras of
            [] \<Rightarrow> Some (Started (client_time, url, 10))
          | para # _ \<Rightarrow> (case parse_u64 para of
              Some v \<Rightarrow> Some (Started (client_time, url, v))
            | None \<Rightarrow> Some (Usage (usage_frames_text (cl_cmd a))))) }
     | _ \<Rightarrow> Some (Usage (usage_text (cl_cmd a))))"

text \<open>The local address to bind is of the family of the server.\<close>

fun bind_addr :: "socket_addr \<Rightarrow> socket_addr" where
  "bind_addr (V4 _ _) = V4 0 0"
| "bind_addr (V6 _ _ _ _) = V6 0 0 0 0"

text \<open>What the calls of the set-up return; \<open>cv_send\<close> is the first packet, \<open>cv_answers\<close> what the socket says to it each time.\<close>

record 'c rtc_client_calls =
  cv_poll_new :: bool
  cv_bind :: "socket_addr \<Rightarrow> bool"
  cv_register :: bool
  cv_config_new :: "quiche_config option"
  cv_set_protos :: bool
  cv_scid :: "bytes option"
  cv_local_addr :: bool
  cv_connect :: "bytes \<Rightarrow> socket_addr \<Rightarrow> quiche_config \<Rightarrow> 'c option"
  cv_send :: "'c \<Rightarrow> 'c option"
  cv_answers :: "send_answer list"
  cv_clock :: instant

text \<open>The id of the connection in the log.\<close>

definition hex_dump :: "bytes \<Rightarrow> string" where
  "hex_dump buf = concat (map hex_byte buf)"

text \<open>
  Up to the loop: the number of frames, the time base and the state. \<open>Started None\<close> is a first packet that the socket has
  not taken yet.
\<close>

definition rtc_client_start ::
    "rtc_client_args \<Rightarrow> 'c rtc_client_calls \<Rightarrow> (nat \<times> instant \<times> 'c rtc_client) option client_start option" where
  "rtc_client_start a io = do {
     r \<leftarrow> parse_client_args a;
     (case r of
        Usage u \<Rightarrow> Some (Usage u)
      | Started (client_time, url, requested) \<Rightarrow> do {
          rust_assert (cv_poll_new io);
          as \<leftarrow> cl_url_addrs a url;
          peer_addr \<leftarrow> index as 0;
          rust_assert (cv_bind io (bind_addr peer_addr));
          rust_assert (cv_register io);
          config \<leftarrow> cv_config_new io;
          rust_assert (cv_set_protos io);
          scid \<leftarrow> cv_scid io;
          rust_assert (cv_local_addr io);
          conn \<leftarrow> cv_connect io scid peer_addr (client_quiche_config config);
          conn \<leftarrow> cv_send io conn;
          sent \<leftarrow> initial_send (cv_answers io);
          Some (Started (if sent then Some (requested, client_time, rtc_client_new (cv_clock io) conn) else None)) }) }"

section \<open>The programs start their loops\<close>

text \<open>A client that gets to its loop has a run to make: it asked for the frames of the command line, and its first packet was sent.\<close>

lemma rtc_client_start_run:
  assumes "rtc_client_start a io = Some (Started (Some (n, t, c)))"
  shows "client_run q n t True c \<and> (\<exists>url. parse_client_args a = Some (Started (t, url, n)) \<and>
    (\<exists>peer as. cl_url_addrs a url = Some (peer # as) \<and> cv_bind io (bind_addr peer)))"
proof -
  from assms obtain r where r: "parse_client_args a = Some r" by (auto simp: rtc_client_start_def bind_eq_Some_conv)
  with assms obtain t' url n' where r': "r = Started (t', url, n')"
    by (cases r) (auto simp: rtc_client_start_def)
  from assms r r' obtain as peer conn where p: "parse_client_args a = Some (Started (t, url, n))" "cl_url_addrs a url = Some as" "index as 0 = Some peer"
    "cv_bind io (bind_addr peer)" and c: "initial_send (cv_answers io) = Some True" "c = rtc_client_new (cv_clock io) conn"
    by (auto simp: rtc_client_start_def bind_eq_Some_conv split: if_splits)
  from p(3) have "\<exists>as'. as = peer # as'" by (cases as) (simp_all add: index_def split: if_splits)
  with p c show ?thesis by (auto intro: client_run.start)
qed

text \<open>Without arguments enough, the client prints how to call it, whatever they are.\<close>

lemma too_few_arguments:
  "length (cl_args a) < 2 \<Longrightarrow> rtc_client_start a io = Some (Usage (usage_text (cl_cmd a)))"
  by (auto simp: rtc_client_start_def parse_client_args_def split: list.splits)

lemma bind_addr_family: "(\<exists>ip p. bind_addr a = V4 ip p) \<longleftrightarrow> (\<exists>ip p. a = V4 ip p)"
  by (cases a) simp_all

lemma rtc_server_start_run:
  "rtc_server_start a io = Some (t, fsize, cfg, m) \<Longrightarrow> rtc_run qs q t fsize m \<and> fsize = frame_size_arg a"
  by (auto simp: rtc_server_start_def bind_eq_Some_conv intro: rtc_run.start)

text \<open>Both ends offer the same protocols and datagram sizes, whatever the defaults of the library are.\<close>

lemma rtc_configs_agree:
  "cf_application_protos (client_quiche_config new) = cf_application_protos (server_quiche_config new') \<and>
   cf_max_recv_udp_payload_size (client_quiche_config new) = cf_max_send_udp_payload_size (server_quiche_config new') \<and>
   cf_max_send_udp_payload_size (client_quiche_config new) = cf_max_recv_udp_payload_size (server_quiche_config new')"
  by (simp add: client_quiche_config_def server_quiche_config_def)

text \<open>
  Streams: the server sends frame \<open>i\<close> on stream \<open>4 * i + 1\<close>, a bidirectional stream of its own, which the client lets it open when the
  stream's index is below the limit. The initial limit is enough for 8999 frames, one less than 300 seconds of 30 frames.
\<close>

definition frame_stream_allowed :: "quiche_config \<Rightarrow> nat \<Rightarrow> bool" where
  "frame_stream_allowed client_cfg i \<longleftrightarrow> (4 * i + 1) div 4 < cf_max_streams_bidi client_cfg"

lemma initial_limit_of_frames: "frame_stream_allowed (client_quiche_config new) i \<longleftrightarrow> i < 9000"
  unfolding frame_stream_allowed_def client_quiche_config_def by simp linarith

lemma default_frame_fits: "frame_size_arg default_rtc_args \<le> cf_max_stream_data_bidi_remote (client_quiche_config new)"
  by (simp add: default_rtc_args_def client_quiche_config_def)

lemma hex_dump_inj: "hex_dump a = hex_dump b \<longleftrightarrow> a = b"
  using hex_string_inj [of a b] by (auto simp: hex_dump_def hex_string_def)

end
