(* ===== verification/Unix_Path.thy ===== *)
theory Unix_Path
  imports Rust_Str
begin

text \<open>
  \<open>std::path\<close> on Unix, as far as the file server uses it: a path is its bytes, \<open>components\<close> splits it at the slashes
  and drops the empty ones and the \<open>.\<close> inside, \<open>push\<close> appends to it. The law the server relies on is that pushing a
  plain name appends one component and changes none of those before it.
\<close>

section \<open>Components\<close>

datatype component = RootDir | CurDir | ParentDir | Normal bytes

abbreviation slash :: u8 where
  "slash \<equiv> 0x2f"

fun split_slash :: "bytes \<Rightarrow> bytes list" where
  "split_slash [] = [[]]"
| "split_slash (b # bs) = (if b = slash then [] # split_slash bs
     else case split_slash bs of s # ss \<Rightarrow> (b # s) # ss | [] \<Rightarrow> [[b]])"

text \<open>A component that is not the first one.\<close>

definition inner_component :: "bytes \<Rightarrow> component list" where
  "inner_component s =
     (if s = [] \<or> s = [0x2e] then [] else if s = [0x2e, 0x2e] then [ParentDir] else [Normal s])"

definition has_root :: "bytes \<Rightarrow> bool" where
  "has_root p \<longleftrightarrow> p \<noteq> [] \<and> hd p = slash"

definition components :: "bytes \<Rightarrow> component list" where
  "components p = (let ss = split_slash p in
     (if has_root p then [RootDir] else if hd ss = [0x2e] then [CurDir] else inner_component (hd ss)) @
     concat (map inner_component (tl ss)))"

text \<open>\<open>PathBuf::push\<close>: an absolute path replaces, any other is appended after a separator.\<close>

definition path_push :: "bytes \<Rightarrow> bytes \<Rightarrow> bytes" where
  "path_push p x = (if has_root x then x
     else if p \<noteq> [] \<and> last p \<noteq> slash then p @ slash # x else p @ x)"

section \<open>Laws\<close>

text \<open>A name of a directory entry.\<close>

definition plain_name :: "bytes \<Rightarrow> bool" where
  "plain_name x \<longleftrightarrow> x \<noteq> [] \<and> x \<noteq> [0x2e] \<and> x \<noteq> [0x2e, 0x2e] \<and> slash \<notin> set x"

lemma split_slash_ne [simp]: "split_slash p \<noteq> []"
  by (induction p) (auto split: list.splits)

lemma split_slash_append: "split_slash (a @ slash # b) = split_slash a @ split_slash b"
  by (induction a) (auto split: list.splits)

lemma split_slash_no_slash: "s \<in> set (split_slash p) \<Longrightarrow> slash \<notin> set s"
proof (induction p arbitrary: s)
  case (Cons b p)
  then show ?case by (cases "split_slash p") (auto split: if_splits)
qed simp

lemma split_slash_single: "slash \<notin> set x \<Longrightarrow> split_slash x = [x]"
  by (induction x) auto

lemma inner_component_Normal: "Normal x \<in> set (inner_component s) \<Longrightarrow> x = s \<and> x \<noteq> [] \<and> x \<noteq> [0x2e] \<and> x \<noteq> [0x2e, 0x2e]"
  by (auto simp: inner_component_def split: if_splits)

lemma components_Normal:
  assumes "Normal x \<in> set (components p)"
  shows "plain_name x"
proof -
  have "x \<in> set (split_slash p) \<and> x \<noteq> [] \<and> x \<noteq> [0x2e] \<and> x \<noteq> [0x2e, 0x2e]"
    using assms inner_component_Normal list.set_sel [OF split_slash_ne [of p]]
    by (fastforce simp: components_def Let_def split: if_splits)
  then show ?thesis using split_slash_no_slash by (auto simp: plain_name_def)
qed

lemma plain_inner: "plain_name x \<Longrightarrow> inner_component x = [Normal x]"
  by (simp add: plain_name_def inner_component_def)

lemma plain_no_root: "plain_name x \<Longrightarrow> \<not> has_root x"
  by (cases x) (auto simp: plain_name_def has_root_def)

lemma components_slash:
  assumes "plain_name x" and "a \<noteq> []"
  shows "components (a @ slash # x) = components a @ [Normal x]"
proof -
  have "split_slash (a @ slash # x) = split_slash a @ [x]"
    using assms(1) by (simp add: split_slash_append split_slash_single plain_name_def)
  moreover have "has_root (a @ slash # x) = has_root a" using assms(2) by (cases a) (auto simp: has_root_def)
  ultimately show ?thesis using assms(1) by (simp add: components_def Let_def plain_inner)
qed

lemma components_trailing_slash: "a \<noteq> [] \<Longrightarrow> components (a @ [slash]) = components a"
proof -
  assume a: "a \<noteq> []"
  then have "has_root (a @ [slash]) = has_root a" by (cases a) (auto simp: has_root_def)
  moreover have "split_slash (a @ [slash]) = split_slash a @ [[]]" using split_slash_append [of a "[]"] by simp
  ultimately show ?thesis by (simp add: components_def Let_def inner_component_def)
qed

lemma components_push:
  assumes x: "plain_name x"
  shows "components (path_push p x) = components p @ [Normal x]"
proof (cases "p = [] \<or> last p \<noteq> slash")
  case True
  then show ?thesis
  proof (cases "p = []")
    case True
    have "split_slash x = [x]" using x by (simp add: split_slash_single plain_name_def)
    moreover have "x \<noteq> [0x2e]" using x by (simp add: plain_name_def)
    ultimately have "components x = [Normal x]" using x by (simp add: components_def Let_def plain_inner plain_no_root)
    moreover have "components [] = []" by (simp add: components_def has_root_def inner_component_def)
    ultimately show ?thesis using True x by (simp add: path_push_def plain_no_root)
  next
    case False
    with True x show ?thesis by (simp add: path_push_def plain_no_root components_slash)
  qed
next
  case False
  then obtain a where p: "p = a @ [slash]" by (metis append_butlast_last_id)
  then have push: "path_push p x = a @ slash # x" using x by (simp add: path_push_def plain_no_root)
  show ?thesis
  proof (cases "a = []")
    case True
    have "split_slash x = [x]" using x by (simp add: split_slash_single plain_name_def)
    then have "components (slash # x) = [RootDir, Normal x]" using x by (simp add: components_def Let_def has_root_def plain_inner)
    moreover have "components [slash] = [RootDir]" by (simp add: components_def has_root_def inner_component_def)
    ultimately show ?thesis unfolding push unfolding p True by simp
  next
    case False
    with x show ?thesis unfolding push unfolding p by (simp add: components_slash components_trailing_slash)
  qed
qed

lemma components_foldl_push:
  "list_all plain_name xs \<Longrightarrow> components (foldl path_push p xs) = components p @ map Normal xs"
  by (induction xs arbitrary: p) (simp_all add: components_push)

text \<open>The first component of an absolute path is the root, and only that one is.\<close>

lemma components_RootDir: "components p = RootDir # cs \<longleftrightarrow> has_root p \<and> cs = concat (map inner_component (tl (split_slash p)))"
proof (cases "has_root p")
  case True
  then show ?thesis by (auto simp: components_def Let_def)
next
  case False
  have "RootDir \<notin> set (components p)" using False by (auto simp: components_def Let_def inner_component_def)
  then have "components p \<noteq> RootDir # cs" by (metis list.set_intros(1))
  with False show ?thesis by blast
qed

end
