(* ===== verification/Quinn_Goodput.thy ===== *)
theory Quinn_Goodput
  imports Unix_Path Rtc
begin

text \<open>
  \<open>apps/quinn-apps/src/bin/quinn-goodput-server.rs\<close> and \<open>quinn-goodput-client.rs\<close>: a file server that also answers
  requests for a number of bytes, and its client. The QUIC library \<open>quinn\<close>, the file system and the URL parser are
  outside: what an awaited call or \<open>fs::read\<close> returns is an argument, and of an error only that it is one. The
  counters of \<open>common/mod.rs\<close> are those of \<open>App_Stats\<close>. That the memory for a response is there is assumed; a size
  beyond \<open>isize::MAX\<close> panics.
\<close>

definition ascii_bytes :: "string \<Rightarrow> bytes" where
  "ascii_bytes s = map (\<lambda>c. of_nat (of_char c)) s"

abbreviation crlf :: bytes where
  "crlf \<equiv> [0x0d, 0x0a]"

section \<open>Requests for a number of bytes\<close>

datatype getn_error = GetNMissingCrlf | GetNMalformed | GetNInvalid

text \<open>The branch for \<open>GetN\<close>, which the two servers share.\<close>

definition is_getn :: "bytes \<Rightarrow> bool" where
  "is_getn x \<longleftrightarrow> length x \<ge> 5 \<and> take 5 x = GetN"

definition parse_getn :: "bytes \<Rightarrow> getn_error + nat" where
  "parse_getn x =
     (if length x < 7 \<or> drop (length x - 2) x \<noteq> crlf then Inl GetNMissingCrlf
      else let body = drop 5 (take (length x - 2) x) in
        if \<not> utf8_valid body then Inl GetNMalformed
        else case parse_u64 (trim body) of None \<Rightarrow> Inl GetNInvalid | Some n \<Rightarrow> Inr n)"

section \<open>The server\<close>

datatype get_error = GetNError getn_error | MissingGet | MissingCrlf | PathMalformed | NotAbsolute
  | IllegalComponent component | ReadingFile

text \<open>\<open>for c in components\<close>: every component but a plain name is refused.\<close>

fun push_components :: "component list \<Rightarrow> bytes \<Rightarrow> get_error + bytes" where
  "push_components [] p = Inr p"
| "push_components (Normal x # cs) p = push_components cs (path_push p x)"
| "push_components (c # cs) p = Inl (IllegalComponent c)"

definition get_path :: "bytes \<Rightarrow> bytes \<Rightarrow> get_error + bytes" where
  "get_path dir x0 =
     (if length x0 < 4 \<or> take 4 x0 \<noteq> ascii_bytes ''GET '' then Inl MissingGet
      else if length (drop 4 x0) < 2 \<or> drop (length x0 - 2) x0 \<noteq> crlf then Inl MissingCrlf
      else let x = drop 4 (take (length x0 - 2) x0); path = takeWhile (\<lambda>c. c \<noteq> 0x20) x in
        if \<not> utf8_valid path then Inl PathMalformed
        else case components path of
            RootDir # cs \<Rightarrow> push_components cs dir
          | _ \<Rightarrow> Inl NotAbsolute)"

text \<open>\<open>fs_read\<close> is \<open>fs::read\<close>. \<open>None\<close> is the panic of \<open>vec![0; n]\<close>.\<close>

definition process_get :: "(bytes \<Rightarrow> bytes option) \<Rightarrow> bytes \<Rightarrow> bytes \<Rightarrow> (get_error + bytes) option" where
  "process_get fs_read dir x =
     (if is_getn x then
        (case parse_getn x of
           Inl e \<Rightarrow> Some (Inl (GetNError e))
         | Inr n \<Rightarrow> do { rust_assert (n < 2 ^ 63); Some (Inr (replicate n 0)) })
      else Some (case get_path dir x of
          Inl e \<Rightarrow> Inl e
        | Inr real_path \<Rightarrow> (case fs_read real_path of None \<Rightarrow> Inl ReadingFile | Some data \<Rightarrow> Inr data)))"

text \<open>The \<open>Debug\<close> text of a component; a plain name is never refused.\<close>

fun component_text :: "component \<Rightarrow> string" where
  "component_text RootDir = ''RootDir''"
| "component_text CurDir = ''CurDir''"
| "component_text ParentDir = ''ParentDir''"
| "component_text (Normal x) = ''Normal''"

fun get_error_text :: "get_error \<Rightarrow> bytes" where
  "get_error_text (GetNError GetNMissingCrlf) = ascii_bytes ''missing '' @ [0x5c, 0x72, 0x5c, 0x6e] @ ascii_bytes '' for GetN''"
| "get_error_text (GetNError GetNMalformed) = ascii_bytes ''GetN payload malformed UTF-8''"
| "get_error_text (GetNError GetNInvalid) = ascii_bytes ''invalid GetN number''"
| "get_error_text MissingGet = ascii_bytes ''missing GET''"
| "get_error_text MissingCrlf = ascii_bytes ''missing '' @ [0x5c, 0x72, 0x5c, 0x6e]"
| "get_error_text PathMalformed = ascii_bytes ''path is malformed UTF-8''"
| "get_error_text NotAbsolute = ascii_bytes ''path must be absolute''"
| "get_error_text (IllegalComponent c) = ascii_bytes ''illegal component in path: '' @ ascii_bytes (component_text c)"
| "get_error_text ReadingFile = ascii_bytes ''failed reading file''"

text \<open>\<open>ascii::escape_default\<close>, for the log; each part is unwrapped as UTF-8.\<close>

definition hex_ascii :: "u8 \<Rightarrow> u8" where
  "hex_ascii n = (if n < 10 then 0x30 + n else 0x57 + n)"

definition escape_default :: "u8 \<Rightarrow> bytes" where
  "escape_default b =
     (if b = 0x09 then [0x5c, 0x74] else if b = 0x0d then [0x5c, 0x72] else if b = 0x0a then [0x5c, 0x6e]
      else if b = 0x27 \<or> b = 0x22 \<or> b = 0x5c then [0x5c, b]
      else if 0x20 \<le> b \<and> b < 0x7f then [b]
      else [0x5c, 0x78, hex_ascii (drop_bit 4 b), hex_ascii (and b 0xf)])"

definition escaped :: "bytes \<Rightarrow> bytes option" where
  "escaped req = foldO (\<lambda>x acc. do { let part = escape_default x; rust_assert (utf8_valid part); Some (acc @ part) }) req []"

text \<open>
  What the library answers to one request: the bytes read to the end of the stream, at most 64 KiB of them, or an
  error, whether \<open>write_all\<close> succeeds and whether \<open>finish\<close> does.
\<close>

record request_io =
  io_request :: "bytes option"
  io_write :: bool
  io_finish :: bool

datatype request_error = ReadingRequest | SendingResponse

text \<open>The result, and what was given to \<open>write_all\<close>, with whether the stream was finished.\<close>

definition handle_request ::
    "(bytes \<Rightarrow> bytes option) \<Rightarrow> instant \<Rightarrow> instant \<Rightarrow> bytes \<Rightarrow> request_io \<Rightarrow> (request_error, server_stats) outcome \<times> (bytes \<times> bool) option" where
  "handle_request fs_read now end dir io = (case io_request io of
       None \<Rightarrow> (Err ReadingRequest, None)
     | Some req \<Rightarrow> (case escaped req of
         None \<Rightarrow> (Panic, None)
       | Some _ \<Rightarrow> (case process_get fs_read dir req of
           None \<Rightarrow> (Panic, None)
         | Some r \<Rightarrow>
             let resp = (case r of Inr data \<Rightarrow> data | Inl e \<Rightarrow> ascii_bytes ''failed to process request: '' @ get_error_text e @ [0x0a]);
                 stats = request_recved now server_stats_new in
             if \<not> io_write io then (Err SendingResponse, Some (resp, False))
             else if \<not> io_finish io then (Panic, Some (resp, False))
             else let stats' = bytes_sent (length resp) stats in
               (case server_print_stats end stats' of
                  None \<Rightarrow> (Panic, Some (resp, True))
                | Some _ \<Rightarrow> (Ok stats', Some (resp, True))))))"

section \<open>Accepting\<close>

text \<open>\<open>accept_bi\<close> of \<open>handle_connection\<close>: each stream is a request of its own task.\<close>

datatype 'a accepted = ApplicationClosed | ConnectionError | Accepted 'a

datatype conn_result = ConnClosed | ConnFailed | ConnWaiting

fun accept_requests ::
    "(bytes \<Rightarrow> bytes option) \<Rightarrow> bytes \<Rightarrow> (instant \<times> instant \<times> request_io) accepted list \<Rightarrow>
     conn_result \<times> ((request_error, server_stats) outcome \<times> (bytes \<times> bool) option) list" where
  "accept_requests fs_read dir [] = (ConnWaiting, [])"
| "accept_requests fs_read dir (ApplicationClosed # _) = (ConnClosed, [])"
| "accept_requests fs_read dir (ConnectionError # _) = (ConnFailed, [])"
| "accept_requests fs_read dir (Accepted (now, end, io) # as) = (case accept_requests fs_read dir as of
     (r, rest) \<Rightarrow> (r, handle_request fs_read now end dir io # rest))"

text \<open>\<open>conn.await?\<close> first: the handshake may fail.\<close>

definition handle_connection ::
    "(bytes \<Rightarrow> bytes option) \<Rightarrow> bytes \<Rightarrow> bool \<times> (instant \<times> instant \<times> request_io) accepted list \<Rightarrow>
     conn_result \<times> ((request_error, server_stats) outcome \<times> (bytes \<times> bool) option) list" where
  "handle_connection fs_read dir = (\<lambda>(established, as). if established then accept_requests fs_read dir as else (ConnFailed, []))"

text \<open>The loop over \<open>endpoint.accept()\<close>, which the two servers share: who is refused, sent a retry, or served.\<close>

record server_opt =
  opt_stateless_retry :: bool
  opt_block :: "socket_addr option"
  opt_connection_limit :: "nat option"

record incoming =
  remote_address :: socket_addr
  remote_address_validated :: bool
  open_connections :: nat
  retry_succeeds :: bool

datatype decision = Refuse | Retry | Serve

text \<open>\<open>None\<close>: the result of \<open>retry\<close> is unwrapped.\<close>

definition decide :: "server_opt \<Rightarrow> incoming \<Rightarrow> decision option" where
  "decide opt c =
     (if (case opt_connection_limit opt of Some n \<Rightarrow> open_connections c \<ge> n | None \<Rightarrow> False) then Some Refuse
      else if Some (remote_address c) = opt_block opt then Some Refuse
      else if opt_stateless_retry opt \<and> \<not> remote_address_validated c then do { rust_assert (retry_succeeds c); Some Retry }
      else Some Serve)"

fun accept_loop :: "server_opt \<Rightarrow> ('a \<Rightarrow> 'b) \<Rightarrow> (incoming \<times> 'a) list \<Rightarrow> 'b list option" where
  "accept_loop opt handler [] = Some []"
| "accept_loop opt handler ((c, a) # cs) = do {
     d \<leftarrow> decide opt c;
     rest \<leftarrow> accept_loop opt handler cs;
     Some (if d = Serve then handler a # rest else rest) }"

text \<open>\<open>run\<close> after the set-up of the endpoint: \<open>Err\<close> when the directory does not exist.\<close>

definition goodput_run ::
    "(bytes \<Rightarrow> bytes option) \<Rightarrow> bool \<Rightarrow> bytes \<Rightarrow> server_opt \<Rightarrow> (incoming \<times> bool \<times> (instant \<times> instant \<times> request_io) accepted list) list \<Rightarrow>
     (unit, (conn_result \<times> ((request_error, server_stats) outcome \<times> (bytes \<times> bool) option) list) list) outcome" where
  "goodput_run fs_read dir_exists dir opt cs =
     (if \<not> dir_exists then Err ()
      else case accept_loop opt (handle_connection fs_read dir) cs of None \<Rightarrow> Panic | Some rs \<Rightarrow> Ok rs)"

section \<open>The client\<close>

text \<open>\<open>kb * 1024\<close> overflows for a size of \<open>2 ^ 54\<close> or more.\<close>

definition goodput_request :: "nat option \<Rightarrow> bytes \<Rightarrow> bytes option" where
  "goodput_request request_kb url_path = (case request_kb of
       Some kb \<Rightarrow> do { rust_assert (kb * 1024 < 2 ^ 64); Some (GetN @ decimal (kb * 1024) @ crlf) }
     | None \<Rightarrow> Some (ascii_bytes ''GET '' @ url_path @ crlf))"

definition strip_ipv6_brackets :: "bytes \<Rightarrow> bytes option" where
  "strip_ipv6_brackets host =
     (if host \<noteq> [] \<and> hd host = 0x5b \<and> last host = 0x5d
      then do { rust_assert (1 \<le> length host - 1); Some (drop 1 (take (length host - 1) host)) }
      else Some host)"

text \<open>What the awaited calls of the client return: connecting, opening a stream, writing, finishing, reading; and
  whether the socket of \<open>--rebind\<close> could be made and taken, \<open>True\<close> without that option.
\<close>

record client_io =
  ci_connect :: bool
  ci_open :: bool
  ci_rebind :: bool
  ci_write :: bool
  ci_finish :: bool
  ci_response :: "bytes option"
  ci_stdout :: bool

datatype client_error = ConnectFailed | OpenFailed | SendFailed | ReadFailed

text \<open>
  The result and the request that was sent. \<open>t\<close> and \<open>now\<close> are the readings of \<open>bytes_recv\<close>, \<open>end\<close> that of
  \<open>print_stats\<close>; the response of a plain request goes to the standard output, whose errors are unwrapped.
\<close>

definition goodput_client ::
    "instant \<Rightarrow> instant \<Rightarrow> instant \<Rightarrow> instant \<Rightarrow> instant \<Rightarrow> nat option \<Rightarrow> bytes \<Rightarrow> client_io \<Rightarrow>
     (client_error, bytes \<times> client_stats) outcome \<times> bytes option" where
  "goodput_client clock start t now end request_kb url_path io = (case goodput_request request_kb url_path of
       None \<Rightarrow> (Panic, None)
     | Some req \<Rightarrow>
         let stats = request_start start (client_stats_new clock) in
         if \<not> ci_connect io then (Err ConnectFailed, None)
         else if \<not> ci_open io then (Err OpenFailed, None)
         else if \<not> ci_rebind io then (Panic, None)
         else if \<not> ci_write io then (Err SendFailed, None)
         else if \<not> ci_finish io then (Panic, Some req)
         else (case ci_response io of
             None \<Rightarrow> (Err ReadFailed, Some req)
           | Some resp \<Rightarrow>
               let stats' = bytes_recv t now (length resp) stats in
               if request_kb = None \<and> \<not> ci_stdout io then (Panic, Some req)
               else (case client_print_stats end stats' of
                   None \<Rightarrow> (Panic, Some req)
                 | Some _ \<Rightarrow> (Ok (resp, stats'), Some req))))"

section \<open>Log and statistics do not panic\<close>

lemma hex_ascii_low: "n < 16 \<Longrightarrow> hex_ascii n < 0x80"
  by (simp add: hex_ascii_def) unat_arith

lemma escape_default_ascii: "c \<in> set (escape_default b) \<Longrightarrow> c < 0x80"
proof -
  have "drop_bit 4 b < (16 :: u8)"
  proof -
    have "unat (drop_bit 4 b) = unat b div 16" by (simp only: unat_drop_bit_eq) (simp add: drop_bit_eq_div)
    also have "\<dots> < 16" using unsigned_less [of b, where 'a = nat] by simp
    finally show ?thesis by (simp add: word_less_nat_alt)
  qed
  moreover have "and b 0xf < (16 :: u8)"
    using word_and_le1 [of b "0xf"] by (rule order_le_less_trans) simp
  moreover have "c < 0x80" if "c < 0x7f" for c :: u8 using that by (rule order_less_trans) simp
  moreover assume "c \<in> set (escape_default b)"
  ultimately show ?thesis
    using hex_ascii_low by (auto simp: escape_default_def split: if_splits)
qed

lemma escaped_total: "escaped req = Some (concat (map escape_default req))"
proof -
  have u: "utf8_valid (escape_default b)" for b
    using utf8_ascii [of "escape_default b" "[]"] escape_default_ascii by simp
  have "foldO (\<lambda>x acc. do { let part = escape_default x; rust_assert (utf8_valid part); Some (acc @ part) }) req acc
      = Some (acc @ concat (map escape_default req))" for acc
    by (induction req arbitrary: acc) (simp_all add: u)
  then show ?thesis by (simp add: escaped_def)
qed

lemma component_text_short: "length (component_text c) < 10"
  by (cases c) simp_all

section \<open>Requests for bytes\<close>

lemma parse_getn_request:
  assumes "n < 2 ^ 64"
  shows "is_getn (GetN @ decimal n @ crlf)" and "parse_getn (GetN @ decimal n @ crlf) = Inr n"
proof -
  have "decimal n \<noteq> []" using decimal_digits by blast
  then have "0 < length (decimal n)" by simp
  moreover have "utf8_valid (decimal n)" using decimal_utf8 [of n "[]"] by simp
  ultimately show "parse_getn (GetN @ decimal n @ crlf) = Inr n"
    using parse_decimal [OF assms] trim_decimal_only [of n] by (simp add: parse_getn_def GetN_def Let_def)
  show "is_getn (GetN @ decimal n @ crlf)" by (simp add: is_getn_def GetN_def)
qed

lemma handle_request_ok:
  assumes "io_request io = Some req" and "process_get fs_read dir req = Some (Inr data)" and "io_write io" and "io_finish io"
    and "length data < 2 ^ 64"
  shows "handle_request fs_read now end dir io =
    (Ok (bytes_sent (length data) (request_recved now server_stats_new)), Some (data, True))"
proof -
  let ?s = "bytes_sent (length data) (request_recved now server_stats_new)"
  have "\<exists>r. server_print_stats end ?s = Some r"
    by (rule server_print_stats_total) (use assms(5) in \<open>simp_all add: bytes_sent_def request_recved_def server_stats_new_def\<close>)
  with assms show ?thesis by (auto simp: handle_request_def escaped_total Let_def)
qed

section \<open>Paths\<close>

lemma push_components_Inr:
  "push_components cs p = Inr p' \<Longrightarrow> \<exists>xs. cs = map Normal xs \<and> p' = foldl path_push p xs"
proof (induction cs p rule: push_components.induct)
  case (2 x cs p)
  then obtain xs where "cs = map Normal xs" "p' = foldl path_push (path_push p x) xs" by auto
  then show ?case by (intro exI [of _ "x # xs"]) simp
qed auto

text \<open>The path of an entry below the directory.\<close>

definition below :: "bytes \<Rightarrow> bytes \<Rightarrow> bool" where
  "below dir p \<longleftrightarrow> (\<exists>xs. list_all plain_name xs \<and> components p = components dir @ map Normal xs)"

lemma get_path_below:
  assumes "get_path dir x = Inr p"
  shows "below dir p"
proof -
  from assms obtain path cs where c: "components path = RootDir # cs" and p: "push_components cs dir = Inr p"
    by (auto simp: get_path_def Let_def split: if_splits list.splits component.splits)
  from push_components_Inr [OF p] obtain xs where xs: "cs = map Normal xs" "p = foldl path_push dir xs" by blast
  have "plain_name x" if "x \<in> set xs" for x by (rule components_Normal [of x path]) (simp add: c xs that)
  then have "list_all plain_name xs" by (simp add: list_all_iff)
  then show ?thesis using components_foldl_push [of xs dir] xs by (auto simp: below_def)
qed

lemma process_get_cong:
  assumes "\<And>p. below dir p \<Longrightarrow> fs p = fs' p"
  shows "process_get fs dir x = process_get fs' dir x"
  using assms get_path_below [of dir x] by (auto simp: process_get_def split: sum.splits)

lemma accept_requests_cong:
  assumes "process_get fs dir = process_get fs' dir"
  shows "accept_requests fs dir as = accept_requests fs' dir as"
proof (induction as)
  case (Cons a as)
  have "handle_request fs now end dir io = handle_request fs' now end dir io" for now "end" io
    unfolding handle_request_def assms ..
  with Cons show ?case by (cases a) auto
qed simp

section \<open>Properties\<close>

text \<open>
  C32. The file server serves nothing from outside its directory: two file systems that agree on the paths below the
  directory, those made of its components followed by plain names (no \<open>..\<close>, no \<open>.\<close>, no slash), give the same run of the
  server, whatever its clients send. Links within the directory are the file system's affair.
\<close>

theorem goodput_serves_below_dir:
  assumes "\<And>p xs. list_all plain_name xs \<Longrightarrow> components p = components dir @ map Normal xs \<Longrightarrow> fs p = fs' p"
  shows "goodput_run fs dir_exists dir opt cs = goodput_run fs' dir_exists dir opt cs"
proof -
  have "process_get fs dir = process_get fs' dir"
  proof (rule ext, rule process_get_cong)
    fix p assume "below dir p"
    then obtain xs where "list_all plain_name xs" "components p = components dir @ map Normal xs" unfolding below_def by blast
    then show "fs p = fs' p" by (rule assms)
  qed
  then have "handle_connection fs dir = handle_connection fs' dir"
    unfolding handle_connection_def using accept_requests_cong by metis
  then show ?thesis by (simp add: goodput_run_def)
qed

text \<open>A server of \<open>/srv\<close> and a client that asks for \<open>/../etc/passwd\<close>.\<close>

definition traversal :: "(incoming \<times> bool \<times> (instant \<times> instant \<times> request_io) accepted list) list" where
  "traversal = [(\<lparr>remote_address = V4 0 0, remote_address_validated = True, open_connections = 0, retry_succeeds = True\<rparr>, True,
     [Accepted (0, 0, \<lparr>io_request = Some (ascii_bytes ''GET /../etc/passwd'' @ crlf), io_write = True, io_finish = True\<rparr>)])]"

theorem goodput_serves_below_dir_witness:
  "goodput_run (\<lambda>p. if p = ascii_bytes ''/etc/passwd'' then Some [1] else None) True (ascii_bytes ''/srv'')
     \<lparr>opt_stateless_retry = False, opt_block = None, opt_connection_limit = None\<rparr> traversal =
   goodput_run (\<lambda>_. None) True (ascii_bytes ''/srv'') \<lparr>opt_stateless_retry = False, opt_block = None, opt_connection_limit = None\<rparr> traversal"
proof (rule goodput_serves_below_dir)
  fix p xs assume "components p = components (ascii_bytes ''/srv'') @ map Normal xs"
  moreover have "components (ascii_bytes ''/etc/passwd'') = [RootDir, Normal (ascii_bytes ''etc''), Normal (ascii_bytes ''passwd'')]"
    by code_simp
  moreover have "components (ascii_bytes ''/srv'') = [RootDir, Normal (ascii_bytes ''srv'')]" by code_simp
  moreover have "ascii_bytes ''etc'' \<noteq> ascii_bytes ''srv''" by code_simp
  ultimately have "p \<noteq> ascii_bytes ''/etc/passwd''" by auto
  then show "(if p = ascii_bytes ''/etc/passwd'' then Some [1] else None) = None" by simp
qed

text \<open>
  C35. Client and server agree on requests for data: for every size in kilobytes that an allocation can have, the request the
  client builds makes the server answer with exactly that many bytes, finish the stream and count them, and the client
  that receives this answer counts the same number and reports it.
\<close>

theorem goodput_end_to_end:
  assumes "kb * 1024 < 2 ^ 63"
  shows "\<exists>req data. goodput_request (Some kb) url_path = Some req \<and> length data = kb * 1024 \<and>
    handle_request fs_read now end dir \<lparr>io_request = Some req, io_write = True, io_finish = True\<rparr> =
      (Ok (bytes_sent (kb * 1024) (request_recved now server_stats_new)), Some (data, True)) \<and>
    (\<exists>s. goodput_client clock start t recv_now recv_end (Some kb) url_path
        \<lparr>ci_connect = True, ci_open = True, ci_rebind = True, ci_write = True, ci_finish = True, ci_response = Some data, ci_stdout = out\<rparr> =
      (Ok (data, s), Some req) \<and> cs_bytes_recv s = kb * 1024)"
proof -
  let ?n = "kb * 1024"
  let ?data = "replicate ?n (0 :: u8)"
  have lt: "?n < 2 ^ 64" using assms by simp
  then have req: "goodput_request (Some kb) url_path = Some (GetN @ decimal ?n @ crlf)" by (simp add: goodput_request_def)
  have get: "process_get fs_read dir (GetN @ decimal ?n @ crlf) = Some (Inr ?data)"
    using parse_getn_request [OF lt] assms by (simp add: process_get_def)
  let ?s = "bytes_recv t recv_now ?n (request_start start (client_stats_new clock))"
  have "cs_bytes_recv ?s = ?n" "cs_start_time ?s = Some start"
    by (simp_all add: bytes_recv_def request_start_def client_stats_new_def Let_def)
  moreover from this lt have "\<exists>r. client_print_stats recv_end ?s = Some r" by (intro client_print_stats_total) simp_all
  ultimately show ?thesis
    using handle_request_ok [OF _ get, of "\<lparr>io_request = Some (GetN @ decimal ?n @ crlf), io_write = True, io_finish = True\<rparr>" now "end"] lt
    by (intro exI [of _ "GetN @ decimal ?n @ crlf"] exI [of _ ?data])
      (auto simp: req goodput_client_def Let_def)
qed

theorem goodput_end_to_end_witness:
  "\<exists>req. goodput_request (Some 3) [] = Some req \<and> fst (handle_request (\<lambda>_. None) 0 1 [] \<lparr>io_request = Some req, io_write = True, io_finish = True\<rparr>) =
     Ok (bytes_sent 3072 (request_recved 0 server_stats_new))"
  using goodput_end_to_end [of 3 "[]" "\<lambda>_. None" 0 1 "[]" 0 0 0 0 0 True] by force

text \<open>
  A request makes its task panic exactly when it asks for more bytes than an allocation can have, or when \<open>finish\<close> fails
  on the stream that was written.
\<close>

lemma handle_request_panics_iff:
  assumes files: "\<And>p d. fs_read p = Some d \<Longrightarrow> length d < 2 ^ 64"
  shows "fst (handle_request fs_read now end dir io) = Panic \<longleftrightarrow>
    (\<exists>req. io_request io = Some req \<and> (is_getn req \<and> (\<exists>n. parse_getn req = Inr n \<and> 2 ^ 63 \<le> n) \<or>
      process_get fs_read dir req \<noteq> None \<and> io_write io \<and> \<not> io_finish io))"
proof (cases "io_request io")
  case None
  then show ?thesis by (simp add: handle_request_def)
next
  case (Some req)
  have none: "process_get fs_read dir req = None \<longleftrightarrow> is_getn req \<and> (\<exists>n. parse_getn req = Inr n \<and> 2 ^ 63 \<le> n)"
    by (auto simp: process_get_def bind_eq_None_conv rust_assert_def split: sum.splits)
  show ?thesis
  proof (cases "process_get fs_read dir req")
    case None
    with Some none show ?thesis by (auto simp: handle_request_def escaped_total)
  next
    case (Some r)
    let ?resp = "case r of Inr data \<Rightarrow> data | Inl e \<Rightarrow> ascii_bytes ''failed to process request: '' @ get_error_text e @ [0x0a]"
    have "length ?resp < 2 ^ 64"
    proof (cases r)
      case (Inl e)
      have "length (component_text c) < 73" for c using component_text_short [of c] by simp
      then have "length (get_error_text e) < 100" by (cases e rule: get_error_text.cases) (simp_all add: ascii_bytes_def)
      with Inl show ?thesis by (simp add: ascii_bytes_def)
    next
      case (Inr data)
      with Some have "(\<exists>n. data = replicate n 0 \<and> n < 2 ^ 63) \<or> (\<exists>p. fs_read p = Some data)"
        by (auto simp: process_get_def bind_eq_Some_conv split: if_splits sum.splits option.splits)
      with files Inr show ?thesis by fastforce
    qed
    then have "\<exists>x. server_print_stats end (bytes_sent (length ?resp) (request_recved now server_stats_new)) = Some x"
      by (intro server_print_stats_total) (simp_all add: bytes_sent_def request_recved_def server_stats_new_def)
    with Some \<open>io_request io = Some req\<close> none show ?thesis by (auto simp: handle_request_def escaped_total Let_def)
  qed
qed

text \<open>A number of bytes that no allocation can have, which any client can send, panics.\<close>

lemma getn_huge_panics:
  assumes "2 ^ 63 \<le> n" and "n < 2 ^ 64"
  shows "handle_request fs_read now end dir \<lparr>io_request = Some (GetN @ decimal n @ crlf), io_write = w, io_finish = f\<rparr> = (Panic, None)"
  using parse_getn_request [OF assms(2)] assms(1) by (simp add: handle_request_def process_get_def escaped_total)

text \<open>Brackets are taken off an address, and the slice is never out of range.\<close>

lemma strip_brackets: "strip_ipv6_brackets (0x5b # host @ [0x5d]) = Some host"
  by (simp add: strip_ipv6_brackets_def)

lemma strip_total: "\<exists>h. strip_ipv6_brackets host = Some h"
  by (cases host) (auto simp: strip_ipv6_brackets_def Suc_le_eq split: if_splits)

end
