(* ===== verification/Quinn_Rtc.thy ===== *)
theory Quinn_Rtc
  imports Quinn_Goodput
begin

text \<open>
  \<open>apps/quinn-apps/src/bin/quinn-rtc-server.rs\<close> and \<open>quinn-rtc-client.rs\<close>: a media server that sends each frame on a
  unidirectional stream of its own, and the client that counts them. As in \<open>Quinn_Goodput\<close>, what an awaited call
  returns is an argument: a list, whose end means that the call is still waiting.
\<close>

section \<open>Media clients of the server\<close>

text \<open>What the server has done with a stream it opened, and the struct \<open>MediaClient\<close>, with \<open>conn\<close> as those streams.\<close>

datatype uni_stream = Opened | Written bytes | Finished bytes

record quinn_client =
  qc_conn :: "(nat \<times> uni_stream) list"
  qc_request_frames :: nat
  qc_frame_count :: nat
  qc_last_frame_time :: instant
  qc_stats :: server_stats
  qc_server_time :: instant
  qc_frame_size :: nat

definition quinn_client_new :: "instant \<Rightarrow> instant \<Rightarrow> nat \<Rightarrow> quinn_client" where
  "quinn_client_new clock start fsize = \<lparr>qc_conn = [], qc_request_frames = 0, qc_frame_count = 0, qc_last_frame_time = clock,
     qc_stats = server_stats_new, qc_server_time = start, qc_frame_size = fsize\<rparr>"

definition quinn_set_request_frames :: "nat \<Rightarrow> quinn_client \<Rightarrow> quinn_client" where
  "quinn_set_request_frames n c = c\<lparr>qc_request_frames := n\<rparr>"

definition quinn_all_frames_sent :: "quinn_client \<Rightarrow> bool option" where
  "quinn_all_frames_sent c = do { rust_assert (qc_frame_count c \<le> qc_request_frames c); Some (qc_frame_count c = qc_request_frames c) }"

text \<open>
  The answers to one frame: the index of the stream \<open>open_uni\<close> opens, the system clock for the log line and the monotonic
  clock, whether \<open>write_all\<close> and \<open>finish\<close> succeed. What \<open>write_all\<close> took before it failed is not recorded.
\<close>

record frame_io =
  fi_open :: "nat option"
  fi_wall :: instant
  fi_now :: instant
  fi_write :: bool
  fi_finish :: bool

datatype frame_error = FrameOpen | FrameWrite | FrameFinish

definition quinn_send_next_frame :: "frame_io \<Rightarrow> quinn_client \<Rightarrow> (frame_error, unit) outcome \<times> quinn_client" where
  "quinn_send_next_frame io c0 = (case quinn_all_frames_sent c0 of
       None \<Rightarrow> (Panic, c0)
     | Some True \<Rightarrow> (Ok (), c0)
     | Some False \<Rightarrow>
         if \<not> qc_frame_size c0 < 2 ^ 63 then (Panic, c0)
         else let body = replicate (qc_frame_size c0) 0; c = c0\<lparr>qc_frame_count := qc_frame_count c0 + 1\<rparr> in
           (case fi_open io of
              None \<Rightarrow> (Err FrameOpen, c)
            | Some i \<Rightarrow>
                if peer_elapsed (fi_wall io) (qc_server_time c) = None then (Panic, c\<lparr>qc_conn := qc_conn c @ [(i, Opened)]\<rparr>)
                else let c1 = c\<lparr>qc_last_frame_time := fi_now io\<rparr> in
                  if \<not> fi_write io then (Err FrameWrite, c1\<lparr>qc_conn := qc_conn c @ [(i, Opened)]\<rparr>)
                  else if \<not> fi_finish io then (Err FrameFinish, c1\<lparr>qc_conn := qc_conn c @ [(i, Written body)]\<rparr>)
                  else (Ok (), c1\<lparr>qc_conn := qc_conn c @ [(i, Finished body)], qc_stats := bytes_sent (length body) (qc_stats c1)\<rparr>)))"

section \<open>The request\<close>

datatype rtc_get_error = RtcGetN getn_error | UnknownRequest

definition quinn_process_get :: "bytes \<Rightarrow> rtc_get_error + nat" where
  "quinn_process_get x = (if is_getn x then (case parse_getn x of Inl e \<Rightarrow> Inl (RtcGetN e) | Inr n \<Rightarrow> Inr n) else Inl UnknownRequest)"

datatype rtc_request_error = RtcReading | RtcGet rtc_get_error

definition quinn_handle_request :: "bytes option \<Rightarrow> (rtc_request_error, nat) outcome" where
  "quinn_handle_request recv = (case recv of
       None \<Rightarrow> Err RtcReading
     | Some req \<Rightarrow> (case escaped req of
         None \<Rightarrow> Panic
       | Some _ \<Rightarrow> (case quinn_process_get req of Inl e \<Rightarrow> Err (RtcGet e) | Inr n \<Rightarrow> Ok n)))"

text \<open>The loop that waits for a request: streams with a bad one are dropped, and the connection may be closed or fail.\<close>

datatype wait_result = WaitClosed | WaitFailed | WaitPanic | Waiting | Requested nat

fun wait_request :: "(bytes option \<times> bool) accepted list \<Rightarrow> wait_result" where
  "wait_request [] = Waiting"
| "wait_request (ApplicationClosed # _) = WaitClosed"
| "wait_request (ConnectionError # _) = WaitFailed"
| "wait_request (Accepted (recv, finish) # as) = (case quinn_handle_request recv of
     Panic \<Rightarrow> WaitPanic
   | Err _ \<Rightarrow> wait_request as
   | Ok n \<Rightarrow> if finish then Requested n else WaitPanic)"

section \<open>The connection\<close>

datatype loop_result = LoopDone | LoopPanic | LoopWaiting

text \<open>\<open>while !client.all_frames_sent()\<close>: one frame per tick, until one fails.\<close>

fun send_frames :: "frame_io list \<Rightarrow> quinn_client \<Rightarrow> loop_result \<times> quinn_client" where
  "send_frames [] c = (case quinn_all_frames_sent c of
     None \<Rightarrow> (LoopPanic, c) | Some True \<Rightarrow> (LoopDone, c) | Some False \<Rightarrow> (LoopWaiting, c))"
| "send_frames (io # ios) c = (case quinn_all_frames_sent c of
     None \<Rightarrow> (LoopPanic, c)
   | Some True \<Rightarrow> (LoopDone, c)
   | Some False \<Rightarrow> (case quinn_send_next_frame io c of
       (Ok _, c') \<Rightarrow> send_frames ios c'
     | (Err _, c') \<Rightarrow> (LoopDone, c')
     | (Panic, c') \<Rightarrow> (LoopPanic, c')))"

text \<open>
  \<open>handle_connection\<close>: whether the handshake succeeds, the streams of the client, the frames, and whether the client has
  closed the connection yet. \<open>PeerTime::new(&0.0)\<close> is the epoch.
\<close>

datatype serve_result = ServeFailed | ServePanic | ServeWaiting | ServeOk

record serve_io =
  si_established :: bool
  si_clock :: instant
  si_streams :: "(bytes option \<times> bool) accepted list"
  si_request_time :: instant
  si_frames :: "frame_io list"
  si_end :: instant
  si_closed :: bool

definition quinn_handle_connection :: "nat \<Rightarrow> serve_io \<Rightarrow> serve_result \<times> quinn_client" where
  "quinn_handle_connection fsize io = (let c0 = quinn_client_new (si_clock io) 0 fsize in
     if \<not> si_established io then (ServeFailed, c0)
     else (case wait_request (si_streams io) of
         WaitClosed \<Rightarrow> (ServeOk, c0)
       | WaitFailed \<Rightarrow> (ServeFailed, c0)
       | WaitPanic \<Rightarrow> (ServePanic, c0)
       | Waiting \<Rightarrow> (ServeWaiting, c0)
       | Requested n \<Rightarrow>
           let c = quinn_set_request_frames n (c0\<lparr>qc_stats := request_recved (si_request_time io) (qc_stats c0)\<rparr>) in
           (case send_frames (si_frames io) c of
              (LoopPanic, c1) \<Rightarrow> (ServePanic, c1)
            | (LoopWaiting, c1) \<Rightarrow> (ServeWaiting, c1)
            | (LoopDone, c1) \<Rightarrow> (case server_print_stats (si_end io) (qc_stats c1) of
                None \<Rightarrow> (ServePanic, c1)
              | Some _ \<Rightarrow> (if si_closed io then ServeOk else ServeWaiting, c1)))))"

definition quinn_rtc_run :: "nat \<Rightarrow> server_opt \<Rightarrow> (incoming \<times> serve_io) list \<Rightarrow> (serve_result \<times> quinn_client) list option" where
  "quinn_rtc_run fsize opt = accept_loop opt (quinn_handle_connection fsize)"

section \<open>The client\<close>

text \<open>\<open>accept_uni\<close> and what is read to the end of the stream, with the readings of the clocks.\<close>

record uni_recv =
  ur_data :: "bytes option"
  ur_t :: instant
  ur_now :: instant
  ur_wall :: instant

datatype recv_result = RecvDone | RecvFailed | RecvPanic | RecvWaiting

fun recv_frames :: "nat \<Rightarrow> instant \<Rightarrow> uni_recv accepted list \<Rightarrow> nat \<Rightarrow> client_stats \<Rightarrow> recv_result \<times> nat \<times> client_stats" where
  "recv_frames requested client_time [] n s = (RecvWaiting, n, s)"
| "recv_frames requested client_time (ApplicationClosed # _) n s = (RecvDone, n, s)"
| "recv_frames requested client_time (ConnectionError # _) n s = (RecvFailed, n, s)"
| "recv_frames requested client_time (Accepted u # us) n s = (case ur_data u of
     None \<Rightarrow> (RecvFailed, n, s)
   | Some resp \<Rightarrow>
       let s' = bytes_recv (ur_t u) (ur_now u) (length resp) s in
       if peer_elapsed (ur_wall u) client_time = None then (RecvPanic, n, s')
       else if n + 1 = requested then (RecvDone, n + 1, s')
       else recv_frames requested client_time us (n + 1) s')"

record quinn_client_io =
  qi_clock :: instant
  qi_start :: instant
  qi_connect :: bool
  qi_open :: bool
  qi_rebind :: bool
  qi_write :: bool
  qi_finish :: bool
  qi_streams :: "uni_recv accepted list"
  qi_end :: instant

datatype quinn_client_result = ClientConnect | ClientOpen | ClientSend | ClientFrames | ClientPanic | ClientWaiting
  | ClientOk nat client_stats

text \<open>The result and the request that was sent.\<close>

definition quinn_rtc_client :: "nat \<Rightarrow> quinn_client_io \<Rightarrow> quinn_client_result \<times> bytes option" where
  "quinn_rtc_client requested io = (let req = get_n_request requested; s = request_start (qi_start io) (client_stats_new (qi_clock io)) in
     if \<not> qi_connect io then (ClientConnect, None)
     else if \<not> qi_open io then (ClientOpen, None)
     else if \<not> qi_rebind io then (ClientPanic, None)
     else if \<not> qi_write io then (ClientSend, None)
     else if \<not> qi_finish io then (ClientPanic, Some req)
     else (case recv_frames requested 0 (qi_streams io) 0 s of
         (RecvWaiting, n, s') \<Rightarrow> (ClientWaiting, Some req)
       | (RecvFailed, n, s') \<Rightarrow> (ClientFrames, Some req)
       | (RecvPanic, n, s') \<Rightarrow> (ClientPanic, Some req)
       | (RecvDone, n, s') \<Rightarrow> (case client_print_stats (qi_end io) s' of
           None \<Rightarrow> (ClientPanic, Some req) | Some _ \<Rightarrow> (ClientOk n s', Some req))))"

section \<open>Frames\<close>

definition finished :: "(nat \<times> uni_stream) list \<Rightarrow> nat" where
  "finished ss = length (filter (\<lambda>(i, u). case u of Finished _ \<Rightarrow> True | _ \<Rightarrow> False) ss)"

text \<open>Every finished stream carries one whole frame, and the statistics count the finished ones.\<close>

definition quinn_frames :: "nat \<Rightarrow> quinn_client \<Rightarrow> bool" where
  "quinn_frames fsize c \<longleftrightarrow> qc_frame_size c = fsize \<and> (\<forall>i d. (i, Finished d) \<in> set (qc_conn c) \<longrightarrow> d = replicate fsize 0) \<and>
     ss_bytes_sent (qc_stats c) = finished (qc_conn c) * fsize \<and> finished (qc_conn c) \<le> qc_frame_count c \<and>
     qc_frame_count c \<le> qc_request_frames c"

text \<open>What sending a frame does to the streams: nothing, an unfinished stream more, or a finished one that is counted.\<close>

lemma quinn_send_next_frame_cases:
  assumes "quinn_send_next_frame io c = (r, c')"
  shows "c' = c \<or> qc_frame_count c < qc_request_frames c \<and> qc_frame_count c' = qc_frame_count c + 1 \<and>
    qc_request_frames c' = qc_request_frames c \<and> qc_frame_size c' = qc_frame_size c \<and>
    (qc_stats c' = qc_stats c \<and> (qc_conn c' = qc_conn c \<or> (\<exists>i u. (\<forall>d. u \<noteq> Finished d) \<and> qc_conn c' = qc_conn c @ [(i, u)])) \<or>
     qc_stats c' = bytes_sent (qc_frame_size c) (qc_stats c) \<and>
       (\<exists>i. qc_conn c' = qc_conn c @ [(i, Finished (replicate (qc_frame_size c) 0))]))"
proof (cases "quinn_all_frames_sent c = Some False \<and> qc_frame_size c < 2 ^ 63")
  case True
  then have lt: "qc_frame_count c < qc_request_frames c" by (auto simp: quinn_all_frames_sent_def bind_eq_Some_conv)
  show ?thesis
  proof (cases "fi_open io")
    case None
    with assms True lt show ?thesis by (auto simp: quinn_send_next_frame_def Let_def)
  next
    case (Some i)
    with assms True lt show ?thesis
      by (cases "peer_elapsed (fi_wall io) (qc_server_time c)"; cases "fi_write io"; cases "fi_finish io")
        (auto simp: quinn_send_next_frame_def Let_def)
  qed
next
  case False
  with assms show ?thesis by (auto simp: quinn_send_next_frame_def split: option.splits bool.splits if_splits)
qed

lemma finished_snoc: "finished (ss @ [(i, u)]) = finished ss + (case u of Finished _ \<Rightarrow> 1 | _ \<Rightarrow> 0)"
  by (simp add: finished_def split: uni_stream.splits)

lemma quinn_send_next_frame_keeps:
  assumes ok: "quinn_frames fsize c" and eq: "quinn_send_next_frame io c = (r, c')"
  shows "quinn_frames fsize c'"
proof (cases "c' = c")
  case False
  with quinn_send_next_frame_cases [OF eq] have c: "qc_frame_count c < qc_request_frames c" "qc_frame_count c' = qc_frame_count c + 1"
    "qc_request_frames c' = qc_request_frames c" "qc_frame_size c' = qc_frame_size c" by blast+
  consider "qc_stats c' = qc_stats c" "qc_conn c' = qc_conn c"
    | i u where "qc_stats c' = qc_stats c" "\<forall>d. u \<noteq> Finished d" "qc_conn c' = qc_conn c @ [(i, u)]"
    | i where "qc_stats c' = bytes_sent (qc_frame_size c) (qc_stats c)" "qc_conn c' = qc_conn c @ [(i, Finished (replicate (qc_frame_size c) 0))]"
    using quinn_send_next_frame_cases [OF eq] False by blast
  then show ?thesis
  proof cases
    case 1
    with ok c show ?thesis by (simp add: quinn_frames_def)
  next
    case (2 i u)
    then have "finished (qc_conn c') = finished (qc_conn c)" by (cases u) (simp_all add: finished_snoc)
    with ok c 2 show ?thesis by (auto simp: quinn_frames_def)
  next
    case (3 i)
    with ok c show ?thesis by (auto simp: quinn_frames_def finished_snoc bytes_sent_def)
  qed
qed (simp add: ok)

lemma send_frames_keeps: "quinn_frames fsize c \<Longrightarrow> send_frames ios c = (r, c') \<Longrightarrow> quinn_frames fsize c'"
proof (induction ios arbitrary: c)
  case (Cons io ios)
  obtain o' c1 where s: "quinn_send_next_frame io c = (o', c1)" by fastforce
  from quinn_send_next_frame_keeps [OF Cons.prems(1) s] Cons s show ?case
    by (auto split: option.splits bool.splits outcome.splits)
qed (auto split: option.splits bool.splits)

definition good_frame :: "frame_io \<Rightarrow> bool" where
  "good_frame io \<longleftrightarrow> fi_open io \<noteq> None \<and> 0 \<le> fi_wall io \<and> fi_write io \<and> fi_finish io"

lemma send_frames_good:
  assumes "list_all good_frame ios" and "qc_request_frames c = qc_frame_count c + k" and "k \<le> length ios"
    and "qc_frame_size c < 2 ^ 63" and "qc_server_time c = 0"
  shows "\<exists>c'. send_frames ios c = (LoopDone, c') \<and>
    map snd (qc_conn c') = map snd (qc_conn c) @ replicate k (Finished (replicate (qc_frame_size c) 0)) \<and>
    ss_bytes_sent (qc_stats c') = ss_bytes_sent (qc_stats c) + k * qc_frame_size c \<and> ss_start_time (qc_stats c') = ss_start_time (qc_stats c)"
  using assms
proof (induction ios arbitrary: c k)
  case Nil
  then show ?case by (simp add: quinn_all_frames_sent_def)
next
  case (Cons io ios)
  show ?case
  proof (cases k)
    case 0
    with Cons.prems show ?thesis by (simp add: quinn_all_frames_sent_def)
  next
    case (Suc j)
    let ?f = "replicate (qc_frame_size c) 0"
    define c1 where "c1 = c\<lparr>qc_frame_count := qc_frame_count c + 1, qc_last_frame_time := fi_now io,
      qc_conn := qc_conn c @ [(the (fi_open io), Finished ?f)], qc_stats := bytes_sent (length ?f) (qc_stats c)\<rparr>"
    have "quinn_all_frames_sent c = Some False" using Suc Cons.prems by (simp add: quinn_all_frames_sent_def)
    moreover from this have "quinn_send_next_frame io c = (Ok (), c1)"
      using Cons.prems by (auto simp: quinn_send_next_frame_def good_frame_def peer_elapsed_def c1_def Let_def)
    ultimately have "send_frames (io # ios) c = send_frames ios c1" by simp
    moreover have "qc_request_frames c1 = qc_frame_count c1 + j" "qc_frame_size c1 = qc_frame_size c" "qc_server_time c1 = 0"
      using Suc Cons.prems by (simp_all add: c1_def)
    ultimately show ?thesis using Cons.IH [of c1 j] Cons.prems Suc by (auto simp: c1_def bytes_sent_def)
  qed
qed

lemma wait_request_skips:
  assumes "list_all (\<lambda>a. \<exists>recv f e. a = Accepted (recv, f) \<and> quinn_handle_request recv = Err e) bad"
  shows "wait_request (bad @ as) = wait_request as"
  using assms by (induction bad) auto

lemma request_accepted: "n < 2 ^ 64 \<Longrightarrow> quinn_handle_request (Some (get_n_request n)) = Ok n"
  using parse_getn_request [of n] by (simp add: quinn_handle_request_def escaped_total quinn_process_get_def get_n_request_def)

lemma recv_frames_all:
  assumes "list_all (\<lambda>u. ur_data u \<noteq> None \<and> 0 \<le> ur_wall u) us" and "us \<noteq> []"
  shows "\<exists>s'. recv_frames (n + length us) 0 (map Accepted us) n s = (RecvDone, n + length us, s') \<and>
    cs_bytes_recv s' = cs_bytes_recv s + sum_list (map (length \<circ> the \<circ> ur_data) us) \<and> cs_start_time s' = cs_start_time s"
  using assms
proof (induction us arbitrary: n s)
  case (Cons u us)
  let ?s = "bytes_recv (ur_t u) (ur_now u) (length (the (ur_data u))) s"
  have s: "cs_bytes_recv ?s = cs_bytes_recv s + length (the (ur_data u))" "cs_start_time ?s = cs_start_time s"
    by (simp_all add: bytes_recv_def Let_def)
  show ?case
  proof (cases "us = []")
    case True
    with Cons.prems s show ?thesis by (auto simp: peer_elapsed_def)
  next
    case False
    with Cons.prems Cons.IH [of "n + 1" ?s] s show ?thesis by (auto simp: peer_elapsed_def)
  qed
qed simp

section \<open>Properties\<close>

text \<open>
  C36. Whatever the library, the network and the client do, the media server over \<open>quinn\<close> finishes a stream only with one whole
  frame of the configured size, counts exactly the finished ones as sent, and never begins more frames than were
  requested, so that the assertion in \<open>all_frames_sent\<close> holds.
\<close>

theorem quinn_frames_whole:
  assumes "quinn_handle_connection fsize io = (r, c)"
  shows "(\<forall>i d. (i, Finished d) \<in> set (qc_conn c) \<longrightarrow> d = replicate fsize 0) \<and>
    ss_bytes_sent (qc_stats c) = finished (qc_conn c) * fsize \<and> finished (qc_conn c) \<le> qc_frame_count c \<and>
    qc_frame_count c \<le> qc_request_frames c"
proof -
  let ?c0 = "quinn_client_new (si_clock io) 0 fsize"
  have new: "quinn_frames fsize (quinn_set_request_frames n (?c0\<lparr>qc_stats := s\<rparr>))" if "ss_bytes_sent s = 0" for n s
    using that by (simp add: quinn_frames_def quinn_set_request_frames_def quinn_client_new_def finished_def)
  have init: "quinn_frames fsize ?c0" by (simp add: quinn_frames_def quinn_client_new_def finished_def server_stats_new_def)
  have zero: "ss_bytes_sent (request_recved t (qc_stats ?c0)) = 0" for t
    by (simp add: request_recved_def quinn_client_new_def server_stats_new_def)
  have "quinn_frames fsize c"
  proof (cases "si_established io \<and> (\<exists>n. wait_request (si_streams io) = Requested n)")
    case True
    then obtain n where n: "si_established io" "wait_request (si_streams io) = Requested n" by blast
    let ?c = "quinn_set_request_frames n (?c0\<lparr>qc_stats := request_recved (si_request_time io) (qc_stats ?c0)\<rparr>)"
    obtain l c1 where l: "send_frames (si_frames io) ?c = (l, c1)" by fastforce
    with assms n have "c = c1"
      by (auto simp: quinn_handle_connection_def Let_def split: loop_result.splits option.splits)
    moreover have "quinn_frames fsize ?c" using zero by (rule new)
    ultimately show ?thesis using send_frames_keeps l by blast
  next
    case False
    then have "c = ?c0" using assms by (auto simp: quinn_handle_connection_def Let_def split: if_splits wait_result.splits)
    with init show ?thesis by simp
  qed
  then show ?thesis by (simp add: quinn_frames_def)
qed

text \<open>
  C33. Server and client over \<open>quinn\<close> agree: a client that asks for \<open>n > 0\<close> frames sends a request which the server, after any
  number of requests it refused, answers, as long as the calls into the library succeed, with exactly \<open>n\<close> finished
  streams of one frame each; and the client that reads these streams, in any order, ends with \<open>n\<close> frames and
  \<open>n\<close> times the frame size in bytes.
\<close>

theorem quinn_rtc_end_to_end:
  assumes "0 < n" and "n < 2 ^ 64" and "fsize < 2 ^ 63" and "n * fsize < 2 ^ 64"
    and bad: "list_all (\<lambda>a. \<exists>recv f e. a = Accepted (recv, f) \<and> quinn_handle_request recv = Err e) bad"
    and ios: "list_all good_frame ios" "n \<le> length ios"
  shows "\<exists>c. quinn_handle_connection fsize \<lparr>si_established = True, si_clock = clock, si_streams = bad @ Accepted (Some (get_n_request n), True) # later,
        si_request_time = t, si_frames = ios, si_end = end, si_closed = gone\<rparr> = (if gone then ServeOk else ServeWaiting, c) \<and>
      map snd (qc_conn c) = replicate n (Finished (replicate fsize 0)) \<and>
      (\<forall>us io. map (Finished \<circ> the \<circ> ur_data) us = map snd (qc_conn c) \<and> list_all (\<lambda>u. ur_data u \<noteq> None \<and> 0 \<le> ur_wall u) us \<and>
        qi_connect io \<and> qi_open io \<and> qi_rebind io \<and> qi_write io \<and> qi_finish io \<and> qi_streams io = map Accepted us \<longrightarrow>
        (\<exists>s. quinn_rtc_client n io = (ClientOk n s, Some (get_n_request n)) \<and> cs_bytes_recv s = n * fsize))"
proof -
  let ?c0 = "quinn_client_new clock 0 fsize"
  let ?c = "quinn_set_request_frames n (?c0\<lparr>qc_stats := request_recved t (qc_stats ?c0)\<rparr>)"
  have "wait_request (bad @ Accepted (Some (get_n_request n), True) # later) = Requested n"
    by (simp add: wait_request_skips [OF bad] request_accepted [OF assms(2)])
  moreover obtain c where c: "send_frames ios ?c = (LoopDone, c)" "map snd (qc_conn c) = replicate n (Finished (replicate fsize 0))"
    "ss_bytes_sent (qc_stats c) = n * fsize" "ss_start_time (qc_stats c) = Some t"
    using send_frames_good [OF ios(1), of ?c n] ios(2) assms(3)
    by (auto simp: quinn_client_new_def quinn_set_request_frames_def request_recved_def server_stats_new_def)
  moreover from c assms(4) have "\<exists>x. server_print_stats end (qc_stats c) = Some x" by (intro server_print_stats_total) simp_all
  ultimately have srv: "quinn_handle_connection fsize \<lparr>si_established = True, si_clock = clock, si_streams = bad @ Accepted (Some (get_n_request n), True) # later,
      si_request_time = t, si_frames = ios, si_end = end, si_closed = gone\<rparr> = (if gone then ServeOk else ServeWaiting, c)"
    by (auto simp: quinn_handle_connection_def Let_def)
  have "\<exists>s. quinn_rtc_client n io = (ClientOk n s, Some (get_n_request n)) \<and> cs_bytes_recv s = n * fsize"
    if us: "map (Finished \<circ> the \<circ> ur_data) us = map snd (qc_conn c)" "list_all (\<lambda>u. ur_data u \<noteq> None \<and> 0 \<le> ur_wall u) us"
      and io: "qi_connect io \<and> qi_open io \<and> qi_rebind io \<and> qi_write io \<and> qi_finish io \<and> qi_streams io = map Accepted us" for us io
  proof -
    have len: "length us = n" using arg_cong [OF us(1), of length] c(2) by simp
    have "map (length \<circ> the \<circ> ur_data) us = map (\<lambda>u. case u of Finished d \<Rightarrow> length d | _ \<Rightarrow> 0) (map (Finished \<circ> the \<circ> ur_data) us)" by simp
    also have "\<dots> = replicate n fsize" unfolding us(1) c(2) by simp
    finally have sum: "sum_list (map (length \<circ> the \<circ> ur_data) us) = n * fsize" by (simp add: sum_list_replicate)
    let ?s = "request_start (qi_start io) (client_stats_new (qi_clock io))"
    have "us \<noteq> []" using len assms(1) by auto
    from recv_frames_all [OF us(2) this, of 0 ?s] len sum obtain s where
      s: "recv_frames n 0 (map Accepted us) 0 ?s = (RecvDone, n, s)" "cs_bytes_recv s = n * fsize" "cs_start_time s \<noteq> None"
      by (auto simp: request_start_def client_stats_new_def)
    moreover from s assms(4) have "\<exists>x. client_print_stats (qi_end io) s = Some x" by (intro client_print_stats_total) simp_all
    ultimately show ?thesis using io by (auto simp: quinn_rtc_client_def Let_def)
  qed
  with srv c(2) show ?thesis by blast
qed

text \<open>Two frames of three bytes, after a request the server does not know.\<close>

definition two_frames :: "frame_io list" where
  "two_frames = map (\<lambda>i. \<lparr>fi_open = Some i, fi_wall = 1, fi_now = 1, fi_write = True, fi_finish = True\<rparr>) [0, 1]"

definition two_frames_io :: serve_io where
  "two_frames_io = \<lparr>si_established = True, si_clock = 0, si_streams = [Accepted (Some [0x21], True)] @ Accepted (Some (get_n_request 2), True) # [],
     si_request_time = 0, si_frames = two_frames, si_end = 0, si_closed = True\<rparr>"

lemma two_frames_hyps:
  "list_all (\<lambda>a. \<exists>recv f e. a = Accepted (recv, f) \<and> quinn_handle_request recv = Err e) [Accepted (Some [0x21], True)]"
  "list_all good_frame two_frames" "2 \<le> length two_frames"
  by (auto simp: quinn_handle_request_def escaped_total quinn_process_get_def is_getn_def good_frame_def two_frames_def)

theorem quinn_rtc_end_to_end_witness:
  "\<exists>c. quinn_handle_connection 3 two_frames_io = (ServeOk, c) \<and> map snd (qc_conn c) = [Finished [0, 0, 0], Finished [0, 0, 0]]"
proof -
  have "replicate 2 (Finished (replicate 3 0)) = [Finished [0, 0, 0], Finished [0, 0, 0]]" by (simp add: numeral_eq_Suc)
  then show ?thesis
    using quinn_rtc_end_to_end [OF _ _ _ _ two_frames_hyps, of 3 0 "[]" 0 0 True] unfolding two_frames_io_def by auto
qed

theorem quinn_frames_whole_witness:
  "\<exists>r c. quinn_handle_connection 3 two_frames_io = (r, c) \<and> ss_bytes_sent (qc_stats c) = finished (qc_conn c) * 3"
proof -
  obtain r c where "quinn_handle_connection 3 two_frames_io = (r, c)" by fastforce
  with quinn_frames_whole [OF this] show ?thesis by blast
qed

text \<open>A client that asks for no frames waits for one, while the server waits for the client to close.\<close>

lemma zero_frames_wait:
  assumes "list_all (\<lambda>u. ur_data u \<noteq> None \<and> 0 \<le> ur_wall u) us"
  shows "\<exists>n' s'. recv_frames 0 0 (map Accepted us) n s = (RecvWaiting, n', s')"
  using assms by (induction us arbitrary: n s) (auto simp: peer_elapsed_def Let_def)

lemma zero_frames_none_sent: "wait_request (si_streams io) = Requested 0 \<Longrightarrow> si_established io \<Longrightarrow> \<not> si_closed io \<Longrightarrow>
    \<exists>c. quinn_handle_connection fsize io = (ServeWaiting, c) \<and> qc_conn c = []"
  using server_print_stats_total [of "request_recved (si_request_time io) server_stats_new" "si_end io"]
  by (cases "si_frames io") (auto simp: quinn_handle_connection_def quinn_client_new_def quinn_set_request_frames_def quinn_all_frames_sent_def
      request_recved_def server_stats_new_def Let_def)

end
