(* ===== verification/Quinn_Identity.thy ===== *)
theory Quinn_Identity
  imports Unix_Path
begin

text \<open>
  Where the applications under \<open>apps/quinn-apps\<close> take their certificates from: the first part of \<open>run\<close> of the two servers, which is
  the same in both, and of the two clients. Files are a map from paths to contents, with paths that cannot be read or
  written; parsing PEM and DER and making a certificate is the library's, a parameter.
\<close>

section \<open>Files\<close>

datatype fs_error = NotFound | OtherIo

record file_system =
  fs_files :: "bytes \<rightharpoonup> bytes"
  fs_unreadable :: "bytes \<Rightarrow> bool"
  fs_unwritable :: "bytes \<Rightarrow> bool"

definition fs_read :: "file_system \<Rightarrow> bytes \<Rightarrow> fs_error + bytes" where
  "fs_read fs p = (if fs_unreadable fs p then Inl OtherIo else case fs_files fs p of None \<Rightarrow> Inl NotFound | Some d \<Rightarrow> Inr d)"

definition fs_write :: "bytes \<Rightarrow> bytes \<Rightarrow> file_system \<Rightarrow> file_system option" where
  "fs_write p d fs = (if fs_unwritable fs p then None else Some (fs\<lparr>fs_files := (fs_files fs)(p \<mapsto> d)\<rparr>))"

text \<open>\<open>Path::extension\<close>: what follows the last dot of the file name, unless that dot is the first byte.\<close>

definition extension :: "bytes \<Rightarrow> bytes option" where
  "extension p = (case components p of
       [] \<Rightarrow> None
     | c # cs \<Rightarrow> (case last (c # cs) of
         Normal name \<Rightarrow>
           let after = rev (takeWhile (\<lambda>b. b \<noteq> 0x2e) (rev name)); before = length name - length after in
           if 0x2e \<notin> set name \<or> before \<le> 1 then None else Some after
       | _ \<Rightarrow> None))"

section \<open>The identity of a server\<close>

record 'k tls =
  key_pkcs8 :: "bytes \<Rightarrow> 'k"
  key_try_from :: "bytes \<Rightarrow> 'k option"
  key_from_pem_file :: "file_system \<Rightarrow> bytes \<Rightarrow> 'k option"
  certs_from_pem_file :: "file_system \<Rightarrow> bytes \<Rightarrow> bytes option list option"

datatype identity_error = KeyRead | KeyPem | ChainRead | ChainPem | ChainInvalid | BadKey | CreateDir | WriteCert | WriteKey | CertRead fs_error

definition der :: bytes where
  "der = [0x64, 0x65, 0x72]"

definition cert_der :: bytes where
  "cert_der = [0x63, 0x65, 0x72, 0x74, 0x2e, 0x64, 0x65, 0x72]"

definition key_der :: bytes where
  "key_der = [0x6b, 0x65, 0x79, 0x2e, 0x64, 0x65, 0x72]"

text \<open>Both files were given on the command line.\<close>

definition given_identity :: "'k tls \<Rightarrow> file_system \<Rightarrow> bytes \<Rightarrow> bytes \<Rightarrow> (identity_error, bytes list \<times> 'k) outcome" where
  "given_identity lib fs key_path cert_path =
     (case (if extension key_path = Some der then
              (case fs_read fs key_path of Inl _ \<Rightarrow> Inl KeyRead | Inr d \<Rightarrow> Inr (key_pkcs8 lib d))
            else (case key_from_pem_file lib fs key_path of None \<Rightarrow> Inl KeyPem | Some k \<Rightarrow> Inr k)) of
        Inl e \<Rightarrow> Err e
      | Inr key \<Rightarrow>
          (case (if extension cert_path = Some der then
                   (case fs_read fs cert_path of Inl _ \<Rightarrow> Inl ChainRead | Inr d \<Rightarrow> Inr [d])
                 else (case certs_from_pem_file lib fs cert_path of
                     None \<Rightarrow> Inl ChainPem
                   | Some cs \<Rightarrow> (case mapO id cs of None \<Rightarrow> Inl ChainInvalid | Some ds \<Rightarrow> Inr ds))) of
             Inl e \<Rightarrow> Err e
           | Inr chain \<Rightarrow> Ok (chain, key)))"

text \<open>\<open>fs::read(&cert_path).and_then(|x| Ok((x, fs::read(&key_path)?)))\<close>.\<close>

definition read_both :: "file_system \<Rightarrow> bytes \<Rightarrow> bytes \<Rightarrow> fs_error + bytes \<times> bytes" where
  "read_both fs cert_path key_path = (case fs_read fs cert_path of
       Inl e \<Rightarrow> Inl e
     | Inr cert \<Rightarrow> (case fs_read fs key_path of Inl e \<Rightarrow> Inl e | Inr key \<Rightarrow> Inr (cert, key)))"

text \<open>
  Neither was: the identity of the data directory, or a new one that is written there. \<open>mkdir\<close> is whether \<open>create_dir_all\<close> succeeds,
  \<open>fresh\<close> the certificate and the key that \<open>rcgen\<close> would make.
\<close>

definition default_identity ::
    "'k tls \<Rightarrow> bool \<Rightarrow> bytes \<times> bytes \<Rightarrow> bytes \<Rightarrow> file_system \<Rightarrow> (identity_error, bytes list \<times> 'k) outcome \<times> file_system" where
  "default_identity lib mkdir fresh dir fs = (let
       cert_path = path_push dir cert_der;
       key_path = path_push dir key_der in
     case read_both fs cert_path key_path of
       Inr (cert, key) \<Rightarrow> (case key_try_from lib key of None \<Rightarrow> (Err BadKey, fs) | Some k \<Rightarrow> (Ok ([cert], k), fs))
     | Inl NotFound \<Rightarrow>
         if \<not> mkdir then (Err CreateDir, fs)
         else (case fs_write cert_path (fst fresh) fs of
             None \<Rightarrow> (Err WriteCert, fs)
           | Some fs1 \<Rightarrow> (case fs_write key_path (snd fresh) fs1 of
               None \<Rightarrow> (Err WriteKey, fs1)
             | Some fs2 \<Rightarrow> (Ok ([fst fresh], key_pkcs8 lib (snd fresh)), fs2)))
     | Inl e \<Rightarrow> (Err (CertRead e), fs))"

text \<open>\<open>data_dir\<close> is unwrapped: \<open>ProjectDirs\<close> has none without a home directory.\<close>

definition server_identity ::
    "'k tls \<Rightarrow> bool \<Rightarrow> bytes \<times> bytes \<Rightarrow> bytes option \<Rightarrow> bytes option \<Rightarrow> bytes option \<Rightarrow> file_system \<Rightarrow>
     (identity_error, bytes list \<times> 'k) outcome \<times> file_system" where
  "server_identity lib mkdir fresh data_dir key cert fs = (case (key, cert) of
       (Some key_path, Some cert_path) \<Rightarrow> (given_identity lib fs key_path cert_path, fs)
     | _ \<Rightarrow> (case data_dir of None \<Rightarrow> (Panic, fs) | Some dir \<Rightarrow> default_identity lib mkdir fresh dir fs))"

section \<open>The roots of a client\<close>

datatype roots_error = CaRead | CaInvalid

text \<open>\<open>add\<close> is whether the store takes the certificate. A missing default certificate is only logged.\<close>

definition client_roots ::
    "(bytes \<Rightarrow> bool) \<Rightarrow> bytes option \<Rightarrow> bytes option \<Rightarrow> file_system \<Rightarrow> (roots_error, bytes list) outcome" where
  "client_roots add data_dir ca fs = (let store = (\<lambda>c. if add c then Ok [c] else Err CaInvalid) in case ca of
       Some ca_path \<Rightarrow> (case fs_read fs ca_path of Inl _ \<Rightarrow> Err CaRead | Inr c \<Rightarrow> store c)
     | None \<Rightarrow> (case data_dir of
         None \<Rightarrow> Panic
       | Some dir \<Rightarrow> (case fs_read fs (path_push dir cert_der) of
           Inr c \<Rightarrow> store c | Inl _ \<Rightarrow> Ok [])))"

section \<open>Property\<close>

lemma cert_key_differ:
  "path_push dir cert_der \<noteq> path_push dir key_der"
  by (simp add: path_push_def has_root_def cert_der_def key_der_def)

text \<open>After a start with the default identity, the file of the certificate holds the one the server uses.\<close>

lemma cert_on_disk:
  assumes "server_identity lib mkdir fresh (Some dir) None None fs = (Ok (certs, key), fs')"
  shows "\<exists>cert. fs_read fs' (path_push dir cert_der) = Inr cert \<and> certs = [cert] \<and>
    (fs_read fs (path_push dir cert_der) = Inl NotFound \<longrightarrow> cert = fst fresh)"
  using assms cert_key_differ [of dir]
  by (auto simp: server_identity_def default_identity_def read_both_def fs_read_def fs_write_def Let_def
      split: sum.splits option.splits fs_error.splits if_splits)

text \<open>So does that of the key, if it can be read at all.\<close>

lemma key_on_disk:
  assumes "key_try_from lib (snd fresh) = Some (key_pkcs8 lib (snd fresh))"
    and "server_identity lib mkdir fresh (Some dir) None None fs = (Ok (certs, key), fs')"
    and "\<not> fs_unreadable fs (path_push dir key_der)"
  shows "\<exists>k. fs_read fs' (path_push dir key_der) = Inr k \<and> key_try_from lib k = Some key"
  using assms cert_key_differ [of dir]
  by (auto simp: server_identity_def default_identity_def read_both_def fs_read_def fs_write_def Let_def
      split: sum.splits option.splits fs_error.splits if_splits)

lemma client_trusts_disk:
  "fs_read fs (path_push dir cert_der) = Inr cert \<Longrightarrow> add cert \<Longrightarrow> client_roots add (Some dir) None fs = Ok [cert]"
  by (simp add: client_roots_def)

text \<open>
  C38. The identity is made once: when a server without files of its own succeeds, every later start with the same data directory
  gives the same certificate and key and writes nothing, whatever a new certificate would be; a client on the same
  machine trusts that certificate. This relies on the library reading back a PKCS#8 key it wrote and on
  the file of the key being readable.
\<close>

theorem identity_persists:
  assumes "key_try_from lib (snd fresh) = Some (key_pkcs8 lib (snd fresh))"
    and "server_identity lib mkdir fresh (Some dir) None None fs = (Ok (certs, key), fs')"
    and "\<not> fs_unreadable fs (path_push dir key_der)"
  shows "server_identity lib mkdir' fresh' (Some dir) None None fs' = (Ok (certs, key), fs') \<and>
    (\<exists>cert. certs = [cert] \<and> (add cert \<longrightarrow> client_roots add (Some dir) None fs' = Ok [cert]))"
proof -
  from cert_on_disk [OF assms(2)] key_on_disk [OF assms] obtain cert k where r: "fs_read fs' (path_push dir cert_der) = Inr cert"
    "fs_read fs' (path_push dir key_der) = Inr k" "certs = [cert]" "key_try_from lib k = Some key" by blast
  then have "server_identity lib mkdir' fresh' (Some dir) None None fs' = (Ok (certs, key), fs')"
    by (simp add: server_identity_def default_identity_def Let_def read_both_def)
  with r show ?thesis by (simp add: client_trusts_disk)
qed

text \<open>A library whose keys are their bytes, and an empty disk.\<close>

definition plain_tls :: "bytes tls" where
  "plain_tls = \<lparr>key_pkcs8 = id, key_try_from = Some, key_from_pem_file = (\<lambda>_ _. None), certs_from_pem_file = (\<lambda>_ _. None)\<rparr>"

definition empty_disk :: file_system where
  "empty_disk = \<lparr>fs_files = Map.empty, fs_unreadable = (\<lambda>_. False), fs_unwritable = (\<lambda>_. False)\<rparr>"

theorem identity_persists_witness:
  "\<exists>fs'. server_identity plain_tls True ([1], [2]) (Some [slash]) None None empty_disk = (Ok ([[1]], [2]), fs') \<and>
     server_identity plain_tls True ([3], [4]) (Some [slash]) None None fs' = (Ok ([[1]], [2]), fs')"
proof -
  have "\<exists>fs'. server_identity plain_tls True ([1], [2]) (Some [slash]) None None empty_disk = (Ok ([[1]], [2]), fs')"
    by (simp add: server_identity_def default_identity_def read_both_def fs_read_def fs_write_def empty_disk_def plain_tls_def Let_def
        cert_key_differ)
  then obtain fs' where fs': "server_identity plain_tls True ([1], [2]) (Some [slash]) None None empty_disk = (Ok ([[1]], [2]), fs')" by blast
  from identity_persists [OF _ this, of True "([3], [4])"] fs' show ?thesis
    by (auto simp: plain_tls_def empty_disk_def)
qed

text \<open>Losing one of the two files replaces both.\<close>

lemma lost_key_replaces_cert:
  assumes "fs_read fs (path_push dir cert_der) = Inr cert"
    and "fs_read fs (path_push dir key_der) = Inl NotFound"
    and "default_identity lib True fresh dir fs = (Ok (certs, key), fs')"
  shows "certs = [fst fresh]"
  using assms by (auto simp: default_identity_def read_both_def Let_def split: option.splits)

end
