(* ===== verification/Quinn_Setup.thy ===== *)
theory Quinn_Setup
  imports Quinn_Rtc Quinn_Identity
begin

text \<open>
  The programs of \<open>apps/quinn-apps\<close> from their options to their exit code, and the helpers of \<open>apps/quinn-apps/src/lib.rs\<close>: how the
  endpoints are configured, which address a client connects to and which name it expects. What \<open>rustls\<close>, \<open>quinn\<close>, \<open>rcgen\<close> and the
  resolver do is a parameter, \<open>quinn_lib\<close>; a URL is given with its parts, a path as its bytes.
\<close>

section \<open>Configurations\<close>

definition ALPN_QUIC_HTTP :: "bytes list" where
  "ALPN_QUIC_HTTP = [ascii_bytes ''hq-29'']"

record transport_config =
  tc_max_concurrent_uni_streams :: nat
  tc_enable_segmentation_offload :: bool

record 'k server_config =
  sc_certs :: "bytes list"
  sc_key :: 'k
  sc_alpn_protocols :: "bytes list"
  sc_key_log :: bool
  sc_transport :: transport_config

record client_config =
  cc_roots :: "bytes list"
  cc_alpn_protocols :: "bytes list"
  cc_key_log :: bool
  cc_transport :: transport_config

record 'c endpoint =
  ep_local_addr :: socket_addr
  ep_config :: 'c

text \<open>
  The libraries: whether a certificate chain and a key fit, whether there is a cipher suite for initial packets, whether a root is
  accepted, a new certificate and key for some names, the default transport, binding a socket (\<open>None\<close>: it cannot be bound),
  asking for its address, and the addresses of a host (\<open>None\<close>: the resolver fails).
\<close>

record 'k quinn_lib =
  lib_tls :: "'k tls"
  with_single_cert :: "bytes list \<Rightarrow> 'k \<Rightarrow> bool"
  initial_suite :: bool
  add_root :: "bytes \<Rightarrow> bool"
  generate_simple_self_signed :: "bytes list \<Rightarrow> bytes \<times> bytes"
  default_transport :: transport_config
  bind_endpoint :: "socket_addr \<Rightarrow> socket_addr option"
  local_addr_known :: "socket_addr \<Rightarrow> bool"
  to_socket_addrs :: "bytes \<Rightarrow> u16 \<Rightarrow> socket_addr list option"

datatype setup_error = IdentityError identity_error | CertRejected | NoInitialSuite | RootMissing | BindFailed | LocalAddrFailed
  | ResolveFailed | NoAddress | RootsError roots_error

definition localhost :: bytes where
  "localhost = ascii_bytes ''localhost''"

section \<open>The helpers of the library\<close>

text \<open>\<open>configure_client\<close> trusts the given certificates, stopping at the first that the store refuses.\<close>

fun add_certs :: "(bytes \<Rightarrow> bool) \<Rightarrow> bytes list \<Rightarrow> bytes list \<Rightarrow> bytes list option" where
  "add_certs add certs [] = Some certs"
| "add_certs add certs (c # cs) = (if add c then add_certs add (certs @ [c]) cs else None)"

definition configure_client :: "'k quinn_lib \<Rightarrow> bytes list \<Rightarrow> setup_error + client_config" where
  "configure_client lib server_certs = (case add_certs (add_root lib) [] server_certs of
       None \<Rightarrow> Inl (RootsError CaInvalid)
     | Some certs \<Rightarrow>
         if \<not> initial_suite lib then Inl NoInitialSuite
         else Inr \<lparr>cc_roots = certs, cc_alpn_protocols = [], cc_key_log = False, cc_transport = default_transport lib\<rparr>)"

definition configure_server :: "'k quinn_lib \<Rightarrow> setup_error + 'k server_config \<times> bytes" where
  "configure_server lib = (let
       (cert, priv_key) = generate_simple_self_signed lib [localhost];
       key = key_pkcs8 (lib_tls lib) priv_key in
     if \<not> with_single_cert lib [cert] key then Inl CertRejected
     else if \<not> initial_suite lib then Inl NoInitialSuite
     else Inr (\<lparr>sc_certs = [cert], sc_key = key, sc_alpn_protocols = [], sc_key_log = False,
         sc_transport = (default_transport lib)\<lparr>tc_max_concurrent_uni_streams := 0\<rparr>\<rparr>, cert))"

definition make_client_endpoint :: "'k quinn_lib \<Rightarrow> socket_addr \<Rightarrow> bytes list \<Rightarrow> setup_error + client_config endpoint" where
  "make_client_endpoint lib bind_addr server_certs = (case configure_client lib server_certs of
       Inl e \<Rightarrow> Inl e
     | Inr client_cfg \<Rightarrow> (case bind_endpoint lib bind_addr of
         None \<Rightarrow> Inl BindFailed
       | Some a \<Rightarrow> Inr \<lparr>ep_local_addr = a, ep_config = client_cfg\<rparr>))"

definition make_server_endpoint :: "'k quinn_lib \<Rightarrow> socket_addr \<Rightarrow> setup_error + 'k server_config endpoint \<times> bytes" where
  "make_server_endpoint lib bind_addr = (case configure_server lib of
       Inl e \<Rightarrow> Inl e
     | Inr (server_cfg, server_cert) \<Rightarrow> (case bind_endpoint lib bind_addr of
         None \<Rightarrow> Inl BindFailed
       | Some a \<Rightarrow> Inr (\<lparr>ep_local_addr = a, ep_config = server_cfg\<rparr>, server_cert)))"

section \<open>The servers\<close>

text \<open>The options of both servers; \<open>key\<close> and \<open>cert\<close> require each other.\<close>

record server_args =
  sa_keylog :: bool
  sa_key :: "bytes option"
  sa_cert :: "bytes option"
  sa_listen :: socket_addr
  sa_opt :: server_opt

record goodput_args = server_args +
  ga_root :: bytes

record rtc_args = server_args +
  ra_frame_size :: nat

definition args_accepted :: "('a server_args_scheme) \<Rightarrow> bool" where
  "args_accepted o1 \<longleftrightarrow> (sa_key o1 = None \<longleftrightarrow> sa_cert o1 = None)"

text \<open>The defaults of \<open>--listen\<close>, \<open>[::1]:4433\<close>, and of \<open>--frame-size\<close>.\<close>

definition default_listen :: socket_addr where
  "default_listen = V6 1 4433 0 0"

definition default_frame_size :: nat where
  "default_frame_size = 12500"

text \<open>From the certificates to the configuration, the same in both.\<close>

definition server_config_of :: "'k quinn_lib \<Rightarrow> bool \<Rightarrow> bytes list \<Rightarrow> 'k \<Rightarrow> setup_error + 'k server_config" where
  "server_config_of lib keylog certs key =
     (if \<not> with_single_cert lib certs key then Inl CertRejected
      else if \<not> initial_suite lib then Inl NoInitialSuite
      else Inr \<lparr>sc_certs = certs, sc_key = key, sc_alpn_protocols = ALPN_QUIC_HTTP, sc_key_log = keylog,
        sc_transport = (default_transport lib)\<lparr>tc_max_concurrent_uni_streams := 0, tc_enable_segmentation_offload := False\<rparr>\<rparr>)"

text \<open>Where a server finds its files: the data directory of the project, and whether it can be created.\<close>

record machine =
  mc_data_dir :: "bytes option"
  mc_mkdir :: bool

text \<open>The first part of \<open>run\<close>: certificates and configuration.\<close>

definition server_setup ::
    "'k quinn_lib \<Rightarrow> machine \<Rightarrow> ('a server_args_scheme) \<Rightarrow> file_system \<Rightarrow> (setup_error, 'k server_config) outcome \<times> file_system" where
  "server_setup lib mc o1 fs =
     (case server_identity (lib_tls lib) (mc_mkdir mc) (generate_simple_self_signed lib [localhost]) (mc_data_dir mc) (sa_key o1) (sa_cert o1) fs of
        (Panic, fs') \<Rightarrow> (Panic, fs')
      | (Err e, fs') \<Rightarrow> (Err (IdentityError e), fs')
      | (Ok (certs, key), fs') \<Rightarrow> (case server_config_of lib (sa_keylog o1) certs key of
          Inl e \<Rightarrow> (Err e, fs')
        | Inr cfg \<Rightarrow> (Ok cfg, fs')))"

definition server_endpoint :: "'k quinn_lib \<Rightarrow> socket_addr \<Rightarrow> 'k server_config \<Rightarrow> setup_error + 'k server_config endpoint" where
  "server_endpoint lib listen cfg = (case bind_endpoint lib listen of
       None \<Rightarrow> Inl BindFailed
     | Some a \<Rightarrow> if local_addr_known lib a then Inr \<lparr>ep_local_addr = a, ep_config = cfg\<rparr> else Inl LocalAddrFailed)"

text \<open>
  \<open>run\<close> of the file server. \<open>root_exists\<close> is \<open>root.exists()\<close>; files are served from the disk as the set-up left it.
\<close>

definition disk_read :: "file_system \<Rightarrow> bytes \<Rightarrow> bytes option" where
  "disk_read fs p = (case fs_read fs p of Inl _ \<Rightarrow> None | Inr d \<Rightarrow> Some d)"

definition goodput_server ::
    "'k quinn_lib \<Rightarrow> machine \<Rightarrow> bool \<Rightarrow> goodput_args \<Rightarrow> (incoming \<times> bool \<times> (instant \<times> instant \<times> request_io) accepted list) list \<Rightarrow> file_system \<Rightarrow>
     (setup_error, 'k server_config endpoint \<times>
       (conn_result \<times> ((request_error, server_stats) outcome \<times> (bytes \<times> bool) option) list) list) outcome \<times> file_system" where
  "goodput_server lib mc root_exists o1 cs fs = (case server_setup lib mc o1 fs of
       (Panic, fs') \<Rightarrow> (Panic, fs')
     | (Err e, fs') \<Rightarrow> (Err e, fs')
     | (Ok cfg, fs') \<Rightarrow>
         if \<not> root_exists then (Err RootMissing, fs')
         else (case server_endpoint lib (sa_listen o1) cfg of
             Inl e \<Rightarrow> (Err e, fs')
           | Inr ep \<Rightarrow> (case goodput_run (disk_read fs') root_exists (ga_root o1) (sa_opt o1) cs of
               Ok rs \<Rightarrow> (Ok (ep, rs), fs')
             | Err _ \<Rightarrow> (Err RootMissing, fs')
             | Panic \<Rightarrow> (Panic, fs'))))"

definition quinn_rtc_server ::
    "'k quinn_lib \<Rightarrow> machine \<Rightarrow> rtc_args \<Rightarrow> (incoming \<times> serve_io) list \<Rightarrow> file_system \<Rightarrow>
     (setup_error, 'k server_config endpoint \<times> (serve_result \<times> quinn_client) list) outcome \<times> file_system" where
  "quinn_rtc_server lib mc o1 cs fs = (case server_setup lib mc o1 fs of
       (Panic, fs') \<Rightarrow> (Panic, fs')
     | (Err e, fs') \<Rightarrow> (Err e, fs')
     | (Ok cfg, fs') \<Rightarrow> (case server_endpoint lib (sa_listen o1) cfg of
         Inl e \<Rightarrow> (Err e, fs')
       | Inr ep \<Rightarrow> (case quinn_rtc_run (ra_frame_size o1) (sa_opt o1) cs of
           Some rs \<Rightarrow> (Ok (ep, rs), fs')
         | None \<Rightarrow> (Panic, fs'))))"

section \<open>The clients\<close>

record url =
  host_str :: "bytes option"
  url_port :: "u16 option"
  url_path :: bytes

record client_args =
  ca_keylog :: bool
  ca_url :: url
  ca_host :: "bytes option"
  ca_ca :: "bytes option"
  ca_rebind :: bool
  ca_bind :: socket_addr

definition default_bind :: socket_addr where
  "default_bind = V6 0 0 0 0"

text \<open>The address a client connects to: the host without brackets, the port 4433 unless the URL has one. A URL without host panics.\<close>

definition remote_of :: "'k quinn_lib \<Rightarrow> url \<Rightarrow> (setup_error, bytes \<times> socket_addr) outcome" where
  "remote_of lib u = (case Option.bind (host_str u) strip_ipv6_brackets of
       None \<Rightarrow> Panic
     | Some h \<Rightarrow> (case to_socket_addrs lib h (case url_port u of Some p \<Rightarrow> p | None \<Rightarrow> 4433) of
         None \<Rightarrow> Err ResolveFailed
       | Some [] \<Rightarrow> Err NoAddress
       | Some (a # _) \<Rightarrow> Ok (h, a)))"

definition client_config_of :: "'k quinn_lib \<Rightarrow> bool \<Rightarrow> bytes list \<Rightarrow> setup_error + client_config" where
  "client_config_of lib keylog roots =
     (if \<not> initial_suite lib then Inl NoInitialSuite
      else Inr \<lparr>cc_roots = roots, cc_alpn_protocols = ALPN_QUIC_HTTP, cc_key_log = keylog,
        cc_transport = (default_transport lib)\<lparr>tc_enable_segmentation_offload := False\<rparr>\<rparr>)"

text \<open>What the client is about to connect with: its endpoint, the address and the name it expects there.\<close>

record connect_to =
  ct_endpoint :: "client_config endpoint"
  ct_remote :: socket_addr
  ct_host :: bytes

definition client_setup :: "'k quinn_lib \<Rightarrow> machine \<Rightarrow> client_args \<Rightarrow> file_system \<Rightarrow> (setup_error, connect_to) outcome" where
  "client_setup lib mc o1 fs = (case remote_of lib (ca_url o1) of
       Panic \<Rightarrow> Panic
     | Err e \<Rightarrow> Err e
     | Ok (url_host, remote) \<Rightarrow> (case client_roots (add_root lib) (mc_data_dir mc) (ca_ca o1) fs of
         Panic \<Rightarrow> Panic
       | Err e \<Rightarrow> Err (RootsError e)
       | Ok roots \<Rightarrow> (case client_config_of lib (ca_keylog o1) roots of
           Inl e \<Rightarrow> Err e
         | Inr cfg \<Rightarrow> (case bind_endpoint lib (ca_bind o1) of
             None \<Rightarrow> Err BindFailed
           | Some a \<Rightarrow> Ok \<lparr>ct_endpoint = \<lparr>ep_local_addr = a, ep_config = cfg\<rparr>, ct_remote = remote,
               ct_host = (case ca_host o1 of Some h \<Rightarrow> h | None \<Rightarrow> url_host)\<rparr>))))"

text \<open>\<open>run\<close> of the two clients. The times and the results of the awaited calls are those of \<open>goodput_client\<close> and \<open>quinn_rtc_client\<close>;
  rebinding is asked for by \<open>--rebind\<close>.
\<close>

datatype 'e program_error = SetupError setup_error | ClientError 'e

definition goodput_client_run ::
    "'k quinn_lib \<Rightarrow> machine \<Rightarrow> instant \<Rightarrow> instant \<Rightarrow> instant \<Rightarrow> instant \<Rightarrow> instant \<Rightarrow> client_args \<Rightarrow> nat option \<Rightarrow> client_io \<Rightarrow> file_system \<Rightarrow>
     (client_error program_error, bytes \<times> client_stats) outcome" where
  "goodput_client_run lib mc clock start t now end o1 request_kb io fs = (case client_setup lib mc o1 fs of
       Panic \<Rightarrow> Panic
     | Err e \<Rightarrow> Err (SetupError e)
     | Ok ct \<Rightarrow> (case fst (goodput_client clock start t now end request_kb (url_path (ca_url o1)) (io\<lparr>ci_rebind := ca_rebind o1 \<longrightarrow> ci_rebind io\<rparr>)) of
         Panic \<Rightarrow> Panic
       | Err e \<Rightarrow> Err (ClientError e)
       | Ok r \<Rightarrow> Ok r))"

definition quinn_rtc_client_run ::
    "'k quinn_lib \<Rightarrow> machine \<Rightarrow> client_args \<Rightarrow> nat \<Rightarrow> quinn_client_io \<Rightarrow> file_system \<Rightarrow>
     (quinn_client_result program_error, (nat \<times> client_stats) option) outcome" where
  "quinn_rtc_client_run lib mc o1 requested io fs = (case client_setup lib mc o1 fs of
       Panic \<Rightarrow> Panic
     | Err e \<Rightarrow> Err (SetupError e)
     | Ok ct \<Rightarrow> (case fst (quinn_rtc_client requested (io\<lparr>qi_rebind := ca_rebind o1 \<longrightarrow> qi_rebind io\<rparr>)) of
         ClientPanic \<Rightarrow> Panic
       | ClientOk n s \<Rightarrow> Ok (Some (n, s))
       | ClientWaiting \<Rightarrow> Ok None
       | e \<Rightarrow> Err (ClientError e)))"

text \<open>
  The end of either client: after \<open>close\<close> it waits until the connection is closed or the endpoint is idle.
\<close>

definition client_ended :: "bool \<Rightarrow> bool \<Rightarrow> bool" where
  "client_ended conn_closed endpoint_idle \<longleftrightarrow> conn_closed \<or> endpoint_idle"

section \<open>The programs\<close>

text \<open>The texts of the errors; \<open>lib_text\<close> is the text of an error of a library.\<close>

fun identity_error_text :: "(identity_error \<Rightarrow> string) \<Rightarrow> identity_error \<Rightarrow> string" where
  "identity_error_text lib_text KeyRead = ''failed to read private key file''"
| "identity_error_text lib_text KeyPem = ''failed to read PEM from private key file''"
| "identity_error_text lib_text ChainRead = ''failed to read certificate chain file''"
| "identity_error_text lib_text ChainPem = ''failed to read PEM from certificate chain file''"
| "identity_error_text lib_text ChainInvalid = ''invalid PEM-encoded certificate''"
| "identity_error_text lib_text BadKey = lib_text BadKey"
| "identity_error_text lib_text CreateDir = ''failed to create certificate directory''"
| "identity_error_text lib_text WriteCert = ''failed to write certificate''"
| "identity_error_text lib_text WriteKey = ''failed to write private key''"
| "identity_error_text lib_text (CertRead e) = ''failed to read certificate: '' @ lib_text (CertRead e)"

fun setup_error_text :: "(identity_error \<Rightarrow> string) \<Rightarrow> (setup_error \<Rightarrow> string) \<Rightarrow> setup_error \<Rightarrow> string" where
  "setup_error_text id_text lib_text (IdentityError e) = identity_error_text id_text e"
| "setup_error_text id_text lib_text RootMissing = ''root path does not exist''"
| "setup_error_text id_text lib_text NoAddress = ''couldn't resolve to an address''"
| "setup_error_text id_text lib_text e = lib_text e"

fun client_error_text :: "string \<Rightarrow> client_error \<Rightarrow> string" where
  "client_error_text e ConnectFailed = ''failed to connect: '' @ e"
| "client_error_text e OpenFailed = ''failed to open stream: '' @ e"
| "client_error_text e SendFailed = ''failed to send request: '' @ e"
| "client_error_text e ReadFailed = ''failed to read response: '' @ e"

text \<open>\<open>main\<close>: the exit code and the line on the standard error. A panic of the main task ends the program with 101.\<close>

fun main_exit :: "('e \<Rightarrow> string) \<Rightarrow> ('e, 'a) outcome \<Rightarrow> nat \<times> string option" where
  "main_exit error_text (Ok _) = (0, None)"
| "main_exit error_text (Err e) = (1, Some (''ERROR: '' @ error_text e))"
| "main_exit error_text Panic = (101, None)"

definition goodput_server_main ::
    "(setup_error \<Rightarrow> string) \<Rightarrow> 'k quinn_lib \<Rightarrow> machine \<Rightarrow> bool \<Rightarrow> goodput_args \<Rightarrow>
     (incoming \<times> bool \<times> (instant \<times> instant \<times> request_io) accepted list) list \<Rightarrow> file_system \<Rightarrow> nat \<times> string option" where
  "goodput_server_main text lib mc root_exists o1 cs fs = main_exit text (fst (goodput_server lib mc root_exists o1 cs fs))"

definition quinn_rtc_server_main ::
    "(setup_error \<Rightarrow> string) \<Rightarrow> 'k quinn_lib \<Rightarrow> machine \<Rightarrow> rtc_args \<Rightarrow> (incoming \<times> serve_io) list \<Rightarrow> file_system \<Rightarrow> nat \<times> string option" where
  "quinn_rtc_server_main text lib mc o1 cs fs = main_exit text (fst (quinn_rtc_server lib mc o1 cs fs))"

text \<open>A client whose run is over ends when its connection is; \<open>None\<close>: it still waits.\<close>

definition goodput_client_main ::
    "(client_error program_error \<Rightarrow> string) \<Rightarrow> bool \<Rightarrow> bool \<Rightarrow> (client_error program_error, bytes \<times> client_stats) outcome \<Rightarrow>
     (nat \<times> string option) option" where
  "goodput_client_main text conn_closed endpoint_idle result =
     (case result of
       Ok _ \<Rightarrow> if client_ended conn_closed endpoint_idle then Some (main_exit text result) else None
     | _ \<Rightarrow> Some (main_exit text result))"

definition quinn_rtc_client_main ::
    "(quinn_client_result program_error \<Rightarrow> string) \<Rightarrow> bool \<Rightarrow> bool \<Rightarrow> (quinn_client_result program_error, (nat \<times> client_stats) option) outcome \<Rightarrow>
     (nat \<times> string option) option" where
  "quinn_rtc_client_main text conn_closed endpoint_idle result =
     (case result of
       Ok None \<Rightarrow> None
     | Ok (Some _) \<Rightarrow> if client_ended conn_closed endpoint_idle then Some (main_exit text result) else None
     | _ \<Rightarrow> Some (main_exit text result))"

section \<open>The endpoints agree\<close>

text \<open>
  What TLS asks of the two sides: the certificate of the server is one of the roots of the client and is for the name the client
  expects, and they have a protocol in common. \<open>names\<close> are the names in a certificate.
\<close>

definition tls_agree :: "(bytes \<Rightarrow> bytes list) \<Rightarrow> 'k server_config \<Rightarrow> client_config \<Rightarrow> bytes \<Rightarrow> bool" where
  "tls_agree names sc cc host \<longleftrightarrow>
     (\<exists>cert rest. sc_certs sc = cert # rest \<and> cert \<in> set (cc_roots cc) \<and> host \<in> set (names cert)) \<and>
     set (sc_alpn_protocols sc) \<inter> set (cc_alpn_protocols cc) \<noteq> {}"

text \<open>What the configuration of a server says, whatever its certificates.\<close>

lemma server_setup_config:
  assumes "server_setup lib mc o1 fs = (Ok cfg, fs')"
  shows "\<exists>certs key. server_identity (lib_tls lib) (mc_mkdir mc) (generate_simple_self_signed lib [localhost]) (mc_data_dir mc)
      (sa_key o1) (sa_cert o1) fs = (Ok (certs, key), fs') \<and> sc_certs cfg = certs \<and> sc_key cfg = key \<and> initial_suite lib \<and>
      with_single_cert lib certs key \<and> sc_alpn_protocols cfg = ALPN_QUIC_HTTP \<and>
      tc_max_concurrent_uni_streams (sc_transport cfg) = 0 \<and> \<not> tc_enable_segmentation_offload (sc_transport cfg)"
  using assms by (auto simp: server_setup_def server_config_of_def split: prod.splits outcome.splits sum.splits if_splits)

lemma remote_of_Ok:
  "remote_of lib u = Ok (h, a) \<longleftrightarrow> Option.bind (host_str u) strip_ipv6_brackets = Some h \<and>
     (\<exists>as. to_socket_addrs lib h (case url_port u of Some p \<Rightarrow> p | None \<Rightarrow> 4433) = Some (a # as))"
  by (auto simp: remote_of_def split: option.splits list.splits)

text \<open>What a client that finds a certificate in the data directory sets up.\<close>

lemma client_setup_Ok:
  assumes "mc_data_dir mc = Some dir" and "ca_ca o2 = None" and "fs_read fs (path_push dir cert_der) = Inr cert" and "initial_suite lib"
  shows "client_setup lib mc o2 fs = Ok ct \<longleftrightarrow> add_root lib cert \<and>
    (\<exists>h a. remote_of lib (ca_url o2) = Ok (h, ct_remote ct) \<and> ct_host ct = (case ca_host o2 of Some h' \<Rightarrow> h' | None \<Rightarrow> h) \<and>
      bind_endpoint lib (ca_bind o2) = Some a \<and>
      client_config_of lib (ca_keylog o2) [cert] = Inr (ep_config (ct_endpoint ct)) \<and> ep_local_addr (ct_endpoint ct) = a)"
proof -
  have "client_roots (add_root lib) (mc_data_dir mc) (ca_ca o2) fs = (if add_root lib cert then Ok [cert] else Err CaInvalid)"
    using assms(1-3) by (simp add: client_roots_def)
  moreover obtain cfg where "client_config_of lib (ca_keylog o2) [cert] = Inr cfg" using assms(4) by (simp add: client_config_of_def)
  ultimately show ?thesis
    by (auto simp: client_setup_def split: outcome.splits prod.splits option.splits)
qed

text \<open>
  C37. What a client started without \<open>--ca\<close> makes of a server that started before it, on the same machine and without files of its
  own. The server has one certificate, a new one for \<open>localhost\<close> if none was on the disk. The client sets up exactly when
  its URL has a host that resolves, the store takes that certificate and its local address can be bound. It then goes to the
  first address of that host, at the port of the URL or 4433, and expects the name of \<open>--host\<close>, or else that host without
  brackets; its only root is the certificate of the server and the protocols match, so that TLS agrees exactly when the certificate is
  for the expected name. On both sides segmentation offload is off, and the server lets the client open no unidirectional streams.
\<close>

theorem default_endpoints_agree:
  assumes "server_setup lib mc o1 fs = (Ok cfg, fs')" and "sa_key o1 = None" and "args_accepted o1" and "ca_ca o2 = None"
  shows "\<exists>dir cert. mc_data_dir mc = Some dir \<and> sc_certs cfg = [cert] \<and>
    (fs_read fs (path_push dir cert_der) = Inl NotFound \<longrightarrow> cert = fst (generate_simple_self_signed lib [localhost])) \<and>
    ((\<exists>ct. client_setup lib mc o2 fs' = Ok ct) \<longleftrightarrow>
       (\<exists>x. remote_of lib (ca_url o2) = Ok x) \<and> add_root lib cert \<and> (\<exists>a. bind_endpoint lib (ca_bind o2) = Some a)) \<and>
    (\<forall>ct. client_setup lib mc o2 fs' = Ok ct \<longrightarrow>
       (\<exists>h as. Option.bind (host_str (ca_url o2)) strip_ipv6_brackets = Some h \<and>
          to_socket_addrs lib h (case url_port (ca_url o2) of Some p \<Rightarrow> p | None \<Rightarrow> 4433) = Some (ct_remote ct # as) \<and>
          ct_host ct = (case ca_host o2 of Some h' \<Rightarrow> h' | None \<Rightarrow> h)) \<and>
       cc_roots (ep_config (ct_endpoint ct)) = [cert] \<and>
       (tls_agree names cfg (ep_config (ct_endpoint ct)) (ct_host ct) \<longleftrightarrow> ct_host ct \<in> set (names cert)) \<and>
       \<not> tc_enable_segmentation_offload (cc_transport (ep_config (ct_endpoint ct)))) \<and>
    tc_max_concurrent_uni_streams (sc_transport cfg) = 0 \<and> \<not> tc_enable_segmentation_offload (sc_transport cfg)"
proof -
  have none: "sa_cert o1 = None" using assms(2,3) by (simp add: args_accepted_def)
  with server_setup_config [OF assms(1)] assms(2) obtain certs key where
    sid: "server_identity (lib_tls lib) (mc_mkdir mc) (generate_simple_self_signed lib [localhost]) (mc_data_dir mc) None None fs
      = (Ok (certs, key), fs')"
    and cfg: "sc_certs cfg = certs" "initial_suite lib" "sc_alpn_protocols cfg = ALPN_QUIC_HTTP"
      "tc_max_concurrent_uni_streams (sc_transport cfg) = 0" "\<not> tc_enable_segmentation_offload (sc_transport cfg)" by auto
  then obtain dir where dir: "mc_data_dir mc = Some dir" by (cases "mc_data_dir mc") (simp_all add: server_identity_def)
  from cert_on_disk [OF sid [unfolded dir]] obtain cert where cert: "fs_read fs' (path_push dir cert_der) = Inr cert" "certs = [cert]"
    "fs_read fs (path_push dir cert_der) = Inl NotFound \<longrightarrow> cert = fst (generate_simple_self_signed lib [localhost])" by blast
  note ok = client_setup_Ok [OF dir assms(4) cert(1) cfg(2)]
  have starts: "(\<exists>ct. client_setup lib mc o2 fs' = Ok ct) \<longleftrightarrow>
      (\<exists>x. remote_of lib (ca_url o2) = Ok x) \<and> add_root lib cert \<and> (\<exists>a. bind_endpoint lib (ca_bind o2) = Some a)"
    using dir assms(4) cert(1) cfg(2)
    by (auto simp: client_setup_def client_roots_def client_config_of_def split: outcome.splits option.splits prod.splits)
  have "(\<exists>h as. Option.bind (host_str (ca_url o2)) strip_ipv6_brackets = Some h \<and>
          to_socket_addrs lib h (case url_port (ca_url o2) of Some p \<Rightarrow> p | None \<Rightarrow> 4433) = Some (ct_remote ct # as) \<and>
          ct_host ct = (case ca_host o2 of Some h' \<Rightarrow> h' | None \<Rightarrow> h))"
    if "client_setup lib mc o2 fs' = Ok ct" for ct
    using that unfolding ok remote_of_Ok by blast
  moreover have "cc_roots (ep_config (ct_endpoint ct)) = [cert] \<and>
      (tls_agree names cfg (ep_config (ct_endpoint ct)) (ct_host ct) \<longleftrightarrow> ct_host ct \<in> set (names cert)) \<and>
      \<not> tc_enable_segmentation_offload (cc_transport (ep_config (ct_endpoint ct)))"
    if "client_setup lib mc o2 fs' = Ok ct" for ct
  proof -
    from that ok have "client_config_of lib (ca_keylog o2) [cert] = Inr (ep_config (ct_endpoint ct))" by blast
    with cfg(1,3) cert(2) show ?thesis
      by (auto simp: client_config_of_def tls_agree_def ALPN_QUIC_HTTP_def split: if_splits dest!: sym [of _ "ep_config (ct_endpoint ct)"])
  qed
  ultimately show ?thesis using dir cert(2,3) cfg(1,4,5) starts by blast
qed

text \<open>A library whose certificates are their names, a machine with an empty disk, and a client of \<open>https://[::1]/\<close>.\<close>

definition plain_lib :: "bytes quinn_lib" where
  "plain_lib = \<lparr>lib_tls = plain_tls, with_single_cert = (\<lambda>_ _. True), initial_suite = True, add_root = (\<lambda>_. True),
     generate_simple_self_signed = (\<lambda>ns. (concat ns, [2])),
     default_transport = \<lparr>tc_max_concurrent_uni_streams = 100, tc_enable_segmentation_offload = True\<rparr>,
     bind_endpoint = Some, local_addr_known = (\<lambda>_. True), to_socket_addrs = (\<lambda>h p. Some [V6 1 p 0 0])\<rparr>"

definition plain_machine :: machine where
  "plain_machine = \<lparr>mc_data_dir = Some [slash], mc_mkdir = True\<rparr>"

definition plain_server :: server_args where
  "plain_server = \<lparr>sa_keylog = False, sa_key = None, sa_cert = None, sa_listen = default_listen,
     sa_opt = \<lparr>opt_stateless_retry = False, opt_block = None, opt_connection_limit = None\<rparr>\<rparr>"

definition loopback_client :: client_args where
  "loopback_client = \<lparr>ca_keylog = False, ca_url = \<lparr>host_str = Some (ascii_bytes ''[::1]''), url_port = None, url_path = [slash]\<rparr>,
     ca_host = Some localhost, ca_ca = None, ca_rebind = False, ca_bind = default_bind\<rparr>"

lemma plain_server_starts:
  "\<exists>cfg fs'. server_setup plain_lib plain_machine plain_server empty_disk = (Ok cfg, fs')"
  by (simp add: server_setup_def server_identity_def default_identity_def read_both_def fs_read_def fs_write_def empty_disk_def
      plain_tls_def plain_lib_def plain_machine_def plain_server_def server_config_of_def Let_def)

lemma loopback_host: "strip_ipv6_brackets (ascii_bytes ''[::1]'') = Some (ascii_bytes ''::1'')"
  by (simp add: strip_ipv6_brackets_def ascii_bytes_def rust_assert_def)

theorem default_endpoints_agree_witness:
  "\<exists>cfg fs' ct. server_setup plain_lib plain_machine plain_server empty_disk = (Ok cfg, fs') \<and>
    client_setup plain_lib plain_machine loopback_client fs' = Ok ct \<and> ct_remote ct = sa_listen plain_server \<and>
    ct_host ct = localhost \<and> tls_agree (\<lambda>c. [c]) cfg (ep_config (ct_endpoint ct)) localhost"
proof -
  obtain cfg fs' where s: "server_setup plain_lib plain_machine plain_server empty_disk = (Ok cfg, fs')" using plain_server_starts by blast
  have r: "\<exists>x. remote_of plain_lib (ca_url loopback_client) = Ok x" "add_root plain_lib cert"
    "bind_endpoint plain_lib a = Some a" for cert a
    by (simp_all add: remote_of_Ok plain_lib_def loopback_client_def loopback_host)
  have n: "fs_read empty_disk p = Inl NotFound" for p by (simp add: fs_read_def empty_disk_def)
  have a: "sa_key plain_server = None" "args_accepted plain_server" "ca_ca loopback_client = None"
    by (simp_all add: plain_server_def args_accepted_def loopback_client_def)
  from default_endpoints_agree [OF s a, of "\<lambda>c. [c]"] r obtain ct where ct: "client_setup plain_lib plain_machine loopback_client fs' = Ok ct"
    "ct_remote ct = V6 1 4433 0 0" "ct_host ct = localhost"
    "tls_agree (\<lambda>c. [c]) cfg (ep_config (ct_endpoint ct)) (ct_host ct) \<longleftrightarrow>
      ct_host ct \<in> {fst (generate_simple_self_signed plain_lib [localhost])}"
    by (auto simp: n loopback_client_def plain_lib_def)
  with s show ?thesis by (auto simp: plain_server_def default_listen_def plain_lib_def)
qed

text \<open>The certificate of the server is for \<open>localhost\<close> only: without \<open>--host\<close>, a client of \<open>https://[::1]/\<close> expects another name.\<close>

lemma loopback_needs_host:
  assumes "client_setup lib mc (loopback_client\<lparr>ca_host := None\<rparr>) fs = Ok ct"
  shows "ct_host ct = ascii_bytes ''::1'' \<and> ct_host ct \<noteq> localhost"
proof -
  have "ct_host ct = ascii_bytes ''::1''"
    using assms by (auto simp: client_setup_def loopback_client_def remote_of_def loopback_host
        split: outcome.splits prod.splits sum.splits option.splits list.splits)
  then show ?thesis by (simp add: localhost_def ascii_bytes_def)
qed

text \<open>The helpers of the library: a client endpoint made with the certificate of the server trusts it.\<close>

lemma helper_endpoints_trust:
  assumes "make_server_endpoint lib a = Inr (ep, cert)" and "add_root lib cert" and "bind_endpoint lib b = Some b'"
  shows "\<exists>ce. make_client_endpoint lib b [cert] = Inr ce \<and> sc_certs (ep_config ep) = [cert] \<and> cc_roots (ep_config ce) = [cert] \<and>
    sc_alpn_protocols (ep_config ep) = cc_alpn_protocols (ep_config ce)"
  using assms by (auto simp: make_server_endpoint_def configure_server_def make_client_endpoint_def configure_client_def Let_def
      split: sum.splits prod.splits if_splits option.splits)

lemma add_certs_all: "add_certs add acc cs = (if list_all add cs then Some (acc @ cs) else None)"
  by (induction cs arbitrary: acc) simp_all

text \<open>The exit code is 0 exactly for a run without error.\<close>

lemma main_exit_zero: "fst (main_exit f r) = 0 \<longleftrightarrow> (\<exists>x. r = Ok x)"
  by (cases r) simp_all

lemma client_main_exits:
  assumes "goodput_client_main text conn_closed idle r = Some (code, line)"
  shows "(code = 0 \<longleftrightarrow> (\<exists>x. r = Ok x) \<and> (conn_closed \<or> idle)) \<and> (line = None \<longleftrightarrow> (\<nexists>e. r = Err e))"
  using assms by (cases r) (auto simp: goodput_client_main_def client_ended_def split: if_splits)

text \<open>A server that starts listens where it was told, and fails before that only by the errors of the set-up.\<close>

lemma goodput_server_starts:
  assumes "goodput_server lib mc root_exists o1 cs fs = (Ok (ep, rs), fs')"
  shows "root_exists \<and> bind_endpoint lib (sa_listen o1) = Some (ep_local_addr ep) \<and>
    server_setup lib mc o1 fs = (Ok (ep_config ep), fs') \<and> goodput_run (disk_read fs') True (ga_root o1) (sa_opt o1) cs = Ok rs"
  using assms by (auto simp: goodput_server_def server_endpoint_def split: prod.splits outcome.splits sum.splits option.splits if_splits)

lemma quinn_rtc_server_starts:
  assumes "quinn_rtc_server lib mc o1 cs fs = (Ok (ep, rs), fs')"
  shows "bind_endpoint lib (sa_listen o1) = Some (ep_local_addr ep) \<and> server_setup lib mc o1 fs = (Ok (ep_config ep), fs') \<and>
    quinn_rtc_run (ra_frame_size o1) (sa_opt o1) cs = Some rs"
  using assms by (auto simp: quinn_rtc_server_def server_endpoint_def split: prod.splits outcome.splits sum.splits option.splits if_splits)

end
