(* ===== verification/Spec2Isabelle.thy ===== *)
theory Spec2Isabelle
  imports Copa_Delay Crashes Delivery Cycles Test_Suite Pemi_Main Rtc_Setup Quinn_Setup
begin

text \<open>
  A verification of PEMI, a transparent performance-enhancing middlebox for QUIC (Rust, under
  \<open>src/pemi\<close>). PEMI sits between clients and servers, forwards every UDP datagram with its original
  addresses, and looks at the outside of QUIC packets only: it groups the packets of a server into
  flowlets, attributes the packets of the client to them as replies, infers which packets were lost, and
  sends those again. It also measures the two RTTs, runs the Copa rate estimate, and holds back ACKs of a
  client whose server sends too fast.

  \<^bold>\<open>Parts and theories.\<close> Every method of the source is one definition of the same name; a prefix tells apart
  the methods of different types (\<open>queue_\<close>, \<open>conn_\<close>, \<open>pemi_\<close>, \<open>mut_\<close>), and a loop or a long block inside a
  method has a definition of its own.

  \<^item> \<open>Prelude\<close>, \<open>Rust_Float\<close>, \<open>Rust_Time\<close>: what the program uses of Rust. Panics and errors as values,
    \<open>f64\<close> with rounding to nearest even and its infinities, \<open>Duration\<close> as nanoseconds with its overflow,
    \<open>Instant\<close> as an integer with \<open>duration_since\<close> saturating at zero.
  \<^item> \<open>Octets\<close>, \<open>Octets_Mut\<close>: \<open>pemi/deps/octets/src/lib.rs\<close>, the byte cursors. Locales \<open>cursor\<close>,
    \<open>reader_contract\<close> and \<open>consuming_reader\<close> are the contract of a method; round trips of integers and
    varints; borrowed parts of a mutable buffer and their independence.
  \<^item> \<open>Quic_Parse\<close>: \<open>quic_parse.rs\<close> and \<open>common.rs\<close>, the header parser, on top of the cursor contract.
  \<^item> \<open>Minmax\<close>, \<open>Copa\<close>, \<open>Copa_Delay\<close>: \<open>minmax.rs\<close> and \<open>cc.rs\<close>, the windowed filters and Copa.
  \<^item> \<open>Flowlet\<close>, \<open>Reply_Matching\<close>, \<open>Loss_Inference\<close>: the flowlets of \<open>queue.rs\<close>; the dynamic program that
    matches replies with packets is optimal; what the loss inference returns is characterised exactly, and where that differs
    from the comment of its function.
  \<^item> \<open>Packet_Queue\<close>, \<open>Queue_Invariant\<close>, \<open>Queue_Contract\<close>: \<open>PacketQueue\<close> of \<open>queue.rs\<close>; its invariant, the
    locale \<open>queue_op\<close> interpreted for each operation, and histories as the inductive \<open>queue_run\<close>. \<open>Float_Error\<close> bounds the
    rounding of durations, with which \<open>Flowlet_Split\<close> shows where a flowlet ends.
  \<^item> \<open>Pemi_Io\<close>, \<open>Retrans\<close>, \<open>Rtt_Det\<close>: \<open>pemi_io.rs\<close>, \<open>retrans.rs\<close> and \<open>rtt_det.rs\<close>; addresses, tasks, ICMP. \<open>Icmp\<close>: the
    socket and the bytes of the ICMP messages, which refine \<open>Rtt_Det\<close>.
  \<^item> \<open>Conn\<close>, \<open>Conn_Contract\<close>, \<open>Conn_Frame\<close>, \<open>Payloads\<close>: \<open>conn.rs\<close>, one connection; its invariant (locale
    \<open>conn_op\<close>, histories \<open>conn_run\<close>), what its operations leave alone, and where its bytes go.
  \<^item> \<open>Pemi\<close>: \<open>lib.rs\<close>, the middlebox. \<open>Idle_Conns\<close>, \<open>Forwarding\<close>, \<open>Retransmission\<close> and \<open>Timeouts\<close> prove its
    handlers correct; locale \<open>access_heap\<close> is the binary heap it relies on. \<open>Delivery\<close> discharges the premise of
    \<open>Forwarding\<close> on established connections. \<open>Cycles\<close>: the counters of the feature \<open>cycles\<close>.
  \<^item> \<open>Main_Loop\<close>: \<open>bin/main.rs\<close>, one iteration of the event loop and its runs \<open>main_run\<close>. \<open>Integrity\<close> and
    \<open>Crashes\<close> hold the theorems about whole runs. \<open>Pemi_Main\<close>: the program from its command line. \<open>Text_Output\<close>: what it prints.
  \<^item> \<open>Unit_Tests\<close>, \<open>Octets_Tests\<close>, \<open>Minmax_Tests\<close>, \<open>Quic_Tests\<close>, \<open>Middlebox_Tests\<close>, \<open>Test_Suite\<close>: the unit tests of the repository,
    each a definition that runs the model.
  \<^item> \<open>Rust_Str\<close>, \<open>Unix_Path\<close>, \<open>App_Stats\<close>: what the applications under \<open>src/apps\<close> share. Strings as UTF-8 bytes with trimming
    and numbers, paths and their components, the counters and clocks of \<open>apps/rtc/src/lib.rs\<close>.
  \<^item> \<open>Rtc\<close>, \<open>Rtc_Server\<close>, \<open>Rtc_Accept\<close>, \<open>Rtc_Loop\<close>, \<open>Rtc_Client\<close>: \<open>apps/rtc\<close>, the media server and client the middlebox is
    measured with, over the library \<open>quiche\<close> as a parameter: frames, requests, retry tokens, the admission of clients and
    the rounds of the two event loops, with runs \<open>rtc_run\<close> and \<open>client_run\<close>. In \<open>Rtc_Server\<close> the library is run with a record of
    the writes (\<open>recording\<close>), which the server does not see (\<open>recorded_run_complete\<close>). Locale \<open>media_invariant\<close> says what a client
    must keep for a run of the server to keep it. \<open>Rtc_Setup\<close>: their command lines and configurations.
  \<^item> \<open>Quinn_Goodput\<close>, \<open>Quinn_Rtc\<close>, \<open>Quinn_Identity\<close>: \<open>apps/quinn-apps\<close>, a file server, a media server and their clients on the
    asynchronous library \<open>quinn\<close>. What an awaited call returns is an argument, a list for a call in a loop, whose end
    means that the call still waits. \<open>Quinn_Identity\<close> holds the certificates, \<open>Quinn_Setup\<close> the options, the endpoints, \<open>main\<close> and
    the helpers of \<open>apps/quinn-apps/src/lib.rs\<close>.

  \<^bold>\<open>How they interact.\<close> \<open>main_iter\<close> asks \<open>pemi_timeout\<close>, then handles a timeout, an ICMP reply or a datagram.
  \<open>process_packet\<close> finds or makes the connection (\<open>quic_conn_process\<close>), which parses with \<open>Quic_Parse\<close>,
  forwards the datagram or hands it to the connection's ACK queue, feeds the connection's packet queue, and
  collects the losses of that queue as a task, which \<open>run_tasks\<close> sends under the rate limit.

  \<^bold>\<open>State.\<close> Each struct is a \<open>record\<close>. A \<open>HashMap\<close> that is iterated is an association list in some order; the
  binary heap is a list whose earliest entry is the top. The datagrams sent are the field \<open>wire\<close>, the ICMP
  requests the field \<open>pings\<close>. The clock is an argument of whatever reads it, so that each theorem holds
  for every behaviour of the clock that its hypotheses allow. A result \<open>None\<close> or \<open>Panic\<close> is a
  panic of the program, \<open>Err\<close> an error it returns.

  \<^bold>\<open>What is shown.\<close> Whole runs: every datagram on the wire was received before (\<open>wire_was_received\<close>), the
  invariant of all components holds (\<open>main_run_ok\<close>), both from the command line on (\<open>main_program_sound\<close>). The middlebox: it refines a transparent forwarder
  (\<open>process_packet_forwards\<close>), removes idle connections exactly (\<open>remove_idle_conns_exact\<close>), limits the rate
  of retransmissions (\<open>retrans_rate_limited\<close>), never sleeps past a deadline (\<open>pemi_timeout_earliest\<close>). A
  connection: held-back ACKs are conserved, the invariant holds in every history. A queue: nothing is
  retransmitted twice, completing a flowlet moves exactly its losses, replies go to the nearest flowlet,
  a gap begins a new one despite the rounding of its limit (\<open>flowlet_split_by_gap\<close>).
  The algorithms: optimal matching, exact loss inference, the minimum of a suffix of the history that begins within the window
  (\<open>running_min_windowed\<close>), parser round trips. On established
  connections packets of the server are delivered once round trips are measured and the queue has room
  (\<open>packet_delivered\<close>), and those of the client up to a panic of Copa (\<open>client_packet_panics_iff\<close>). The media server: every byte of every frame is accounted
  for, failed writes and answers 404 included (\<open>media_frames_conserved\<close>), clients are admitted only with a valid token, its
  invariant holds in every run and its poll timeout is the earliest deadline of its clients (\<open>rtc_run_sound\<close>). The
  applications over \<open>quinn\<close>: nothing outside its directory reaches the file server
  (\<open>goodput_serves_below_dir\<close>), clients get what they ask for (\<open>goodput_end_to_end\<close>, \<open>quinn_rtc_end_to_end\<close>), an identity is made
  once (\<open>identity_persists\<close>), and it is shown exactly when ends started without certificates agree (\<open>default_endpoints_agree\<close>).
  The model passes the tests of the repository when the two readings of the clock a test takes are at most a second apart
  (\<open>test_suite_passes\<close>), which checks the definitions against the intention of the authors.

  \<^bold>\<open>Bounds.\<close> Hypotheses named \<open>sane_...\<close> say that a reading of the clock is below \<open>2 ^ 32\<close> seconds, a
  duration below the same bound and a factor of the command line between 0 and 1024; within them no
  \<open>Duration\<close> and no conversion to or from \<open>f64\<close> overflows. No fuel is used: every loop is a function with
  a termination proof, except six partial functions: \<open>drain_all\<close>, proved to return for every source that
  satisfies \<open>fifo_source\<close>, \<open>scale_bytes\<close>, proved to return for every size (\<open>print_bytes_total\<close>), and the loops of the
  applications that end when the QUIC library has nothing more (\<open>read_stream\<close>, \<open>flush_conn\<close>, \<open>client_stream\<close>,
  \<open>client_flush\<close>), where \<open>None\<close> is also a library that always has. Counters that the source keeps in 64 bits are natural numbers; the 16-bit ICMP
  sequence number, whose overflow matters, is a word.

  \<^bold>\<open>What can go wrong.\<close> The theorems on panics are exact: which bytes make the parser panic
  (\<open>from_slice_panics_iff\<close>), RTT samples that make Copa panic (\<open>on_ack_send_underflow\<close>), when a datagram the parser
  rejects ends the program (\<open>truncated_packet_exits\<close>), the overflow of a queue, an unsolicited ICMP reply, a print interval of 0.

  \<^bold>\<open>Not modelled.\<close> The inside of system calls and libraries: what a socket, \<open>clap\<close>, \<open>pnet\<close>, \<open>quiche\<close>, \<open>quinn\<close>, \<open>rustls\<close>, \<open>rcgen\<close>,
  the resolver, the URL parser and the parser of decimal fractions return is an argument, or a parameter with its documented
  laws. The sends of the middlebox succeed. Log statements are modelled where they look into packets (\<open>Text_Output\<close>), but not called
  from the handlers, whose theorems hold for disabled logging; the \<open>Debug\<close> of a raw packet prints an \<open>Instant\<close>,
  whose text is unspecified. \<open>apps/quinn-apps/src/bin/common/mod.rs\<close> is a copy of \<open>apps/rtc/src/lib.rs\<close> and is modelled
  as that. The Go applications, \<open>src/mininet\<close> and \<open>src/tools\<close> are other programs.
\<close>

end
